(* ===== verification/Prelude.thy ===== *)
theory Prelude
  imports Main "HOL-Library.Word" "HOL-Library.Sublist"
begin

text \<open>
  Shared vocabulary of the development.

  Rust's \<open>Result<T, String>\<close> is the sum \<open>string + 'a\<close> with \<open>Err\<close> and \<open>Ok\<close> for its injections.
  A Rust \<open>String\<close> is the list of its UTF-8 bytes, so \<open>length\<close> is \<open>len()\<close>;
  \<open>char_count\<close>, \<open>take_chars\<close> and \<open>is_blank\<close> are \<open>chars().count()\<close>,
  \<open>chars().take(n)\<close> and \<open>trim().is_empty()\<close> on those bytes.
  A database table is the list of its rows in insertion (rowid) order; \<open>upd_where\<close>,
  \<open>lookup_by\<close>, \<open>insert_row\<close>, \<open>order_asc\<close> and \<open>order_desc\<close> are the SQL statements the services issue.
  Rows with equal sort keys keep their rowid order.
  The locales at the end are the interfaces several components share.
\<close>

named_theorems table_simps \<open>rewriting rules for statements over tables\<close>
named_theorems row_defs \<open>definitions of row-level operations\<close>

subsection \<open>Results, clocks and integers\<close>

type_synonym 'a result = "string + 'a"
type_synonym clock = "nat \<Rightarrow> int"
type_synonym u8 = "8 word"
type_synonym u16 = "16 word"
type_synonym u32 = "32 word"
type_synonym u64 = "64 word"

abbreviation Err :: "string \<Rightarrow> 'a result" where "Err e \<equiv> Inl e"
abbreviation Ok :: "'a \<Rightarrow> 'a result" where "Ok x \<equiv> Inr x"

fun is_ok :: "'a result \<Rightarrow> bool" where
  "is_ok (Inl e) = False"
| "is_ok (Inr x) = True"

lemma is_ok_iff: "is_ok r \<longleftrightarrow> (\<exists>x. r = Inr x)"
  by (cases r) auto

text \<open>
  A sequence of pure checks with \<open>?\<close> after each: the first error, or \<open>Ok(())\<close>.
\<close>

fun first_err :: "unit result list \<Rightarrow> unit result" where
  "first_err [] = Ok ()"
| "first_err (r # rs) = (case r of Inl e \<Rightarrow> Inl e | Inr _ \<Rightarrow> first_err rs)"

definition refuse_if :: "bool \<Rightarrow> string \<Rightarrow> unit result" where
  "refuse_if b e = (if b then Err e else Ok ())"

declare first_err.simps(2) [simp del]

lemma refuse_if_simps [simp]:
  "refuse_if True e = Err e" "refuse_if False e = Ok ()"
  "refuse_if b e = Inr u \<longleftrightarrow> \<not> b" "refuse_if b e = Inl e' \<longleftrightarrow> b \<and> e' = e"
  by (auto simp: refuse_if_def)

lemma first_err_simps [simp]:
  "first_err (Inl e # rs) = Inl e" "first_err (Inr u # rs) = first_err rs"
  "first_err (r # rs) = Inr u \<longleftrightarrow> r = Inr () \<and> first_err rs = Inr ()"
  by (cases r; simp add: first_err.simps(2))+

lemma first_err_Ok: "first_err rs = Inr u \<longleftrightarrow> (\<forall>r \<in> set rs. r = Inr ())"
  by (induction rs) auto

lemma first_err_append: "first_err (rs @ ss) = (case first_err rs of Inl e \<Rightarrow> Inl e | Inr _ \<Rightarrow> first_err ss)"
  by (induction rs) (auto simp: first_err.simps(2) split: sum.splits)

lemma first_err_ErrD: "first_err rs = Inl e \<Longrightarrow> Inl e \<in> set rs"
  by (induction rs) (auto simp: first_err.simps(2) split: sum.splits)

definition coalesce :: "'a option \<Rightarrow> 'a \<Rightarrow> 'a" where
  "coalesce x d = (case x of None \<Rightarrow> d | Some v \<Rightarrow> v)"

lemma coalesce_simps [simp]: "coalesce None d = d" "coalesce (Some v) d = v"
  by (simp_all add: coalesce_def)

definition coalesce_opt :: "'a option \<Rightarrow> 'a option \<Rightarrow> 'a option" where
  "coalesce_opt x y = (case x of None \<Rightarrow> y | Some v \<Rightarrow> Some v)"

lemma coalesce_opt_simps [simp]: "coalesce_opt None y = y" "coalesce_opt (Some v) y = Some v"
  by (simp_all add: coalesce_opt_def)

lemma coalesce_opt_Some_right [simp]: "coalesce_opt x (Some v) \<noteq> None"
  by (cases x) simp_all

subsection \<open>Decimal printing\<close>

fun show_nat :: "nat \<Rightarrow> string" where
  "show_nat n = (if n < 10 then [char_of (48 + n)] else show_nat (n div 10) @ [char_of (48 + n mod 10)])"

declare show_nat.simps [simp del]

definition show_int :: "int \<Rightarrow> string" where
  "show_int i = (if i < 0 then CHR ''-'' # show_nat (nat (- i)) else show_nat (nat i))"

definition digits_val :: "string \<Rightarrow> nat" where
  "digits_val s = foldl (\<lambda>a c. 10 * a + (of_char c - 48)) 0 s"

lemma digits_val_snoc: "digits_val (s @ [c]) = 10 * digits_val s + (of_char c - 48)"
  by (simp add: digits_val_def)

lemma digits_val_show_nat: "digits_val (show_nat n) = n"
proof (induction n rule: show_nat.induct)
  case (1 n)
  show ?case
  proof (cases "n < 10")
    case True
    then show ?thesis by (simp add: show_nat.simps [of n] digits_val_def)
  next
    case False
    with 1 have "digits_val (show_nat (n div 10)) = n div 10" by simp
    moreover have "48 + n mod 10 < (256::nat)" by (rule order_less_trans [of _ 58]) simp_all
    ultimately show ?thesis using False by (simp add: show_nat.simps [of n] digits_val_snoc)
  qed
qed

lemma show_nat_inj: "show_nat m = show_nat n \<longleftrightarrow> m = n"
  by (metis digits_val_show_nat)

subsection \<open>Positions\<close>

text \<open>\<open>Iterator::position\<close>.\<close>

fun position_of :: "('a \<Rightarrow> bool) \<Rightarrow> 'a list \<Rightarrow> nat option" where
  "position_of P [] = None"
| "position_of P (x # xs) = (if P x then Some 0 else map_option Suc (position_of P xs))"

lemma position_of_nth:
  assumes "distinct (map f xs)" and "k < length xs"
  shows "position_of (\<lambda>r. f r = f (xs ! k)) xs = Some k"
  using assms
proof (induction xs arbitrary: k)
  case (Cons x xs)
  show ?case
  proof (cases k)
    case (Suc j)
    with Cons.prems have "f x \<noteq> f (xs ! j)" by (auto simp: image_iff)
    with Suc Cons show ?thesis by auto
  qed simp
qed simp

lemma position_of_Some: "position_of P xs = Some k \<Longrightarrow> k < length xs \<and> P (xs ! k)"
  by (induction xs arbitrary: k) (auto split: if_splits)

subsection \<open>UTF-8 text\<close>

definition is_lead :: "char \<Rightarrow> bool" where
  "is_lead c \<longleftrightarrow> (of_char c :: nat) < 128 \<or> 192 \<le> (of_char c :: nat)"

definition char_count :: "string \<Rightarrow> nat" where
  "char_count s = length (filter is_lead s)"

fun take_chars :: "nat \<Rightarrow> string \<Rightarrow> string" where
  "take_chars n [] = []"
| "take_chars n (c # s) =
     (if is_lead c then (case n of 0 \<Rightarrow> [] | Suc m \<Rightarrow> c # take_chars m s) else c # take_chars n s)"

lemma take_chars_prefix: "prefix (take_chars n s) s"
  by (induction n s rule: take_chars.induct) (auto split: nat.splits)

lemma take_chars_count: "char_count (take_chars n s) = min n (char_count s)"
  by (induction n s rule: take_chars.induct) (auto simp: char_count_def split: nat.splits)

lemma take_chars_all: "char_count s \<le> n \<Longrightarrow> take_chars n s = s"
  by (induction n s rule: take_chars.induct) (auto simp: char_count_def split: nat.splits)

text \<open>
  The bytes of the leading white-space character, 0 when there is none: the code points with the
  Unicode property White\_Space, which \<open>char::is_whitespace\<close> tests.
\<close>

fun ws_len :: "string \<Rightarrow> nat" where
  "ws_len [] = 0"
| "ws_len (a # s) =
     (if a \<in> {CHR 0x09, CHR 0x0A, CHR 0x0B, CHR 0x0C, CHR 0x0D, CHR 0x20} then 1
      else case s of
        [] \<Rightarrow> 0
      | b # t \<Rightarrow>
          (if a = CHR 0xC2 \<and> b \<in> {CHR 0x85, CHR 0xA0} then 2
           else case t of
             [] \<Rightarrow> 0
           | c # u \<Rightarrow>
               (if a = CHR 0xE1 \<and> b = CHR 0x9A \<and> c = CHR 0x80
                 \<or> a = CHR 0xE2 \<and> b = CHR 0x80 \<and> (0x80 \<le> (of_char c :: nat) \<and> (of_char c :: nat) \<le> 0x8A)
                 \<or> a = CHR 0xE2 \<and> b = CHR 0x80 \<and> c \<in> {CHR 0xA8, CHR 0xA9, CHR 0xAF}
                 \<or> a = CHR 0xE2 \<and> b = CHR 0x81 \<and> c = CHR 0x9F
                 \<or> a = CHR 0xE3 \<and> b = CHR 0x80 \<and> c = CHR 0x80
                then 3 else 0)))"

function trim_start :: "string \<Rightarrow> string" where
  "trim_start s = (if ws_len s = 0 then s else trim_start (drop (ws_len s) s))"
  by pat_completeness auto
termination
proof (relation "measure length")
  fix s :: string
  assume "ws_len s \<noteq> 0"
  then show "(drop (ws_len s) s, s) \<in> measure length" by (cases s) auto
qed simp

declare trim_start.simps [simp del]

definition is_blank :: "string \<Rightarrow> bool" where
  "is_blank s \<longleftrightarrow> trim_start s = []"

lemma is_blank_Nil [simp]: "is_blank []"
  by (simp add: is_blank_def trim_start.simps)

lemma is_blank_Cons:
  "is_blank (c # s) = (if ws_len (c # s) = 0 then False else is_blank (drop (ws_len (c # s)) (c # s)))"
  by (simp only: is_blank_def trim_start.simps [of "c # s"]) auto

lemma of_char_256: "(of_char c :: nat) < 256"
  by (metis of_char_of nat_of_char_less_256)

text \<open>Evaluation of text tests on literals.\<close>

lemmas text_eval = is_blank_Cons char_count_def is_lead_def

fun join_with :: "string \<Rightarrow> string list \<Rightarrow> string" where
  "join_with sep [] = []"
| "join_with sep [x] = x"
| "join_with sep (x # y # xs) = x @ sep @ join_with sep (y # xs)"

subsection \<open>Tables\<close>

definition upd_where :: "('r \<Rightarrow> bool) \<Rightarrow> ('r \<Rightarrow> 'r) \<Rightarrow> 'r list \<Rightarrow> 'r list" where
  "upd_where P f xs = map (\<lambda>r. if P r then f r else r) xs"

definition lookup_by :: "('r \<Rightarrow> 'k) \<Rightarrow> 'k \<Rightarrow> 'r list \<Rightarrow> 'r option" where
  "lookup_by k i xs = find (\<lambda>r. k r = i) xs"

definition insert_row :: "('r \<Rightarrow> 'k) \<Rightarrow> 'r \<Rightarrow> 'r list \<Rightarrow> 'r list option" where
  "insert_row k r xs = (if k r \<in> set (map k xs) then None else Some (xs @ [r]))"

definition order_asc :: "('r \<Rightarrow> int) \<Rightarrow> 'r list \<Rightarrow> 'r list" where
  "order_asc k xs = sort_key k xs"

definition order_desc :: "('r \<Rightarrow> int) \<Rightarrow> 'r list \<Rightarrow> 'r list" where
  "order_desc k xs = sort_key (\<lambda>r. - k r) xs"

definition head_opt :: "'a list \<Rightarrow> 'a option" where
  "head_opt xs = (case xs of [] \<Rightarrow> None | x # _ \<Rightarrow> Some x)"

definition count_where :: "('r \<Rightarrow> bool) \<Rightarrow> 'r list \<Rightarrow> int" where
  "count_where P xs = int (length (filter P xs))"

lemma upd_where_simps [simp]:
  "upd_where P f [] = []"
  "upd_where P f (x # xs) = (if P x then f x else x) # upd_where P f xs"
  by (simp_all add: upd_where_def)

lemma length_upd_where [simp]: "length (upd_where P f xs) = length xs"
  by (simp add: upd_where_def)

lemma set_upd_where: "set (upd_where P f xs) = (\<lambda>r. if P r then f r else r) ` set xs"
  by (simp add: upd_where_def)

lemma map_key_upd_where [table_simps]:
  "(\<And>r. k (f r) = k r) \<Longrightarrow> map k (upd_where P f xs) = map k xs"
  by (simp add: upd_where_def)

lemma upd_where_none: "(\<And>r. r \<in> set xs \<Longrightarrow> \<not> P r) \<Longrightarrow> upd_where P f xs = xs"
  by (induction xs) auto

lemma upd_where_append [table_simps]: "upd_where P f (xs @ ys) = upd_where P f xs @ upd_where P f ys"
  by (simp add: upd_where_def)

lemma lookup_by_simps [simp]:
  "lookup_by k i [] = None"
  "lookup_by k i (x # xs) = (if k x = i then Some x else lookup_by k i xs)"
  by (simp_all add: lookup_by_def)

lemma lookup_by_SomeD: "lookup_by k i xs = Some r \<Longrightarrow> r \<in> set xs \<and> k r = i"
  by (induction xs) (auto split: if_splits)

lemma lookup_by_key: "lookup_by k i xs = Some r \<Longrightarrow> i \<in> k ` set xs"
  by (induction xs) (auto split: if_splits)

lemma lookup_by_None: "lookup_by k i xs = None \<longleftrightarrow> i \<notin> k ` set xs"
  by (induction xs) auto

lemma lookup_by_append:
  "lookup_by k i (xs @ ys) = (case lookup_by k i xs of None \<Rightarrow> lookup_by k i ys | Some r \<Rightarrow> Some r)"
  by (induction xs) auto

lemma lookup_by_upd_where [table_simps]:
  "(\<And>r. k (f r) = k r) \<Longrightarrow>
    lookup_by k i (upd_where P f xs) = map_option (\<lambda>r. if P r then f r else r) (lookup_by k i xs)"
  by (induction xs) auto

lemma lookup_by_distinct:
  "distinct (map k xs) \<Longrightarrow> r \<in> set xs \<Longrightarrow> lookup_by k (k r) xs = Some r"
  by (induction xs) (auto simp: image_iff)

lemma insert_row_Some: "insert_row k r xs = Some ys \<longleftrightarrow> k r \<notin> k ` set xs \<and> ys = xs @ [r]"
  by (auto simp: insert_row_def)

lemma head_opt_simps [simp]: "head_opt [] = None" "head_opt (x # xs) = Some x"
  by (simp_all add: head_opt_def)

lemma head_opt_None [simp]: "head_opt xs = None \<longleftrightarrow> xs = []"
  by (cases xs) auto

lemma head_opt_SomeD: "head_opt xs = Some x \<Longrightarrow> x \<in> set xs"
  by (cases xs) auto

lemma set_order_desc [simp]: "set (order_desc k xs) = set xs"
  by (simp add: order_desc_def)

lemma set_order_asc [simp]: "set (order_asc k xs) = set xs"
  by (simp add: order_asc_def)

lemma order_Nil [simp]: "order_desc k [] = []" "order_asc k [] = []"
  by (simp_all add: order_desc_def order_asc_def)

lemma order_Nil_iff [simp]: "order_desc k xs = [] \<longleftrightarrow> xs = []" "order_asc k xs = [] \<longleftrightarrow> xs = []"
  by (metis set_empty set_order_desc, metis set_empty set_order_asc)

lemma order_desc_sorted: "sorted_wrt (\<lambda>a b. k b \<le> k a) (order_desc k xs)"
proof -
  have "sorted (map (\<lambda>r. - k r) (order_desc k xs))" by (simp add: order_desc_def)
  then show ?thesis by (simp add: sorted_map)
qed

lemma head_order_desc_max:
  assumes "head_opt (order_desc k xs) = Some x" and "y \<in> set xs"
  shows "k y \<le> k x"
proof -
  obtain zs where z: "order_desc k xs = x # zs" using assms(1) by (cases "order_desc k xs") auto
  have "y \<in> set (x # zs)" using assms(2) z set_order_desc [of k xs] by metis
  with order_desc_sorted [of k xs] show ?thesis by (auto simp: z)
qed

lemma count_where_nonneg [simp]: "0 \<le> count_where P xs"
  by (simp add: count_where_def)

lemma count_where_append [table_simps]: "count_where P (xs @ ys) = count_where P xs + count_where P ys"
  by (simp add: count_where_def)

lemma count_where_simps [simp]:
  "count_where P [] = 0"
  "count_where P (x # xs) = (if P x then 1 else 0) + count_where P xs"
  by (simp_all add: count_where_def)

lemma count_where_mono: "(\<And>x. x \<in> set xs \<Longrightarrow> P x \<Longrightarrow> Q x) \<Longrightarrow> count_where P xs \<le> count_where Q xs"
  by (induction xs) force+

lemma count_where_zero: "count_where P xs = 0 \<longleftrightarrow> (\<forall>x \<in> set xs. \<not> P x)"
  by (auto simp: count_where_def filter_empty_conv)

subsection \<open>Shared interfaces\<close>

text \<open>A status enum and its text form: parsing what was printed gives the status back.\<close>

locale status_codec =
  fixes as_str :: "'s \<Rightarrow> string" and from_str :: "string \<Rightarrow> 's"
  assumes from_as [simp]: "from_str (as_str x) = x"
begin

lemma as_str_inj: "as_str x = as_str y \<longleftrightarrow> x = y"
  by (metis from_as)

lemma as_str_inverts: "t = as_str x \<Longrightarrow> from_str t = x"
  by simp

end

text \<open>A component with operations: the invariant every operation keeps holds after any sequence.\<close>

locale machine =
  fixes step :: "'op \<Rightarrow> 's \<Rightarrow> 's" and inv :: "'s \<Rightarrow> bool"
  assumes step_inv: "inv s \<Longrightarrow> inv (step e s)"
begin

lemma run_inv: "inv s \<Longrightarrow> inv (fold step es s)"
  by (induction es arbitrary: s) (auto simp: step_inv)

end

text \<open>A machine that also keeps a log it only appends to.\<close>

locale ledger_machine = machine step inv
  for step :: "'op \<Rightarrow> 's \<Rightarrow> 's" and inv :: "'s \<Rightarrow> bool" +
  fixes log :: "'s \<Rightarrow> 'e list"
  assumes step_log: "prefix (log s) (log (step e s))"
begin

lemma run_log: "prefix (log s) (log (fold step es s))"
proof (induction es arbitrary: s)
  case Nil
  then show ?case by simp
next
  case (Cons e es)
  have "prefix (log s) (log (step e s))" by (rule step_log)
  also have "prefix (log (step e s)) (log (fold step es (step e s)))" by (rule Cons.IH)
  finally show ?case by simp
qed

lemma run_log_mem: "x \<in> set (log s) \<Longrightarrow> x \<in> set (log (fold step es s))"
  using run_log set_mono_prefix by blast

end

text \<open>
  An item that is settled once: after it has left its open state no operation changes it again.
\<close>

locale settle_once =
  fixes step :: "'op \<Rightarrow> 's \<Rightarrow> 's" and item :: "'k \<Rightarrow> 's \<Rightarrow> 'v option" and settled :: "'v \<Rightarrow> bool"
  assumes step_settled: "item i s = Some v \<Longrightarrow> settled v \<Longrightarrow> item i (step e s) = Some v"
begin

lemma run_settled: "item i s = Some v \<Longrightarrow> settled v \<Longrightarrow> item i (fold step es s) = Some v"
  by (induction es arbitrary: s) (auto simp: step_settled)

end

end
