(* ===== verification/Assessment.thy ===== *)
theory Assessment
  imports Prelude
begin

text \<open>
  \<open>models/planning_assessment.rs\<close>: the implementation and plan assessments, their validation, and
  the FNV-1a artifact fingerprint that decides whether a saved assessment is stale.
\<close>

unbundle bit_operations_syntax

subsection \<open>Data\<close>

definition ASSESSMENT_SCHEMA_VERSION :: u8 where "ASSESSMENT_SCHEMA_VERSION = 1"
definition MAX_EFFORT_HOURS :: u16 where "MAX_EFFORT_HOURS = 10000"
definition MAX_TEXT_CHARS :: nat where "MAX_TEXT_CHARS = 4000"
definition MAX_LIST_ITEMS :: nat where "MAX_LIST_ITEMS = 32"
definition MAX_CONTEXT_TOKENS :: u32 where "MAX_CONTEXT_TOKENS = 2000000"

lemmas assessment_consts = ASSESSMENT_SCHEMA_VERSION_def MAX_EFFORT_HOURS_def MAX_TEXT_CHARS_def
  MAX_LIST_ITEMS_def MAX_CONTEXT_TOKENS_def

record effort_range =
  min_hours :: u16
  max_hours :: u16

record implementation_assessment =
  ia_schema_version :: u8
  effort :: effort_range
  difficulty :: u8
  impact :: u8
  risk :: u8
  confidence :: u8
  rationale :: string
  grounding :: "string list"
  required_capabilities :: "string list"
  constraints :: "string list"
  missing_evidence :: "string list"
  alternatives :: "string list"

record parallelism_guidance =
  max_parallel_tasks :: u8
  pg_rationale :: string

record plan_assessment =
  pa_schema_version :: u8
  implementation :: implementation_assessment
  pa_fingerprint :: string
  source_idea_id :: "string option"
  estimate_drift :: string
  expected_context_tokens :: u32
  parallelism :: parallelism_guidance
  assessed_at :: int
  stale :: bool

subsection \<open>Validation\<close>

definition validate_rating :: "string \<Rightarrow> u8 \<Rightarrow> unit result" where
  "validate_rating name value =
     refuse_if (\<not> (1 \<le> value \<and> value \<le> 5)) (''assessment.'' @ name @ '' must be between 1 and 5'')"

definition validate_text :: "string \<Rightarrow> string \<Rightarrow> bool \<Rightarrow> unit result" where
  "validate_text name value allow_empty = first_err
     [refuse_if (\<not> allow_empty \<and> is_blank value) (''assessment.'' @ name @ '' is required''),
      refuse_if (char_count value > MAX_TEXT_CHARS)
        (''assessment.'' @ name @ '' must be 4000 characters or fewer'')]"

definition validate_list :: "string \<Rightarrow> string list \<Rightarrow> bool \<Rightarrow> unit result" where
  "validate_list name values allow_empty = first_err
     ([refuse_if (\<not> allow_empty \<and> values = []) (''assessment.'' @ name @ '' requires at least one item''),
       refuse_if (length values > MAX_LIST_ITEMS)
         (''assessment.'' @ name @ '' must contain 32 items or fewer'')]
      @ map (\<lambda>v. validate_text name v False) values)"

definition validate_implementation :: "implementation_assessment \<Rightarrow> unit result" where
  "validate_implementation a = first_err
     [refuse_if (ia_schema_version a \<noteq> ASSESSMENT_SCHEMA_VERSION) ''assessment.schemaVersion must be 1'',
      refuse_if (min_hours (effort a) = 0 \<or> max_hours (effort a) > MAX_EFFORT_HOURS)
        ''assessment effort must be between 1 and 10000 hours'',
      refuse_if (min_hours (effort a) > max_hours (effort a))
        ''assessment effort minHours cannot exceed maxHours'',
      validate_rating ''difficulty'' (difficulty a),
      validate_rating ''impact'' (impact a),
      validate_rating ''risk'' (risk a),
      validate_rating ''confidence'' (confidence a),
      refuse_if (confidence a \<le> 2 \<and> missing_evidence a = [])
        ''assessment.missingEvidence requires at least one item when confidence is 1-2'',
      validate_text ''rationale'' (rationale a) False,
      validate_list ''grounding'' (grounding a) False,
      validate_list ''requiredCapabilities'' (required_capabilities a) True,
      validate_list ''constraints'' (constraints a) True,
      validate_list ''missingEvidence'' (missing_evidence a) True,
      validate_list ''alternatives'' (alternatives a) True]"

definition is_ascii_hexdigit :: "char \<Rightarrow> bool" where
  "is_ascii_hexdigit c \<longleftrightarrow>
     (let n = (of_char c :: nat) in 48 \<le> n \<and> n \<le> 57 \<or> 65 \<le> n \<and> n \<le> 70 \<or> 97 \<le> n \<and> n \<le> 102)"

definition validate_plan_assessment :: "plan_assessment \<Rightarrow> unit result" where
  "validate_plan_assessment p = first_err
     ([refuse_if (pa_schema_version p \<noteq> ASSESSMENT_SCHEMA_VERSION)
         ''plan assessment schemaVersion must be 1'',
       validate_implementation (implementation p),
       refuse_if (length (pa_fingerprint p) \<noteq> 16 \<or> \<not> list_all is_ascii_hexdigit (pa_fingerprint p))
         ''plan assessment artifactFingerprint must be a 16-character hexadecimal fingerprint'',
       validate_text ''estimateDrift'' (estimate_drift p) False,
       refuse_if (expected_context_tokens p = 0 \<or> expected_context_tokens p > MAX_CONTEXT_TOKENS)
         ''plan assessment expectedContextTokens must be between 1 and 2000000'',
       refuse_if (\<not> (1 \<le> max_parallel_tasks (parallelism p) \<and> max_parallel_tasks (parallelism p) \<le> 16))
         ''plan assessment parallelism.maxParallelTasks must be between 1 and 16'',
       validate_text ''parallelism.rationale'' (pg_rationale (parallelism p)) False]
      @ (case source_idea_id p of None \<Rightarrow> [] | Some i \<Rightarrow> [validate_text ''sourceIdeaId'' i False]))"

subsection \<open>The artifact fingerprint\<close>

definition fnv_step :: "u64 \<Rightarrow> u64 \<Rightarrow> u64" where
  "fnv_step hash byte = (hash XOR byte) * 0x100000001b3"

definition part_bytes :: "string \<Rightarrow> u64 list" where
  "part_bytes part = map of_char part @ [0xff]"

definition hex_digit :: "u64 \<Rightarrow> char" where
  "hex_digit d = (if d < 10 then char_of (48 + unat d) else char_of (87 + unat d))"

definition format_016x :: "u64 \<Rightarrow> string" where
  "format_016x h = map (\<lambda>i. hex_digit (drop_bit (4 * i) h AND 15)) (rev [0..<16])"

definition artifact_fingerprint :: "string list \<Rightarrow> string" where
  "artifact_fingerprint parts =
     format_016x (foldl fnv_step 0xcbf29ce484222325 (concat (map part_bytes parts)))"

subsection \<open>Lemmas\<close>

lemma validate_rating_Ok: "validate_rating n v = Inr () \<longleftrightarrow> 1 \<le> v \<and> v \<le> 5"
  by (simp add: validate_rating_def)

lemma validate_text_Ok:
  "validate_text n v False = Inr () \<longleftrightarrow> \<not> is_blank v \<and> char_count v \<le> MAX_TEXT_CHARS"
  by (auto simp: validate_text_def first_err_Ok)

lemma validate_list_Ok:
  "validate_list n vs ae = Inr () \<longleftrightarrow>
     (ae \<or> vs \<noteq> []) \<and> length vs \<le> MAX_LIST_ITEMS \<and> (\<forall>v \<in> set vs. validate_text n v False = Inr ())"
  by (auto simp: validate_list_def first_err_Ok)

lemmas validate_Ok = validate_rating_Ok validate_text_Ok validate_list_Ok

lemma fnv_prime_inverse: "(0x100000001b3 :: u64) * 0xce965057aff6957b = 1"
  by simp

lemma fnv_step_inj_hash: "fnv_step h b = fnv_step h' b \<Longrightarrow> h = h'"
proof -
  assume "fnv_step h b = fnv_step h' b"
  then have "(h XOR b) * (0x100000001b3 * 0xce965057aff6957b) = (h' XOR b) * (0x100000001b3 * 0xce965057aff6957b)"
    by (simp only: fnv_step_def mult.assoc [symmetric])
  then have "h XOR b = h' XOR b" by (simp only: fnv_prime_inverse mult_1_right)
  then have "(h XOR b) XOR b = (h' XOR b) XOR b" by simp
  then show "h = h'" by (simp add: xor.assoc)
qed

lemma fnv_step_inj_byte: "fnv_step h b = fnv_step h b' \<Longrightarrow> b = b'"
proof -
  assume "fnv_step h b = fnv_step h b'"
  then have "fnv_step b h = fnv_step b' h" by (simp add: fnv_step_def xor.commute)
  then show "b = b'" by (rule fnv_step_inj_hash)
qed

lemma fnv_fold_inj: "foldl fnv_step h bs = foldl fnv_step h' bs \<Longrightarrow> h = h'"
  by (induction bs arbitrary: h h') (auto dest: fnv_step_inj_hash)

lemma hex_digit_inj:
  assumes "unat d < 16" and "unat e < 16" and "hex_digit d = hex_digit e"
  shows "d = e"
proof -
  have "of_char (hex_digit d) = (of_char (hex_digit e) :: nat)" using assms(3) by simp
  moreover have "(d < 10) = (unat d < 10)" "(e < 10) = (unat e < 10)"
    by (simp_all add: word_less_nat_alt)
  ultimately have "unat d = unat e" using assms(1,2)
    by (auto simp: hex_digit_def split: if_splits)
  then show ?thesis by (simp only: word_unat_eq_iff)
qed

lemma nibble_small: "unat (x AND 15 :: u64) < 16"
proof -
  have "x AND 15 \<le> 15" by (rule word_and_le1)
  then have "unat (x AND 15) \<le> unat (15 :: u64)" by (simp only: word_le_nat_alt)
  then show ?thesis by simp
qed

lemma nibble_bit: "j < 4 \<Longrightarrow> bit (drop_bit k (h :: u64) AND 15) j = bit h (k + j)"
proof -
  assume "j < 4"
  then have "j = 0 \<or> j = 1 \<or> j = 2 \<or> j = 3" by arith
  then show ?thesis by (auto simp: bit_and_iff bit_drop_bit_eq)
qed

lemma format_016x_inj: "format_016x h = format_016x h' \<Longrightarrow> h = h'"
proof (rule bit_word_eqI)
  fix n
  assume eq: "format_016x h = format_016x h'" and n: "n < LENGTH(64)"
  have "n div 4 \<in> set (rev [0..<16])" using n by auto
  with eq have "hex_digit (drop_bit (4 * (n div 4)) h AND 15) = hex_digit (drop_bit (4 * (n div 4)) h' AND 15)"
    by (simp only: format_016x_def map_eq_conv)
  then have "drop_bit (4 * (n div 4)) h AND 15 = drop_bit (4 * (n div 4)) h' AND 15"
    by (intro hex_digit_inj nibble_small)
  then have "bit h (4 * (n div 4) + n mod 4) = bit h' (4 * (n div 4) + n mod 4)"
    by (metis nibble_bit mod_less_divisor zero_less_numeral)
  then show "bit h n = bit h' n" by simp
qed

lemma hex_digit_ascii: "unat d < 16 \<Longrightarrow> is_ascii_hexdigit (hex_digit d)"
  by (auto simp: hex_digit_def is_ascii_hexdigit_def Let_def word_less_nat_alt)

lemma of_char_u64_inj: "(of_char a :: u64) = of_char b \<Longrightarrow> a = b"
proof -
  assume "(of_char a :: u64) = of_char b"
  then have "(of_nat (of_char a) :: u64) = of_nat (of_char b)" by (simp only: of_nat_of_char)
  moreover have "(of_char a :: nat) < 2 ^ LENGTH(64)" "(of_char b :: nat) < 2 ^ LENGTH(64)"
    by (rule order_less_trans [OF of_char_256], simp)+
  ultimately have "(of_char a :: nat) = of_char b" by (metis unat_of_nat mod_less)
  then show "a = b" by simp
qed

subsection \<open>Properties\<close>

text \<open>
  The fingerprint the code computes always has the shape a saved plan assessment must have,
  sixteen hexadecimal digits, whatever the artifacts contain.
\<close>

theorem fingerprint_well_formed:
  "length (artifact_fingerprint parts) = 16 \<and> list_all is_ascii_hexdigit (artifact_fingerprint parts)"
  by (auto simp: artifact_fingerprint_def format_016x_def list_all_iff intro!: hex_digit_ascii nibble_small)

text \<open>
  Editing one byte of one artifact always changes the fingerprint, so an assessment of the old
  artifacts is found stale; FNV-1a's multiplication by an odd prime loses nothing.
\<close>

theorem fingerprint_detects_byte_edit:
  assumes "a \<noteq> b"
  shows "artifact_fingerprint (pre @ (s @ a # t) # post) \<noteq> artifact_fingerprint (pre @ (s @ b # t) # post)"
proof
  assume "artifact_fingerprint (pre @ (s @ a # t) # post) = artifact_fingerprint (pre @ (s @ b # t) # post)"
  then have "foldl fnv_step 0xcbf29ce484222325 (concat (map part_bytes (pre @ (s @ a # t) # post)))
      = foldl fnv_step 0xcbf29ce484222325 (concat (map part_bytes (pre @ (s @ b # t) # post)))"
    unfolding artifact_fingerprint_def by (rule format_016x_inj)
  then have "(of_char a :: u64) = of_char b"
    by (auto simp: part_bytes_def dest!: fnv_fold_inj fnv_step_inj_hash fnv_step_inj_byte)
  with assms show False by (auto dest: of_char_u64_inj)
qed

theorem fingerprint_detects_byte_edit_witness:
  "artifact_fingerprint [''tasks'', ''- [ ] one''] \<noteq> artifact_fingerprint [''tasks'', ''- [x] one'']"
  using fingerprint_detects_byte_edit [of "CHR '' ''" "CHR ''x''" "[''tasks'']" "''- [''" "''] one''" "[]"]
  by simp

text \<open>
  An assessment that passes validation has an effort range within one and ten thousand hours in
  the right order, every rating between one and five, evidence named when confidence is low, a
  sixteen-digit fingerprint and its token and parallelism estimates within their bounds.
\<close>

theorem valid_assessment_bounds:
  assumes "validate_plan_assessment p = Ok ()"
  shows "1 \<le> min_hours (effort (implementation p)) \<and>
    min_hours (effort (implementation p)) \<le> max_hours (effort (implementation p)) \<and>
    max_hours (effort (implementation p)) \<le> 10000 \<and>
    (\<forall>r \<in> {difficulty, impact, risk, confidence}. 1 \<le> r (implementation p) \<and> r (implementation p) \<le> 5) \<and>
    (confidence (implementation p) \<le> 2 \<longrightarrow> missing_evidence (implementation p) \<noteq> []) \<and>
    grounding (implementation p) \<noteq> [] \<and>
    length (pa_fingerprint p) = 16 \<and>
    1 \<le> expected_context_tokens p \<and> expected_context_tokens p \<le> 2000000 \<and>
    1 \<le> max_parallel_tasks (parallelism p) \<and> max_parallel_tasks (parallelism p) \<le> 16"
proof -
  have i: "validate_implementation (implementation p) = Ok ()"
    and p: "length (pa_fingerprint p) = 16" "expected_context_tokens p \<noteq> 0"
      "expected_context_tokens p \<le> MAX_CONTEXT_TOKENS"
      "1 \<le> max_parallel_tasks (parallelism p)" "max_parallel_tasks (parallelism p) \<le> 16"
    using assms by (simp_all add: validate_plan_assessment_def not_less)
  from i have e: "min_hours (effort (implementation p)) \<noteq> 0"
      "max_hours (effort (implementation p)) \<le> MAX_EFFORT_HOURS"
      "min_hours (effort (implementation p)) \<le> max_hours (effort (implementation p))"
    and r: "\<forall>r \<in> {difficulty, impact, risk, confidence}. 1 \<le> r (implementation p) \<and> r (implementation p) \<le> 5"
    and m: "confidence (implementation p) \<le> 2 \<longrightarrow> missing_evidence (implementation p) \<noteq> []"
    and g: "grounding (implementation p) \<noteq> []"
    by (simp_all add: validate_implementation_def validate_rating_Ok validate_list_Ok not_less)
  have "1 \<le> min_hours (effort (implementation p))" "1 \<le> expected_context_tokens p"
    using e(1) p(2) by (metis linorder_not_le word_less_1)+
  with e r m g p show ?thesis by (simp add: assessment_consts)
qed

definition sample_assessment :: plan_assessment where
  "sample_assessment = \<lparr>pa_schema_version = 1,
     implementation = \<lparr>ia_schema_version = 1, effort = \<lparr>min_hours = 2, max_hours = 8\<rparr>, difficulty = 3,
       impact = 4, risk = 2, confidence = 2, rationale = ''small'', grounding = [''src/a.rs''],
       required_capabilities = [], constraints = [], missing_evidence = [''load test''], alternatives = []\<rparr>,
     pa_fingerprint = ''00ff00ff00ff00ff'', source_idea_id = None, estimate_drift = ''none'',
     expected_context_tokens = 4000, parallelism = \<lparr>max_parallel_tasks = 2, pg_rationale = ''two''\<rparr>,
     assessed_at = 0, stale = False\<rparr>"

lemma sample_assessment_valid: "validate_plan_assessment sample_assessment = Ok ()"
  by (simp add: sample_assessment_def validate_plan_assessment_def validate_implementation_def
      validate_rating_Ok validate_text_Ok validate_list_Ok assessment_consts text_eval is_ascii_hexdigit_def Let_def)

theorem valid_assessment_bounds_witness:
  "validate_plan_assessment sample_assessment = Ok () \<and>
   max_hours (effort (implementation sample_assessment)) = 8 \<and>
   missing_evidence (implementation sample_assessment) \<noteq> [] \<and>
   expected_context_tokens sample_assessment \<le> 2000000"
  using valid_assessment_bounds [OF sample_assessment_valid] sample_assessment_valid
  by (simp add: sample_assessment_def)

end
