(* ===== verification/PlanData.thy ===== *)
theory PlanData
  imports Prelude Assessment
begin

text \<open>
  The planning data model: \<open>models/plan.rs\<close>, \<open>models/plan_run.rs\<close> and
  \<open>models/plan_dependency.rs\<close>. Every struct is a record, every enum a datatype with its text codec.
  Text columns hold the printed form, so each codec is an instance of \<open>status_codec\<close>.
\<close>

subsection \<open>Plans\<close>

datatype plan_status = Draft | Openspec | Ready | Running | Finished | Cancelled

fun plan_status_str :: "plan_status \<Rightarrow> string" where
  "plan_status_str Draft = ''draft''"
| "plan_status_str Openspec = ''openspec''"
| "plan_status_str Ready = ''ready''"
| "plan_status_str Running = ''running''"
| "plan_status_str Finished = ''finished''"
| "plan_status_str Cancelled = ''cancelled''"

definition plan_status_of :: "string \<Rightarrow> plan_status" where
  "plan_status_of s =
     (if s = ''openspec'' then Openspec
      else if s = ''ready'' \<or> s = ''waiting'' then Ready
      else if s = ''running'' \<or> s = ''in_progress'' then Running
      else if s = ''finished'' then Finished
      else if s = ''cancelled'' then Cancelled
      else Draft)"

record plan_focus_context =
  fc_notes :: string
  fc_files :: "string list"
  fc_terminal_tail :: "string option"

record plan =
  p_id :: string
  p_session_id :: string
  p_reference_id :: string
  p_title :: string
  p_description :: string
  p_goal :: "string option"
  p_status :: plan_status
  p_priority :: u8
  p_tags :: "string list"
  p_ai_enhanced :: bool
  p_context :: "plan_focus_context option"
  p_idea_id :: "string option"
  p_change_name :: "string option"
  p_assessment :: "plan_assessment option"
  p_created_at :: int
  p_updated_at :: int
  p_finished_at :: "int option"

record new_plan =
  np_title :: string
  np_description :: string
  np_goal :: "string option"
  np_status :: plan_status
  np_priority :: "u8 option"
  np_tags :: "string list"
  np_idea_id :: "string option"

subsection \<open>Runs and the queue\<close>

datatype run_status = RPending | RRunning | RSucceeded | RFailed | RCancelled | RPaused | RAwaitingReview

fun run_status_str :: "run_status \<Rightarrow> string" where
  "run_status_str RPending = ''pending''"
| "run_status_str RRunning = ''running''"
| "run_status_str RSucceeded = ''succeeded''"
| "run_status_str RFailed = ''failed''"
| "run_status_str RCancelled = ''cancelled''"
| "run_status_str RPaused = ''paused''"
| "run_status_str RAwaitingReview = ''awaiting_review''"

definition run_status_of :: "string \<Rightarrow> run_status" where
  "run_status_of s =
     (if s = ''running'' then RRunning
      else if s = ''succeeded'' then RSucceeded
      else if s = ''failed'' then RFailed
      else if s = ''cancelled'' then RCancelled
      else if s = ''paused'' then RPaused
      else if s = ''awaiting_review'' then RAwaitingReview
      else RPending)"

datatype runner_kind = Native | Omp | OmpRpc

fun runner_kind_str :: "runner_kind \<Rightarrow> string" where
  "runner_kind_str Native = ''native''"
| "runner_kind_str Omp = ''omp''"
| "runner_kind_str OmpRpc = ''omp-rpc''"

definition runner_kind_of :: "string \<Rightarrow> runner_kind" where
  "runner_kind_of s = (if s = ''omp'' then Omp else if s = ''omp-rpc'' then OmpRpc else Native)"

record queue_entry =
  q_id :: string
  q_session_id :: string
  q_plan_id :: string
  q_sort_order :: int
  q_created_at :: int

record execution_profile =
  ep_concurrency :: u32
  ep_provider_id :: string
  ep_model_id :: string
  ep_effort :: "string option"

record step_output =
  so_step_id :: string
  so_kind :: string
  so_status :: string
  so_output :: "string option"
  so_error :: "string option"

record plan_run =
  run_id :: string
  run_plan_id :: string
  run_session_id :: string
  run_chat :: "string option"
  run_workspace :: "string option"
  run_status :: run_status
  run_kind :: runner_kind
  run_error :: "string option"
  run_steps :: "step_output list"
  run_started_at :: "int option"
  run_finished_at :: "int option"
  run_created_at :: int

record plan_override =
  ov_plan_id :: string
  ov_provider_id :: string
  ov_model_id :: string
  ov_effort :: "string option"

record start_queue_request =
  sq_session_id :: string
  sq_profile :: execution_profile
  sq_overrides :: "plan_override list option"

record plan_run_event =
  ev_run_id :: string
  ev_session_id :: string
  ev_plan_id :: string
  ev_status :: run_status
  ev_chat :: "string option"
  ev_error :: "string option"

text \<open>What applying a project's finish policy to a completed run gave.\<close>

record finish_outcome =
  fo_run_id :: string
  fo_policy :: string
  fo_commit_sha :: "string option"
  fo_pr_url :: "string option"
  fo_merge_ready :: bool
  fo_error :: "string option"

datatype finish_result = Hold | Applied finish_outcome | FallbackHold string

subsection \<open>Dependency metadata\<close>

record plan_dependencies =
  d_plan_id :: string
  d_prerequisites :: "string list"
  d_affected_paths :: "string list"
  d_priority :: u8
  d_scheduling_mode :: string
  d_workspace_policy :: string

record dependency_node =
  n_plan_id :: string
  n_reference_id :: string
  n_title :: string
  n_status :: string
  n_priority :: u8
  n_prerequisites :: "string list"
  n_affected_paths :: "string list"
  n_readiness :: string
  n_block_reason :: "string option"
  n_collisions :: "string list"
  n_dispatchable :: bool
  n_yolo_confirmed :: bool

record dependency_graph =
  g_session_id :: string
  g_nodes :: "dependency_node list"
  g_cycles :: "string list list"

record validation_result =
  v_plan_id :: string
  v_valid :: bool
  v_errors :: "string list"
  v_warnings :: "string list"

record file_claim =
  fcl_id :: string
  fcl_run_id :: string
  fcl_plan_id :: string
  fcl_session_id :: string
  fcl_path :: string
  fcl_action :: string
  fcl_created_at :: int
  fcl_released_at :: "int option"

record coordination_event =
  ce_id :: string
  ce_session_id :: string
  ce_run_id :: string
  ce_plan_id :: string
  ce_kind :: string
  ce_payload :: string
  ce_created_at :: int

record launch_profile =
  lp_project_path :: string
  lp_engine :: string
  lp_provider_id :: string
  lp_model_id :: string
  lp_effort :: "string option"
  lp_skill :: "string option"
  lp_worker_count :: u32
  lp_workspace_policy :: string
  lp_scheduling_mode :: string
  lp_finish_policy :: string
  lp_updated_at :: int

record merge_entry =
  m_id :: string
  m_run_id :: string
  m_plan_id :: string
  m_session_id :: string
  m_status :: string
  m_collision_review :: bool
  m_overlapping :: "string list"
  m_reviewed_at :: "int option"
  m_created_at :: int

record set_dependencies_request =
  sd_plan_id :: string
  sd_prerequisites :: "string list"
  sd_affected_paths :: "string list"
  sd_priority :: "u8 option"
  sd_scheduling_mode :: "string option"
  sd_workspace_policy :: "string option"

subsection \<open>The codecs\<close>

interpretation plan_codec: status_codec plan_status_str plan_status_of
proof
  show "plan_status_of (plan_status_str x) = x" for x by (cases x) (simp_all add: plan_status_of_def)
qed

interpretation run_codec: status_codec run_status_str run_status_of
proof
  show "run_status_of (run_status_str x) = x" for x by (cases x) (simp_all add: run_status_of_def)
qed

interpretation runner_codec: status_codec runner_kind_str runner_kind_of
proof
  show "runner_kind_of (runner_kind_str x) = x" for x by (cases x) (simp_all add: runner_kind_of_def)
qed

definition run_terminal :: "string \<Rightarrow> bool" where
  "run_terminal s \<longleftrightarrow> s \<in> {''succeeded'', ''failed'', ''cancelled'', ''awaiting_review''}"

definition run_active :: "string \<Rightarrow> bool" where
  "run_active s \<longleftrightarrow> s = ''running'' \<or> s = ''pending''"

lemma run_active_not_terminal [simp]: "run_active s \<Longrightarrow> \<not> run_terminal s"
  by (auto simp: run_active_def run_terminal_def)

end
