(* ===== verification/RunConcurrency.thy ===== *)
theory RunConcurrency
  imports Prelude
begin

text \<open>
  \<open>models/run_concurrency.rs\<close>: per-provider limits, the planning and global caps, and how project
  overrides, global entries and the conservative defaults combine. The provider map is an association
  map; \<open>None\<close> in a cap reads as its default.
\<close>

definition DEFAULT_PLANNING_MAX :: u32 where "DEFAULT_PLANNING_MAX = 3"
definition DEFAULT_GLOBAL_MAX :: u32 where "DEFAULT_GLOBAL_MAX = 4"

record concurrency_entry =
  max_concurrency :: u32
  subagents_enabled :: bool
  subagent_max_count :: u32

definition default_concurrency_entry :: concurrency_entry where
  "default_concurrency_entry =
     \<lparr>max_concurrency = 1, subagents_enabled = False, subagent_max_count = 0\<rparr>"

record run_concurrency_limits =
  rl_providers :: "string \<rightharpoonup> concurrency_entry"
  rl_planning_max :: "u32 option"
  rl_global_max :: "u32 option"

definition conservative_limits :: run_concurrency_limits where
  "conservative_limits = \<lparr>rl_providers = Map.empty, rl_planning_max = None, rl_global_max = None\<rparr>"

definition effective_for :: "run_concurrency_limits \<Rightarrow> string \<Rightarrow> run_concurrency_limits \<Rightarrow> concurrency_entry" where
  "effective_for self provider_id global =
     coalesce (coalesce_opt (rl_providers self provider_id) (rl_providers global provider_id))
       default_concurrency_entry"

definition effective_planning_max :: "run_concurrency_limits \<Rightarrow> u32" where
  "effective_planning_max l = coalesce (rl_planning_max l) DEFAULT_PLANNING_MAX"

definition effective_global_max :: "run_concurrency_limits \<Rightarrow> u32" where
  "effective_global_max l = coalesce (rl_global_max l) DEFAULT_GLOBAL_MAX"

record concurrency_limits =
  cl_global_max :: "u32 option"
  cl_planning_max :: "u32 option"

definition concurrency_limits_of :: "run_concurrency_limits \<Rightarrow> concurrency_limits" where
  "concurrency_limits_of l = \<lparr>cl_global_max = rl_global_max l, cl_planning_max = rl_planning_max l\<rparr>"

definition cl_effective_planning_max :: "concurrency_limits \<Rightarrow> u32" where
  "cl_effective_planning_max l = coalesce (cl_planning_max l) DEFAULT_PLANNING_MAX"

definition cl_effective_global_max :: "concurrency_limits \<Rightarrow> u32" where
  "cl_effective_global_max l = coalesce (cl_global_max l) DEFAULT_GLOBAL_MAX"

lemma limits_view_agrees:
  "cl_effective_planning_max (concurrency_limits_of l) = effective_planning_max l"
  "cl_effective_global_max (concurrency_limits_of l) = effective_global_max l"
  by (simp_all add: concurrency_limits_of_def cl_effective_planning_max_def cl_effective_global_max_def
      effective_planning_max_def effective_global_max_def)

text \<open>A semaphore is never sized zero: \<open>max_concurrency.max(1)\<close>.\<close>

definition provider_limit :: "concurrency_entry \<Rightarrow> nat" where
  "provider_limit e = max (unat (max_concurrency e)) 1"

lemma provider_limit_pos: "0 < provider_limit e"
  by (simp add: provider_limit_def)

lemma effective_for_project_wins:
  "rl_providers self p = Some e \<Longrightarrow> effective_for self p global = e"
  by (simp add: effective_for_def)

lemma effective_for_default:
  "rl_providers self p = None \<Longrightarrow> rl_providers global p = None \<Longrightarrow>
     provider_limit (effective_for self p global) = 1"
  by (simp add: effective_for_def default_concurrency_entry_def provider_limit_def)

end
