(* ===== verification/PlanStore.thy ===== *)
theory PlanStore
  imports PlanData RunConcurrency
begin

text \<open>
  The planning tables of the state database (\<open>services/storage_service.rs\<close>) and the statements of
  \<open>services/plan_service.rs\<close> over them. A JSON column holds the value it encodes. Primary keys and
  foreign keys are enforced as the schema declares them; any other failure of the database is outside
  the model. Identifiers and timestamps come from the clock: \<open>env\<close> gives the successive readings an
  operation takes.
\<close>

subsection \<open>Clock readings and identifiers\<close>

record env =
  e_secs :: clock
  e_millis :: clock
  e_nanos :: "nat \<Rightarrow> nat"

text \<open>The readings of the clock after the first \<open>k\<close>.\<close>

definition later :: "nat \<Rightarrow> env \<Rightarrow> env" where
  "later k e = \<lparr>e_secs = (\<lambda>i. e_secs e (i + k)), e_millis = (\<lambda>i. e_millis e (i + k)), e_nanos = (\<lambda>i. e_nanos e (i + k))\<rparr>"

definition hex_char :: "nat \<Rightarrow> char" where
  "hex_char d = (if d < 10 then char_of (48 + d) else char_of (87 + d))"

fun hex_nat :: "nat \<Rightarrow> string" where
  "hex_nat n = (if n < 16 then [hex_char n] else hex_nat (n div 16) @ [hex_char (n mod 16)])"

declare hex_nat.simps [simp del]

definition gen_id :: "nat \<Rightarrow> string" where
  "gen_id ts = hex_nat ts"

definition hex_val :: "char \<Rightarrow> nat" where
  "hex_val c = (if (of_char c :: nat) < 58 then of_char c - 48 else of_char c - 87)"

lemma hex_val_char: "d < 16 \<Longrightarrow> hex_val (hex_char d) = d"
  by (cases "d < 10") (simp_all add: hex_val_def hex_char_def)

lemma hex_nat_val: "foldl (\<lambda>a c. 16 * a + hex_val c) 0 (hex_nat n) = n"
proof (induction n rule: hex_nat.induct)
  case (1 n)
  then show ?case by (simp add: hex_nat.simps [of n] hex_val_char)
qed

text \<open>Identifiers made at different instants differ.\<close>

lemma gen_id_inj [simp]: "gen_id m = gen_id n \<longleftrightarrow> m = n"
  unfolding gen_id_def by (metis hex_nat_val)

definition ref_alphabet :: string where
  "ref_alphabet = ''abcdefghijklmnopqrstuvwxyz0123456789''"

fun ref_chars :: "nat \<Rightarrow> nat \<Rightarrow> string" where
  "ref_chars 0 n = []"
| "ref_chars (Suc k) n = ref_alphabet ! (n mod length ref_alphabet) # ref_chars k (n div length ref_alphabet)"

definition gen_reference_id :: "nat \<Rightarrow> string" where
  "gen_reference_id ts = ''bb-'' @ ref_chars 6 ts"

subsection \<open>Tables\<close>

record session_row =
  ss_id :: string
  ss_project_path :: string

record chat_row =
  c_id :: string
  c_project_path :: string
  c_run_state :: string
  c_updated_at :: int

record plan_row =
  pl_id :: string
  pl_session_id :: string
  pl_reference_id :: string
  pl_title :: string
  pl_description :: string
  pl_goal :: "string option"
  pl_status :: string
  pl_priority :: u8
  pl_tags :: "string list"
  pl_ai_enhanced :: bool
  pl_context :: "plan_focus_context option"
  pl_idea_id :: "string option"
  pl_change_name :: "string option"
  pl_assessment :: "plan_assessment option"
  pl_created_at :: int
  pl_updated_at :: int
  pl_finished_at :: "int option"

record run_row =
  r_id :: string
  r_plan_id :: string
  r_session_id :: string
  r_chat :: "string option"
  r_workspace :: "string option"
  r_status :: string
  r_kind :: string
  r_error :: "string option"
  r_steps :: "step_output list"
  r_started_at :: "int option"
  r_finished_at :: "int option"
  r_finish_outcome :: "finish_result option"
  r_created_at :: int

record event_row =
  le_id :: string
  le_run :: "string option"
  le_plan :: string
  le_chat :: "string option"
  le_kind :: string
  le_from_run :: "string option"
  le_to_run :: "string option"
  le_from_plan :: "string option"
  le_to_plan :: "string option"
  le_created_at :: int

record dep_row =
  dm_plan_id :: string
  dm_prerequisites :: "string list"
  dm_affected_paths :: "string list"
  dm_scheduling_mode :: string
  dm_workspace_policy :: string
  dm_updated_at :: int

record db =
  sessions :: "session_row list"
  chats :: "chat_row list"
  plans :: "plan_row list"
  archived :: "string list"
  runs :: "run_row list"
  queue :: "queue_entry list"
  events :: "event_row list"
  dep_meta :: "dep_row list"
  claims :: "file_claim list"
  coord_events :: "coordination_event list"
  profiles :: "launch_profile list"
  merge_queue :: "merge_entry list"
  pipeline_statuses :: "string list"
  global_limits :: run_concurrency_limits
  event_seq :: nat

subsection \<open>Constraint-checked inserts\<close>

definition fk_error :: string where "fk_error = ''FOREIGN KEY constraint failed''"

definition unique_error :: "string \<Rightarrow> string" where
  "unique_error table = ''UNIQUE constraint failed: '' @ table @ ''.id''"

definition insert_checked :: "('r \<Rightarrow> string) \<Rightarrow> string \<Rightarrow> bool \<Rightarrow> 'r \<Rightarrow> 'r list \<Rightarrow> 'r list result" where
  "insert_checked k table fk_ok r xs =
     (case insert_row k r xs of
        None \<Rightarrow> Err (unique_error table)
      | Some ys \<Rightarrow> if fk_ok then Ok ys else Err fk_error)"

definition session_exists :: "db \<Rightarrow> string \<Rightarrow> bool" where
  "session_exists d i \<longleftrightarrow> i \<in> set (map ss_id (sessions d))"

definition plan_exists :: "db \<Rightarrow> string \<Rightarrow> bool" where
  "plan_exists d i \<longleftrightarrow> i \<in> set (map pl_id (plans d))"

lemma insert_checked_Ok:
  "insert_checked k t fk r xs = Inr ys \<longleftrightarrow> k r \<notin> k ` set xs \<and> fk \<and> ys = xs @ [r]"
  by (auto simp: insert_checked_def insert_row_def)

subsection \<open>Reading plans\<close>

definition row_to_plan :: "plan_row \<Rightarrow> plan" where
  "row_to_plan r = \<lparr>p_id = pl_id r, p_session_id = pl_session_id r, p_reference_id = pl_reference_id r,
     p_title = pl_title r, p_description = pl_description r, p_goal = pl_goal r,
     p_status = plan_status_of (pl_status r), p_priority = pl_priority r, p_tags = pl_tags r,
     p_ai_enhanced = pl_ai_enhanced r, p_context = pl_context r, p_idea_id = pl_idea_id r,
     p_change_name = pl_change_name r, p_assessment = pl_assessment r, p_created_at = pl_created_at r,
     p_updated_at = pl_updated_at r, p_finished_at = pl_finished_at r\<rparr>"

definition plan_get :: "db \<Rightarrow> string \<Rightarrow> plan option" where
  "plan_get d i = map_option row_to_plan (lookup_by pl_id i (plans d))"

text \<open>\<open>ORDER BY created_at DESC, rowid DESC\<close>: a stable sort of the reversed table.\<close>

definition select_plans :: "(plan_row \<Rightarrow> bool) \<Rightarrow> db \<Rightarrow> plan list" where
  "select_plans P d = map row_to_plan
     (order_desc pl_created_at (rev (filter (\<lambda>r. P r \<and> pl_id r \<notin> set (archived d)) (plans d))))"

definition list_plan_rows :: "string \<Rightarrow> db \<Rightarrow> plan list" where
  "list_plan_rows session_id d = select_plans (\<lambda>r. pl_session_id r = session_id) d"

definition list_project_plan_rows :: "string \<Rightarrow> db \<Rightarrow> plan list" where
  "list_project_plan_rows project d = select_plans (\<lambda>r.
     pl_session_id r \<in> set (map ss_id (filter (\<lambda>s. ss_project_path s = project) (sessions d)))
     \<or> pl_session_id r \<in> set (map c_id (filter (\<lambda>c. c_project_path c = project) (chats d)))) d"

subsection \<open>Writing plans\<close>

definition plan_create :: "env \<Rightarrow> string \<Rightarrow> new_plan \<Rightarrow> db \<Rightarrow> plan result \<times> db" where
  "plan_create e session_id np d =
     (let created = e_secs e 0;
          row = \<lparr>pl_id = gen_id (e_nanos e 0), pl_session_id = session_id,
            pl_reference_id = gen_reference_id (e_nanos e 1), pl_title = np_title np,
            pl_description = np_description np, pl_goal = np_goal np,
            pl_status = plan_status_str (np_status np), pl_priority = coalesce (np_priority np) 50,
            pl_tags = np_tags np, pl_ai_enhanced = False, pl_context = None, pl_idea_id = np_idea_id np,
            pl_change_name = None, pl_assessment = None, pl_created_at = created, pl_updated_at = created,
            pl_finished_at = None\<rparr>
      in case insert_checked pl_id ''plans'' (session_exists d session_id) row (plans d) of
           Inl err \<Rightarrow> (Err err, d)
         | Inr ps \<Rightarrow> (Ok (row_to_plan row), d\<lparr>plans := ps\<rparr>))"

definition set_plans :: "(plan_row \<Rightarrow> bool) \<Rightarrow> (plan_row \<Rightarrow> plan_row) \<Rightarrow> db \<Rightarrow> db" where
  "set_plans P f d = d\<lparr>plans := upd_where P f (plans d)\<rparr>"

definition get_or_err :: "string \<Rightarrow> string \<Rightarrow> db \<Rightarrow> plan result" where
  "get_or_err i err d = (case plan_get d i of None \<Rightarrow> Err err | Some p \<Rightarrow> Ok p)"

definition plan_update :: "env \<Rightarrow> string \<Rightarrow> new_plan \<Rightarrow> db \<Rightarrow> plan result \<times> db" where
  "plan_update e i np d =
     (case plan_get d i of
        None \<Rightarrow> (Err ''Plan not found'', d)
      | Some existing \<Rightarrow>
          (let d' = set_plans (\<lambda>r. pl_id r = i)
                 (\<lambda>r. r\<lparr>pl_title := np_title np, pl_description := np_description np, pl_goal := np_goal np,
                    pl_status := plan_status_str (np_status np),
                    pl_priority := coalesce (np_priority np) (p_priority existing),
                    pl_tags := np_tags np, pl_updated_at := e_secs e 0\<rparr>) d
           in (get_or_err i ''Plan not found after update'' d', d')))"

definition plan_set_status :: "env \<Rightarrow> string \<Rightarrow> plan_status \<Rightarrow> db \<Rightarrow> plan result \<times> db" where
  "plan_set_status e i st d =
     (let finished_at = (if st = Finished then Some (e_secs e 0) else None);
          d' = set_plans (\<lambda>r. pl_id r = i)
                 (\<lambda>r. r\<lparr>pl_status := plan_status_str st,
                    pl_updated_at := e_secs e 1, pl_finished_at := finished_at\<rparr>) d
      in (get_or_err i ''Plan not found'' d', d'))"

definition plan_set_context :: "env \<Rightarrow> string \<Rightarrow> plan_focus_context \<Rightarrow> db \<Rightarrow> plan result \<times> db" where
  "plan_set_context e i ctx d =
     (let d' = set_plans (\<lambda>r. pl_id r = i) (\<lambda>r. r\<lparr>pl_context := Some ctx, pl_updated_at := e_secs e 0\<rparr>) d
      in (get_or_err i ''Plan not found'' d', d'))"

definition plan_set_change_name :: "env \<Rightarrow> string \<Rightarrow> string \<Rightarrow> db \<Rightarrow> plan result \<times> db" where
  "plan_set_change_name e i name d =
     (let d' = set_plans (\<lambda>r. pl_id r = i) (\<lambda>r. r\<lparr>pl_change_name := Some name, pl_updated_at := e_secs e 0\<rparr>) d
      in (get_or_err i ''Plan not found'' d', d'))"

text \<open>Deleting a plan cascades to every table whose \<open>plan_id\<close> references it.\<close>

definition plan_delete :: "string \<Rightarrow> db \<Rightarrow> unit result \<times> db" where
  "plan_delete i d =
     (let gone = map r_id (filter (\<lambda>r. r_plan_id r = i) (runs d))
      in (Ok (), d\<lparr>plans := filter (\<lambda>r. pl_id r \<noteq> i) (plans d),
            archived := filter (\<lambda>j. j \<noteq> i) (archived d),
            runs := filter (\<lambda>r. r_plan_id r \<noteq> i) (runs d),
            queue := filter (\<lambda>q. q_plan_id q \<noteq> i) (queue d),
            events := map (\<lambda>v. if \<exists>g \<in> set gone. le_run v = Some g then v\<lparr>le_run := None\<rparr> else v)
                        (filter (\<lambda>v. le_plan v \<noteq> i) (events d)),
            dep_meta := filter (\<lambda>m. dm_plan_id m \<noteq> i) (dep_meta d),
            claims := filter (\<lambda>c. fcl_plan_id c \<noteq> i) (claims d),
            coord_events := filter (\<lambda>c. ce_plan_id c \<noteq> i) (coord_events d),
            merge_queue := filter (\<lambda>m. m_plan_id m \<noteq> i) (merge_queue d)\<rparr>))"

definition save_assessment :: "env \<Rightarrow> string \<Rightarrow> plan_assessment \<Rightarrow> db \<Rightarrow> unit result \<times> db" where
  "save_assessment e i a d =
     (case validate_plan_assessment a of
        Inl err \<Rightarrow> (Err err, d)
      | Inr _ \<Rightarrow>
          (let changed = length (filter (\<lambda>r. pl_id r = i) (plans d));
               d' = set_plans (\<lambda>r. pl_id r = i) (\<lambda>r. r\<lparr>pl_assessment := Some a, pl_updated_at := e_secs e 0\<rparr>) d
           in if changed = 0 then (Err ''Plan not found'', d') else (Ok (), d')))"

definition mark_assessment_stale :: "env \<Rightarrow> string \<Rightarrow> string \<Rightarrow> db \<Rightarrow> bool result \<times> db" where
  "mark_assessment_stale e i fingerprint d =
     (case plan_get d i of
        None \<Rightarrow> (Err ''Plan not found'', d)
      | Some p \<Rightarrow>
          (case p_assessment p of
             None \<Rightarrow> (Ok False, d)
           | Some a \<Rightarrow>
               (if pa_fingerprint a = fingerprint \<or> stale a then (Ok False, d)
                else case save_assessment e i (a\<lparr>stale := True\<rparr>) d of
                       (Inl err, d') \<Rightarrow> (Err err, d')
                     | (Inr _, d') \<Rightarrow> (Ok True, d'))))"

subsection \<open>Reading runs, sessions and chats\<close>

definition map_run :: "run_row \<Rightarrow> plan_run" where
  "map_run r = \<lparr>run_id = r_id r, run_plan_id = r_plan_id r, run_session_id = r_session_id r,
     run_chat = r_chat r, run_workspace = r_workspace r, run_status = run_status_of (r_status r),
     run_kind = runner_kind_of (r_kind r), run_error = r_error r, run_steps = r_steps r,
     run_started_at = r_started_at r, run_finished_at = r_finished_at r, run_created_at = r_created_at r\<rparr>"

definition get_run :: "db \<Rightarrow> string \<Rightarrow> plan_run option" where
  "get_run d i = map_option map_run (lookup_by r_id i (runs d))"

definition session_get :: "db \<Rightarrow> string \<Rightarrow> session_row option" where
  "session_get d i = lookup_by ss_id i (sessions d)"

definition set_runs :: "(run_row \<Rightarrow> bool) \<Rightarrow> (run_row \<Rightarrow> run_row) \<Rightarrow> db \<Rightarrow> db" where
  "set_runs P f d = d\<lparr>runs := upd_where P f (runs d)\<rparr>"

definition set_chats :: "(chat_row \<Rightarrow> bool) \<Rightarrow> (chat_row \<Rightarrow> chat_row) \<Rightarrow> db \<Rightarrow> db" where
  "set_chats P f d = d\<lparr>chats := upd_where P f (chats d)\<rparr>"

definition new_run_row :: "string \<Rightarrow> string \<Rightarrow> string \<Rightarrow> string option \<Rightarrow> string option \<Rightarrow> string \<Rightarrow> int \<Rightarrow> run_row" where
  "new_run_row i plan_id session_id chat workspace kind created =
     \<lparr>r_id = i, r_plan_id = plan_id, r_session_id = session_id, r_chat = chat, r_workspace = workspace,
      r_status = ''pending'', r_kind = kind, r_error = None, r_steps = [], r_started_at = None,
      r_finished_at = None, r_finish_outcome = None, r_created_at = created\<rparr>"

definition insert_run :: "run_row \<Rightarrow> db \<Rightarrow> unit result \<times> db" where
  "insert_run row d =
     (case insert_checked r_id ''plan_runs''
             (plan_exists d (r_plan_id row) \<and> session_exists d (r_session_id row)) row (runs d) of
        Inl err \<Rightarrow> (Err err, d)
      | Inr rs \<Rightarrow> (Ok (), d\<lparr>runs := rs\<rparr>))"

end
