(* ===== verification/PlanLifecycle.thy ===== *)
theory PlanLifecycle
  imports PlanStore
begin

text \<open>
  \<open>services/plan_lifecycle_service.rs\<close>: the transactions that move a run and its plan together and
  append one row to the lifecycle ledger, and the repair of runs whose chat no longer owns them.
  A transaction that fails leaves the tables as they were (\<open>commit_or_rollback\<close>); the process's event
  counter has advanced all the same. \<open>startup_reconcile\<close> is the migration step of
  \<open>storage_service.rs\<close> and \<open>sweep_interrupted_runs\<close> the launch sweep of \<open>agent_loop_service.rs\<close>.
\<close>

subsection \<open>Transactions and the ledger\<close>

definition commit_or_rollback :: "db \<Rightarrow> 'a result \<times> db \<Rightarrow> 'a result \<times> db" where
  "commit_or_rollback d r =
     (case r of (Inl err, d') \<Rightarrow> (Err err, d\<lparr>event_seq := event_seq d'\<rparr>) | (Inr x, d') \<Rightarrow> (Ok x, d'))"

definition event_id :: "int \<Rightarrow> nat \<Rightarrow> string" where
  "event_id millis seq = ''ple-'' @ show_int millis @ ''-'' @ show_nat seq"

record event_spec =
  es_run :: "string option"
  es_plan :: string
  es_chat :: "string option"
  es_kind :: string
  es_from_run :: "string option"
  es_to_run :: "string option"
  es_from_plan :: "string option"
  es_to_plan :: "string option"

definition run_exists :: "db \<Rightarrow> string \<Rightarrow> bool" where
  "run_exists d i \<longleftrightarrow> i \<in> set (map r_id (runs d))"

definition event_of :: "int \<Rightarrow> int \<Rightarrow> nat \<Rightarrow> event_spec \<Rightarrow> event_row" where
  "event_of millis secs seq s =
     \<lparr>le_id = event_id millis seq, le_run = es_run s, le_plan = es_plan s, le_chat = es_chat s,
      le_kind = es_kind s, le_from_run = es_from_run s, le_to_run = es_to_run s,
      le_from_plan = es_from_plan s, le_to_plan = es_to_plan s, le_created_at = secs\<rparr>"

definition record_event :: "int \<Rightarrow> int \<Rightarrow> event_spec \<Rightarrow> db \<Rightarrow> unit result \<times> db" where
  "record_event millis secs s d =
     (let d' = d\<lparr>event_seq := Suc (event_seq d)\<rparr>
      in case insert_checked le_id ''plan_lifecycle_events''
                (plan_exists d (es_plan s) \<and> (case es_run s of None \<Rightarrow> True | Some i \<Rightarrow> run_exists d i))
                (event_of millis secs (event_seq d) s) (events d) of
           Inl err \<Rightarrow> (Err err, d')
         | Inr vs \<Rightarrow> (Ok (), d'\<lparr>events := vs\<rparr>))"

definition run_context :: "db \<Rightarrow> string \<Rightarrow> (string \<times> string \<times> string) option" where
  "run_context d i =
     (case lookup_by r_id i (runs d) of
        None \<Rightarrow> None
      | Some r \<Rightarrow>
          (case lookup_by pl_id (r_plan_id r) (plans d) of
             None \<Rightarrow> None
           | Some p \<Rightarrow> Some (r_plan_id r, r_status r, pl_status p)))"

definition bounded_error :: "string \<Rightarrow> string" where
  "bounded_error s = take_chars 500 s"

subsection \<open>Run transitions\<close>

definition kickoff_started :: "env \<Rightarrow> string \<Rightarrow> string option \<Rightarrow> db \<Rightarrow> unit result \<times> db" where
  "kickoff_started e i chat d =
     (case run_context d i of
        None \<Rightarrow> (Err ''Plan run not found'', d)
      | Some (plan_id, from_run, from_plan) \<Rightarrow>
          (if from_run = ''running'' \<and> from_plan = ''running'' then (Ok (), d)
           else
             (let d1 = set_runs (\<lambda>r. r_id r = i)
                    (\<lambda>r. r\<lparr>r_status := ''running'', r_chat := coalesce_opt chat (r_chat r),
                       r_started_at := coalesce_opt (r_started_at r) (Some (e_secs e 0)),
                       r_finished_at := None, r_error := None\<rparr>) d;
                  d2 = set_plans (\<lambda>p. pl_id p = plan_id)
                    (\<lambda>p. p\<lparr>pl_status := ''running'', pl_updated_at := e_secs e 1\<rparr>) d1
              in commit_or_rollback d
                   (record_event (e_millis e 0) (e_secs e 2)
                      \<lparr>es_run = Some i, es_plan = plan_id, es_chat = chat, es_kind = ''kickoff_started'',
                       es_from_run = Some from_run, es_to_run = Some ''running'',
                       es_from_plan = Some from_plan, es_to_plan = Some ''running''\<rparr> d2))))"

definition kickoff_failed :: "env \<Rightarrow> string \<Rightarrow> string \<Rightarrow> db \<Rightarrow> unit result \<times> db" where
  "kickoff_failed e i err d =
     (case run_context d i of
        None \<Rightarrow> (Err ''Plan run not found'', d)
      | Some (plan_id, from_run, from_plan) \<Rightarrow>
          (if from_run = ''failed'' \<and> from_plan = ''ready'' then (Ok (), d)
           else
             (let d1 = set_runs (\<lambda>r. r_id r = i)
                    (\<lambda>r. r\<lparr>r_status := ''failed'', r_error := Some (bounded_error err),
                       r_finished_at := coalesce_opt (r_finished_at r) (Some (e_secs e 0))\<rparr>) d;
                  d2 = set_plans (\<lambda>p. pl_id p = plan_id)
                    (\<lambda>p. p\<lparr>pl_status := ''ready'', pl_updated_at := e_secs e 1\<rparr>) d1
              in commit_or_rollback d
                   (record_event (e_millis e 0) (e_secs e 2)
                      \<lparr>es_run = Some i, es_plan = plan_id, es_chat = None, es_kind = ''kickoff_failed'',
                       es_from_run = Some from_run, es_to_run = Some ''failed'',
                       es_from_plan = Some from_plan, es_to_plan = Some ''ready''\<rparr> d2))))"

datatype completion_state = Succeeded | Failed | AwaitingReview

fun completion_row :: "completion_state \<Rightarrow> string \<times> string \<times> string \<times> string option" where
  "completion_row Succeeded = (''succeeded'', ''finished'', ''run_succeeded'', None)"
| "completion_row Failed = (''failed'', ''ready'', ''run_failed'', Some ''Run failed'')"
| "completion_row AwaitingReview = (''awaiting_review'', ''ready'', ''run_awaiting_review'',
     Some ''Checklist incomplete; continuation or review required'')"

definition finish_run :: "env \<Rightarrow> string \<Rightarrow> completion_state \<Rightarrow> db \<Rightarrow> unit result \<times> db" where
  "finish_run e i st d =
     (case completion_row st of (run_st, plan_st, kind, err) \<Rightarrow>
      case run_context d i of
        None \<Rightarrow> (Err ''Plan run not found'', d)
      | Some (plan_id, from_run, from_plan) \<Rightarrow>
          (if from_run = run_st \<and> from_plan = plan_st then (Ok (), d)
           else
             (let d1 = set_runs (\<lambda>r. r_id r = i)
                    (\<lambda>r. r\<lparr>r_status := run_st, r_error := err,
                       r_finished_at := coalesce_opt (r_finished_at r) (Some (e_secs e 0))\<rparr>) d;
                  d2 = set_plans (\<lambda>p. pl_id p = plan_id)
                    (\<lambda>p. p\<lparr>pl_status := plan_st, pl_updated_at := e_secs e 1\<rparr>) d1
              in commit_or_rollback d
                   (record_event (e_millis e 0) (e_secs e 2)
                      \<lparr>es_run = Some i, es_plan = plan_id, es_chat = None, es_kind = kind,
                       es_from_run = Some from_run, es_to_run = Some run_st,
                       es_from_plan = Some from_plan, es_to_plan = Some plan_st\<rparr> d2))))"

definition user_stop :: "env \<Rightarrow> string \<Rightarrow> bool \<Rightarrow> db \<Rightarrow> unit result \<times> db" where
  "user_stop e i cancel_plan d =
     (case run_context d i of
        None \<Rightarrow> (Err ''Plan run not found'', d)
      | Some (plan_id, from_run, from_plan) \<Rightarrow>
          (let plan_st = (if cancel_plan then ''cancelled'' else ''ready'')
           in if from_run = ''cancelled'' \<and> from_plan = plan_st then (Ok (), d)
              else
                (let d1 = set_runs (\<lambda>r. r_id r = i)
                       (\<lambda>r. r\<lparr>r_status := ''cancelled'', r_error := Some ''Cancelled by user'',
                          r_finished_at := coalesce_opt (r_finished_at r) (Some (e_secs e 0))\<rparr>) d;
                     d2 = set_plans (\<lambda>p. pl_id p = plan_id)
                       (\<lambda>p. p\<lparr>pl_status := plan_st, pl_updated_at := e_secs e 1\<rparr>) d1
                 in commit_or_rollback d
                      (record_event (e_millis e 0) (e_secs e 2)
                         \<lparr>es_run = Some i, es_plan = plan_id, es_chat = None, es_kind = ''user_stop'',
                          es_from_run = Some from_run, es_to_run = Some ''cancelled'',
                          es_from_plan = Some from_plan, es_to_plan = Some plan_st\<rparr> d2))))"

definition newest_run :: "(run_row \<Rightarrow> bool) \<Rightarrow> db \<Rightarrow> run_row option" where
  "newest_run P d = head_opt (order_desc r_created_at (filter P (runs d)))"

definition fail_linked_chat :: "env \<Rightarrow> string \<Rightarrow> string \<Rightarrow> db \<Rightarrow> bool result \<times> db" where
  "fail_linked_chat e chat err d =
     (case newest_run (\<lambda>r. r_chat r = Some chat \<and> run_active (r_status r)) d of
        None \<Rightarrow> (Ok False, d)
      | Some r \<Rightarrow>
          (case kickoff_failed e (r_id r) err d of
             (Inl err', d') \<Rightarrow> (Err err', d')
           | (Inr _, d') \<Rightarrow> (Ok True, d')))"

subsection \<open>Chat state\<close>

definition set_chat_state :: "env \<Rightarrow> string \<Rightarrow> string \<Rightarrow> string \<Rightarrow> db \<Rightarrow> unit result \<times> db" where
  "set_chat_state e chat st kind d =
     (if map_option c_run_state (lookup_by c_id chat (chats d)) = Some st then (Ok (), d)
      else
        (let d1 = set_chats (\<lambda>c. c_id c = chat) (\<lambda>c. c\<lparr>c_run_state := st, c_updated_at := e_millis e 0\<rparr>) d;
             linked = newest_run (\<lambda>r. r_chat r = Some chat \<and> r_status r = ''running'' \<and> plan_exists d (r_plan_id r)) d1
         in case linked of
              None \<Rightarrow> (Ok (), d1)
            | Some r \<Rightarrow>
                (case lookup_by pl_id (r_plan_id r) (plans d1) of
                   None \<Rightarrow> (Ok (), d1)
                 | Some p \<Rightarrow>
                     commit_or_rollback d
                       (record_event (e_millis e 1) (e_secs e 0)
                          \<lparr>es_run = Some (r_id r), es_plan = r_plan_id r, es_chat = Some chat, es_kind = kind,
                           es_from_run = Some (r_status r), es_to_run = Some (r_status r),
                           es_from_plan = Some (pl_status p), es_to_plan = Some (pl_status p)\<rparr> d1))))"

definition chat_running :: "env \<Rightarrow> string \<Rightarrow> db \<Rightarrow> unit result \<times> db" where
  "chat_running e chat = set_chat_state e chat ''running'' ''chat_running''"

definition chat_needs_input :: "env \<Rightarrow> string \<Rightarrow> db \<Rightarrow> unit result \<times> db" where
  "chat_needs_input e chat = set_chat_state e chat ''needs_input'' ''chat_needs_input''"

subsection \<open>Reconciling stale owners\<close>

definition chat_live :: "db \<Rightarrow> string option \<Rightarrow> bool" where
  "chat_live d chat =
     (case chat of
        None \<Rightarrow> False
      | Some c \<Rightarrow>
          (case lookup_by c_id c (chats d) of
             None \<Rightarrow> False
           | Some row \<Rightarrow> c_run_state row = ''running'' \<or> c_run_state row = ''needs_input''))"

definition chat_state_or_missing :: "db \<Rightarrow> string option \<Rightarrow> string" where
  "chat_state_or_missing d chat =
     (case chat of
        None \<Rightarrow> ''missing''
      | Some c \<Rightarrow> coalesce (map_option c_run_state (lookup_by c_id c (chats d))) ''missing'')"

text \<open>\<open>(?n IS NULL OR column = ?n)\<close>.\<close>

definition in_scope :: "string option \<Rightarrow> string \<Rightarrow> bool" where
  "in_scope s v \<longleftrightarrow> s = None \<or> s = Some v"

definition project_of_session :: "db \<Rightarrow> string \<Rightarrow> string option" where
  "project_of_session d i = map_option ss_project_path (session_get d i)"

definition stale_row :: "string option \<Rightarrow> string option \<Rightarrow> db \<Rightarrow> run_row \<Rightarrow> bool" where
  "stale_row session project d r \<longleftrightarrow>
     r_status r = ''running'' \<and> r_kind r = ''native'' \<and> in_scope session (r_session_id r) \<and>
     (case lookup_by pl_id (r_plan_id r) (plans d) of
        None \<Rightarrow> False
      | Some p \<Rightarrow>
          (case project_of_session d (pl_session_id p) of
             None \<Rightarrow> False
           | Some path \<Rightarrow> in_scope project path)) \<and>
     \<not> chat_live d (r_chat r)"

definition reconcile_reason :: "db \<Rightarrow> run_row \<Rightarrow> string" where
  "reconcile_reason d r =
     (let st = chat_state_or_missing d (r_chat r)
      in if st = ''missing'' then ''Linked chat is unavailable'' else ''Linked chat was '' @ st)"

definition reconcile_one :: "env \<Rightarrow> nat \<Rightarrow> db \<Rightarrow> run_row \<Rightarrow> db \<Rightarrow> unit result \<times> db" where
  "reconcile_one e k d0 r d =
     record_event (e_millis e k) (e_secs e (2 * k + 1))
       \<lparr>es_run = Some (r_id r), es_plan = r_plan_id r, es_chat = r_chat r,
        es_kind = ''owner_reconciled'', es_from_run = Some (r_status r),
        es_to_run = Some ''awaiting_review'',
        es_from_plan = map_option pl_status (lookup_by pl_id (r_plan_id r) (plans d0)),
        es_to_plan = Some ''ready''\<rparr>
       (set_runs (\<lambda>x. r_id x = r_id r)
          (\<lambda>x. x\<lparr>r_status := ''awaiting_review'', r_error := Some (reconcile_reason d0 r),
             r_finished_at := coalesce_opt (r_finished_at x) (Some (e_secs e (2 * k)))\<rparr>) d)"

fun reconcile_rows :: "env \<Rightarrow> nat \<Rightarrow> db \<Rightarrow> run_row list \<Rightarrow> db \<Rightarrow> unit result \<times> db" where
  "reconcile_rows e k d0 [] d = (Ok (), d)"
| "reconcile_rows e k d0 (r # rs) d =
     (case reconcile_one e k d0 r d of
        (Inl err, d') \<Rightarrow> (Err err, d')
      | (Inr _, d') \<Rightarrow> reconcile_rows e (Suc k) d0 rs d')"

definition has_live_owner :: "db \<Rightarrow> string \<Rightarrow> bool" where
  "has_live_owner d plan_id \<longleftrightarrow>
     (\<exists>r \<in> set (runs d). r_plan_id r = plan_id \<and> run_active (r_status r) \<and>
        (r_kind r \<noteq> ''native'' \<or> chat_live d (r_chat r)))"

definition release_plan :: "string option \<Rightarrow> string option \<Rightarrow> db \<Rightarrow> plan_row \<Rightarrow> bool" where
  "release_plan session project d p \<longleftrightarrow>
     pl_status p = ''running'' \<and> in_scope session (pl_session_id p) \<and>
     (project = None \<or> pl_session_id p \<in> set (map ss_id (filter (\<lambda>s. project = Some (ss_project_path s)) (sessions d)))) \<and>
     \<not> has_live_owner d (pl_id p)"

definition reconcile_stale_owners ::
  "env \<Rightarrow> string option \<Rightarrow> string option \<Rightarrow> db \<Rightarrow> string list result \<times> db" where
  "reconcile_stale_owners e session project d =
     (let stale = filter (stale_row session project d) (runs d)
      in commit_or_rollback d
           (case reconcile_rows e 0 d stale d of
              (Inl err, d1) \<Rightarrow> (Err err, d1)
            | (Inr _, d1) \<Rightarrow>
                (let d2 = set_plans (release_plan session project d1)
                       (\<lambda>p. p\<lparr>pl_status := ''ready'', pl_updated_at := e_secs e (2 * length stale)\<rparr>) d1
                 in (Ok (map r_id stale), d2))))"

subsection \<open>Restart\<close>

definition startup_event :: "int \<Rightarrow> db \<Rightarrow> run_row \<Rightarrow> event_row list" where
  "startup_event now d r =
     (if run_active (r_status r)
      then (case lookup_by pl_id (r_plan_id r) (plans d) of
              None \<Rightarrow> []
            | Some p \<Rightarrow> [\<lparr>le_id = ''startup-reconcile-'' @ r_id r, le_run = Some (r_id r), le_plan = r_plan_id r,
                le_chat = r_chat r, le_kind = ''restart_reconciled'', le_from_run = Some (r_status r),
                le_to_run = Some ''awaiting_review'', le_from_plan = Some (pl_status p),
                le_to_plan = Some ''ready'', le_created_at = now\<rparr>])
      else [])"

text \<open>\<open>INSERT OR IGNORE\<close>: a row whose key is taken is skipped.\<close>

definition insert_or_ignore :: "event_row \<Rightarrow> event_row list \<Rightarrow> event_row list" where
  "insert_or_ignore v vs = (if le_id v \<in> set (map le_id vs) then vs else vs @ [v])"

definition startup_reconcile :: "int \<Rightarrow> db \<Rightarrow> db" where
  "startup_reconcile now d =
     (let d1 = d\<lparr>pipeline_statuses := map (\<lambda>s. if run_active s then ''failed'' else s) (pipeline_statuses d)\<rparr>;
          d2 = d1\<lparr>events := fold insert_or_ignore (concat (map (startup_event now d1) (runs d1))) (events d1)\<rparr>;
          d3 = set_runs (\<lambda>r. run_active (r_status r))
                 (\<lambda>r. r\<lparr>r_status := ''awaiting_review'',
                    r_error := Some ''restart: execution owner unavailable; continuation required'',
                    r_finished_at := coalesce_opt (r_finished_at r) (Some now)\<rparr>) d2
      in set_plans (\<lambda>p. pl_status p = ''running'' \<and>
             \<not> (\<exists>r \<in> set (runs d3). r_plan_id r = pl_id p \<and> run_active (r_status r)))
           (\<lambda>p. p\<lparr>pl_status := ''ready'', pl_updated_at := now\<rparr>) d3)"

text \<open>The launch sweep on chats, runs and plans; \<open>sweep_transcript\<close> is what it does to the transcript.\<close>

definition sweep_interrupted_runs :: "env \<Rightarrow> db \<Rightarrow> db" where
  "sweep_interrupted_runs e d =
     (let d1 = set_chats (\<lambda>c. c_run_state c = ''running'' \<or> c_run_state c = ''needs_input'')
                 (\<lambda>c. c\<lparr>c_run_state := ''interrupted''\<rparr>) d
      in snd (reconcile_stale_owners e None None d1))"

subsection \<open>The invariant\<close>

text \<open>
  Keys are unique and references resolve (\<open>wf_db\<close>); a run's timestamps fit its status (\<open>run_ok\<close>): a
  running run has started, is not finished and carries no error, a pending one has not started, a
  settled one has a finish time; statuses are ones the enums print, and \<open>paused\<close> is never written.
\<close>

definition wf_db :: "db \<Rightarrow> bool" where
  "wf_db d \<longleftrightarrow>
     distinct (map pl_id (plans d)) \<and> distinct (map r_id (runs d)) \<and> distinct (map le_id (events d)) \<and>
     (\<forall>p \<in> set (plans d). session_exists d (pl_session_id p)) \<and>
     (\<forall>r \<in> set (runs d). plan_exists d (r_plan_id r) \<and> session_exists d (r_session_id r)) \<and>
     (\<forall>v \<in> set (events d). plan_exists d (le_plan v) \<and> (\<forall>i. le_run v = Some i \<longrightarrow> run_exists d i))"

definition run_ok :: "run_row \<Rightarrow> bool" where
  "run_ok r \<longleftrightarrow>
     (run_active (r_status r) \<or> run_terminal (r_status r)) \<and>
     (r_status r = ''running'' \<longrightarrow> r_started_at r \<noteq> None \<and> r_finished_at r = None \<and> r_error r = None) \<and>
     (r_status r = ''pending'' \<longrightarrow> r_started_at r = None \<and> r_finished_at r = None) \<and>
     (run_terminal (r_status r) \<longrightarrow> r_finished_at r \<noteq> None)"

definition plan_ok :: "plan_row \<Rightarrow> bool" where
  "plan_ok p \<longleftrightarrow> pl_status p \<in> {''draft'', ''openspec'', ''ready'', ''running'', ''finished'', ''cancelled''}"

definition lifecycle_inv :: "db \<Rightarrow> bool" where
  "lifecycle_inv d \<longleftrightarrow> wf_db d \<and> (\<forall>r \<in> set (runs d). run_ok r) \<and> (\<forall>p \<in> set (plans d). plan_ok p)"

lemma ball_upd_where:
  "(\<forall>x \<in> set (upd_where P f xs). Q x) \<longleftrightarrow> (\<forall>x \<in> set xs. Q (if P x then f x else x))"
  by (auto simp: set_upd_where)

lemma exists_set_runs [simp]:
  "plan_exists (set_runs P f d) i = plan_exists d i" "session_exists (set_runs P f d) i = session_exists d i"
  by (simp_all add: set_runs_def plan_exists_def session_exists_def)

lemma exists_set_plans [simp]:
  "run_exists (set_plans P f d) i = run_exists d i" "session_exists (set_plans P f d) i = session_exists d i"
  by (simp_all add: set_plans_def run_exists_def session_exists_def)

lemma exists_set_chats [simp]:
  "run_exists (set_chats P f d) i = run_exists d i" "session_exists (set_chats P f d) i = session_exists d i"
  "plan_exists (set_chats P f d) i = plan_exists d i"
  by (simp_all add: set_chats_def run_exists_def session_exists_def plan_exists_def)

lemma table_frames [simp]:
  "plans (set_runs P f d) = plans d" "events (set_runs P f d) = events d" "chats (set_runs P f d) = chats d"
  "sessions (set_runs P f d) = sessions d" "runs (set_runs P f d) = upd_where P f (runs d)"
  "plans (set_plans Q g d) = upd_where Q g (plans d)" "events (set_plans Q g d) = events d"
  "chats (set_plans Q g d) = chats d" "sessions (set_plans Q g d) = sessions d" "runs (set_plans Q g d) = runs d"
  "plans (set_chats C h d) = plans d" "events (set_chats C h d) = events d" "runs (set_chats C h d) = runs d"
  "chats (set_chats C h d) = upd_where C h (chats d)" "sessions (set_chats C h d) = sessions d"
  "event_seq (set_runs P f d) = event_seq d" "event_seq (set_plans Q g d) = event_seq d"
  "event_seq (set_chats C h d) = event_seq d"
  by (simp_all add: set_runs_def set_plans_def set_chats_def)

lemma plan_exists_set_plans: "(\<And>p. pl_id (f p) = pl_id p) \<Longrightarrow> plan_exists (set_plans P f d) i = plan_exists d i"
  by (simp add: plan_exists_def map_key_upd_where)

lemma run_exists_set_runs: "(\<And>r. r_id (f r) = r_id r) \<Longrightarrow> run_exists (set_runs P f d) i = run_exists d i"
  by (simp add: run_exists_def map_key_upd_where)

lemma inv_set_runs:
  assumes "lifecycle_inv d"
    and "\<And>r. r_id (f r) = r_id r" "\<And>r. r_plan_id (f r) = r_plan_id r" "\<And>r. r_session_id (f r) = r_session_id r"
    and "\<And>r. run_ok r \<Longrightarrow> P r \<Longrightarrow> run_ok (f r)"
  shows "lifecycle_inv (set_runs P f d)"
  using assms by (simp add: lifecycle_inv_def wf_db_def map_key_upd_where run_exists_set_runs ball_upd_where)

lemma inv_set_plans:
  assumes "lifecycle_inv d"
    and "\<And>p. pl_id (f p) = pl_id p" "\<And>p. pl_session_id (f p) = pl_session_id p" "\<And>p. plan_ok (f p)"
  shows "lifecycle_inv (set_plans P f d)"
  using assms by (simp add: lifecycle_inv_def wf_db_def map_key_upd_where plan_exists_set_plans ball_upd_where)

lemma inv_set_chats: "lifecycle_inv d \<Longrightarrow> lifecycle_inv (set_chats P f d)"
  by (simp add: lifecycle_inv_def wf_db_def)

lemma exists_event_update [simp]:
  "plan_exists (event_seq_update f d) i = plan_exists d i" "run_exists (event_seq_update f d) i = run_exists d i"
  "session_exists (event_seq_update f d) i = session_exists d i"
  "plan_exists (events_update g d) i = plan_exists d i" "run_exists (events_update g d) i = run_exists d i"
  "session_exists (events_update g d) i = session_exists d i"
  by (simp_all add: plan_exists_def run_exists_def session_exists_def)

lemma inv_seq: "lifecycle_inv (event_seq_update f d) = lifecycle_inv d"
  by (simp add: lifecycle_inv_def wf_db_def)

lemma event_of_simps [simp]:
  "le_id (event_of m k n s) = event_id m n" "le_run (event_of m k n s) = es_run s"
  "le_plan (event_of m k n s) = es_plan s" "le_chat (event_of m k n s) = es_chat s"
  "le_kind (event_of m k n s) = es_kind s" "le_to_run (event_of m k n s) = es_to_run s"
  "le_from_run (event_of m k n s) = es_from_run s" "le_from_plan (event_of m k n s) = es_from_plan s"
  "le_to_plan (event_of m k n s) = es_to_plan s"
  by (simp_all add: event_of_def)

lemma record_event_cases:
  obtains (failed) err where "record_event m k s d = (Inl err, d\<lparr>event_seq := Suc (event_seq d)\<rparr>)"
  | (recorded) "record_event m k s d =
        (Inr (), d\<lparr>event_seq := Suc (event_seq d), events := events d @ [event_of m k (event_seq d) s]\<rparr>)"
      "event_id m (event_seq d) \<notin> le_id ` set (events d)"
      "plan_exists d (es_plan s)" "\<And>i. es_run s = Some i \<Longrightarrow> run_exists d i"
proof (cases "insert_checked le_id ''plan_lifecycle_events''
    (plan_exists d (es_plan s) \<and> (case es_run s of None \<Rightarrow> True | Some i \<Rightarrow> run_exists d i))
    (event_of m k (event_seq d) s) (events d)")
  case (Inl err)
  then show ?thesis by (intro failed) (simp add: record_event_def)
next
  case (Inr vs)
  then have "vs = events d @ [event_of m k (event_seq d) s]" "event_id m (event_seq d) \<notin> le_id ` set (events d)"
    "plan_exists d (es_plan s)" "case es_run s of None \<Rightarrow> True | Some i \<Rightarrow> run_exists d i"
    by (simp_all add: insert_checked_Ok)
  with Inr show ?thesis by (intro recorded) (simp_all add: record_event_def)
qed

lemma inv_record_event: "lifecycle_inv d \<Longrightarrow> lifecycle_inv (snd (record_event m k s d))"
proof (cases rule: record_event_cases [of m k s d])
  case (failed err)
  moreover assume "lifecycle_inv d"
  ultimately show ?thesis by (simp add: inv_seq)
next
  case recorded
  moreover assume "lifecycle_inv d"
  ultimately show ?thesis by (auto simp: lifecycle_inv_def wf_db_def)
qed

lemma inv_commit:
  "lifecycle_inv d \<Longrightarrow> lifecycle_inv (snd r) \<Longrightarrow> lifecycle_inv (snd (commit_or_rollback d r))"
  by (cases r) (auto simp: commit_or_rollback_def inv_seq split: sum.splits)

lemma commit_simps [simp]:
  "commit_or_rollback d (Inr x, d') = (Ok x, d')"
  "commit_or_rollback d (Inl err, d') = (Err err, d\<lparr>event_seq := event_seq d'\<rparr>)"
  by (simp_all add: commit_or_rollback_def)

lemma plan_ok_status [simp]: "plan_ok (p\<lparr>pl_status := s, pl_updated_at := t\<rparr>) \<longleftrightarrow>
   s \<in> {''draft'', ''openspec'', ''ready'', ''running'', ''finished'', ''cancelled''}"
  by (simp add: plan_ok_def)

lemmas run_ok_defs = run_ok_def run_active_def run_terminal_def


subsection \<open>Every operation keeps the invariant and only appends to the ledger\<close>

lemma inv_kickoff_started: "lifecycle_inv d \<Longrightarrow> lifecycle_inv (snd (kickoff_started e i chat d))"
  by (auto simp: kickoff_started_def Let_def run_ok_defs split: option.splits
      intro!: inv_commit inv_record_event inv_set_plans inv_set_runs)

lemma inv_kickoff_failed: "lifecycle_inv d \<Longrightarrow> lifecycle_inv (snd (kickoff_failed e i err d))"
  by (auto simp: kickoff_failed_def Let_def run_ok_defs split: option.splits
      intro!: inv_commit inv_record_event inv_set_plans inv_set_runs)

lemma inv_finish_run: "lifecycle_inv d \<Longrightarrow> lifecycle_inv (snd (finish_run e i st d))"
  by (cases st) (auto simp: finish_run_def Let_def run_ok_defs split: option.splits
      intro!: inv_commit inv_record_event inv_set_plans inv_set_runs)

lemma inv_user_stop: "lifecycle_inv d \<Longrightarrow> lifecycle_inv (snd (user_stop e i c d))"
  by (auto simp: user_stop_def Let_def run_ok_defs split: option.splits
      intro!: inv_commit inv_record_event inv_set_plans inv_set_runs)

lemma snd_fail_linked_chat:
  "snd (fail_linked_chat e c err d) =
     (case newest_run (\<lambda>r. r_chat r = Some c \<and> run_active (r_status r)) d of
        None \<Rightarrow> d | Some r \<Rightarrow> snd (kickoff_failed e (r_id r) err d))"
  by (simp add: fail_linked_chat_def split: option.splits prod.splits sum.splits)

lemma inv_fail_linked_chat: "lifecycle_inv d \<Longrightarrow> lifecycle_inv (snd (fail_linked_chat e c err d))"
  by (simp add: snd_fail_linked_chat inv_kickoff_failed split: option.splits)

lemma inv_set_chat_state: "lifecycle_inv d \<Longrightarrow> lifecycle_inv (snd (set_chat_state e c st k d))"
  by (auto simp: set_chat_state_def Let_def split: option.splits
      intro!: inv_commit inv_record_event inv_set_chats)

lemma inv_reconcile_one: "lifecycle_inv d \<Longrightarrow> lifecycle_inv (snd (reconcile_one e k d0 r d))"
  by (auto simp: reconcile_one_def run_ok_defs intro!: inv_record_event inv_set_runs)

lemma inv_reconcile_rows: "lifecycle_inv d \<Longrightarrow> lifecycle_inv (snd (reconcile_rows e k d0 rs d))"
proof (induction rs arbitrary: k d)
  case Nil
  then show ?case by simp
next
  case (Cons r rs)
  obtain res d1 where r: "reconcile_one e k d0 r d = (res, d1)" by fastforce
  with inv_reconcile_one [OF Cons.prems] have "lifecycle_inv d1" by (metis snd_conv)
  with r Cons.IH show ?case by (cases res) auto
qed

lemma inv_reconcile: "lifecycle_inv d \<Longrightarrow> lifecycle_inv (snd (reconcile_stale_owners e s p d))"
proof -
  assume inv: "lifecycle_inv d"
  obtain res d1 where r: "reconcile_rows e 0 d (filter (stale_row s p d) (runs d)) d = (res, d1)" by fastforce
  with inv_reconcile_rows [OF inv] have "lifecycle_inv d1" by (metis snd_conv)
  with inv r show ?thesis
    by (cases res) (auto simp: reconcile_stale_owners_def Let_def inv_seq intro!: inv_set_plans)
qed

lemma inv_sweep: "lifecycle_inv d \<Longrightarrow> lifecycle_inv (sweep_interrupted_runs e d)"
  by (simp add: sweep_interrupted_runs_def Let_def inv_reconcile inv_set_chats)

end
