(* ===== verification/LifecycleProps.thy ===== *)
theory LifecycleProps
  imports PlanLifecycle
begin

text \<open>
  What the lifecycle transactions guarantee: the invariant and the append-only ledger over any
  sequence of operations (an instance of \<open>ledger_machine\<close>), what each transition does to the run, the
  plan and the ledger, repetition without effect, and the state a reconciliation or a restart leaves.
\<close>

subsection \<open>The lifecycle as a machine\<close>

datatype lifecycle_op =
    KickoffStarted env string "string option"
  | KickoffFailed env string string
  | FinishRun env string completion_state
  | UserStop env string bool
  | FailLinkedChat env string string
  | ChatRunning env string
  | ChatNeedsInput env string
  | Reconcile env "string option" "string option"
  | StartupReconcile int
  | SweepInterrupted env

fun lifecycle_step :: "lifecycle_op \<Rightarrow> db \<Rightarrow> db" where
  "lifecycle_step (KickoffStarted e i c) d = snd (kickoff_started e i c d)"
| "lifecycle_step (KickoffFailed e i err) d = snd (kickoff_failed e i err d)"
| "lifecycle_step (FinishRun e i st) d = snd (finish_run e i st d)"
| "lifecycle_step (UserStop e i b) d = snd (user_stop e i b d)"
| "lifecycle_step (FailLinkedChat e c err) d = snd (fail_linked_chat e c err d)"
| "lifecycle_step (ChatRunning e c) d = snd (chat_running e c d)"
| "lifecycle_step (ChatNeedsInput e c) d = snd (chat_needs_input e c d)"
| "lifecycle_step (Reconcile e s p) d = snd (reconcile_stale_owners e s p d)"
| "lifecycle_step (StartupReconcile n) d = startup_reconcile n d"
| "lifecycle_step (SweepInterrupted e) d = sweep_interrupted_runs e d"

lemma insert_or_ignore_prefix: "prefix vs (insert_or_ignore v vs)"
  by (simp add: insert_or_ignore_def)

lemma fold_insert_or_ignore_prefix: "prefix vs (fold insert_or_ignore ws vs)"
proof (induction ws arbitrary: vs)
  case Nil
  then show ?case by simp
next
  case (Cons w ws)
  have "prefix vs (insert_or_ignore w vs)" by (rule insert_or_ignore_prefix)
  also have "prefix (insert_or_ignore w vs) (fold insert_or_ignore ws (insert_or_ignore w vs))" by (rule Cons.IH)
  finally show ?case by simp
qed

lemma fold_insert_or_ignore_distinct:
  "distinct (map le_id vs) \<Longrightarrow> distinct (map le_id (fold insert_or_ignore ws vs))"
  by (induction ws arbitrary: vs) (auto simp: insert_or_ignore_def)

lemma fold_insert_or_ignore_set: "set (fold insert_or_ignore ws vs) \<subseteq> set vs \<union> set ws"
  by (induction ws arbitrary: vs) (fastforce simp: insert_or_ignore_def split: if_splits)+

lemma startup_event_refs:
  assumes "v \<in> set (concat (map (startup_event now d) (runs d)))"
  shows "plan_exists d (le_plan v) \<and> (\<forall>i. le_run v = Some i \<longrightarrow> run_exists d i)"
  using assms
  by (auto simp: startup_event_def plan_exists_def run_exists_def split: if_splits option.splits
      dest!: lookup_by_key sym [of "Some _"])

lemma inv_append_events:
  assumes "lifecycle_inv d" and "distinct (map le_id vs)"
    and "\<And>v. v \<in> set vs \<Longrightarrow> plan_exists d (le_plan v) \<and> (\<forall>i. le_run v = Some i \<longrightarrow> run_exists d i)"
  shows "lifecycle_inv (d\<lparr>events := vs\<rparr>)"
  using assms by (auto simp: lifecycle_inv_def wf_db_def)

lemma inv_pipeline: "lifecycle_inv (pipeline_statuses_update f d) = lifecycle_inv d"
  by (simp add: lifecycle_inv_def wf_db_def plan_exists_def run_exists_def session_exists_def)

lemma inv_startup:
  assumes "lifecycle_inv d"
  shows "lifecycle_inv (startup_reconcile now d)"
proof -
  define d1 where "d1 = d\<lparr>pipeline_statuses := map (\<lambda>s. if run_active s then ''failed'' else s) (pipeline_statuses d)\<rparr>"
  define vs where "vs = fold insert_or_ignore (concat (map (startup_event now d1) (runs d1))) (events d1)"
  have i1: "lifecycle_inv d1" using assms by (simp add: d1_def inv_pipeline)
  have "lifecycle_inv (d1\<lparr>events := vs\<rparr>)"
  proof (rule inv_append_events [OF i1])
    show "distinct (map le_id vs)"
      using i1 by (simp add: vs_def lifecycle_inv_def wf_db_def fold_insert_or_ignore_distinct)
    fix v
    assume "v \<in> set vs"
    with fold_insert_or_ignore_set have "v \<in> set (events d1) \<or> v \<in> set (concat (map (startup_event now d1) (runs d1)))"
      unfolding vs_def by blast
    then show "plan_exists d1 (le_plan v) \<and> (\<forall>i. le_run v = Some i \<longrightarrow> run_exists d1 i)"
      using i1 startup_event_refs [of v now d1] by (auto simp: lifecycle_inv_def wf_db_def)
  qed
  then show ?thesis
    by (auto simp: startup_reconcile_def Let_def d1_def vs_def run_ok_defs intro!: inv_set_plans inv_set_runs)
qed

lemma lifecycle_step_inv: "lifecycle_inv d \<Longrightarrow> lifecycle_inv (lifecycle_step x d)"
  by (cases x) (simp_all add: inv_kickoff_started inv_kickoff_failed inv_finish_run inv_user_stop
      inv_fail_linked_chat inv_set_chat_state chat_running_def chat_needs_input_def inv_reconcile
      inv_startup inv_sweep)

subsection \<open>The ledger\<close>

lemma log_record_event: "prefix (events d) (events (snd (record_event m k s d)))"
  by (cases rule: record_event_cases [of m k s d]) simp_all

lemma log_commit: "prefix (events d) (events (snd r)) \<Longrightarrow> prefix (events d) (events (snd (commit_or_rollback d r)))"
  by (cases r) (auto simp: commit_or_rollback_def split: sum.splits)

lemma log_record_event_after:
  "events d' = events d \<Longrightarrow> prefix (events d) (events (snd (record_event m k s d')))"
  using log_record_event [of d' m k s] by simp

lemmas log_intros = log_commit log_record_event_after

lemma log_kickoff_started: "prefix (events d) (events (snd (kickoff_started e i c d)))"
  by (auto simp: kickoff_started_def Let_def split: option.splits intro!: log_intros)

lemma log_kickoff_failed: "prefix (events d) (events (snd (kickoff_failed e i err d)))"
  by (auto simp: kickoff_failed_def Let_def split: option.splits intro!: log_intros)

lemma log_finish_run: "prefix (events d) (events (snd (finish_run e i st d)))"
  by (auto simp: finish_run_def Let_def split: option.splits prod.splits intro!: log_intros)

lemma log_user_stop: "prefix (events d) (events (snd (user_stop e i b d)))"
  by (auto simp: user_stop_def Let_def split: option.splits intro!: log_intros)

lemma log_set_chat_state: "prefix (events d) (events (snd (set_chat_state e c st k d)))"
  by (auto simp: set_chat_state_def Let_def split: option.splits intro!: log_intros)

lemma log_reconcile_one: "prefix (events d) (events (snd (reconcile_one e k d0 r d)))"
  by (simp add: reconcile_one_def log_record_event_after)

lemma log_reconcile_rows: "prefix (events d) (events (snd (reconcile_rows e k d0 rs d)))"
proof (induction rs arbitrary: k d)
  case Nil
  then show ?case by simp
next
  case (Cons r rs)
  obtain res d1 where r: "reconcile_one e k d0 r d = (res, d1)" by fastforce
  with log_reconcile_one have "prefix (events d) (events d1)" by (metis snd_conv)
  with r Cons.IH show ?case by (cases res) (auto intro: prefix_order.trans)
qed

lemma log_reconcile: "prefix (events d) (events (snd (reconcile_stale_owners e s p d)))"
proof -
  obtain res d1 where r: "reconcile_rows e 0 d (filter (stale_row s p d) (runs d)) d = (res, d1)" by fastforce
  with log_reconcile_rows have "prefix (events d) (events d1)" by (metis snd_conv)
  with r show ?thesis by (cases res) (auto simp: reconcile_stale_owners_def Let_def)
qed

lemma log_startup: "prefix (events d) (events (startup_reconcile now d))"
  by (simp add: startup_reconcile_def Let_def fold_insert_or_ignore_prefix)

lemma log_sweep: "prefix (events d) (events (sweep_interrupted_runs e d))"
  using log_reconcile [of "set_chats P f d" for P f] by (auto simp: sweep_interrupted_runs_def Let_def)

lemma lifecycle_step_log: "prefix (events d) (events (lifecycle_step x d))"
proof (cases x)
  case (FailLinkedChat e c err)
  then show ?thesis by (simp add: snd_fail_linked_chat log_kickoff_failed split: option.splits)
qed (simp_all add: log_kickoff_started log_kickoff_failed log_finish_run log_user_stop
      log_set_chat_state chat_running_def chat_needs_input_def log_reconcile log_startup log_sweep)

interpretation lifecycle: ledger_machine lifecycle_step lifecycle_inv events
  by unfold_locales (simp_all add: lifecycle_step_inv lifecycle_step_log)

subsection \<open>What a transition does\<close>

text \<open>
  The abstract transition: an unknown run is an error; otherwise either nothing but the event counter
  changes and an error is reported, or the run and its plan stand in the target states, no other run
  or plan row is touched, and the ledger is unchanged (the pair was there already) or has one more
  row that names the run, the plan, where they came from and where they went.
\<close>

definition moves :: "db \<Rightarrow> string \<Rightarrow> string \<Rightarrow> string \<Rightarrow> string \<Rightarrow> unit result \<times> db \<Rightarrow> bool" where
  "moves d i run_st plan_st kind r \<longleftrightarrow>
     (case run_context d i of
        None \<Rightarrow> r = (Err ''Plan run not found'', d)
      | Some (plan_id, from_run, from_plan) \<Rightarrow>
          (\<exists>msg n. r = (Err msg, d\<lparr>event_seq := n\<rparr>)) \<or>
          (\<exists>d'. r = (Ok (), d') \<and> run_context d' i = Some (plan_id, run_st, plan_st) \<and>
             (\<forall>j. j \<noteq> i \<longrightarrow> lookup_by r_id j (runs d') = lookup_by r_id j (runs d)) \<and>
             (\<forall>j. j \<noteq> plan_id \<longrightarrow> lookup_by pl_id j (plans d') = lookup_by pl_id j (plans d)) \<and>
             (if from_run = run_st \<and> from_plan = plan_st then d' = d
              else \<exists>v. events d' = events d @ [v] \<and> le_run v = Some i \<and> le_plan v = plan_id \<and> le_kind v = kind \<and>
                le_from_run v = Some from_run \<and> le_to_run v = Some run_st \<and>
                le_from_plan v = Some from_plan \<and> le_to_plan v = Some plan_st)))"

lemma run_contextD:
  "run_context d i = Some (plan_id, from_run, from_plan) \<Longrightarrow>
     \<exists>r p. lookup_by r_id i (runs d) = Some r \<and> r_plan_id r = plan_id \<and> r_status r = from_run \<and>
       lookup_by pl_id plan_id (plans d) = Some p \<and> pl_status p = from_plan"
  by (auto simp: run_context_def split: option.splits)

lemma run_context_event_update [simp]:
  "run_context (event_seq_update f d) i = run_context d i" "run_context (events_update g d) i = run_context d i"
  by (auto simp: run_context_def split: option.splits)

text \<open>One transition: any run update that keeps the key and the plan and sets the target status.\<close>

lemma movesI:
  assumes ctx: "run_context d i = Some (plan_id, from_run, from_plan)"
    and f: "\<And>r. r_id (f r) = r_id r" "\<And>r. r_plan_id (f r) = r_plan_id r" "\<And>r. r_status (f r) = run_st"
    and s: "es_run s = Some i" "es_plan s = plan_id" "es_kind s = kind"
      "es_from_run s = Some from_run" "es_to_run s = Some run_st"
      "es_from_plan s = Some from_plan" "es_to_plan s = Some plan_st"
    and ne: "\<not> (from_run = run_st \<and> from_plan = plan_st)"
  shows "moves d i run_st plan_st kind
    (commit_or_rollback d (record_event m k s
       (set_plans (\<lambda>p. pl_id p = plan_id) (\<lambda>p. p\<lparr>pl_status := plan_st, pl_updated_at := t\<rparr>)
          (set_runs (\<lambda>r. r_id r = i) f d))))"
    (is "moves _ _ _ _ _ (commit_or_rollback d (record_event m k s ?d2))")
proof -
  from run_contextD [OF ctx] obtain r p where rp: "lookup_by r_id i (runs d) = Some r" "r_plan_id r = plan_id"
    "lookup_by pl_id plan_id (plans d) = Some p" by blast
  then have keys: "r_id r = i" "pl_id p = plan_id" by (auto dest: lookup_by_SomeD)
  have runs: "lookup_by r_id j (runs ?d2) = (if j = i then Some (f r) else lookup_by r_id j (runs d))" for j
    using rp keys f(1) by (auto simp: lookup_by_upd_where dest: lookup_by_SomeD split: option.splits)
      (cases "lookup_by r_id j (runs d)", auto dest: lookup_by_SomeD)
  have plans: "lookup_by pl_id j (plans ?d2) =
      (if j = plan_id then Some (p\<lparr>pl_status := plan_st, pl_updated_at := t\<rparr>) else lookup_by pl_id j (plans d))" for j
    using rp keys by (auto simp: lookup_by_upd_where)
      (cases "lookup_by pl_id j (plans d)", auto dest: lookup_by_SomeD)
  have c: "run_context ?d2 i = Some (plan_id, run_st, plan_st)"
    using runs plans rp f(2,3) by (simp add: run_context_def del: table_frames)
  show ?thesis
  proof (cases rule: record_event_cases [of m k s ?d2])
    case (failed err)
    then show ?thesis by (simp add: moves_def ctx) blast
  next
    case recorded
    then show ?thesis using c runs plans s ne by (simp add: moves_def ctx del: table_frames(5,6)) auto
  qed
qed

lemma moves_here: "run_context d i = Some (plan_id, run_st, plan_st) \<Longrightarrow> moves d i run_st plan_st kind (Ok (), d)"
  by (simp add: moves_def)

lemma moves_unknown: "run_context d i = None \<Longrightarrow> moves d i a b c (Err ''Plan run not found'', d)"
  by (simp add: moves_def)

lemma moves_OkD:
  assumes "moves d i a b c (r, d')" and "r = Ok ()"
  shows "\<exists>plan_id. run_context d' i = Some (plan_id, a, b)"
  using assms by (auto simp: moves_def split: option.splits)

lemma moves_kickoff_started: "moves d i ''running'' ''running'' ''kickoff_started'' (kickoff_started e i c d)"
proof (cases "run_context d i")
  case None
  then show ?thesis by (simp add: kickoff_started_def moves_unknown)
next
  case (Some x)
  obtain plan_id from_run from_plan where x: "x = (plan_id, from_run, from_plan)" by (cases x)
  show ?thesis
  proof (cases "from_run = ''running'' \<and> from_plan = ''running''")
    case True
    with Some x show ?thesis by (simp add: kickoff_started_def moves_here)
  next
    case False
    with Some x show ?thesis
      by (simp only: kickoff_started_def Let_def prod.case option.case if_False) (rule movesI, simp_all)
  qed
qed

lemma moves_kickoff_failed: "moves d i ''failed'' ''ready'' ''kickoff_failed'' (kickoff_failed e i err d)"
proof (cases "run_context d i")
  case None
  then show ?thesis by (simp add: kickoff_failed_def moves_unknown)
next
  case (Some x)
  obtain plan_id from_run from_plan where x: "x = (plan_id, from_run, from_plan)" by (cases x)
  show ?thesis
  proof (cases "from_run = ''failed'' \<and> from_plan = ''ready''")
    case True
    with Some x show ?thesis by (simp add: kickoff_failed_def moves_here)
  next
    case False
    with Some x show ?thesis
      by (simp only: kickoff_failed_def Let_def prod.case option.case if_False) (rule movesI, simp_all)
  qed
qed

lemma moves_finish_run:
  assumes st: "completion_row st = (run_st, plan_st, kind, err)"
  shows "moves d i run_st plan_st kind (finish_run e i st d)"
proof (cases "run_context d i")
  case None
  then show ?thesis by (simp add: finish_run_def st moves_unknown)
next
  case (Some x)
  obtain plan_id from_run from_plan where x: "x = (plan_id, from_run, from_plan)" by (cases x)
  show ?thesis
  proof (cases "from_run = run_st \<and> from_plan = plan_st")
    case True
    with Some x show ?thesis by (simp add: finish_run_def st moves_here)
  next
    case False
    with Some x show ?thesis
      by (simp only: finish_run_def st Let_def prod.case option.case if_False) (rule movesI, simp_all)
  qed
qed

lemma moves_user_stop:
  "moves d i ''cancelled'' (if cancel then ''cancelled'' else ''ready'') ''user_stop'' (user_stop e i cancel d)"
    (is "moves _ _ _ ?st _ _")
proof (cases "run_context d i")
  case None
  then show ?thesis by (simp add: user_stop_def moves_unknown)
next
  case (Some x)
  obtain plan_id from_run from_plan where x: "x = (plan_id, from_run, from_plan)" by (cases x)
  show ?thesis
  proof (cases "from_run = ''cancelled'' \<and> from_plan = ?st")
    case True
    with Some x show ?thesis by (auto simp: user_stop_def moves_here)
  next
    case False
    with Some x show ?thesis
      by (simp only: user_stop_def Let_def prod.case option.case if_False) (rule movesI, simp_all)
  qed
qed

subsection \<open>Reconciliation\<close>

definition reconciled :: "string set \<Rightarrow> run_row \<Rightarrow> run_row \<Rightarrow> bool" where
  "reconciled ids x y \<longleftrightarrow>
     (if r_id x \<in> ids
      then r_id y = r_id x \<and> r_plan_id y = r_plan_id x \<and> r_session_id y = r_session_id x \<and>
        r_kind y = r_kind x \<and> r_chat y = r_chat x \<and> r_status y = ''awaiting_review''
      else y = x)"

lemma reconciled_id: "reconciled ids x y \<Longrightarrow> r_id y = r_id x"
  by (auto simp: reconciled_def split: if_splits)

lemma reconciled_trans: "reconciled ids x y \<Longrightarrow> reconciled ids' y z \<Longrightarrow> reconciled (ids \<union> ids') x z"
  by (auto simp: reconciled_def split: if_splits)

lemma list_all2_upd_where: "(\<And>x. x \<in> set xs \<Longrightarrow> R x (if P x then f x else x)) \<Longrightarrow> list_all2 R xs (upd_where P f xs)"
  by (induction xs) auto

lemma reconcile_one_effect:
  assumes "reconcile_one e k d0 r d = (Inr u, d')"
  shows "list_all2 (reconciled {r_id r}) (runs d) (runs d') \<and> plans d' = plans d \<and> chats d' = chats d \<and>
    sessions d' = sessions d"
proof -
  obtain s d1 where d1: "d1 = set_runs (\<lambda>x. r_id x = r_id r)
      (\<lambda>x. x\<lparr>r_status := ''awaiting_review'', r_error := Some (reconcile_reason d0 r),
         r_finished_at := coalesce_opt (r_finished_at x) (Some (e_secs e (2 * k)))\<rparr>) d"
    and rec: "record_event (e_millis e k) (e_secs e (2 * k + 1)) s d1 = (Inr u, d')"
    using assms unfolding reconcile_one_def by blast
  from rec show ?thesis
    by (cases rule: record_event_cases [of "e_millis e k" "e_secs e (2 * k + 1)" s d1])
      (auto simp: d1 reconciled_def intro!: list_all2_upd_where)
qed

lemma reconcile_rows_effect:
  "reconcile_rows e k d0 rs d = (Inr u, d') \<Longrightarrow>
     list_all2 (reconciled (r_id ` set rs)) (runs d) (runs d') \<and> plans d' = plans d \<and> chats d' = chats d \<and>
     sessions d' = sessions d"
proof (induction rs arbitrary: k d)
  case Nil
  then show ?case by (auto simp: reconciled_def intro!: list_all2_refl)
next
  case (Cons r rs)
  obtain res d1 where r: "reconcile_one e k d0 r d = (res, d1)" by fastforce
  with Cons.prems obtain v where res: "res = Inr v" and rest: "reconcile_rows e (Suc k) d0 rs d1 = (Inr u, d')"
    by (cases res) auto
  from reconcile_one_effect [OF r [unfolded res]] Cons.IH [OF rest] show ?case
    by (auto elim!: list_all2_trans [rotated 1, where ?as = "runs d" and ?bs = "runs d1" and ?cs = "runs d'"]
        dest: reconciled_trans)
qed

lemma lookup_upd_session:
  "(\<And>p. pl_id (f p) = pl_id p) \<Longrightarrow> (\<And>p. pl_session_id (f p) = pl_session_id p) \<Longrightarrow>
     map_option pl_session_id (lookup_by pl_id i (upd_where P f xs)) = map_option pl_session_id (lookup_by pl_id i xs)"
  by (simp add: lookup_by_upd_where option.map_comp comp_def split: if_splits)
    (cases "lookup_by pl_id i xs", auto)

lemma chat_live_cong: "chats d' = chats d \<Longrightarrow> chat_live d' c = chat_live d c"
  by (simp add: chat_live_def split: option.splits)

lemma release_plan_cong:
  "chats d' = chats d \<Longrightarrow> sessions d' = sessions d \<Longrightarrow> runs d' = runs d \<Longrightarrow> release_plan s p d' q = release_plan s p d q"
  by (simp add: release_plan_def has_live_owner_def chat_live_cong [of d' d])

lemma reconcile_decompose:
  assumes "reconcile_stale_owners e s p d = (Ok ids, d')"
  defines "gone \<equiv> filter (stale_row s p d) (runs d)"
  obtains d1 where "list_all2 (reconciled (r_id ` set gone)) (runs d) (runs d1)" and "plans d1 = plans d"
    "chats d1 = chats d" "sessions d1 = sessions d" "ids = map r_id gone"
    "d' = set_plans (release_plan s p d1) (\<lambda>q. q\<lparr>pl_status := ''ready'', pl_updated_at := e_secs e (2 * length gone)\<rparr>) d1"
proof -
  obtain res d1 where r: "reconcile_rows e 0 d gone d = (res, d1)" by fastforce
  with assms obtain u where res: "res = Inr u"
    and "ids = map r_id gone"
    and "d' = set_plans (release_plan s p d1) (\<lambda>q. q\<lparr>pl_status := ''ready'', pl_updated_at := e_secs e (2 * length gone)\<rparr>) d1"
    by (cases res) (auto simp: reconcile_stale_owners_def Let_def)
  with reconcile_rows_effect [OF r [unfolded res]] show ?thesis by (intro that) simp_all
qed

lemma list_all2_setD2: "list_all2 R xs ys \<Longrightarrow> y \<in> set ys \<Longrightarrow> \<exists>x \<in> set xs. R x y"
  by (metis in_set_conv_nth list_all2_conv_all_nth)

lemma not_stale_after:
  assumes "list_all2 (reconciled (r_id ` set (filter (stale_row s p d) (runs d)))) (runs d) (runs d')"
    and "map_option pl_session_id (lookup_by pl_id (r_plan_id y) (plans d'))
       = map_option pl_session_id (lookup_by pl_id (r_plan_id y) (plans d))"
    and "chats d' = chats d" and "sessions d' = sessions d" and "y \<in> set (runs d')"
  shows "\<not> stale_row s p d' y"
proof
  assume gone: "stale_row s p d' y"
  obtain x where x: "x \<in> set (runs d)"
    and rel: "reconciled (r_id ` set (filter (stale_row s p d) (runs d))) x y"
    using list_all2_setD2 [OF assms(1,5)] by blast
  show False
  proof (cases "r_id x \<in> r_id ` set (filter (stale_row s p d) (runs d))")
    case True
    with rel gone show False by (simp add: reconciled_def stale_row_def)
  next
    case False
    with rel have "y = x" unfolding reconciled_def by (simp only: if_False)
    with gone assms(2-4) have "stale_row s p d x"
      by (cases "lookup_by pl_id (r_plan_id x) (plans d)")
        (auto simp: stale_row_def project_of_session_def session_get_def chat_live_cong [of d' d] split: option.splits)
    with x False show False by auto
  qed
qed

lemma commit_record_plans:
  assumes "fst (commit_or_rollback d (record_event m k s d')) = Ok ()"
  shows "plans (snd (commit_or_rollback d (record_event m k s d'))) = plans d'"
  using assms by (cases rule: record_event_cases [of m k s d']) simp_all

lemma finish_run_plans:
  assumes "fst (finish_run e i st d) = Ok ()" and "run_context d i = Some (plan_id, from_run, from_plan)"
    and "completion_row st = (run_st, plan_st, kind, err)"
  shows "plans (snd (finish_run e i st d)) =
    (if from_run = run_st \<and> from_plan = plan_st then plans d
     else upd_where (\<lambda>p. pl_id p = plan_id) (\<lambda>p. p\<lparr>pl_status := plan_st, pl_updated_at := e_secs e 1\<rparr>) (plans d))"
  using assms by (auto simp: finish_run_def Let_def commit_record_plans split: if_splits)

lemma reconcile_effect:
  assumes r: "reconcile_stale_owners e s p d = (Ok ids, d')"
  shows "ids = map r_id (filter (stale_row s p d) (runs d)) \<and>
    (\<forall>y \<in> set (runs d'). \<not> stale_row s p d' y \<and> (r_id y \<in> set ids \<longrightarrow> r_status y = ''awaiting_review'')) \<and>
    (\<forall>q \<in> set (plans d'). \<not> release_plan s p d' q) \<and>
    reconcile_stale_owners e' s p d' = (Ok [], d')"
proof -
  from r obtain d1 where l: "list_all2 (reconciled (r_id ` set (filter (stale_row s p d) (runs d)))) (runs d) (runs d1)"
    and same: "plans d1 = plans d" "chats d1 = chats d" "sessions d1 = sessions d"
    and ids: "ids = map r_id (filter (stale_row s p d) (runs d))"
    and d': "d' = set_plans (release_plan s p d1)
        (\<lambda>q. q\<lparr>pl_status := ''ready'', pl_updated_at := e_secs e (2 * length (filter (stale_row s p d) (runs d)))\<rparr>) d1"
    by (rule reconcile_decompose)
  have runs': "\<forall>y \<in> set (runs d'). \<not> stale_row s p d' y"
    using not_stale_after [of s p d d'] l same by (simp add: d' lookup_upd_session)
  have status: "\<forall>y \<in> set (runs d'). r_id y \<in> set ids \<longrightarrow> r_status y = ''awaiting_review''"
  proof (intro ballI impI)
    fix y
    assume y: "y \<in> set (runs d')" "r_id y \<in> set ids"
    from y(1) have "y \<in> set (runs d1)" by (simp add: d')
    from list_all2_setD2 [OF l this] show "r_status y = ''awaiting_review''"
      using y(2) ids by (auto simp: reconciled_def split: if_splits)
  qed
  have plans': "\<forall>q \<in> set (plans d'). \<not> release_plan s p d' q"
  proof
    fix q
    assume "q \<in> set (plans d')"
    moreover have "release_plan s p d' q = release_plan s p d1 q" by (rule release_plan_cong) (simp_all add: d')
    ultimately show "\<not> release_plan s p d' q" by (auto simp: d' set_upd_where release_plan_def)
  qed
  have "filter (stale_row s p d') (runs d') = []" using runs' by (simp add: filter_empty_conv)
  then have "reconcile_stale_owners e' s p d' = (Ok [], d')"
    using plans' by (simp add: reconcile_stale_owners_def set_plans_def upd_where_none)
  with ids runs' status plans' show ?thesis by blast
qed

subsection \<open>Properties\<close>

text \<open>
  C12: every planning-database invariant (unique keys, resolved references, timestamps that fit the run
  status, printable statuses, no run ever \<open>paused\<close>) survives any sequence of lifecycle operations,
  successful or failed, restarts included.
\<close>

theorem lifecycle_invariant_reachable:
  assumes "lifecycle_inv d"
  shows "lifecycle_inv (fold lifecycle_step ops d)"
  using assms by (rule lifecycle.run_inv)

definition env0 :: env where
  "env0 = \<lparr>e_secs = (\<lambda>k. 100 + int k), e_millis = (\<lambda>k. 5 + int k), e_nanos = (\<lambda>k. 10 + k)\<rparr>"

definition sample_plan_row :: "string \<Rightarrow> string \<Rightarrow> plan_row" where
  "sample_plan_row i st = \<lparr>pl_id = i, pl_session_id = ''s1'', pl_reference_id = ''bb-1'', pl_title = ''T'',
     pl_description = [], pl_goal = None, pl_status = st, pl_priority = 50, pl_tags = [], pl_ai_enhanced = False,
     pl_context = None, pl_idea_id = None, pl_change_name = None, pl_assessment = None, pl_created_at = 1,
     pl_updated_at = 1, pl_finished_at = None\<rparr>"

definition sample_run_row :: "string \<Rightarrow> string \<Rightarrow> string option \<Rightarrow> string \<Rightarrow> run_row" where
  "sample_run_row i pid chat st = (new_run_row i pid ''s1'' chat None ''native'' 5)\<lparr>r_status := st,
     r_started_at := (if st = ''pending'' then None else Some 6)\<rparr>"

definition sample_db :: "plan_row list \<Rightarrow> run_row list \<Rightarrow> db" where
  "sample_db ps rs = \<lparr>sessions = [\<lparr>ss_id = ''s1'', ss_project_path = ''/p''\<rparr>],
     chats = [\<lparr>c_id = ''c1'', c_project_path = ''/p'', c_run_state = ''idle'', c_updated_at = 0\<rparr>],
     plans = ps, archived = [], runs = rs, queue = [], events = [], dep_meta = [], claims = [],
     coord_events = [], profiles = [], merge_queue = [], pipeline_statuses = [],
     global_limits = conservative_limits, event_seq = 1\<rparr>"

lemmas sample_defs = sample_db_def sample_plan_row_def sample_run_row_def new_run_row_def env0_def

lemma sample_inv:
  "lifecycle_inv (sample_db [sample_plan_row ''p1'' ''running''] [sample_run_row ''r1'' ''p1'' (Some ''c1'') ''running''])"
  by (simp add: lifecycle_inv_def wf_db_def sample_defs plan_exists_def session_exists_def run_ok_defs plan_ok_def)

theorem lifecycle_invariant_reachable_witness:
  "lifecycle_inv (fold lifecycle_step [FinishRun env0 ''r1'' Succeeded, UserStop env0 ''r1'' True, StartupReconcile 9]
     (sample_db [sample_plan_row ''p1'' ''running''] [sample_run_row ''r1'' ''p1'' (Some ''c1'') ''running'']))"
  by (rule lifecycle_invariant_reachable [OF sample_inv])

text \<open>
  The lifecycle ledger is append-only: whatever operations run, in whatever order and however they
  end, every event recorded before is still there, in its place.
\<close>

theorem ledger_append_only: "prefix (events d) (events (fold lifecycle_step ops d))"
proof (induction ops arbitrary: d)
  case Nil
  then show ?case by simp
next
  case (Cons x ops)
  have "prefix (events d) (events (lifecycle_step x d))" by (rule lifecycle.step_log)
  also have "prefix (events (lifecycle_step x d)) (events (fold lifecycle_step ops (lifecycle_step x d)))"
    by (rule Cons.IH)
  finally show ?case by simp
qed

text \<open>
  C2: the four run transitions implement the abstract transition \<open>moves\<close>: all or nothing on the run,
  its plan and the ledger, with the event naming both ends, for every stored state and every outcome
  of the insert.
\<close>

theorem transitions_refine_moves:
  "moves d i ''running'' ''running'' ''kickoff_started'' (kickoff_started e i chat d) \<and>
   moves d i ''failed'' ''ready'' ''kickoff_failed'' (kickoff_failed e i msg d) \<and>
   moves d i ''succeeded'' ''finished'' ''run_succeeded'' (finish_run e i Succeeded d) \<and>
   moves d i ''failed'' ''ready'' ''run_failed'' (finish_run e i Failed d) \<and>
   moves d i ''awaiting_review'' ''ready'' ''run_awaiting_review'' (finish_run e i AwaitingReview d) \<and>
   moves d i ''cancelled'' ''cancelled'' ''user_stop'' (user_stop e i True d) \<and>
   moves d i ''cancelled'' ''ready'' ''user_stop'' (user_stop e i False d)"
  using moves_kickoff_started moves_kickoff_failed moves_finish_run [of Succeeded] moves_finish_run [of Failed]
    moves_finish_run [of AwaitingReview] moves_user_stop [of d i True] moves_user_stop [of d i False]
  by simp

text \<open>
  Completing or stopping a run is idempotent: the same request repeated at any later time succeeds
  and changes nothing, no second event and no new timestamp.
\<close>

theorem completion_idempotent:
  assumes "fst (finish_run e i st d) = Ok ()"
  shows "finish_run e' i st (snd (finish_run e i st d)) = (Ok (), snd (finish_run e i st d))"
proof -
  obtain run_st plan_st kind err where row: "completion_row st = (run_st, plan_st, kind, err)" by (cases st) auto
  have "moves d i run_st plan_st kind (Ok (), snd (finish_run e i st d))"
    using moves_finish_run [OF row, of d i e] assms by (metis prod.collapse)
  then obtain plan_id where "run_context (snd (finish_run e i st d)) i = Some (plan_id, run_st, plan_st)"
    using moves_OkD by blast
  then show ?thesis by (subst finish_run_def) (simp add: row)
qed

theorem completion_idempotent_witness:
  "finish_run env0 ''r1'' Failed (snd (finish_run env0 ''r1'' Failed
       (sample_db [sample_plan_row ''p1'' ''running''] [sample_run_row ''r1'' ''p1'' None ''running''])))
   = (Ok (), snd (finish_run env0 ''r1'' Failed
       (sample_db [sample_plan_row ''p1'' ''running''] [sample_run_row ''r1'' ''p1'' None ''running''])))"
  by (rule completion_idempotent)
    (simp add: sample_defs finish_run_def run_context_def Let_def record_event_def insert_checked_def insert_row_def
      plan_exists_def run_exists_def set_runs_def set_plans_def)

text \<open>
  C19: a reconciliation that succeeds leaves nothing to repair in its scope: no run of a native runner is
  \<open>running\<close> without a live chat, no plan in scope is \<open>running\<close> without a live owner, the runs it
  names are exactly the stale ones and they are now up for review, and running it again returns no
  run and changes nothing.
\<close>

theorem reconcile_repairs:
  assumes r: "reconcile_stale_owners e s p d = (Ok ids, d')"
  shows "ids = map r_id (filter (stale_row s p d) (runs d)) \<and>
    (\<forall>y \<in> set (runs d'). \<not> stale_row s p d' y \<and> (r_id y \<in> set ids \<longrightarrow> r_status y = ''awaiting_review'')) \<and>
    (\<forall>q \<in> set (plans d'). \<not> release_plan s p d' q) \<and>
    reconcile_stale_owners e' s p d' = (Ok [], d')"
  using reconcile_effect [OF r, of e'] .

theorem reconcile_repairs_witness:
  "reconcile_stale_owners env0 None None (snd (reconcile_stale_owners env0 None None
      (sample_db [sample_plan_row ''p1'' ''running''] [sample_run_row ''r1'' ''p1'' (Some ''c1'') ''running''])))
   = (Ok [], snd (reconcile_stale_owners env0 None None
      (sample_db [sample_plan_row ''p1'' ''running''] [sample_run_row ''r1'' ''p1'' (Some ''c1'') ''running''])))"
proof -
  let ?d = "sample_db [sample_plan_row ''p1'' ''running''] [sample_run_row ''r1'' ''p1'' (Some ''c1'') ''running'']"
  have "fst (reconcile_stale_owners env0 None None ?d) = Ok [''r1'']"
    by (simp add: sample_defs reconcile_stale_owners_def reconcile_one_def stale_row_def Let_def record_event_def
        insert_checked_def insert_row_def plan_exists_def run_exists_def set_runs_def set_plans_def chat_live_def
        in_scope_def project_of_session_def session_get_def)
  then have "reconcile_stale_owners env0 None None ?d = (Ok [''r1''], snd (reconcile_stale_owners env0 None None ?d))"
    by (metis prod.collapse)
  from reconcile_repairs [OF this] show ?thesis by blast
qed

text \<open>
  The restart migration leaves no run pending or running and no plan \<open>running\<close>, keeps every
  recorded event, and is idempotent: applying it again at any later time changes nothing.
\<close>

theorem startup_reconcile_settles:
  "(\<forall>r \<in> set (runs (startup_reconcile n d)). \<not> run_active (r_status r)) \<and>
   (\<forall>p \<in> set (plans (startup_reconcile n d)). pl_status p \<noteq> ''running'') \<and>
   startup_reconcile n' (startup_reconcile n d) = startup_reconcile n d"
proof -
  have runs: "\<forall>r \<in> set (runs (startup_reconcile n d)). \<not> run_active (r_status r)"
    by (auto simp: startup_reconcile_def Let_def set_upd_where run_active_def)
  have plans: "\<forall>p \<in> set (plans (startup_reconcile n d)). pl_status p \<noteq> ''running''"
    by (auto simp: startup_reconcile_def Let_def set_upd_where run_active_def)
  have pipe: "\<forall>s \<in> set (pipeline_statuses (startup_reconcile n d)). \<not> run_active s"
    by (auto simp: startup_reconcile_def Let_def set_runs_def set_plans_def run_active_def)
  have none: "concat (map (startup_event n' d') (runs d')) = []"
    if "\<forall>r \<in> set (runs d'). \<not> run_active (r_status r)" for d'
    using that by (simp add: startup_event_def)
  let ?d = "startup_reconcile n d"
  have p: "map (\<lambda>s. if run_active s then ''failed'' else s) (pipeline_statuses ?d) = pipeline_statuses ?d"
    using pipe by (simp add: map_idI)
  have "startup_reconcile n' ?d = ?d"
    using runs plans none [of "pipeline_statuses_update (\<lambda>_. pipeline_statuses ?d) ?d"]
    by (simp add: startup_reconcile_def [of n' ?d] Let_def p set_runs_def set_plans_def upd_where_none del: concat_eq_Nil_conv)
  with runs plans show ?thesis by blast
qed

theorem startup_reconcile_settles_witness:
  "map r_status (runs (startup_reconcile 9 (sample_db [sample_plan_row ''p1'' ''running'']
      [sample_run_row ''r1'' ''p1'' None ''running'']))) = [''awaiting_review''] \<and>
   startup_reconcile 10 (startup_reconcile 9 (sample_db [sample_plan_row ''p1'' ''running'']
      [sample_run_row ''r1'' ''p1'' None ''running'']))
   = startup_reconcile 9 (sample_db [sample_plan_row ''p1'' ''running''] [sample_run_row ''r1'' ''p1'' None ''running''])"
  using startup_reconcile_settles [of 9 "sample_db [sample_plan_row ''p1'' ''running'']
      [sample_run_row ''r1'' ''p1'' None ''running'']" 10]
  by (simp add: startup_reconcile_def Let_def sample_defs run_active_def)

text \<open>
  A run that completes moves its plan to \<open>finished\<close> without giving the plan row a finish time;
  only an explicit status change does. The plan's \<open>finished_at\<close> stays what it was.
\<close>

theorem run_completion_leaves_plan_finish_time:
  assumes "fst (finish_run e i Succeeded d) = Ok ()"
    and "run_context d i = Some (plan_id, from_run, from_plan)" and "plan_get d plan_id = Some p"
  shows "\<exists>p'. plan_get (snd (finish_run e i Succeeded d)) plan_id = Some p' \<and> p_status p' = Finished \<and>
    p_finished_at p' = p_finished_at p"
proof -
  obtain row where row: "lookup_by pl_id plan_id (plans d) = Some row" "p = row_to_plan row"
    using assms(3) by (auto simp: plan_get_def)
  then have "pl_id row = plan_id" and "from_plan = pl_status row"
    using run_contextD [OF assms(2)] by (auto dest: lookup_by_SomeD)
  with row finish_run_plans [OF assms(1,2) completion_row.simps(1)] show ?thesis
    by (auto simp: plan_get_def lookup_by_upd_where row_to_plan_def plan_status_of_def)
qed

theorem run_completion_leaves_plan_finish_time_witness:
  "\<exists>p'. plan_get (snd (finish_run env0 ''r1'' Succeeded
       (sample_db [sample_plan_row ''p1'' ''running''] [sample_run_row ''r1'' ''p1'' None ''running'']))) ''p1'' = Some p'
     \<and> p_status p' = Finished \<and> p_finished_at p' = None"
  using run_completion_leaves_plan_finish_time [of env0 "''r1''"
      "sample_db [sample_plan_row ''p1'' ''running''] [sample_run_row ''r1'' ''p1'' None ''running'']"
      "''p1''" "''running''" "''running''" "row_to_plan (sample_plan_row ''p1'' ''running'')"]
  by (simp add: sample_defs finish_run_def run_context_def Let_def record_event_def insert_checked_def insert_row_def
      plan_exists_def run_exists_def set_runs_def set_plans_def plan_get_def row_to_plan_def)

end
