(* ===== verification/PlanRuntime.thy ===== *)
theory PlanRuntime
  imports LifecycleProps
begin

text \<open>
  The process state around the database: the cancellation tokens of \<open>RUNNING_RUNS\<close>, the per-session
  queue states of \<open>QUEUE_STATE\<close>, the provider semaphores, and the messages sent to the windows, in the
  order they are sent. Here are the operations of \<open>services/plan_runner_service.rs\<close> that read or edit
  the queue and the runs, and the reads of \<open>plan_service.rs\<close> that reconcile first.
\<close>

subsection \<open>Process state\<close>

record queue_state =
  qs_paused :: bool
  qs_generation :: string
  qs_profile :: "execution_profile option"
  qs_overrides :: "string \<rightharpoonup> execution_profile"

datatype message =
    RunEvent plan_run_event
  | PlanningEvent string string string "string option" string "string option"
  | Transcript string string
  | Notice string string string "string option"

record app =
  store :: db
  tokens :: "string \<rightharpoonup> bool"
  queue_states :: "string \<rightharpoonup> queue_state"
  provider_sems :: "string \<times> string \<rightharpoonup> nat \<times> nat"
  sem_seq :: nat
  outbox :: "message list"

definition on_store :: "(db \<Rightarrow> 'a result \<times> db) \<Rightarrow> app \<Rightarrow> 'a result \<times> app" where
  "on_store f a = (case f (store a) of (r, d) \<Rightarrow> (r, a\<lparr>store := d\<rparr>))"

definition emit :: "message \<Rightarrow> app \<Rightarrow> app" where
  "emit m a = a\<lparr>outbox := outbox a @ [m]\<rparr>"

subsection \<open>Reconciling reads\<close>

text \<open>The owners' tokens are taken out of the table and cancelled only after the commit.\<close>

definition reconcile_owners :: "env \<Rightarrow> string option \<Rightarrow> string option \<Rightarrow> app \<Rightarrow> nat result \<times> app" where
  "reconcile_owners e session project a =
     (case on_store (reconcile_stale_owners e session project) a of
        (Inl err, a') \<Rightarrow> (Err err, a')
      | (Inr stale_ids, a') \<Rightarrow>
          (Ok (length stale_ids), a'\<lparr>tokens := (tokens a') |` (- set stale_ids)\<rparr>))"

definition reconciled_read :: "env \<Rightarrow> string option \<Rightarrow> string option \<Rightarrow> (db \<Rightarrow> 'a) \<Rightarrow> app \<Rightarrow> 'a result \<times> app" where
  "reconciled_read e session project q a =
     (case reconcile_owners e session project a of
        (Inl err, a') \<Rightarrow> (Err err, a')
      | (Inr _, a') \<Rightarrow> (Ok (q (store a')), a'))"

definition plan_list :: "env \<Rightarrow> string \<Rightarrow> app \<Rightarrow> plan list result \<times> app" where
  "plan_list e session_id = reconciled_read e (Some session_id) None (list_plan_rows session_id)"

definition plan_list_for_project :: "env \<Rightarrow> string \<Rightarrow> app \<Rightarrow> plan list result \<times> app" where
  "plan_list_for_project e project = reconciled_read e None (Some project) (list_project_plan_rows project)"

definition select_runs :: "(run_row \<Rightarrow> bool) \<Rightarrow> db \<Rightarrow> plan_run list" where
  "select_runs P d = map map_run (order_desc r_created_at (filter P (runs d)))"

definition list_runs :: "env \<Rightarrow> string \<Rightarrow> app \<Rightarrow> plan_run list result \<times> app" where
  "list_runs e session_id = reconciled_read e (Some session_id) None (select_runs (\<lambda>r. r_session_id r = session_id))"

definition list_runs_for_project :: "env \<Rightarrow> string \<Rightarrow> app \<Rightarrow> plan_run list result \<times> app" where
  "list_runs_for_project e project = reconciled_read e None (Some project)
     (\<lambda>d. select_runs (\<lambda>r.
        r_session_id r \<in> set (map ss_id (filter (\<lambda>s. ss_project_path s = project) (sessions d)))
        \<or> r_session_id r \<in> set (map c_id (filter (\<lambda>c. c_project_path c = project) (chats d)))) d)"

definition list_runs_by_plan :: "env \<Rightarrow> string \<Rightarrow> app \<Rightarrow> plan_run list result \<times> app" where
  "list_runs_by_plan e plan_id = reconciled_read e None None (select_runs (\<lambda>r. r_plan_id r = plan_id))"

subsection \<open>The queue\<close>

definition next_order :: "string \<Rightarrow> db \<Rightarrow> int" where
  "next_order session_id d =
     (case map q_sort_order (filter (\<lambda>q. q_session_id q = session_id) (queue d)) of
        [] \<Rightarrow> - 1 | x # xs \<Rightarrow> foldl max x xs) + 1"

definition enqueue :: "env \<Rightarrow> string \<Rightarrow> string \<Rightarrow> db \<Rightarrow> queue_entry result \<times> db" where
  "enqueue e session_id plan_id d =
     (if is_blank session_id then (Err ''Session id is required.'', d)
      else if is_blank plan_id then (Err ''Plan id is required.'', d)
      else
        (let entry = \<lparr>q_id = gen_id (e_nanos e 0), q_session_id = session_id, q_plan_id = plan_id,
               q_sort_order = next_order session_id d, q_created_at = e_secs e 0\<rparr>
         in case insert_checked q_id ''plan_queue'' (session_exists d session_id \<and> plan_exists d plan_id)
                   entry (queue d) of
              Inl err \<Rightarrow> (Err (''Failed to enqueue plan: '' @ err), d)
            | Inr qs \<Rightarrow> (Ok entry, d\<lparr>queue := qs\<rparr>)))"

definition list_queue :: "string \<Rightarrow> db \<Rightarrow> queue_entry list" where
  "list_queue session_id d = order_asc q_sort_order (filter (\<lambda>q. q_session_id q = session_id) (queue d))"

definition reorder :: "string \<Rightarrow> string \<Rightarrow> int \<Rightarrow> db \<Rightarrow> db" where
  "reorder session_id entry_id new_order d =
     d\<lparr>queue := upd_where (\<lambda>q. q_id q = entry_id \<and> q_session_id q = session_id)
                 (\<lambda>q. q\<lparr>q_sort_order := new_order\<rparr>) (queue d)\<rparr>"

definition remove_from_queue :: "string \<Rightarrow> db \<Rightarrow> db" where
  "remove_from_queue entry_id d = d\<lparr>queue := filter (\<lambda>q. q_id q \<noteq> entry_id) (queue d)\<rparr>"

definition effective_queue_concurrency :: "u32 \<Rightarrow> bool \<Rightarrow> u32" where
  "effective_queue_concurrency requested worktrees_enabled =
     (if worktrees_enabled then max requested 1 else 1)"

text \<open>
  Starting a queue stores its state and hands the dispatcher thread its concurrency and generation.
  Later overrides of the same plan replace earlier ones.
\<close>

definition start_queue :: "env \<Rightarrow> (string \<Rightarrow> bool) \<Rightarrow> start_queue_request \<Rightarrow> app \<Rightarrow> (u32 \<times> string) \<times> app" where
  "start_queue e worktrees_enabled rq a =
     (let overrides = map_of (rev (map (\<lambda>v. (ov_plan_id v,
            \<lparr>ep_concurrency = ep_concurrency (sq_profile rq), ep_provider_id = ov_provider_id v,
             ep_model_id = ov_model_id v, ep_effort = ov_effort v\<rparr>)) (coalesce (sq_overrides rq) [])));
          generation = gen_id (e_nanos e 0);
          a' = a\<lparr>queue_states := (queue_states a)(sq_session_id rq \<mapsto>
                 \<lparr>qs_paused = False, qs_generation = generation, qs_profile = Some (sq_profile rq),
                  qs_overrides = overrides\<rparr>)\<rparr>;
          project = coalesce (map_option ss_project_path (session_get (store a) (sq_session_id rq))) []
      in ((effective_queue_concurrency (ep_concurrency (sq_profile rq)) (worktrees_enabled project), generation), a'))"

definition pause_queue :: "string \<Rightarrow> app \<Rightarrow> app" where
  "pause_queue session_id a =
     a\<lparr>queue_states := (case queue_states a session_id of
        None \<Rightarrow> queue_states a
      | Some q \<Rightarrow> (queue_states a)(session_id \<mapsto> q\<lparr>qs_paused := True\<rparr>))\<rparr>"

text \<open>The dispatcher's view of its queue: whether its generation is current, and whether it is paused.\<close>

definition queue_status :: "string \<Rightarrow> string \<Rightarrow> app \<Rightarrow> bool \<times> bool" where
  "queue_status session_id generation a =
     (case queue_states a session_id of
        None \<Rightarrow> (False, True)
      | Some q \<Rightarrow> (qs_generation q = generation, qs_paused q))"

definition default_profile :: execution_profile where
  "default_profile = \<lparr>ep_concurrency = 1, ep_provider_id = [], ep_model_id = [], ep_effort = None\<rparr>"

definition queue_profile :: "string \<Rightarrow> string \<Rightarrow> app \<Rightarrow> execution_profile" where
  "queue_profile session_id plan_id a =
     coalesce (case queue_states a session_id of
        None \<Rightarrow> None
      | Some q \<Rightarrow> coalesce_opt (qs_overrides q plan_id) (qs_profile q)) default_profile"

subsection \<open>Provider semaphores\<close>

text \<open>
  A semaphore is its limit and its identity. It is shared while the effective limit of the provider
  stays the same and replaced when it changes.
\<close>

definition provider_semaphore ::
  "concurrency_entry option \<Rightarrow> string \<Rightarrow> string \<Rightarrow> app \<Rightarrow> (nat \<times> nat) \<times> app" where
  "provider_semaphore effective project provider a =
     (let limit = provider_limit (coalesce effective default_concurrency_entry);
          fresh = (let s = (limit, sem_seq a)
                   in (s, a\<lparr>provider_sems := (provider_sems a)((project, provider) \<mapsto> s), sem_seq := Suc (sem_seq a)\<rparr>))
      in case provider_sems a (project, provider) of
           Some s \<Rightarrow> if fst s = limit then (s, a) else fresh
         | None \<Rightarrow> fresh)"

end
