(* ===== verification/CycleSearch.thy ===== *)
theory CycleSearch
  imports Prelude
begin

text \<open>
  The depth-first search of \<open>PlanDependencyService::detect_cycles\<close>
  (\<open>services/plan_dependency_service.rs\<close>), over the prerequisite lists as a successor function. The
  recursion carries fuel: one unit per nested call. \<open>dfs_enough\<close> shows that one more unit than there
  are plans with prerequisites always suffices, so \<open>detect_cycles\<close> never runs out. The search is sound
  (\<open>dfs_sound\<close>: each report is a cycle) and complete for acyclicity (\<open>dfs_black\<close>: without a report no
  visited plan is on a cycle).
\<close>

type_synonym graph = "string \<Rightarrow> string list"

record dfs_state =
  visited :: "string set"
  rec_stack :: "string list"
  in_stack :: "string set"
  found :: "string list list"

text \<open>A back edge reports the stack from the first occurrence of its target on.\<close>

definition report_cycle :: "string \<Rightarrow> dfs_state \<Rightarrow> dfs_state" where
  "report_cycle x s =
     (let cycle = dropWhile (\<lambda>y. y \<noteq> x) (rec_stack s)
      in if cycle = [] then s else s\<lparr>found := found s @ [cycle]\<rparr>)"

definition enter :: "string \<Rightarrow> dfs_state \<Rightarrow> dfs_state" where
  "enter x s = s\<lparr>visited := insert x (visited s), in_stack := insert x (in_stack s), rec_stack := rec_stack s @ [x]\<rparr>"

definition leave :: "string \<Rightarrow> dfs_state \<Rightarrow> dfs_state" where
  "leave x s = s\<lparr>rec_stack := butlast (rec_stack s), in_stack := in_stack s - {x}\<rparr>"

fun dfs :: "nat \<Rightarrow> graph \<Rightarrow> string \<Rightarrow> dfs_state \<Rightarrow> dfs_state option"
  and dfs_all :: "nat \<Rightarrow> graph \<Rightarrow> string list \<Rightarrow> dfs_state \<Rightarrow> dfs_state option" where
  "dfs 0 g x s = None"
| "dfs (Suc n) g x s =
     (if x \<in> in_stack s then Some (report_cycle x s)
      else if x \<in> visited s then Some s
      else map_option (leave x) (dfs_all n g (g x) (enter x s)))"
| "dfs_all n g [] s = Some s"
| "dfs_all n g (y # ys) s = (case dfs n g y s of None \<Rightarrow> None | Some s' \<Rightarrow> dfs_all n g ys s')"

definition dfs_start :: dfs_state where
  "dfs_start = \<lparr>visited = {}, rec_stack = [], in_stack = {}, found = []\<rparr>"

definition search_cycles :: "nat \<Rightarrow> graph \<Rightarrow> string list \<Rightarrow> string list list option" where
  "search_cycles fuel g roots = map_option found (dfs_all fuel g roots dfs_start)"

subsection \<open>The stack is restored, the visited set and the reports only grow\<close>

lemma report_cycle_simps [simp]:
  "visited (report_cycle x s) = visited s" "rec_stack (report_cycle x s) = rec_stack s"
  "in_stack (report_cycle x s) = in_stack s"
  by (simp_all add: report_cycle_def Let_def)

lemma report_cycle_found: "prefix (found s) (found (report_cycle x s))"
  by (simp add: report_cycle_def Let_def)

lemma enter_leave_simps [simp]:
  "visited (enter x s) = insert x (visited s)" "rec_stack (enter x s) = rec_stack s @ [x]"
  "in_stack (enter x s) = insert x (in_stack s)" "found (enter x s) = found s"
  "visited (leave x s) = visited s" "rec_stack (leave x s) = butlast (rec_stack s)"
  "in_stack (leave x s) = in_stack s - {x}" "found (leave x s) = found s"
  by (simp_all add: enter_def leave_def)

definition extends :: "dfs_state \<Rightarrow> dfs_state \<Rightarrow> bool" where
  "extends s s' \<longleftrightarrow> rec_stack s' = rec_stack s \<and> in_stack s' = in_stack s \<and> visited s \<subseteq> visited s' \<and>
     prefix (found s) (found s')"

lemma extends_refl [simp]: "extends s s"
  by (simp add: extends_def)

lemma extends_trans: "extends s s' \<Longrightarrow> extends s' s'' \<Longrightarrow> extends s s''"
  by (auto simp: extends_def)

lemma extends_report: "extends s (report_cycle x s)"
  by (simp add: extends_def report_cycle_found)

lemma extends_leave: "extends (enter x s) s' \<Longrightarrow> x \<notin> in_stack s \<Longrightarrow> extends s (leave x s')"
  by (auto simp: extends_def)

lemma dfs_extends:
  "dfs n g x s = Some s' \<Longrightarrow> extends s s'"
  "dfs_all n g ys s = Some s' \<Longrightarrow> extends s s'"
proof (induction n g x s and n g ys s arbitrary: s' and s' rule: dfs_dfs_all.induct)
  case (2 n g x s)
  then show ?case by (auto intro: extends_report extends_leave split: if_splits)
qed (auto intro: extends_trans split: option.splits)

lemma extends_found_nil: "extends s s' \<Longrightarrow> found s' = [] \<Longrightarrow> found s = []"
  by (auto simp: extends_def)

subsection \<open>Enough fuel\<close>

lemma dfs_enough:
  assumes "finite U" and "\<And>x. g x \<noteq> [] \<Longrightarrow> x \<in> U"
  shows "card (U - in_stack s) < n \<Longrightarrow> dfs n g x s \<noteq> None"
    and "card (U - in_stack s) < n \<Longrightarrow> dfs_all n g ys s \<noteq> None"
  using assms(2)
proof (induction n g x s and n g ys s rule: dfs_dfs_all.induct)
  case (2 n g x s)
  show ?case
  proof (cases "x \<in> in_stack s \<or> x \<in> visited s")
    case False
    have "dfs_all n g (g x) (enter x s) \<noteq> None"
    proof (cases "g x = []")
      case True
      then show ?thesis by simp
    next
      case g: False
      then have "x \<in> U" by (rule 2)
      then have "card (U - insert x (in_stack s)) < card (U - in_stack s)"
        using False by (intro psubset_card_mono) (auto simp: assms(1))
      with 2 False show ?thesis by simp
    qed
    with False show ?thesis by auto
  qed auto
next
  case (4 n g y ys s)
  then obtain s1 where s1: "dfs n g y s = Some s1" by auto
  then have "in_stack s1 = in_stack s" using dfs_extends(1) by (auto simp: extends_def)
  with s1 4 show ?case by auto
qed auto

subsection \<open>Soundness\<close>

definition is_cycle :: "graph \<Rightarrow> string list \<Rightarrow> bool" where
  "is_cycle g c \<longleftrightarrow> c \<noteq> [] \<and> distinct c \<and> successively (\<lambda>a b. b \<in> set (g a)) c \<and> hd c \<in> set (g (last c))"

definition stack_ok :: "graph \<Rightarrow> dfs_state \<Rightarrow> bool" where
  "stack_ok g s \<longleftrightarrow> distinct (rec_stack s) \<and> in_stack s = set (rec_stack s) \<and>
     successively (\<lambda>a b. b \<in> set (g a)) (rec_stack s)"

definition called_from :: "graph \<Rightarrow> string \<Rightarrow> dfs_state \<Rightarrow> bool" where
  "called_from g x s \<longleftrightarrow> rec_stack s = [] \<or> x \<in> set (g (last (rec_stack s)))"

lemma stack_ok_extends: "extends s s' \<Longrightarrow> stack_ok g s' = stack_ok g s" "extends s s' \<Longrightarrow> called_from g x s' = called_from g x s"
  by (auto simp: extends_def stack_ok_def called_from_def)

lemma stack_ok_enter: "stack_ok g s \<Longrightarrow> called_from g x s \<Longrightarrow> x \<notin> in_stack s \<Longrightarrow> stack_ok g (enter x s)"
  by (auto simp: stack_ok_def called_from_def successively_append_iff)

lemma back_edge_cycle:
  assumes "stack_ok g s" and "called_from g x s" and "x \<in> in_stack s"
  shows "is_cycle g (dropWhile (\<lambda>y. y \<noteq> x) (rec_stack s))" (is "is_cycle g ?c")
proof -
  have x: "x \<in> set (rec_stack s)" using assms by (simp add: stack_ok_def)
  then have ne: "?c \<noteq> []" by (simp add: dropWhile_eq_Nil_conv)
  have split: "rec_stack s = takeWhile (\<lambda>y. y \<noteq> x) (rec_stack s) @ ?c" by simp
  have "distinct ?c" using assms(1) by (metis distinct_append split stack_ok_def)
  moreover have "successively (\<lambda>a b. b \<in> set (g a)) ?c"
    using assms(1) by (metis split stack_ok_def successively_append_iff)
  moreover have "hd ?c = x" using hd_dropWhile [OF ne] by simp
  moreover have "last ?c = last (rec_stack s)" using ne by (metis last_append split)
  moreover have "rec_stack s \<noteq> []" using x by auto
  ultimately show ?thesis using ne assms(2) by (simp add: is_cycle_def called_from_def)
qed

lemma dfs_sound:
  "dfs n g x s = Some s' \<Longrightarrow> stack_ok g s \<Longrightarrow> called_from g x s \<Longrightarrow> \<forall>c \<in> set (found s). is_cycle g c \<Longrightarrow>
     \<forall>c \<in> set (found s'). is_cycle g c"
  "dfs_all n g ys s = Some s' \<Longrightarrow> stack_ok g s \<Longrightarrow> (\<And>y. y \<in> set ys \<Longrightarrow> called_from g y s) \<Longrightarrow>
     \<forall>c \<in> set (found s). is_cycle g c \<Longrightarrow> \<forall>c \<in> set (found s'). is_cycle g c"
proof (induction n g x s and n g ys s arbitrary: s' and s' rule: dfs_dfs_all.induct)
  case (2 n g x s)
  show ?case
  proof (cases "x \<in> in_stack s \<or> x \<in> visited s")
    case True
    with 2 back_edge_cycle [of g s x] show ?thesis by (auto simp: report_cycle_def Let_def split: if_splits)
  next
    case False
    with 2 obtain s1 where s1: "dfs_all n g (g x) (enter x s) = Some s1" "s' = leave x s1" by auto
    have "called_from g y (enter x s)" if "y \<in> set (g x)" for y using that by (simp add: called_from_def)
    with 2 False s1 show ?thesis by (auto simp: stack_ok_enter)
  qed
next
  case (4 n g y ys s)
  then obtain s1 where s1: "dfs n g y s = Some s1" "dfs_all n g ys s1 = Some s'" by (auto split: option.splits)
  with 4 show ?case by (simp add: stack_ok_extends [OF dfs_extends(1) [OF s1(1)]])
qed auto

subsection \<open>Completeness\<close>

text \<open>
  The finished nodes are those visited and off the stack. Without a report they are closed under
  successors and none of them is on a cycle.
\<close>

definition edges :: "graph \<Rightarrow> (string \<times> string) set" where
  "edges g = {(a, b). b \<in> set (g a)}"

definition finished_nodes :: "dfs_state \<Rightarrow> string set" where
  "finished_nodes s = visited s - in_stack s"

definition acyclic_part :: "graph \<Rightarrow> dfs_state \<Rightarrow> bool" where
  "acyclic_part g s \<longleftrightarrow> in_stack s \<subseteq> visited s \<and>
     (\<forall>x \<in> finished_nodes s. set (g x) \<subseteq> finished_nodes s \<and> (x, x) \<notin> (edges g)\<^sup>+)"

lemma closed_trancl:
  assumes "(x, y) \<in> (edges g)\<^sup>+" and "\<And>x. x \<in> B \<Longrightarrow> set (g x) \<subseteq> B" and "set (g x) \<subseteq> B"
  shows "y \<in> B"
  using assms(1)
proof (induction rule: trancl_induct)
  case (base y)
  then show ?case using assms(3) by (auto simp: edges_def)
next
  case (step y z)
  then show ?case using assms(2) [of y] by (auto simp: edges_def)
qed

lemma finish_node:
  assumes "acyclic_part g s1" and "set (g x) \<subseteq> finished_nodes s1" and "x \<in> in_stack s1"
  shows "acyclic_part g (leave x s1)"
proof -
  have fin: "finished_nodes (leave x s1) = insert x (finished_nodes s1)"
    using assms(1,3) by (auto simp: finished_nodes_def acyclic_part_def)
  have "(x, x) \<notin> (edges g)\<^sup>+"
  proof
    assume "(x, x) \<in> (edges g)\<^sup>+"
    then have "x \<in> finished_nodes s1"
      by (rule closed_trancl) (use assms in \<open>auto simp: acyclic_part_def\<close>)
    with assms(3) show False by (simp add: finished_nodes_def)
  qed
  with assms(1,2) fin show ?thesis by (auto simp: acyclic_part_def)
qed

lemma dfs_black:
  "dfs n g x s = Some s' \<Longrightarrow> stack_ok g s \<Longrightarrow> acyclic_part g s \<Longrightarrow> found s' = [] \<Longrightarrow> called_from g x s \<Longrightarrow>
     acyclic_part g s' \<and> x \<in> finished_nodes s'"
  "dfs_all n g ys s = Some s' \<Longrightarrow> stack_ok g s \<Longrightarrow> acyclic_part g s \<Longrightarrow> found s' = [] \<Longrightarrow>
     (\<And>y. y \<in> set ys \<Longrightarrow> called_from g y s) \<Longrightarrow> acyclic_part g s' \<and> set ys \<subseteq> finished_nodes s'"
proof (induction n g x s and n g ys s arbitrary: s' and s' rule: dfs_dfs_all.induct)
  case (2 n g x s)
  consider "x \<in> in_stack s" | "x \<notin> in_stack s" "x \<in> visited s" | "x \<notin> in_stack s" "x \<notin> visited s" by blast
  then show ?case
  proof cases
    case 1
    then have "dropWhile (\<lambda>y. y \<noteq> x) (rec_stack s) \<noteq> []"
      using 2 by (simp add: stack_ok_def dropWhile_eq_Nil_conv)
    with 1 2 have False by (auto simp: report_cycle_def Let_def split: if_splits)
    then show ?thesis ..
  next
    case 2
    with "2.prems" show ?thesis by (simp add: finished_nodes_def)
  next
    case 3
    with 2 obtain s1 where s1: "dfs_all n g (g x) (enter x s) = Some s1" "s' = leave x s1" by auto
    have fin: "finished_nodes (enter x s) = finished_nodes s" using 3 by (auto simp: finished_nodes_def)
    have call: "called_from g y (enter x s)" if "y \<in> set (g x)" for y using that by (simp add: called_from_def)
    have "acyclic_part g (enter x s)" using "2.prems"(3) fin by (auto simp: acyclic_part_def)
    then have "acyclic_part g s1 \<and> set (g x) \<subseteq> finished_nodes s1"
      using 2 3 s1 call by (auto simp: stack_ok_enter)
    moreover have "in_stack s1 = insert x (in_stack s)" "x \<in> visited s1"
      using dfs_extends(2) [OF s1(1)] by (auto simp: extends_def)
    ultimately show ?thesis using finish_node [of g s1 x] 3 s1(2) by (auto simp: finished_nodes_def)
  qed
next
  case (4 n g y ys s)
  then obtain s1 where s1: "dfs n g y s = Some s1" "dfs_all n g ys s1 = Some s'" by (auto split: option.splits)
  have e: "extends s s1" "extends s1 s'" using s1 dfs_extends by blast+
  with 4 have nil: "found s1 = []" using extends_found_nil by blast
  have a1: "acyclic_part g s1 \<and> y \<in> finished_nodes s1" using 4 s1 nil by simp
  with 4 s1 have "acyclic_part g s' \<and> set ys \<subseteq> finished_nodes s'"
    by (simp add: stack_ok_extends [OF e(1)])
  with a1 e(2) show ?case by (auto simp: extends_def finished_nodes_def)
qed auto

text \<open>The search as a whole.\<close>

lemma stack_ok_start [simp]: "stack_ok g dfs_start" "called_from g x dfs_start" "found dfs_start = []"
  "acyclic_part g dfs_start"
  by (simp_all add: stack_ok_def called_from_def dfs_start_def acyclic_part_def finished_nodes_def)

lemma search_returns:
  "finite U \<Longrightarrow> (\<And>x. g x \<noteq> [] \<Longrightarrow> x \<in> U) \<Longrightarrow> card U < fuel \<Longrightarrow> search_cycles fuel g roots \<noteq> None"
  using dfs_enough(2) [of U g dfs_start fuel roots] by (auto simp: search_cycles_def dfs_start_def)

lemma search_sound: "search_cycles fuel g roots = Some cs \<Longrightarrow> c \<in> set cs \<Longrightarrow> is_cycle g c"
  using dfs_sound(2) [of fuel g roots dfs_start] by (auto simp: search_cycles_def)

lemma search_complete: "search_cycles fuel g roots = Some [] \<Longrightarrow> x \<in> set roots \<Longrightarrow> (x, x) \<notin> (edges g)\<^sup>+"
proof -
  assume "search_cycles fuel g roots = Some []" and x: "x \<in> set roots"
  then obtain s' where "dfs_all fuel g roots dfs_start = Some s'" "found s' = []" by (auto simp: search_cycles_def)
  with dfs_black(2) [of fuel g roots dfs_start s'] have "acyclic_part g s'" "set roots \<subseteq> finished_nodes s'" by auto
  with x show ?thesis by (auto simp: acyclic_part_def)
qed

lemma successively_trancl:
  "successively (\<lambda>a b. b \<in> set (g a)) (x # xs) \<Longrightarrow> y \<in> set xs \<Longrightarrow> (x, y) \<in> (edges g)\<^sup>+"
proof (induction xs arbitrary: x)
  case (Cons z zs)
  then have xz: "(x, z) \<in> edges g" and rest: "successively (\<lambda>a b. b \<in> set (g a)) (z # zs)" by (simp_all add: edges_def)
  show ?case
  proof (cases "y = z")
    case True
    with xz show ?thesis by blast
  next
    case False
    with Cons rest have "(z, y) \<in> (edges g)\<^sup>+" by auto
    with xz show ?thesis by (meson trancl_into_trancl2)
  qed
qed simp

lemma cycle_on_itself: "is_cycle g c \<Longrightarrow> (hd c, hd c) \<in> (edges g)\<^sup>+"
proof (cases c)
  case (Cons x xs)
  assume c: "is_cycle g c"
  show ?thesis
  proof (cases "xs = []")
    case True
    with Cons c show ?thesis by (auto simp: is_cycle_def edges_def)
  next
    case False
    with Cons c have "(x, last xs) \<in> (edges g)\<^sup>+" and "(last xs, x) \<in> edges g"
      using successively_trancl [of g x xs "last xs"] by (auto simp: is_cycle_def edges_def)
    then show ?thesis using Cons by (simp add: trancl_into_trancl)
  qed
qed (simp add: is_cycle_def)

end
