(* ===== verification/PlanDependency.thy ===== *)
theory PlanDependency
  imports PlanRuntime CycleSearch
begin

text \<open>
  \<open>services/plan_dependency_service.rs\<close>: dependency metadata, the dependency graph with readiness and
  collisions, readiness validation, file claims, coordination events, launch profiles and the
  merge-review queue. The order in which a hash set gives its elements is the parameter \<open>ord\<close>, per path;
  the file system checks of \<open>validate_readiness\<close> are parameters too.
\<close>

subsection \<open>Names and constants\<close>

definition VALID_SCHEDULING_MODES :: "string list" where
  "VALID_SCHEDULING_MODES = [''safe'', ''yolo'']"
definition VALID_WORKSPACE_POLICIES :: "string list" where
  "VALID_WORKSPACE_POLICIES = [''isolated_worktrees'', ''sequential_primary'']"
definition VALID_EVENT_KINDS :: "string list" where
  "VALID_EVENT_KINDS = [''progress'', ''blocker'', ''claim'', ''release'', ''artifact'', ''completion'']"
definition VALID_MERGE_DECISIONS :: "string list" where
  "VALID_MERGE_DECISIONS = [''approved'', ''rejected'', ''merged'']"
definition VALID_CLAIM_ACTIONS :: "string list" where
  "VALID_CLAIM_ACTIONS = [''claim'', ''release'']"

definition quote :: "string \<Rightarrow> string" where
  "quote s = CHR 0x27 # s @ [CHR 0x27]"

fun has_infix :: "string \<Rightarrow> string \<Rightarrow> bool" where
  "has_infix p [] = (p = [])"
| "has_infix p (c # s) = (prefix p (c # s) \<or> has_infix p s)"

lemma has_infix_sublist: "has_infix p s \<longleftrightarrow> sublist p s"
  by (induction s) (auto simp: sublist_Cons_right)

definition validate_change_name :: "string \<Rightarrow> unit result" where
  "validate_change_name name =
     (if name = [] \<or> CHR ''/'' \<in> set name \<or> CHR 0x5C \<in> set name \<or> has_infix ''..'' name \<or> CHR 0x00 \<in> set name
      then Err (''Invalid change name: '' @ quote name) else Ok ())"

definition upsert :: "('r \<Rightarrow> 'k) \<Rightarrow> 'r \<Rightarrow> 'r list \<Rightarrow> 'r list" where
  "upsert k r xs = (if k r \<in> set (map k xs) then upd_where (\<lambda>x. k x = k r) (\<lambda>_. r) xs else xs @ [r])"

lemma lookup_overwrite:
  "k r = j \<Longrightarrow> lookup_by k i (upd_where (\<lambda>x. k x = j) (\<lambda>_. r) xs) =
     (if i = j then (if j \<in> k ` set xs then Some r else None) else lookup_by k i xs)"
  by (induction xs) auto

lemma lookup_upsert: "lookup_by k i (upsert k r xs) = (if i = k r then Some r else lookup_by k i xs)"
proof (cases "k r \<in> k ` set xs")
  case True
  then show ?thesis by (simp add: upsert_def lookup_overwrite [OF refl])
next
  case False
  then have "lookup_by k (k r) xs = None" by (simp add: lookup_by_None)
  with False show ?thesis by (simp add: upsert_def lookup_by_append split: option.splits)
qed

subsection \<open>Dependency metadata\<close>

definition get_dependencies :: "string \<Rightarrow> db \<Rightarrow> plan_dependencies result" where
  "get_dependencies plan_id d =
     (case lookup_by dm_plan_id plan_id (dep_meta d) of
        None \<Rightarrow> Err ''Dependencies not found''
      | Some m \<Rightarrow> Ok \<lparr>d_plan_id = dm_plan_id m, d_prerequisites = dm_prerequisites m,
          d_affected_paths = dm_affected_paths m,
          d_priority = (case plan_get d plan_id of Some p \<Rightarrow> p_priority p | None \<Rightarrow> 0),
          d_scheduling_mode = dm_scheduling_mode m, d_workspace_policy = dm_workspace_policy m\<rparr>)"

definition get_scheduling_mode :: "string \<Rightarrow> db \<Rightarrow> string" where
  "get_scheduling_mode plan_id d =
     (case lookup_by dm_plan_id plan_id (dep_meta d) of None \<Rightarrow> ''safe'' | Some m \<Rightarrow> dm_scheduling_mode m)"

definition get_workspace_policy :: "string \<Rightarrow> db \<Rightarrow> string" where
  "get_workspace_policy plan_id d =
     (case lookup_by dm_plan_id plan_id (dep_meta d) of
        None \<Rightarrow> ''isolated_worktrees'' | Some m \<Rightarrow> dm_workspace_policy m)"

definition bad_choice :: "string list \<Rightarrow> string option \<Rightarrow> bool" where
  "bad_choice valid v = (case v of None \<Rightarrow> False | Some x \<Rightarrow> x \<notin> set valid)"

definition set_dependencies :: "env \<Rightarrow> set_dependencies_request \<Rightarrow> db \<Rightarrow> plan result \<times> db" where
  "set_dependencies e rq d =
     (case plan_get d (sd_plan_id rq) of
        None \<Rightarrow> (Err ''Plan not found'', d)
      | Some plan \<Rightarrow>
          (if bad_choice VALID_SCHEDULING_MODES (sd_scheduling_mode rq)
           then (Err (''Invalid scheduling_mode: '' @ quote (coalesce (sd_scheduling_mode rq) [])), d)
           else if bad_choice VALID_WORKSPACE_POLICIES (sd_workspace_policy rq)
           then (Err (''Invalid workspace_policy: '' @ quote (coalesce (sd_workspace_policy rq) [])), d)
           else
             (let mode = coalesce (sd_scheduling_mode rq) (get_scheduling_mode (sd_plan_id rq) d);
                  policy = coalesce (sd_workspace_policy rq) (get_workspace_policy (sd_plan_id rq) d);
                  d1 = set_plans (\<lambda>p. pl_id p = sd_plan_id rq)
                         (\<lambda>p. p\<lparr>pl_priority := coalesce (sd_priority rq) (p_priority plan),
                                pl_updated_at := e_secs e 0\<rparr>) d;
                  d2 = d1\<lparr>dep_meta := upsert dm_plan_id
                         \<lparr>dm_plan_id = sd_plan_id rq, dm_prerequisites = sd_prerequisites rq,
                          dm_affected_paths = sd_affected_paths rq, dm_scheduling_mode = mode,
                          dm_workspace_policy = policy, dm_updated_at = e_secs e 1\<rparr> (dep_meta d1)\<rparr>
              in (get_or_err (sd_plan_id rq) ''Plan not found after update'' d2, d2))))"

subsection \<open>File claims\<close>

fun apply_claims :: "env \<Rightarrow> nat \<Rightarrow> string \<Rightarrow> string \<Rightarrow> string \<Rightarrow> string \<Rightarrow> string list \<Rightarrow> db \<Rightarrow> unit result \<times> db" where
  "apply_claims e k rid plan_id session_id action [] d = (Ok (), d)"
| "apply_claims e k rid plan_id session_id action (path # paths) d =
     (if action = ''release''
      then apply_claims e (Suc k) rid plan_id session_id action paths
             (d\<lparr>claims := upd_where
                 (\<lambda>c. fcl_run_id c = rid \<and> fcl_plan_id c = plan_id \<and> fcl_path c = path \<and> fcl_released_at c = None)
                 (\<lambda>c. c\<lparr>fcl_released_at := Some (e_secs e 0)\<rparr>) (claims d)\<rparr>)
      else case insert_checked fcl_id ''plan_file_claims'' (plan_exists d plan_id)
                  \<lparr>fcl_id = gen_id (e_nanos e k), fcl_run_id = rid, fcl_plan_id = plan_id,
                   fcl_session_id = session_id, fcl_path = path, fcl_action = action,
                   fcl_created_at = e_secs e 0, fcl_released_at = None\<rparr> (claims d) of
             Inl err \<Rightarrow> (Err (''Failed to insert claim: '' @ err), d)
           | Inr cs \<Rightarrow> apply_claims e (Suc k) rid plan_id session_id action paths (d\<lparr>claims := cs\<rparr>))"

definition set_file_claims ::
  "env \<Rightarrow> string \<Rightarrow> string \<Rightarrow> string \<Rightarrow> string list \<Rightarrow> string \<Rightarrow> db \<Rightarrow> unit result \<times> db" where
  "set_file_claims e rid plan_id session_id paths action d =
     (if action \<notin> set VALID_CLAIM_ACTIONS then (Err (''Invalid claim action: '' @ quote action), d)
      else apply_claims e 0 rid plan_id session_id action paths d)"

definition list_file_claims :: "string \<Rightarrow> db \<Rightarrow> file_claim list" where
  "list_file_claims session_id d =
     order_asc fcl_created_at (filter (\<lambda>c. fcl_session_id c = session_id) (claims d))"

definition list_active_claims :: "string \<Rightarrow> db \<Rightarrow> file_claim list" where
  "list_active_claims session_id d =
     order_asc fcl_created_at (filter (\<lambda>c. fcl_session_id c = session_id \<and> fcl_released_at c = None) (claims d))"

subsection \<open>The dependency graph\<close>

type_synonym deps = "string \<rightharpoonup> plan_dependencies"

definition load_deps :: "plan list \<Rightarrow> db \<Rightarrow> deps" where
  "load_deps ps d = fold (\<lambda>p m. case get_dependencies (p_id p) d of Inr x \<Rightarrow> m(p_id p \<mapsto> x) | Inl _ \<Rightarrow> m) ps Map.empty"

definition add_once :: "'a \<Rightarrow> 'a list \<Rightarrow> 'a list" where
  "add_once x xs = (if x \<in> set xs then xs else xs @ [x])"

definition touch_path :: "string \<times> string \<Rightarrow> (string \<Rightarrow> string list) \<Rightarrow> string \<Rightarrow> string list" where
  "touch_path t m = (case t of (path, plan_id) \<Rightarrow> m(path := add_once plan_id (m path)))"

definition path_touches :: "plan list \<Rightarrow> deps \<Rightarrow> file_claim list \<Rightarrow> (string \<times> string) list" where
  "path_touches ps deps cs =
     concat (map (\<lambda>p. case deps (p_id p) of
        None \<Rightarrow> [] | Some m \<Rightarrow> map (\<lambda>path. (path, p_id p)) (d_affected_paths m)) ps)
     @ map (\<lambda>c. (fcl_path c, fcl_plan_id c)) cs"

text \<open>The plans of each path, a set kept as the list of its elements.\<close>

definition path_to_plans :: "plan list \<Rightarrow> deps \<Rightarrow> file_claim list \<Rightarrow> string \<Rightarrow> string list" where
  "path_to_plans ps deps cs = fold touch_path (path_touches ps deps cs) (\<lambda>_. [])"

definition collide :: "string \<Rightarrow> string \<Rightarrow> string list \<Rightarrow> string list" where
  "collide me other acc = (if other \<noteq> me \<and> other \<notin> set acc then acc @ [other] else acc)"

definition collisions_of ::
  "(string \<Rightarrow> string list \<Rightarrow> string list) \<Rightarrow> (string \<Rightarrow> string list) \<Rightarrow> string \<Rightarrow> string list \<Rightarrow> string list" where
  "collisions_of ord owners me paths =
     fold (\<lambda>path acc. fold (collide me) (ord path (owners path)) acc) paths []"

definition plan_with_id :: "string \<Rightarrow> plan list \<Rightarrow> plan option" where
  "plan_with_id i ps = find (\<lambda>p. p_id p = i) ps"

definition compute_readiness ::
  "plan \<Rightarrow> string list \<Rightarrow> string list \<Rightarrow> plan list \<Rightarrow> string \<Rightarrow> string \<times> string option \<times> bool" where
  "compute_readiness plan prerequisites collisions all_plans mode =
     (if p_status plan = Finished then (''finished'', None, False)
      else if p_status plan = Cancelled then (''cancelled'', None, False)
      else
        (let unmet = filter (\<lambda>i. case plan_with_id i all_plans of
                       Some p \<Rightarrow> p_status p \<noteq> Finished | None \<Rightarrow> True) prerequisites;
             running = filter (\<lambda>i. case plan_with_id i all_plans of
                       Some p \<Rightarrow> p_status p = Running | None \<Rightarrow> False) collisions
         in if unmet \<noteq> [] then (''blocked'', Some (''Waiting on prerequisites: '' @ join_with '', '' unmet), False)
            else if mode \<noteq> ''yolo'' \<and> collisions \<noteq> [] \<and> running \<noteq> []
            then (''blocked'', Some (''File collision with running plan(s): '' @ join_with '', '' running), False)
            else if p_status plan = Running then (''running'', None, False)
            else (''ready'', None, True)))"

definition prereqs_of :: "deps \<Rightarrow> graph" where
  "prereqs_of deps i = (case deps i of None \<Rightarrow> [] | Some m \<Rightarrow> d_prerequisites m)"

definition detect_cycles :: "plan list \<Rightarrow> deps \<Rightarrow> string list list" where
  "detect_cycles ps deps = coalesce (search_cycles (Suc (length ps)) (prereqs_of deps) (map p_id ps)) []"

definition node_of ::
  "(string \<Rightarrow> string list \<Rightarrow> string list) \<Rightarrow> plan list \<Rightarrow> deps \<Rightarrow> (string \<Rightarrow> string list) \<Rightarrow> plan \<Rightarrow> dependency_node" where
  "node_of ord ps deps owners p =
     (let prerequisites = prereqs_of deps (p_id p);
          paths = (case deps (p_id p) of None \<Rightarrow> [] | Some m \<Rightarrow> d_affected_paths m);
          mode = (case deps (p_id p) of None \<Rightarrow> ''safe'' | Some m \<Rightarrow> d_scheduling_mode m);
          collisions = collisions_of ord owners (p_id p) paths
      in case compute_readiness p prerequisites collisions ps mode of (readiness, block_reason, dispatchable) \<Rightarrow>
         \<lparr>n_plan_id = p_id p, n_reference_id = p_reference_id p, n_title = p_title p,
          n_status = plan_status_str (p_status p), n_priority = p_priority p, n_prerequisites = prerequisites,
          n_affected_paths = paths, n_readiness = readiness, n_block_reason = block_reason,
          n_collisions = collisions, n_dispatchable = dispatchable, n_yolo_confirmed = (mode = ''yolo'')\<rparr>)"

definition graph_of ::
  "(string \<Rightarrow> string list \<Rightarrow> string list) \<Rightarrow> string \<Rightarrow> plan list \<Rightarrow> db \<Rightarrow> dependency_graph" where
  "graph_of ord session_id ps d =
     (let deps = load_deps ps d;
          owners = path_to_plans ps deps (list_active_claims session_id d)
      in \<lparr>g_session_id = session_id,
          g_nodes = order_desc (\<lambda>n. uint (n_priority n)) (map (node_of ord ps deps owners) ps),
          g_cycles = detect_cycles ps deps\<rparr>)"

definition build_graph ::
  "(string \<Rightarrow> string list \<Rightarrow> string list) \<Rightarrow> env \<Rightarrow> string \<Rightarrow> app \<Rightarrow> dependency_graph result \<times> app" where
  "build_graph ord e session_id a =
     (case plan_list e session_id a of
        (Inl err, a') \<Rightarrow> (Err err, a')
      | (Inr ps, a') \<Rightarrow> (Ok (graph_of ord session_id ps (store a')), a'))"

subsection \<open>Validation before dispatch\<close>

record artifact_view =
  change_dir_exists :: "string \<Rightarrow> string \<Rightarrow> bool"
  artifact_errors :: "string \<Rightarrow> string \<Rightarrow> string list"
  artifact_warnings :: "string \<Rightarrow> string \<Rightarrow> string list"

definition em_dash :: string where "em_dash = [CHR 0xE2, CHR 0x80, CHR 0x94]"
definition arrow :: string where "arrow = [CHR 0xE2, CHR 0x86, CHR 0x92]"

definition status_errors :: "plan \<Rightarrow> string list" where
  "status_errors plan =
     (if p_status plan \<noteq> Ready \<and> p_status plan \<noteq> Openspec
      then [''Plan status is '' @ plan_status_str (p_status plan) @ '' '' @ em_dash
              @ '' must be ready or openspec to dispatch.''] else [])"

definition cycle_errors :: "plan \<Rightarrow> string list list \<Rightarrow> string list" where
  "cycle_errors plan cycles =
     map (\<lambda>c. ''Dependency cycle detected: '' @ join_with ('' '' @ arrow @ '' '') c @ '' '' @ arrow @ '' ''
                @ coalesce (head_opt c) (p_id plan) @ ''. Remove the cycle before dispatch.'')
       (filter (\<lambda>c. p_id plan \<in> set c) cycles)"

definition prerequisite_errors :: "db \<Rightarrow> string list \<Rightarrow> string list" where
  "prerequisite_errors d prerequisites =
     concat (map (\<lambda>i. case plan_get d i of
          Some p \<Rightarrow> if p_status p \<noteq> Finished
            then [''Prerequisite '' @ quote (p_title p) @ '' is not finished (current: '' @ plan_status_str (p_status p) @ '').'']
            else []
        | None \<Rightarrow> [''Prerequisite plan '' @ i @ '' not found.'']) prerequisites)"

definition collision_warnings :: "plan \<Rightarrow> dependency_graph \<Rightarrow> string list" where
  "collision_warnings plan graph =
     (case find (\<lambda>n. n_plan_id n = p_id plan) (g_nodes graph) of
        None \<Rightarrow> []
      | Some n \<Rightarrow> if n_collisions n \<noteq> []
          then [''File collisions with plan(s): '' @ join_with '', '' (n_collisions n)] else [])"

definition artifact_findings :: "artifact_view \<Rightarrow> plan \<Rightarrow> db \<Rightarrow> string list \<times> string list" where
  "artifact_findings fs plan d =
     (case p_change_name plan of
        None \<Rightarrow> ([], [])
      | Some name \<Rightarrow>
          (case validate_change_name name of
             Inl err \<Rightarrow> ([err], [])
           | Inr _ \<Rightarrow>
               (case session_get d (p_session_id plan) of
                  None \<Rightarrow> ([], [])
                | Some s \<Rightarrow>
                    (if \<not> change_dir_exists fs (ss_project_path s) name
                     then ([], [''Change directory '' @ quote name @ '' not found '' @ em_dash
                                  @ '' artifacts may not be generated yet.''])
                     else (map (\<lambda>m. ''Artifact: '' @ m) (artifact_errors fs (ss_project_path s) name),
                           map (\<lambda>m. ''Artifact: '' @ m) (artifact_warnings fs (ss_project_path s) name))))))"

definition validate_readiness ::
  "artifact_view \<Rightarrow> (string \<Rightarrow> string list \<Rightarrow> string list) \<Rightarrow> env \<Rightarrow> string \<Rightarrow> app \<Rightarrow> validation_result result \<times> app" where
  "validate_readiness fs ord e plan_id a =
     (case plan_get (store a) plan_id of
        None \<Rightarrow> (Err ''Plan not found'', a)
      | Some plan \<Rightarrow>
          (case build_graph ord e (p_session_id plan) a of
             (Inl err, a') \<Rightarrow> (Err err, a')
           | (Inr graph, a') \<Rightarrow>
               (let (dep_errors, dep_warnings) =
                      (case get_dependencies plan_id (store a') of
                         Inl _ \<Rightarrow> ([], [])
                       | Inr deps \<Rightarrow> (prerequisite_errors (store a') (d_prerequisites deps), collision_warnings plan graph));
                    (art_errors, art_warnings) = artifact_findings fs plan (store a');
                    errors = status_errors plan @ cycle_errors plan (g_cycles graph) @ dep_errors @ art_errors
                in (Ok \<lparr>v_plan_id = plan_id, v_valid = (errors = []), v_errors = errors,
                        v_warnings = dep_warnings @ art_warnings\<rparr>, a'))))"

subsection \<open>Coordination events\<close>

definition publish_event ::
  "env \<Rightarrow> string \<Rightarrow> string \<Rightarrow> string \<Rightarrow> string \<Rightarrow> string \<Rightarrow> db \<Rightarrow> coordination_event result \<times> db" where
  "publish_event e session_id rid plan_id kind payload d =
     (if kind \<notin> set VALID_EVENT_KINDS then (Err (''Invalid event kind: '' @ quote kind), d)
      else
        (let ev = \<lparr>ce_id = gen_id (e_nanos e 0), ce_session_id = session_id, ce_run_id = rid, ce_plan_id = plan_id,
               ce_kind = kind, ce_payload = payload, ce_created_at = e_secs e 0\<rparr>
         in case insert_checked ce_id ''plan_coordination_events'' (plan_exists d plan_id) ev (coord_events d) of
              Inl err \<Rightarrow> (Err (''Failed to publish coordination event: '' @ err), d)
            | Inr evs \<Rightarrow> (Ok ev, d\<lparr>coord_events := evs\<rparr>)))"

definition list_events :: "string \<Rightarrow> int option \<Rightarrow> db \<Rightarrow> coordination_event list" where
  "list_events session_id since d =
     order_asc ce_created_at (filter (\<lambda>v. ce_session_id v = session_id \<and>
        (case since of None \<Rightarrow> True | Some t \<Rightarrow> t < ce_created_at v)) (coord_events d))"

subsection \<open>Launch profiles\<close>

definition set_launch_profile :: "env \<Rightarrow> launch_profile \<Rightarrow> db \<Rightarrow> db" where
  "set_launch_profile e profile d =
     d\<lparr>profiles := upsert lp_project_path (profile\<lparr>lp_updated_at := e_secs e 0\<rparr>) (profiles d)\<rparr>"

definition get_launch_profile :: "string \<Rightarrow> db \<Rightarrow> launch_profile option" where
  "get_launch_profile project d = lookup_by lp_project_path project (profiles d)"

subsection \<open>The merge-review queue\<close>

definition get_merge_entry :: "string \<Rightarrow> db \<Rightarrow> merge_entry result" where
  "get_merge_entry entry_id d =
     (case lookup_by m_id entry_id (merge_queue d) of None \<Rightarrow> Err ''Query returned no rows'' | Some m \<Rightarrow> Ok m)"

definition add_to_merge_queue ::
  "env \<Rightarrow> string \<Rightarrow> string \<Rightarrow> string \<Rightarrow> bool \<Rightarrow> string list \<Rightarrow> db \<Rightarrow> merge_entry result \<times> db" where
  "add_to_merge_queue e rid plan_id session_id review overlapping d =
     (let entry = \<lparr>m_id = gen_id (e_nanos e 0), m_run_id = rid, m_plan_id = plan_id, m_session_id = session_id,
            m_status = ''pending'', m_collision_review = review, m_overlapping = overlapping,
            m_reviewed_at = None, m_created_at = e_secs e 0\<rparr>
      in case insert_checked m_id ''plan_merge_queue'' (plan_exists d plan_id) entry (merge_queue d) of
           Inl err \<Rightarrow> (Err (''Failed to add to merge queue: '' @ err), d)
         | Inr ms \<Rightarrow> (get_merge_entry (m_id entry) (d\<lparr>merge_queue := ms\<rparr>), d\<lparr>merge_queue := ms\<rparr>))"

definition list_merge_queue :: "string \<Rightarrow> db \<Rightarrow> merge_entry list" where
  "list_merge_queue session_id d =
     order_asc m_created_at (filter (\<lambda>m. m_session_id m = session_id) (merge_queue d))"

definition review_merge_entry :: "env \<Rightarrow> string \<Rightarrow> string \<Rightarrow> db \<Rightarrow> merge_entry result \<times> db" where
  "review_merge_entry e entry_id decision d =
     (if decision \<notin> set VALID_MERGE_DECISIONS then (Err (''Invalid merge decision: '' @ quote decision), d)
      else case get_merge_entry entry_id d of
        Inl err \<Rightarrow> (Err err, d)
      | Inr existing \<Rightarrow>
          (if m_status existing = ''merged'' then (Err ''Cannot review an already-merged entry'', d)
           else if m_status existing = decision then (Err (''Entry is already '' @ quote decision), d)
           else
             (let d' = d\<lparr>merge_queue := upd_where (\<lambda>m. m_id m = entry_id)
                          (\<lambda>m. m\<lparr>m_status := decision, m_reviewed_at := Some (e_secs e 0)\<rparr>) (merge_queue d)\<rparr>
              in (get_merge_entry entry_id d', d'))))"

end
