(* ===== verification/PlanRunner.thy ===== *)
theory PlanRunner
  imports PlanDependency
begin

text \<open>
  \<open>services/plan_runner_service.rs\<close>: capacity gates, the dispatcher's decision, starting runs,
  completing them with final touches and the project's finish policy, and
  \<open>chat_terminal\<close> of \<open>services/plan_lifecycle_service.rs\<close>, which completes runs. What other services and
  the file system answer (model resolution, worktrees, git, pull requests, task files) is the record
  \<open>world\<close>. Each function body is one step: the threads interleave between calls.
\<close>

subsection \<open>The world\<close>

record pr_result =
  pr_success :: bool
  pr_url :: "string option"
  pr_error :: "string option"

record world =
  w_final_touches :: "string \<Rightarrow> step_output list result"
  w_task_progress :: "string \<Rightarrow> string \<Rightarrow> nat \<times> nat"
  w_schematic_mtime :: "string \<Rightarrow> int"
  w_has_git :: "string \<Rightarrow> bool"
  w_commit_all :: "string \<Rightarrow> string \<Rightarrow> string result"
  w_current_branch :: "string \<Rightarrow> string option"
  w_create_pr :: "string \<Rightarrow> string \<Rightarrow> string \<Rightarrow> string \<Rightarrow> pr_result result"
  w_worktrees :: "string \<Rightarrow> bool"
  w_create_worktree :: "string \<Rightarrow> string \<Rightarrow> string \<Rightarrow> string \<Rightarrow> string result"
  w_resolve_model :: "string \<Rightarrow> string \<Rightarrow> string \<Rightarrow> string option \<Rightarrow> unit result"
  w_chat_id :: string
  w_prime_chat :: "plan \<Rightarrow> string \<Rightarrow> unit result"

subsection \<open>Capacity\<close>

definition count_active_plan_runs :: "string option \<Rightarrow> db \<Rightarrow> int" where
  "count_active_plan_runs exclude d =
     count_where (\<lambda>r. run_active (r_status r) \<and> (case exclude of None \<Rightarrow> True | Some i \<Rightarrow> r_id r \<noteq> i)) (runs d)"

definition count_active_pipeline_runs :: "db \<Rightarrow> int" where
  "count_active_pipeline_runs d = count_where run_active (pipeline_statuses d)"

definition count_running_plan_runs :: "db \<Rightarrow> int" where
  "count_running_plan_runs d = count_where (\<lambda>r. r_status r = ''running'') (runs d)"

definition count_running_pipeline_runs :: "db \<Rightarrow> int" where
  "count_running_pipeline_runs d = count_where (\<lambda>s. s = ''running'') (pipeline_statuses d)"

definition count_active_runs :: "string option \<Rightarrow> db \<Rightarrow> int" where
  "count_active_runs exclude d = count_active_plan_runs exclude d + count_active_pipeline_runs d"

definition count_running_runs :: "db \<Rightarrow> int" where
  "count_running_runs d = count_running_plan_runs d + count_running_pipeline_runs d"

definition planning_cap :: "db \<Rightarrow> int" where
  "planning_cap d = uint (effective_planning_max (global_limits d))"

definition global_cap :: "db \<Rightarrow> int" where
  "global_cap d = uint (effective_global_max (global_limits d))"

definition plan_start_capacity_available :: "db \<Rightarrow> bool" where
  "plan_start_capacity_available d =
     (if planning_cap d \<le> count_running_plan_runs d then False
      else if global_cap d \<le> count_running_runs d then False else True)"

definition plan_run_can_start :: "string option \<Rightarrow> db \<Rightarrow> bool" where
  "plan_run_can_start exclude d =
     (let active_plan = count_active_plan_runs exclude d
      in if planning_cap d \<le> active_plan then False
         else if global_cap d \<le> active_plan + count_active_pipeline_runs d then False else True)"

subsection \<open>The dispatcher's decision\<close>

definition pending_entries :: "string \<Rightarrow> db \<Rightarrow> queue_entry list" where
  "pending_entries session_id d =
     order_asc q_sort_order (filter (\<lambda>q. q_session_id q = session_id \<and>
        \<not> (\<exists>r \<in> set (runs d). r_plan_id r = q_plan_id q \<and> r_session_id r = q_session_id q \<and>
              (r_status r = ''running'' \<or> r_status r = ''succeeded''))) (queue d))"

definition has_pending_entries :: "string \<Rightarrow> db \<Rightarrow> bool" where
  "has_pending_entries session_id d \<longleftrightarrow> pending_entries session_id d \<noteq> []"

definition node_dispatchable_in :: "dependency_graph \<Rightarrow> string \<Rightarrow> bool" where
  "node_dispatchable_in g plan_id =
     (case find (\<lambda>n. n_plan_id n = plan_id) (g_nodes g) of None \<Rightarrow> False | Some n \<Rightarrow> n_dispatchable n)"

definition next_pending_entry ::
  "(string \<Rightarrow> string list \<Rightarrow> string list) \<Rightarrow> env \<Rightarrow> string \<Rightarrow> app \<Rightarrow> queue_entry option result \<times> app" where
  "next_pending_entry ord e session_id a =
     (let pending = pending_entries session_id (store a)
      in if pending = [] then (Ok None, a)
         else case build_graph ord e session_id a of
                (Inl err, a') \<Rightarrow> (Err err, a')
              | (Inr g, a') \<Rightarrow> (Ok (find (\<lambda>q. node_dispatchable_in g (q_plan_id q)) pending), a'))"

text \<open>
  One turn of \<open>dispatch_loop\<close> up to the point where it waits for permits: retire when the queue was
  restarted under another generation, sleep when paused or without capacity or without a dispatchable
  entry, stop when the queue has nothing left, or start an entry under its profile.
\<close>

datatype dispatch = Retire | Sleep | Stop | Start queue_entry execution_profile

definition dispatch_turn ::
  "(string \<Rightarrow> string list \<Rightarrow> string list) \<Rightarrow> env \<Rightarrow> string \<Rightarrow> string \<Rightarrow> app \<Rightarrow> dispatch \<times> app" where
  "dispatch_turn ord e session_id generation a =
     (case queue_status session_id generation a of (current, paused) \<Rightarrow>
        if \<not> current then (Retire, a)
        else if paused then (Sleep, a)
        else
          (let a1 = snd (reconcile_owners e (Some session_id) None a)
           in case next_pending_entry ord e session_id a1 of
                (Inl err, a2) \<Rightarrow> (Stop, a2)
              | (Inr None, a2) \<Rightarrow> (if has_pending_entries session_id (store a2) then (Sleep, a2) else (Stop, a2))
              | (Inr (Some q), a2) \<Rightarrow>
                  (if \<not> plan_start_capacity_available (store a2) then (Sleep, a2)
                   else (Start q (queue_profile session_id (q_plan_id q) a2), a2))))"

subsection \<open>Events about a run\<close>

definition run_or_err :: "string \<Rightarrow> string \<Rightarrow> app \<Rightarrow> plan_run result" where
  "run_or_err rid err a = (case get_run (store a) rid of None \<Rightarrow> Err err | Some r \<Rightarrow> Ok r)"

definition project_of :: "db \<Rightarrow> string \<Rightarrow> string" where
  "project_of d session_id = coalesce (map_option ss_project_path (session_get d session_id)) []"

definition emit_planning_event :: "plan_run \<Rightarrow> string \<Rightarrow> string option \<Rightarrow> app \<Rightarrow> app" where
  "emit_planning_event run kind detail a =
     emit (PlanningEvent kind (PlanData.run_id run) (project_of (store a) (run_session_id run)) (Some (run_session_id run))
       (case plan_get (store a) (run_plan_id run) of None \<Rightarrow> run_plan_id run | Some p \<Rightarrow> p_title p) detail) a"

definition run_event :: "string \<Rightarrow> string \<Rightarrow> string \<Rightarrow> run_status \<Rightarrow> string option \<Rightarrow> string option \<Rightarrow> message" where
  "run_event rid session_id plan_id st chat err = RunEvent
     \<lparr>ev_run_id = rid, ev_session_id = session_id, ev_plan_id = plan_id, ev_status = st, ev_chat = chat, ev_error = err\<rparr>"

definition announce_start :: "string \<Rightarrow> string \<Rightarrow> string \<Rightarrow> string option \<Rightarrow> app \<Rightarrow> app" where
  "announce_start rid session_id plan_id chat a =
     (let a1 = emit (run_event rid session_id plan_id RRunning chat None) a
      in case get_run (store a1) rid of
           None \<Rightarrow> a1
         | Some run \<Rightarrow> emit_planning_event run ''run_started'' None a1)"

subsection \<open>Starting runs\<close>

text \<open>\<open>NativeChatService::create_session_for_plan\<close>: the chat row is there before it is primed.\<close>

definition create_session_for_plan :: "world \<Rightarrow> env \<Rightarrow> plan \<Rightarrow> execution_profile \<Rightarrow> db \<Rightarrow> string result \<times> db" where
  "create_session_for_plan w e plan profile d =
     (case session_get d (p_session_id plan) of
        None \<Rightarrow> (Err ''Plan's session not found'', d)
      | Some s \<Rightarrow>
          (case w_resolve_model w (ss_project_path s) (ep_provider_id profile) (ep_model_id profile) (ep_effort profile) of
             Inl err \<Rightarrow> (Err err, d)
           | Inr _ \<Rightarrow>
               (case insert_checked c_id ''native_chat_sessions'' True
                       \<lparr>c_id = w_chat_id w, c_project_path = ss_project_path s, c_run_state = ''idle'',
                        c_updated_at = e_secs e 0\<rparr> (chats d) of
                  Inl err \<Rightarrow> (Err (''Failed to create plan chat session: '' @ err), d)
                | Inr cs \<Rightarrow>
                    (case w_prime_chat w plan (w_chat_id w) of
                       Inl err \<Rightarrow> (Err err, d\<lparr>chats := cs\<rparr>)
                     | Inr _ \<Rightarrow> (Ok (w_chat_id w), d\<lparr>chats := cs\<rparr>)))))"

definition claim_run :: "env \<Rightarrow> string \<Rightarrow> string \<Rightarrow> db \<Rightarrow> string result \<times> db" where
  "claim_run e session_id plan_id d =
     (case newest_run (\<lambda>r. r_plan_id r = plan_id \<and> r_session_id r = session_id \<and> r_status r = ''pending'') d of
        Some r \<Rightarrow> (Ok (r_id r), d)
      | None \<Rightarrow>
          (let i = gen_id (e_nanos e 0)
           in case insert_run (new_run_row i plan_id session_id None None ''native'' (e_secs e 0)) d of
                (Inl err, d') \<Rightarrow> (Err (''Failed to insert plan run: '' @ err), d')
              | (Inr _, d') \<Rightarrow> (Ok i, d')))"

definition drop_token :: "string \<Rightarrow> app \<Rightarrow> app" where
  "drop_token rid a = a\<lparr>tokens := (tokens a)(rid := None)\<rparr>"

definition fail_kickoff :: "env \<Rightarrow> string \<Rightarrow> string \<Rightarrow> app \<Rightarrow> app" where
  "fail_kickoff e rid err a = snd (on_store (kickoff_failed e rid err) a)"

definition execute_run :: "world \<Rightarrow> env \<Rightarrow> string \<Rightarrow> queue_entry \<Rightarrow> execution_profile \<Rightarrow> app \<Rightarrow> plan_run result \<times> app" where
  "execute_run w e session_id entry profile a =
     (case on_store (claim_run e session_id (q_plan_id entry)) a of
        (Inl err, a1) \<Rightarrow> (Err err, a1)
      | (Inr rid, a1) \<Rightarrow>
          (if \<not> plan_run_can_start (Some rid) (store a1) then (run_or_err rid ''Queued plan run not found'' a1, a1)
           else if tokens a1 rid \<noteq> None then (run_or_err rid ''Plan run already starting'' a1, a1)
           else
             (let a2 = a1\<lparr>tokens := (tokens a1)(rid \<mapsto> False)\<rparr>
              in case plan_get (store a2) (q_plan_id entry) of
                   None \<Rightarrow> (Err ''Plan not found'', a2)
                 | Some plan \<Rightarrow>
                     (case on_store (create_session_for_plan w (later 1 e) plan profile) a2 of
                        (Inl err, a3) \<Rightarrow>
                          (let msg = ''Failed to create chat session: '' @ err
                           in (Err msg, drop_token rid (fail_kickoff (later 2 e) rid msg a3)))
                      | (Inr chat, a3) \<Rightarrow>
                          (case on_store (kickoff_started (later 2 e) rid (Some chat)) a3 of
                             (Inl err, a4) \<Rightarrow>
                               (Err (''Failed to start plan run: '' @ err),
                                drop_token rid (fail_kickoff (later 5 e) rid err a4))
                           | (Inr _, a4) \<Rightarrow>
                               (let a5 = drop_token rid
                                      (announce_start rid session_id (q_plan_id entry) (Some chat) a4)
                                in (run_or_err rid ''Plan run not found after execution'' a5, a5)))))))"

definition assign_to_chat :: "world \<Rightarrow> env \<Rightarrow> string \<Rightarrow> string \<Rightarrow> app \<Rightarrow> plan_run result \<times> app" where
  "assign_to_chat w e plan_id chat a =
     (case plan_get (store a) plan_id of
        None \<Rightarrow> (Err ''Plan not found'', a)
      | Some plan \<Rightarrow>
          (if p_status plan \<noteq> Ready \<and> p_status plan \<noteq> Draft \<and> p_status plan \<noteq> Openspec
           then (Err (''Plan must be ready to assign, but is '' @ plan_status_str (p_status plan) @ ''.''), a)
           else case lookup_by c_id chat (chats (store a)) of
             None \<Rightarrow> (Err ''Chat session not found'', a)
           | Some c \<Rightarrow>
               (if \<exists>r \<in> set (runs (store a)). r_chat r = Some chat \<and> run_active (r_status r)
                then (Err ''Chat session is already assigned to an active plan run.'', a)
                else
                  (let rid = gen_id (e_nanos e 0);
                       workspace =
                         (if w_worktrees w (c_project_path c)
                          then (case w_create_worktree w (c_project_path c) plan_id (p_reference_id plan) (p_title plan) of
                                  Inl _ \<Rightarrow> None | Inr path \<Rightarrow> Some path)
                          else None)
                   in case on_store (insert_run (new_run_row rid plan_id (p_session_id plan) (Some chat) workspace
                               ''native'' (e_secs e 0))) a of
                        (Inl err, a1) \<Rightarrow> (Err (''Failed to insert plan run: '' @ err), a1)
                      | (Inr _, a1) \<Rightarrow>
                          (case on_store (kickoff_started (later 1 e) rid (Some chat)) a1 of
                             (Inl err, a2) \<Rightarrow>
                               (Err (''Failed to start assigned plan run: '' @ err), fail_kickoff (later 4 e) rid err a2)
                           | (Inr _, a2) \<Rightarrow>
                               (let a3 = announce_start rid (p_session_id plan) plan_id (Some chat)
                                      (a2\<lparr>tokens := (tokens a2)(rid \<mapsto> False)\<rparr>)
                                in (run_or_err rid ''Plan run not found after assignment'' a3, a3)))))))"

definition start_omp_run :: "env \<Rightarrow> string \<Rightarrow> string \<Rightarrow> app \<Rightarrow> plan_run result \<times> app" where
  "start_omp_run e session_id plan_id a =
     (let rid = gen_id (e_nanos e 0)
      in case on_store (insert_run (new_run_row rid plan_id session_id None None ''omp'' (e_secs e 0))) a of
           (Inl err, a1) \<Rightarrow> (Err (''Failed to insert OMP plan run: '' @ err), a1)
         | (Inr _, a1) \<Rightarrow>
             (case on_store (kickoff_started (later 1 e) rid None) a1 of
                (Inl err, a2) \<Rightarrow>
                  (Err (''Failed to start OMP plan run: '' @ err), fail_kickoff (later 4 e) rid err a2)
              | (Inr _, a2) \<Rightarrow>
                  (let a3 = announce_start rid session_id plan_id None a2
                   in (run_or_err rid ''OMP plan run not found after creation'' a3, a3))))"

text \<open>What the kickoff turn of an assigned chat reports back: set-up missing, an error, or a turn that ran.\<close>

datatype kickoff_turn = SetupRequired | TurnFailed | TurnRan

fun kickoff_assigned_run :: "env \<Rightarrow> string \<Rightarrow> kickoff_turn \<Rightarrow> db \<Rightarrow> db" where
  "kickoff_assigned_run e chat SetupRequired d = snd (fail_linked_chat e chat ''Assigned plan requires provider setup'' d)"
| "kickoff_assigned_run e chat TurnFailed d = snd (fail_linked_chat e chat ''Assigned plan kickoff failed'' d)"
| "kickoff_assigned_run e chat TurnRan d = d"

end
