(* ===== verification/PlanCompletion.thy ===== *)
theory PlanCompletion
  imports PlanRunner
begin

text \<open>
  How runs end: cancelling, completing after the final touches, marking complete, the project's finish
  policy (\<open>services/plan_runner_service.rs\<close>), and \<open>chat_terminal\<close>
  (\<open>services/plan_lifecycle_service.rs\<close>), which settles the run of a chat whose turn ended.
\<close>

subsection \<open>The linked checklist\<close>

definition checklist_progress :: "world \<Rightarrow> db \<Rightarrow> plan_run \<Rightarrow> (nat \<times> nat) option" where
  "checklist_progress w d run =
     (case plan_get d (run_plan_id run) of
        None \<Rightarrow> None
      | Some plan \<Rightarrow>
          (case p_change_name plan of
             None \<Rightarrow> None
           | Some name \<Rightarrow>
               (case session_get d (run_session_id run) of
                  None \<Rightarrow> None
                | Some s \<Rightarrow> if ss_project_path s = [] then None
                    else Some (w_task_progress w (ss_project_path s) name))))"

definition require_checklist_completion :: "world \<Rightarrow> db \<Rightarrow> plan_run \<Rightarrow> unit result" where
  "require_checklist_completion w d run =
     (case checklist_progress w d run of
        None \<Rightarrow> Ok ()
      | Some (ticked, tasks) \<Rightarrow>
          (if tasks = 0 then Err ''Cannot mark complete: the linked OpenSpec change has no required tasks.''
           else if ticked < tasks
           then Err (''Cannot mark complete: '' @ show_nat ticked @ ''/'' @ show_nat tasks
                       @ '' required OpenSpec tasks are complete.'')
           else Ok ()))"

definition evaluate_checklist_completion :: "world \<Rightarrow> db \<Rightarrow> plan_run \<Rightarrow> bool" where
  "evaluate_checklist_completion w d run =
     (case checklist_progress w d run of Some (ticked, tasks) \<Rightarrow> 0 < tasks \<and> ticked = tasks | None \<Rightarrow> True)"

subsection \<open>Final touches\<close>

definition normalize_final_touch_results :: "step_output list result \<Rightarrow> step_output list" where
  "normalize_final_touch_results r =
     (case r of
        Inr steps \<Rightarrow> steps
      | Inl err \<Rightarrow> [\<lparr>so_step_id = ''final-touches'', so_kind = ''system'', so_status = ''failed'', so_output = None,
                    so_error = Some (take_chars 500 err)\<rparr>])"

definition update_run_steps :: "string \<Rightarrow> step_output list \<Rightarrow> db \<Rightarrow> db" where
  "update_run_steps rid steps d = set_runs (\<lambda>r. r_id r = rid) (\<lambda>r. r\<lparr>r_steps := steps\<rparr>) d"

definition final_steps :: "world \<Rightarrow> string \<Rightarrow> step_output list" where
  "final_steps w project =
     (if project = [] then [] else normalize_final_touch_results (w_final_touches w project))"

subsection \<open>The finish policy\<close>

definition finish_outcome_of ::
  "string \<Rightarrow> string \<Rightarrow> string option \<Rightarrow> string option \<Rightarrow> bool \<Rightarrow> string option \<Rightarrow> finish_outcome" where
  "finish_outcome_of rid policy sha url ready err =
     \<lparr>fo_run_id = rid, fo_policy = policy, fo_commit_sha = sha, fo_pr_url = url, fo_merge_ready = ready, fo_error = err\<rparr>"

definition commit_message :: "string \<Rightarrow> string \<Rightarrow> string" where
  "commit_message plan_ref rid = ''Auto-commit: plan '' @ plan_ref @ '' completed (run '' @ rid @ '')''"

definition nothing_to_commit :: string where
  "nothing_to_commit = ''Nothing to commit '' @ em_dash @ '' working tree clean.''"

text \<open>A commit: its id, or why there is none.\<close>

definition try_commit :: "world \<Rightarrow> string \<Rightarrow> string \<Rightarrow> string option \<times> string option" where
  "try_commit w dir msg =
     (case w_commit_all w dir msg of
        Inl err \<Rightarrow> (None, Some (''git commit failed: '' @ err))
      | Inr sha \<Rightarrow> (if sha = [] then (None, Some nothing_to_commit) else (Some sha, None)))"

definition open_pr :: "world \<Rightarrow> string \<Rightarrow> string \<Rightarrow> string \<Rightarrow> string \<Rightarrow> string option \<times> string option" where
  "open_pr w project branch plan_ref rid =
     (case w_create_pr w project branch (''Plan '' @ plan_ref)
             (''Automated PR for plan '' @ plan_ref @ '' (run '' @ rid @ '')'') of
        Inl err \<Rightarrow> (None, Some (''PR creation error: '' @ err))
      | Inr pr \<Rightarrow> (if pr_success pr then (pr_url pr, None)
                  else (None, Some (''PR creation failed: '' @ coalesce (pr_error pr) []))))"

definition policy_outcome ::
  "world \<Rightarrow> env \<Rightarrow> plan_run \<Rightarrow> string \<Rightarrow> string \<Rightarrow> string \<Rightarrow> string \<Rightarrow> db \<Rightarrow> finish_outcome \<times> db" where
  "policy_outcome w e run policy project dir plan_ref d =
     (let rid = PlanData.run_id run; mk = finish_outcome_of rid policy; msg = commit_message plan_ref rid
      in if policy = ''auto_commit'' then
           (case try_commit w dir msg of (sha, err) \<Rightarrow> (mk sha None False err, d))
         else if policy = ''auto_commit_pr'' then
           (case try_commit w dir msg of
              (None, err) \<Rightarrow> (mk None None False err, d)
            | (Some sha, _) \<Rightarrow>
                (case w_current_branch w dir of
                   None \<Rightarrow> (mk (Some sha) None False
                     (Some (''Cannot determine current branch '' @ em_dash @ '' detached HEAD?'')), d)
                 | Some b \<Rightarrow>
                     (case open_pr w project b plan_ref rid of (url, err) \<Rightarrow> (mk (Some sha) url False err, d))))
         else if policy = ''queue_merge_review'' then
           (case try_commit w dir msg of
              (sha, err) \<Rightarrow> (mk sha None True err,
                 snd (add_to_merge_queue e rid (run_plan_id run) (run_session_id run) False [] d)))
         else (mk None None False (Some (''Unknown finish policy: '' @ policy)), d))"

definition work_dir_of :: "plan_run \<Rightarrow> string \<Rightarrow> string" where
  "work_dir_of run project =
     (case run_workspace run of Some dir \<Rightarrow> if dir \<noteq> [] then dir else project | None \<Rightarrow> project)"

definition apply_finish_policy_inner :: "world \<Rightarrow> env \<Rightarrow> string \<Rightarrow> app \<Rightarrow> finish_result result \<times> app" where
  "apply_finish_policy_inner w e rid a =
     (case get_run (store a) rid of
        None \<Rightarrow> (Err ''Run not found'', a)
      | Some run \<Rightarrow>
          (case session_get (store a) (run_session_id run) of
             None \<Rightarrow> (Err ''Session not found'', a)
           | Some s \<Rightarrow>
               (let project = ss_project_path s;
                    policy = (case get_launch_profile project (store a) of None \<Rightarrow> ''hold'' | Some p \<Rightarrow> lp_finish_policy p);
                    dir = work_dir_of run project
                in if policy = ''hold'' then (Ok Hold, a)
                   else if \<not> w_has_git w dir then
                     (let msg = ''Finish policy '' @ quote policy @ '' not applied: not a git repository.''
                      in (Ok (FallbackHold msg), emit (Notice ''integration_action'' rid ''Finish policy fallback'' (Some msg)) a))
                   else
                     (let plan_ref = (case plan_get (store a) (run_plan_id run) of
                            None \<Rightarrow> run_plan_id run | Some p \<Rightarrow> p_reference_id p)
                      in case policy_outcome w e run policy project dir plan_ref (store a) of
                           (outcome, d') \<Rightarrow>
                             (Ok (Applied outcome),
                              emit (PlanningEvent ''integration_action'' (run_plan_id run) project (Some (run_session_id run))
                                (''Finish policy: '' @ policy)
                                (Some (case fo_error outcome of
                                   Some err \<Rightarrow> ''Finish policy '' @ quote policy @ '' applied with error: '' @ err
                                 | None \<Rightarrow> ''Finish policy '' @ quote policy @ '' applied successfully'')))
                                (a\<lparr>store := d'\<rparr>))))))"

definition persist_finish_outcome :: "string \<Rightarrow> finish_result \<Rightarrow> db \<Rightarrow> db" where
  "persist_finish_outcome rid res d = set_runs (\<lambda>r. r_id r = rid) (\<lambda>r. r\<lparr>r_finish_outcome := Some res\<rparr>) d"

definition get_finish_outcome :: "string \<Rightarrow> db \<Rightarrow> finish_result option" where
  "get_finish_outcome rid d = (case lookup_by r_id rid (runs d) of None \<Rightarrow> None | Some r \<Rightarrow> r_finish_outcome r)"

definition apply_finish_policy :: "world \<Rightarrow> env \<Rightarrow> string \<Rightarrow> app \<Rightarrow> finish_result result \<times> app" where
  "apply_finish_policy w e rid a =
     (case apply_finish_policy_inner w e rid a of
        (Inl err, a') \<Rightarrow> (Err err, a')
      | (Inr res, a') \<Rightarrow> (Ok res, a'\<lparr>store := persist_finish_outcome rid res (store a')\<rparr>))"

subsection \<open>Completing and cancelling\<close>

definition completion_of :: "world \<Rightarrow> db \<Rightarrow> plan_run \<Rightarrow> step_output list \<Rightarrow> completion_state" where
  "completion_of w d run steps =
     (if \<exists>s \<in> set steps. so_status s = ''failed'' then Failed
      else if evaluate_checklist_completion w d run then Succeeded
      else AwaitingReview)"

definition completion_error :: "completion_state \<Rightarrow> string option" where
  "completion_error st = (case completion_row st of (_, _, _, err) \<Rightarrow> err)"

definition drift_notice :: "world \<Rightarrow> plan_run \<Rightarrow> string \<Rightarrow> app \<Rightarrow> app" where
  "drift_notice w run project a =
     (let mtime = w_schematic_mtime w project; start = coalesce (run_started_at run) 0
      in if 0 < mtime \<and> 0 < start \<and> mtime < start
         then emit (Notice ''schematic_drift_suspected'' (run_plan_id run) ''Schematic drift suspected''
                (Some ''Plan finished but the schematic hasn't been updated since before the run. Re-align the schematic to reflect completed work.'')) a
         else a)"

text \<open>Moving the run to its completion state, telling the windows, and the finish policy of a success.\<close>

definition settle_completion ::
  "world \<Rightarrow> env \<Rightarrow> plan_run \<Rightarrow> string \<Rightarrow> string \<Rightarrow> completion_state \<Rightarrow> app \<Rightarrow> unit result \<times> app" where
  "settle_completion w e run rid project completion a1 =
     (case on_store (finish_run e rid completion) a1 of
        (Inl err, a2) \<Rightarrow> (Err err, a2)
      | (Inr _, a2) \<Rightarrow>
          (let a3 = (if completion = AwaitingReview
                 then emit (PlanningEvent ''run_finished'' (run_plan_id run) project (Some (run_session_id run))
                        ''Run awaiting review''
                        (Some (''Checklist incomplete '' @ em_dash @ '' continue the plan or mark it complete.''))) a2
                 else a2)
           in case get_run (store a3) rid of
                None \<Rightarrow> (Err ''Run not found'', a3)
              | Some updated \<Rightarrow>
                  (let a4 = emit (run_event (PlanData.run_id updated) (run_session_id updated) (run_plan_id updated)
                         (run_status updated) (run_chat updated) (completion_error completion)) a3;
                       a5 = emit_planning_event updated
                         (if completion = Failed then ''run_failed'' else ''run_finished'') (completion_error completion) a4
                   in if completion = Succeeded
                      then (Ok (), snd (apply_finish_policy w (later 3 e) rid (drift_notice w run project a5)))
                      else (Ok (), a5))))"

definition complete_run :: "world \<Rightarrow> env \<Rightarrow> string \<Rightarrow> bool \<Rightarrow> app \<Rightarrow> unit result \<times> app" where
  "complete_run w e rid succeeded a =
     (case get_run (store a) rid of
        None \<Rightarrow> (Err ''Run not found'', a)
      | Some run \<Rightarrow>
          (let project = project_of (store a) (run_session_id run);
               steps = final_steps w project;
               a1 = (if succeeded then a\<lparr>store := update_run_steps rid steps (store a)\<rparr> else a);
               completion = (if succeeded then completion_of w (store a1) run steps else Failed)
           in settle_completion w e run rid project completion a1))"

definition mark_complete :: "world \<Rightarrow> env \<Rightarrow> string \<Rightarrow> app \<Rightarrow> unit result \<times> app" where
  "mark_complete w e rid a =
     (case get_run (store a) rid of
        None \<Rightarrow> (Err ''Run not found'', a)
      | Some run \<Rightarrow>
          (if run_status run \<noteq> RAwaitingReview \<and> run_status run \<noteq> RSucceeded
           then (Err (''Cannot mark complete: run is '' @ run_status_str (run_status run)
                        @ '' (must be awaiting_review or succeeded).''), a)
           else case require_checklist_completion w (store a) run of
             Inl err \<Rightarrow> (Err err, a)
           | Inr _ \<Rightarrow>
               (case on_store (finish_run e rid Succeeded) a of
                  (Inl err, a') \<Rightarrow> (Err err, a')
                | (Inr _, a') \<Rightarrow> (Ok (), emit (run_event (PlanData.run_id run) (run_session_id run) (run_plan_id run)
                    RSucceeded (run_chat run) None) a'))))"

definition cancel_token :: "string \<Rightarrow> app \<Rightarrow> app" where
  "cancel_token rid a = a\<lparr>tokens := (case tokens a rid of None \<Rightarrow> tokens a | Some _ \<Rightarrow> (tokens a)(rid \<mapsto> True))\<rparr>"

definition cancel_run :: "env \<Rightarrow> string \<Rightarrow> bool \<Rightarrow> app \<Rightarrow> unit result \<times> app" where
  "cancel_run e rid cancel_plan a =
     (case on_store (user_stop e rid cancel_plan) (cancel_token rid a) of
        (Inl err, a') \<Rightarrow> (Err err, a')
      | (Inr _, a') \<Rightarrow>
          (case get_run (store a') rid of
             None \<Rightarrow> (Ok (), a')
           | Some run \<Rightarrow>
               (Ok (), emit_planning_event run ''stage_cancelled'' (Some ''Run cancelled by user'')
                  (emit (run_event (PlanData.run_id run) (run_session_id run) (run_plan_id run) RCancelled (run_chat run)
                     (Some ''Cancelled by user'')) a'))))"

definition check_run_completion :: "world \<Rightarrow> env \<Rightarrow> string \<Rightarrow> app \<Rightarrow> (nat \<times> nat) result \<times> app" where
  "check_run_completion w e rid a =
     (case get_run (store a) rid of
        None \<Rightarrow> (Err ''Plan run not found'', a)
      | Some run \<Rightarrow>
          (if run_status run \<noteq> RRunning then (Ok (0, 0), a)
           else case plan_get (store a) (run_plan_id run) of
             None \<Rightarrow> (Err ''Plan not found'', a)
           | Some plan \<Rightarrow>
               (case session_get (store a) (p_session_id plan) of
                  None \<Rightarrow> (Err ''Session not found'', a)
                | Some s \<Rightarrow>
                    (let name = coalesce (p_change_name plan) []
                     in if name = [] then (Ok (0, 0), a)
                        else case w_task_progress w (ss_project_path s) name of
                          (ticked, tasks) \<Rightarrow>
                            (if 0 < tasks \<and> ticked = tasks
                             then (case complete_run w e rid True a of
                                     (Inl err, a') \<Rightarrow> (Err err, a')
                                   | (Inr _, a') \<Rightarrow> (Ok (ticked, tasks), a'))
                             else (Ok (ticked, tasks), a))))))"

subsection \<open>The end of a chat turn\<close>

datatype chat_terminal_state = TIdle | TInterrupted | TFailed | TCancelled

fun chat_state_name :: "chat_terminal_state \<Rightarrow> string" where
  "chat_state_name TIdle = ''idle''"
| "chat_state_name TInterrupted = ''interrupted''"
| "chat_state_name TFailed = ''idle''"
| "chat_state_name TCancelled = ''cancelled''"

fun chat_outcome_name :: "chat_terminal_state \<Rightarrow> string" where
  "chat_outcome_name TIdle = ''succeeded''"
| "chat_outcome_name TFailed = ''failed''"
| "chat_outcome_name TCancelled = ''cancelled''"
| "chat_outcome_name TInterrupted = ''cancelled''"

fun terminal_row :: "chat_terminal_state \<Rightarrow> string \<times> string \<times> string" where
  "terminal_row TIdle = (''awaiting_review'', ''chat_idle_needs_continuation'',
     ''Agent turn ended before the linked checklist was complete; continuation required'')"
| "terminal_row TInterrupted = (''awaiting_review'', ''chat_interrupted'',
     ''Linked chat was interrupted; continuation required'')"
| "terminal_row TFailed = (''failed'', ''chat_failed'', ''Linked chat failed to complete its turn'')"
| "terminal_row TCancelled = (''cancelled'', ''chat_cancelled'', ''Linked chat was stopped by the user'')"

text \<open>The newest active run of the chat whose plan and plan's session exist (the query joins them).\<close>

definition active_run_of_chat :: "string \<Rightarrow> db \<Rightarrow> run_row option" where
  "active_run_of_chat chat d =
     newest_run (\<lambda>r. r_chat r = Some chat \<and> run_active (r_status r) \<and>
       (case lookup_by pl_id (r_plan_id r) (plans d) of
          None \<Rightarrow> False | Some p \<Rightarrow> session_exists d (pl_session_id p))) d"

definition settle_chat_run :: "env \<Rightarrow> string \<Rightarrow> chat_terminal_state \<Rightarrow> run_row \<Rightarrow> plan_row \<Rightarrow> db \<Rightarrow> unit result \<times> db" where
  "settle_chat_run e chat st r p d =
     (case terminal_row st of (run_st, kind, err) \<Rightarrow>
        (let d1 = set_runs (\<lambda>x. r_id x = r_id r)
               (\<lambda>x. x\<lparr>r_status := run_st, r_error := Some err,
                      r_finished_at := coalesce_opt (r_finished_at x) (Some (e_secs e 0))\<rparr>) d;
             d2 = set_plans (\<lambda>x. pl_id x = r_plan_id r) (\<lambda>x. x\<lparr>pl_status := ''ready'', pl_updated_at := e_secs e 1\<rparr>) d1
         in commit_or_rollback d
              (record_event (e_millis e 0) (e_secs e 2)
                 \<lparr>es_run = Some (r_id r), es_plan = r_plan_id r, es_chat = Some chat, es_kind = kind,
                  es_from_run = Some (r_status r), es_to_run = Some run_st,
                  es_from_plan = Some (pl_status p), es_to_plan = Some ''ready''\<rparr> d2)))"

definition chat_terminal :: "world \<Rightarrow> env \<Rightarrow> string \<Rightarrow> chat_terminal_state \<Rightarrow> app \<Rightarrow> unit result \<times> app" where
  "chat_terminal w e chat st a =
     (let active = active_run_of_chat chat (store a);
          a1 = emit (Transcript chat (chat_outcome_name st))
                 (a\<lparr>store := set_chats (\<lambda>c. c_id c = chat)
                     (\<lambda>c. c\<lparr>c_run_state := chat_state_name st, c_updated_at := e_millis e 0\<rparr>) (store a)\<rparr>)
      in case active of
           None \<Rightarrow> (Ok (), a1)
         | Some r \<Rightarrow>
             (case lookup_by pl_id (r_plan_id r) (plans (store a)) of
                None \<Rightarrow> (Ok (), a1)
              | Some p \<Rightarrow>
                  (let complete = (st = TIdle \<and>
                         (case pl_change_name p of
                            None \<Rightarrow> False
                          | Some name \<Rightarrow>
                              (case w_task_progress w (project_of (store a) (pl_session_id p)) name of
                                 (ticked, tasks) \<Rightarrow> 0 < tasks \<and> ticked = tasks)))
                   in if complete
                      then (case on_store (\<lambda>d. commit_or_rollback d (record_event (e_millis e 1) (e_secs e 0)
                                   \<lparr>es_run = Some (r_id r), es_plan = r_plan_id r, es_chat = Some chat,
                                    es_kind = ''chat_idle_checklist_complete'', es_from_run = Some (r_status r),
                                    es_to_run = Some ''running'', es_from_plan = Some (pl_status p),
                                    es_to_plan = Some ''running''\<rparr> d)) a1 of
                              (Inl err, a2) \<Rightarrow> (Err err, a2)
                            | (Inr _, a2) \<Rightarrow> complete_run w (later 2 e) (r_id r) True a2)
                      else on_store (settle_chat_run (later 1 e) chat st r p) a1)))"

end
