(* ===== verification/DependencyProps.thy ===== *)
theory DependencyProps
  imports PlanDependency
begin

text \<open>
  What the dependency graph and the coordination tables guarantee: which plans are dispatchable, what
  the cycle report means, what a release or a claim does to the active claims, and that a merged entry
  is never reviewed again.
\<close>

subsection \<open>Loading the metadata\<close>

lemma load_deps_eq:
  "load_deps ps d i =
     (if i \<in> p_id ` set ps then (case get_dependencies i d of Inr x \<Rightarrow> Some x | Inl _ \<Rightarrow> None) else None)"
proof -
  have "fold (\<lambda>p m. case get_dependencies (p_id p) d of Inr x \<Rightarrow> m(p_id p \<mapsto> x) | Inl _ \<Rightarrow> m) ps m i =
    (if i \<in> p_id ` set ps then (case get_dependencies i d of Inr x \<Rightarrow> Some x | Inl _ \<Rightarrow> m i) else m i)" for m
    by (induction ps arbitrary: m) (auto split: sum.splits)
  then show ?thesis by (simp add: load_deps_def)
qed

lemma set_add_once [simp]: "set (add_once x xs) = insert x (set xs)"
  by (auto simp: add_once_def)

lemma set_fold_touch: "set (fold touch_path ts m path) = set (m path) \<union> {i. (path, i) \<in> set ts}"
  by (induction ts arbitrary: m) (auto simp: touch_path_def split: prod.splits)

lemma set_path_to_plans: "set (path_to_plans ps deps cs path) = {i. (path, i) \<in> set (path_touches ps deps cs)}"
  by (simp add: path_to_plans_def set_fold_touch)

lemma set_fold_collide: "set (fold (collide me) os acc) = set acc \<union> (set os - {me})"
  by (induction os arbitrary: acc) (auto simp: collide_def)

text \<open>A hash set hands out exactly its elements, in some order.\<close>

definition hash_order :: "(string \<Rightarrow> string list \<Rightarrow> string list) \<Rightarrow> bool" where
  "hash_order ord \<longleftrightarrow> (\<forall>path xs. set (ord path xs) = set xs)"

lemma set_collisions:
  assumes "hash_order ord"
  shows "set (collisions_of ord owners me paths) = (\<Union>path \<in> set paths. set (owners path)) - {me}"
proof -
  have "set (fold (\<lambda>path acc. fold (collide me) (ord path (owners path)) acc) paths acc) =
    set acc \<union> ((\<Union>path \<in> set paths. set (owners path)) - {me})" for acc
    using assms by (induction paths arbitrary: acc) (auto simp: set_fold_collide hash_order_def)
  then show ?thesis by (simp add: collisions_of_def)
qed

lemma plan_with_id_eq:
  "distinct (map p_id ps) \<Longrightarrow> plan_with_id i ps = Some p \<longleftrightarrow> p \<in> set ps \<and> p_id p = i"
  by (induction ps) (auto simp: plan_with_id_def rev_image_eqI)

lemma plan_with_id_None: "plan_with_id i ps = None \<longleftrightarrow> i \<notin> p_id ` set ps"
  by (induction ps) (auto simp: plan_with_id_def)

subsection \<open>Readiness\<close>

lemma readiness_dispatchable:
  assumes "distinct (map p_id ps)"
  shows "snd (snd (compute_readiness plan prereqs cols ps mode)) \<longleftrightarrow>
    p_status plan \<notin> {Finished, Cancelled, Running} \<and>
    (\<forall>i \<in> set prereqs. \<exists>q \<in> set ps. p_id q = i \<and> p_status q = Finished) \<and>
    (mode = ''yolo'' \<or> \<not> (\<exists>q \<in> set ps. p_status q = Running \<and> p_id q \<in> set cols))"
proof -
  have inj: "x = y" if "x \<in> set ps" "y \<in> set ps" "p_id x = p_id y" for x y
    using assms that by (auto simp: distinct_map inj_on_def)
  have unmet: "filter (\<lambda>i. case plan_with_id i ps of Some p \<Rightarrow> p_status p \<noteq> Finished | None \<Rightarrow> True) prereqs = [] \<longleftrightarrow>
      (\<forall>i \<in> set prereqs. \<exists>q \<in> set ps. p_id q = i \<and> p_status q = Finished)"
    unfolding filter_empty_conv
    by (intro ball_cong refl) (auto simp: plan_with_id_eq [OF assms] plan_with_id_None dest: inj split: option.splits)
  have running: "filter (\<lambda>i. case plan_with_id i ps of Some p \<Rightarrow> p_status p = Running | None \<Rightarrow> False) cols = [] \<longleftrightarrow>
      \<not> (\<exists>q \<in> set ps. p_status q = Running \<and> p_id q \<in> set cols)"
    unfolding filter_empty_conv
    using assms by (auto simp: plan_with_id_eq [OF assms] split: option.splits)
  show ?thesis
    unfolding compute_readiness_def Let_def unmet running by (auto simp: filter_empty_conv)
qed

lemma list_plan_ids: "distinct (map pl_id (plans d)) \<Longrightarrow> distinct (map p_id (list_plan_rows sid d))"
proof -
  assume "distinct (map pl_id (plans d))"
  then have "inj_on pl_id (set (plans d))" "distinct (plans d)" by (simp_all add: distinct_map)
  then show ?thesis
    by (auto simp: list_plan_rows_def select_plans_def distinct_map order_desc_def row_to_plan_def inj_on_def comp_def)
qed

subsection \<open>The graph as a whole\<close>

lemma ok_split: "is_ok (fst r) \<Longrightarrow> r = (Inr (projr (fst r)), snd r)"
  by (cases "fst r") (auto simp: prod_eq_iff)

lemma plan_list_cases:
  assumes "plan_list e sid a = (Inr ps, a')"
  shows "ps = list_plan_rows sid (store a') \<and> store a' = snd (reconcile_stale_owners e (Some sid) None (store a)) \<and>
    (\<exists>ids. fst (reconcile_stale_owners e (Some sid) None (store a)) = Inr ids)"
  using assms by (auto simp: plan_list_def reconciled_read_def reconcile_owners_def on_store_def
      split: prod.splits sum.splits)

lemma build_graphE:
  assumes "build_graph ord e sid a = (Inr g, a')"
  shows "g = graph_of ord sid (list_plan_rows sid (store a')) (store a') \<and>
    store a' = snd (reconcile_stale_owners e (Some sid) None (store a)) \<and>
    (\<exists>ids. fst (reconcile_stale_owners e (Some sid) None (store a)) = Inr ids)"
  using assms plan_list_cases [of e sid a] by (auto simp: build_graph_def split: prod.splits sum.splits)

lemma build_graph_inv:
  "build_graph ord e sid a = (Inr g, a') \<Longrightarrow> lifecycle_inv (store a) \<Longrightarrow> lifecycle_inv (store a')"
  using build_graphE inv_reconcile by metis

definition session_deps :: "string \<Rightarrow> db \<Rightarrow> deps" where
  "session_deps sid d = load_deps (list_plan_rows sid d) d"

definition paths_of :: "string \<Rightarrow> string \<Rightarrow> db \<Rightarrow> string set" where
  "paths_of sid i d = (case session_deps sid d i of None \<Rightarrow> {} | Some m \<Rightarrow> set (d_affected_paths m))"

text \<open>Plan \<open>j\<close> touches one of the declared paths of plan \<open>i\<close>: it declares it too or holds an active claim on it.\<close>

definition touches_same :: "string \<Rightarrow> db \<Rightarrow> string \<Rightarrow> string \<Rightarrow> bool" where
  "touches_same sid d i j \<longleftrightarrow> (\<exists>path \<in> paths_of sid i d.
     path \<in> paths_of sid j d \<or> (\<exists>c \<in> set (list_active_claims sid d). fcl_plan_id c = j \<and> fcl_path c = path))"

lemma session_deps_listed: "session_deps sid d i \<noteq> None \<Longrightarrow> i \<in> p_id ` set (list_plan_rows sid d)"
  by (auto simp: session_deps_def load_deps_eq split: if_splits)

lemma touches_eq:
  "(path, j) \<in> set (path_touches (list_plan_rows sid d) (session_deps sid d) (list_active_claims sid d)) \<longleftrightarrow>
     path \<in> paths_of sid j d \<or> (\<exists>c \<in> set (list_active_claims sid d). fcl_plan_id c = j \<and> fcl_path c = path)"
proof (cases "session_deps sid d j")
  case None
  then show ?thesis by (auto simp: path_touches_def paths_of_def split: option.splits)
next
  case (Some m)
  then have "j \<in> p_id ` set (list_plan_rows sid d)" using session_deps_listed by auto
  with Some show ?thesis by (auto simp: path_touches_def paths_of_def split: option.splits) force
qed

lemma node_of_simps [simp]:
  "n_plan_id (node_of ord ps deps owners p) = p_id p"
  "n_status (node_of ord ps deps owners p) = plan_status_str (p_status p)"
  "n_prerequisites (node_of ord ps deps owners p) = prereqs_of deps (p_id p)"
  "n_priority (node_of ord ps deps owners p) = p_priority p"
  by (simp_all add: node_of_def Let_def split_beta)

definition owners_of :: "string \<Rightarrow> db \<Rightarrow> string \<Rightarrow> string list" where
  "owners_of sid d = path_to_plans (list_plan_rows sid d) (session_deps sid d) (list_active_claims sid d)"

lemma node_collisions:
  assumes "hash_order ord"
  shows "set (n_collisions (node_of ord (list_plan_rows sid d) (session_deps sid d) (owners_of sid d) p)) =
    {j. j \<noteq> p_id p \<and> touches_same sid d (p_id p) j}"
proof -
  have "set (n_collisions (node_of ord (list_plan_rows sid d) (session_deps sid d) (owners_of sid d) p)) =
      (\<Union>path \<in> paths_of sid (p_id p) d. set (owners_of sid d path)) - {p_id p}"
    by (auto simp: node_of_def Let_def split_beta set_collisions [OF assms] paths_of_def split: option.splits)
  then show ?thesis by (auto simp: owners_of_def set_path_to_plans touches_eq touches_same_def)
qed

lemma node_dispatchable:
  fixes sid :: string
  assumes "hash_order ord" and "distinct (map pl_id (plans d))"
  defines "n \<equiv> node_of ord (list_plan_rows sid d) (session_deps sid d) (owners_of sid d)"
  shows "n_dispatchable (n p) \<longleftrightarrow>
    p_status p \<notin> {Finished, Cancelled, Running} \<and>
    (\<forall>i \<in> set (n_prerequisites (n p)). \<exists>q \<in> set (list_plan_rows sid d). p_id q = i \<and> p_status q = Finished) \<and>
    (n_yolo_confirmed (n p) \<or> \<not> (\<exists>q \<in> set (list_plan_rows sid d). p_status q = Running \<and> p_id q \<noteq> p_id p \<and>
        touches_same sid d (p_id p) (p_id q)))"
proof -
  have "n_dispatchable (n p) = snd (snd (compute_readiness p (n_prerequisites (n p)) (n_collisions (n p))
      (list_plan_rows sid d) (case session_deps sid d (p_id p) of None \<Rightarrow> ''safe'' | Some m \<Rightarrow> d_scheduling_mode m)))"
    by (simp add: n_def node_of_def Let_def split_beta)
  moreover have "n_yolo_confirmed (n p) \<longleftrightarrow>
      (case session_deps sid d (p_id p) of None \<Rightarrow> ''safe'' | Some m \<Rightarrow> d_scheduling_mode m) = ''yolo''"
    by (simp add: n_def node_of_def Let_def split_beta)
  ultimately show ?thesis
    using node_collisions [OF assms(1), of sid d p] list_plan_ids [OF assms(2), of sid]
    by (simp add: readiness_dispatchable n_def)
qed

lemma graph_nodes:
  "set (g_nodes (graph_of ord sid (list_plan_rows sid d) d)) =
     node_of ord (list_plan_rows sid d) (session_deps sid d) (owners_of sid d) ` set (list_plan_rows sid d)"
  by (simp add: graph_of_def Let_def session_deps_def owners_of_def)

text \<open>
  C1: a node of the graph is dispatchable exactly when its plan is not finished, cancelled or running, every
  prerequisite is a finished plan among the unarchived ones of the session, and no other running plan among
  these declares or claims one of its paths; a plan in yolo mode is exempt from this last condition. The
  node's status and priority are the plan's, and the nodes come by falling priority.
\<close>

theorem dispatchable_iff_safe:
  assumes "build_graph ord e sid a = (Ok g, a')" and "hash_order ord" and "lifecycle_inv (store a)"
    and "n \<in> set (g_nodes g)"
  shows "\<exists>p \<in> set (list_plan_rows sid (store a')). n_plan_id n = p_id p \<and> n_status n = plan_status_str (p_status p) \<and>
    n_priority n = p_priority p \<and>
    (n_dispatchable n \<longleftrightarrow>
      p_status p \<notin> {Finished, Cancelled, Running} \<and>
      (\<forall>i \<in> set (n_prerequisites n). \<exists>q \<in> set (list_plan_rows sid (store a')). p_id q = i \<and> p_status q = Finished) \<and>
      (n_yolo_confirmed n \<or> \<not> (\<exists>q \<in> set (list_plan_rows sid (store a')). p_status q = Running \<and>
          p_id q \<noteq> n_plan_id n \<and> touches_same sid (store a') (n_plan_id n) (p_id q)))) \<and>
    sorted_wrt (\<lambda>x y. uint (n_priority y) \<le> uint (n_priority x)) (g_nodes g)"
proof -
  have g: "g = graph_of ord sid (list_plan_rows sid (store a')) (store a')" using build_graphE [OF assms(1)] by blast
  have d: "distinct (map pl_id (plans (store a')))"
    using build_graph_inv [OF assms(1,3)] by (simp add: lifecycle_inv_def wf_db_def)
  obtain p where p: "p \<in> set (list_plan_rows sid (store a'))"
    and n: "n = node_of ord (list_plan_rows sid (store a')) (session_deps sid (store a')) (owners_of sid (store a')) p"
    using assms(4) by (auto simp: g graph_nodes)
  have "sorted_wrt (\<lambda>x y. uint (n_priority y) \<le> uint (n_priority x)) (g_nodes g)"
    by (simp add: g graph_of_def Let_def order_desc_sorted)
  with p n show ?thesis using node_dispatchable [OF assms(2) d, of sid p] by auto
qed

definition sample_app :: "db \<Rightarrow> app" where
  "sample_app d = \<lparr>store = d, tokens = Map.empty, queue_states = Map.empty, provider_sems = Map.empty,
     sem_seq = 0, outbox = []\<rparr>"

definition sample_dep :: "string \<Rightarrow> string list \<Rightarrow> string list \<Rightarrow> dep_row" where
  "sample_dep i prereqs paths = \<lparr>dm_plan_id = i, dm_prerequisites = prereqs, dm_affected_paths = paths,
     dm_scheduling_mode = ''safe'', dm_workspace_policy = ''isolated_worktrees'', dm_updated_at = 1\<rparr>"

definition chain_db :: db where
  "chain_db = (sample_db [sample_plan_row ''p1'' ''ready'', sample_plan_row ''p2'' ''ready''] [])
     \<lparr>dep_meta := [sample_dep ''p2'' [''p1''] [''src'']]\<rparr>"

definition insertion_order :: "string \<Rightarrow> string list \<Rightarrow> string list" where
  "insertion_order path xs = xs"

definition sample_graph :: "db \<Rightarrow> dependency_graph result \<times> app" where
  "sample_graph d = build_graph insertion_order env0 ''s1'' (sample_app d)"

lemma insertion_order_ok [simp]: "hash_order insertion_order"
  by (simp add: hash_order_def insertion_order_def)

lemma sample_graph_Ok:
  "is_ok (fst (sample_graph d)) \<Longrightarrow>
     build_graph insertion_order env0 ''s1'' (sample_app d) = (Ok (projr (fst (sample_graph d))), snd (sample_graph d))"
  by (simp add: sample_graph_def ok_split)

lemma chain_inv: "lifecycle_inv (store (sample_app chain_db))"
  by (simp add: sample_app_def chain_db_def lifecycle_inv_def wf_db_def sample_defs plan_exists_def
      session_exists_def plan_ok_def)

theorem dispatchable_iff_safe_witness:
  "map (\<lambda>n. (n_plan_id n, n_dispatchable n)) (g_nodes (projr (fst (sample_graph chain_db)))) =
     [(''p2'', False), (''p1'', True)] \<and>
   (\<exists>p \<in> set (list_plan_rows ''s1'' (store (snd (sample_graph chain_db)))).
      n_plan_id (hd (g_nodes (projr (fst (sample_graph chain_db))))) = p_id p)"
proof
  have ok: "is_ok (fst (sample_graph chain_db))" by code_simp
  have "g_nodes (projr (fst (sample_graph chain_db))) \<noteq> []" by code_simp
  then have "hd (g_nodes (projr (fst (sample_graph chain_db)))) \<in> set (g_nodes (projr (fst (sample_graph chain_db))))"
    by simp
  from dispatchable_iff_safe [OF sample_graph_Ok [OF ok] insertion_order_ok chain_inv this]
  show "\<exists>p \<in> set (list_plan_rows ''s1'' (store (snd (sample_graph chain_db)))).
      n_plan_id (hd (g_nodes (projr (fst (sample_graph chain_db))))) = p_id p" by blast
qed code_simp

subsection \<open>Cycles\<close>

definition session_prereqs :: "string \<Rightarrow> db \<Rightarrow> graph" where
  "session_prereqs sid d = prereqs_of (session_deps sid d)"

lemma prereqs_listed: "session_prereqs sid d x \<noteq> [] \<Longrightarrow> x \<in> set (map p_id (list_plan_rows sid d))"
  using session_deps_listed [of sid d x] by (auto simp: session_prereqs_def prereqs_of_def split: option.splits)

lemma search_session:
  "search_cycles (Suc (length (list_plan_rows sid d))) (session_prereqs sid d) (map p_id (list_plan_rows sid d)) =
     Some (detect_cycles (list_plan_rows sid d) (session_deps sid d))"
proof -
  have "card (set (map p_id (list_plan_rows sid d))) < Suc (length (list_plan_rows sid d))"
    using card_length [of "map p_id (list_plan_rows sid d)"] by simp
  with search_returns [of "set (map p_id (list_plan_rows sid d))" "session_prereqs sid d"] prereqs_listed
  have "search_cycles (Suc (length (list_plan_rows sid d))) (session_prereqs sid d) (map p_id (list_plan_rows sid d)) \<noteq> None"
    by blast
  then show ?thesis by (auto simp: detect_cycles_def session_prereqs_def)
qed

lemma graph_cycles: "g_cycles (graph_of ord sid (list_plan_rows sid d) d) = detect_cycles (list_plan_rows sid d) (session_deps sid d)"
  by (simp add: graph_of_def Let_def session_deps_def)

lemma cycle_head_listed: "is_cycle (session_prereqs sid d) c \<Longrightarrow> hd c \<in> set (map p_id (list_plan_rows sid d))"
proof (rule prereqs_listed)
  assume c: "is_cycle (session_prereqs sid d) c"
  then obtain x xs where "c = x # xs" by (cases c) (auto simp: is_cycle_def)
  with c show "session_prereqs sid d (hd c) \<noteq> []" by (cases xs) (auto simp: is_cycle_def)
qed

text \<open>
  C4: the cycle search always finishes within its fuel, every list it reports is a cycle of the
  session's prerequisites (distinct plans, each naming the next, the last naming the first), and it
  reports nothing exactly when no plan of the session reaches itself.
\<close>

theorem cycle_report_correct:
  assumes "build_graph ord e sid a = (Ok g, a')"
  shows "search_cycles (Suc (length (list_plan_rows sid (store a')))) (session_prereqs sid (store a'))
      (map p_id (list_plan_rows sid (store a'))) = Some (g_cycles g) \<and>
    (\<forall>c \<in> set (g_cycles g). is_cycle (session_prereqs sid (store a')) c) \<and>
    (g_cycles g = [] \<longleftrightarrow> (\<forall>p \<in> set (list_plan_rows sid (store a')).
        (p_id p, p_id p) \<notin> (edges (session_prereqs sid (store a')))\<^sup>+))"
proof -
  have g: "g = graph_of ord sid (list_plan_rows sid (store a')) (store a')" using build_graphE [OF assms] by blast
  then have search: "search_cycles (Suc (length (list_plan_rows sid (store a')))) (session_prereqs sid (store a'))
      (map p_id (list_plan_rows sid (store a'))) = Some (g_cycles g)" by (simp add: graph_cycles search_session)
  then have sound: "\<forall>c \<in> set (g_cycles g). is_cycle (session_prereqs sid (store a')) c"
    using search_sound by blast
  have "g_cycles g = []" if free: "\<forall>p \<in> set (list_plan_rows sid (store a')).
        (p_id p, p_id p) \<notin> (edges (session_prereqs sid (store a')))\<^sup>+"
  proof (rule ccontr)
    assume "g_cycles g \<noteq> []"
    then have "is_cycle (session_prereqs sid (store a')) (hd (g_cycles g))" using sound by simp
    from cycle_on_itself [OF this] cycle_head_listed [OF this] free show False by auto
  qed
  moreover have "(p_id p, p_id p) \<notin> (edges (session_prereqs sid (store a')))\<^sup>+"
    if "g_cycles g = []" "p \<in> set (list_plan_rows sid (store a'))" for p
    using search_complete [OF search [unfolded that(1)], of "p_id p"] that(2) by simp
  ultimately show ?thesis using search sound by blast
qed

definition loop_db :: db where
  "loop_db = (sample_db [sample_plan_row ''d'' ''ready'', sample_plan_row ''c'' ''ready'',
       sample_plan_row ''b'' ''ready'', sample_plan_row ''a'' ''ready''] [])
     \<lparr>dep_meta := [sample_dep ''a'' [''b''] [], sample_dep ''b'' [''c'', ''d''] [],
                  sample_dep ''c'' [''a''] [], sample_dep ''d'' [''c''] []]\<rparr>"

theorem cycle_report_correct_witness:
  "g_cycles (projr (fst (sample_graph loop_db))) = [[''a'', ''b'', ''c'']] \<and>
   is_cycle (session_prereqs ''s1'' (store (snd (sample_graph loop_db)))) [''a'', ''b'', ''c'']"
proof -
  have ok: "is_ok (fst (sample_graph loop_db))" by code_simp
  have "g_cycles (projr (fst (sample_graph loop_db))) = [[''a'', ''b'', ''c'']]" by code_simp
  with cycle_report_correct [OF sample_graph_Ok [OF ok]] show ?thesis by simp
qed

text \<open>
  The report names at least one cycle when there is one, but not every plan on a cycle: with
  \<open>a\<close> waiting on \<open>b\<close>, \<open>b\<close> on \<open>c\<close> and \<open>d\<close>, \<open>c\<close> on \<open>a\<close> and \<open>d\<close> on \<open>c\<close>, plan \<open>d\<close> waits on itself and
  is in no reported cycle, so validating it reports no cycle.
\<close>

theorem cycle_member_unreported:
  "(''d'', ''d'') \<in> (edges (session_prereqs ''s1'' (store (snd (sample_graph loop_db)))))\<^sup>+ \<and>
   g_cycles (projr (fst (sample_graph loop_db))) = [[''a'', ''b'', ''c'']]"
proof
  let ?g = "session_prereqs ''s1'' (store (snd (sample_graph loop_db)))"
  have "is_cycle ?g [''d'', ''c'', ''a'', ''b'']" by code_simp
  from cycle_on_itself [OF this] show "(''d'', ''d'') \<in> (edges ?g)\<^sup>+" by simp
qed code_simp

end
