(* ===== verification/CoordinationProps.thy ===== *)
theory CoordinationProps
  imports DependencyProps
begin

text \<open>
  Validation before dispatch against the graph, the owners of running plans, the effect of claims, and
  the merge-review queue as a machine whose merged entries are final.
\<close>

subsection \<open>Running plans have owners\<close>

lemma row_of_listed:
  assumes "p \<in> set (list_plan_rows sid d)"
  shows "\<exists>q \<in> set (plans d). p = row_to_plan q \<and> pl_session_id q = sid \<and> pl_id q \<notin> set (archived d)"
  using assms by (auto simp: list_plan_rows_def select_plans_def)

lemma session_known: "lifecycle_inv d \<Longrightarrow> q \<in> set (plans d) \<Longrightarrow> session_exists d (pl_session_id q)"
  by (simp add: lifecycle_inv_def wf_db_def)

lemma running_row: "plan_ok q \<Longrightarrow> plan_status_of (pl_status q) = Running \<longleftrightarrow> pl_status q = ''running''"
  by (auto simp: plan_ok_def plan_status_of_def)

lemma listed_rows:
  "set (list_plan_rows sid d) = row_to_plan ` {q \<in> set (plans d). pl_session_id q = sid \<and> pl_id q \<notin> set (archived d)}"
  by (auto simp: list_plan_rows_def select_plans_def)

lemma image_restricted: "f ` {n \<in> h ` A. P n} = (\<lambda>x. f (h x)) ` {x \<in> A. P (h x)}"
  by auto

lemma status_str_running: "plan_status_str s = ''running'' \<longleftrightarrow> s = Running"
  by (cases s) simp_all

text \<open>
  C25: the nodes of a graph that are shown as running are exactly those of the unarchived plans of the session
  that the tables hold as running, and each of these has a live execution owner: a pending or running run of a
  foreign runner, or one whose chat is running or waiting for input. A plan that lost its owner is not shown as
  running, since the graph is built after the reconciliation.
\<close>

theorem shown_running_is_owned:
  assumes "build_graph ord e sid a = (Ok g, a')" and "lifecycle_inv (store a)"
  shows "n_plan_id ` {n \<in> set (g_nodes g). n_status n = ''running''} =
      pl_id ` {q \<in> set (plans (store a')). pl_session_id q = sid \<and> pl_id q \<notin> set (archived (store a')) \<and> pl_status q = ''running''} \<and>
    (\<forall>n \<in> set (g_nodes g). n_status n = ''running'' \<longrightarrow> has_live_owner (store a') (n_plan_id n))"
proof -
  from build_graphE [OF assms(1)] obtain ids where
    g: "g = graph_of ord sid (list_plan_rows sid (store a')) (store a')" and
    r: "reconcile_stale_owners e (Some sid) None (store a) = (Ok ids, store a')" by (metis prod.collapse)
  have clean: "\<forall>q \<in> set (plans (store a')). \<not> release_plan (Some sid) None (store a') q"
    using reconcile_effect [OF r] by blast
  have inv: "lifecycle_inv (store a')" using build_graph_inv [OF assms] .
  let ?run = "{q \<in> set (plans (store a')). pl_session_id q = sid \<and> pl_id q \<notin> set (archived (store a')) \<and> pl_status q = ''running''}"
  have running: "p_status (row_to_plan q) = Running \<longleftrightarrow> pl_status q = ''running''" if "q \<in> set (plans (store a'))" for q
    using that inv running_row [of q] by (auto simp: lifecycle_inv_def row_to_plan_def)
  have ids: "p_id (row_to_plan q) = pl_id q" for q by (simp add: row_to_plan_def)
  have shown: "n_plan_id ` {n \<in> set (g_nodes g). n_status n = ''running''} = pl_id ` ?run"
  proof -
    have "n_plan_id ` {n \<in> set (g_nodes g). n_status n = ''running''} =
        p_id ` {p \<in> set (list_plan_rows sid (store a')). p_status p = Running}"
      by (simp add: g graph_nodes image_restricted status_str_running)
    also have "\<dots> = pl_id ` ?run" unfolding listed_rows image_restricted ids
      by (rule image_cong) (auto simp: running)
    finally show ?thesis .
  qed
  have owned: "has_live_owner (store a') i" if "i \<in> pl_id ` ?run" for i
  proof -
    from that obtain q where q: "q \<in> ?run" "i = pl_id q" by blast
    with clean have "\<not> release_plan (Some sid) None (store a') q" by simp
    with q show ?thesis by (simp add: release_plan_def in_scope_def)
  qed
  have "has_live_owner (store a') (n_plan_id n)" if "n \<in> set (g_nodes g)" "n_status n = ''running''" for n
    using that by (intro owned) (simp flip: shown)
  with shown show ?thesis by simp
qed

definition owned_db :: db where
  "owned_db = (sample_db [sample_plan_row ''p1'' ''running''] [sample_run_row ''r1'' ''p1'' (Some ''c1'') ''running''])
     \<lparr>chats := [\<lparr>c_id = ''c1'', c_project_path = ''/p'', c_run_state = ''needs_input'', c_updated_at = 0\<rparr>]\<rparr>"

lemma owned_inv: "lifecycle_inv (store (sample_app owned_db))"
  by (simp add: sample_app_def owned_db_def lifecycle_inv_def wf_db_def sample_defs plan_exists_def
      session_exists_def run_ok_defs plan_ok_def)

theorem shown_running_is_owned_witness:
  "n_plan_id ` {n \<in> set (g_nodes (projr (fst (sample_graph owned_db)))). n_status n = ''running''} = {''p1''} \<and>
   has_live_owner (store (snd (sample_graph owned_db))) ''p1''"
proof -
  let ?d = "store (snd (sample_graph owned_db))"
  have ok: "is_ok (fst (sample_graph owned_db))" by code_simp
  note graph = shown_running_is_owned [OF sample_graph_Ok [OF ok] owned_inv]
  have "map (\<lambda>q. (pl_id q, pl_session_id q, pl_status q)) (plans ?d) = [(''p1'', ''s1'', ''running'')]" "archived ?d = []"
    by code_simp+
  then have "pl_id ` {q \<in> set (plans ?d). pl_session_id q = ''s1'' \<and> pl_id q \<notin> set (archived ?d) \<and> pl_status q = ''running''} = {''p1''}"
    by (auto simp: map_eq_Cons_conv)
  with graph have shown: "n_plan_id ` {n \<in> set (g_nodes (projr (fst (sample_graph owned_db)))). n_status n = ''running''} = {''p1''}"
    by simp
  then have "''p1'' \<in> n_plan_id ` {n \<in> set (g_nodes (projr (fst (sample_graph owned_db)))). n_status n = ''running''}" by simp
  then obtain n where n: "n \<in> set (g_nodes (projr (fst (sample_graph owned_db))))" "n_status n = ''running''" "''p1'' = n_plan_id n"
    by (elim imageE CollectE conjE)
  have "has_live_owner ?d (n_plan_id n)" by (rule conjunct2 [OF graph, rule_format, OF n(1,2)])
  with n(3) shown show ?thesis by simp
qed

subsection \<open>Validation\<close>

definition no_artifacts :: artifact_view where
  "no_artifacts = \<lparr>change_dir_exists = (\<lambda>_ _. False), artifact_errors = (\<lambda>_ _. []), artifact_warnings = (\<lambda>_ _. [])\<rparr>"

lemma prerequisite_errors_Nil:
  "prerequisite_errors d is = [] \<longleftrightarrow> (\<forall>i \<in> set is. \<exists>p. plan_get d i = Some p \<and> p_status p = Finished)"
  by (induction "is") (auto simp: prerequisite_errors_def split: option.splits if_splits)

text \<open>
  A plan that validates is ready or in OpenSpec, lies on no reported cycle, has only finished
  prerequisites, and its change name, when it has one, stays inside the changes directory: no path
  separator, no dot-dot and no NUL.
\<close>

theorem valid_plan_is_safe:
  assumes "validate_readiness fs ord e i a = (Ok v, a')" and "v_valid v"
  shows "\<exists>p. plan_get (store a) i = Some p \<and> (p_status p = Ready \<or> p_status p = Openspec) \<and>
    (\<forall>c \<in> set (detect_cycles (list_plan_rows (p_session_id p) (store a')) (session_deps (p_session_id p) (store a'))).
        p_id p \<notin> set c) \<and>
    (\<forall>m. get_dependencies i (store a') = Ok m \<longrightarrow>
        (\<forall>j \<in> set (d_prerequisites m). \<exists>q. plan_get (store a') j = Some q \<and> p_status q = Finished)) \<and>
    (\<forall>name. p_change_name p = Some name \<longrightarrow>
        name \<noteq> [] \<and> CHR ''/'' \<notin> set name \<and> CHR 0x5C \<notin> set name \<and> \<not> sublist ''..'' name \<and> CHR 0x00 \<notin> set name)"
proof -
  from assms(1) obtain p where p: "plan_get (store a) i = Some p"
    by (auto simp: validate_readiness_def split: option.splits)
  with assms(1) obtain g where g: "build_graph ord e (p_session_id p) a = (Inr g, a')"
    by (auto simp: validate_readiness_def Let_def split: prod.splits sum.splits)
  have cyc: "g_cycles g = detect_cycles (list_plan_rows (p_session_id p) (store a')) (session_deps (p_session_id p) (store a'))"
    using build_graphE [OF g] by (simp add: graph_cycles)
  have err: "status_errors p = []" "cycle_errors p (g_cycles g) = []" "fst (artifact_findings fs p (store a')) = []"
    "\<And>m. get_dependencies i (store a') = Ok m \<Longrightarrow> prerequisite_errors (store a') (d_prerequisites m) = []"
    using assms p g by (auto simp: validate_readiness_def Let_def split_beta split: sum.splits)
  have "validate_change_name name = Inr ()" if "p_change_name p = Some name" for name
    using err(3) that by (auto simp: artifact_findings_def split: sum.splits)
  then have name: "name \<noteq> [] \<and> CHR ''/'' \<notin> set name \<and> CHR 0x5C \<notin> set name \<and> \<not> sublist ''..'' name \<and> CHR 0x00 \<notin> set name"
    if "p_change_name p = Some name" for name
    using that by (auto simp: validate_change_name_def has_infix_sublist split: if_splits)
  have "\<forall>c \<in> set (g_cycles g). p_id p \<notin> set c" using err(2) by (auto simp: cycle_errors_def filter_empty_conv)
  with p err cyc name show ?thesis
    by (auto simp: status_errors_def prerequisite_errors_Nil split: if_splits)
qed

theorem valid_plan_is_safe_witness:
  "v_valid (projr (fst (validate_readiness no_artifacts insertion_order env0 ''p1'' (sample_app chain_db)))) \<and>
   (\<exists>p. plan_get (store (sample_app chain_db)) ''p1'' = Some p \<and> (p_status p = Ready \<or> p_status p = Openspec))"
proof -
  let ?r = "validate_readiness no_artifacts insertion_order env0 ''p1'' (sample_app chain_db)"
  have "is_ok (fst ?r)" by code_simp
  then have r: "?r = (Ok (projr (fst ?r)), snd ?r)" by (rule ok_split)
  have v: "v_valid (projr (fst ?r))" by code_simp
  with valid_plan_is_safe [OF r v] show ?thesis by blast
qed

definition archived_db :: db where
  "archived_db = (sample_db [sample_plan_row ''p1'' ''finished'', sample_plan_row ''p2'' ''ready''] [])
     \<lparr>dep_meta := [sample_dep ''p2'' [''p1''] []], archived := [''p1'']\<rparr>"

text \<open>
  The graph looks a prerequisite up among the session's unarchived plans and validation in the
  whole table. A plan whose finished prerequisite was archived validates without an error and stays
  blocked in the graph, waiting on that prerequisite.
\<close>

theorem archived_prerequisite_blocks:
  "map (\<lambda>n. (n_plan_id n, n_readiness n, n_block_reason n)) (g_nodes (projr (fst (sample_graph archived_db)))) =
     [(''p2'', ''blocked'', Some ''Waiting on prerequisites: p1'')] \<and>
   map_sum id v_valid (fst (validate_readiness no_artifacts insertion_order env0 ''p2'' (sample_app archived_db))) = Ok True"
  by code_simp

subsection \<open>Claims\<close>

text \<open>The active claims of a run on a plan's path.\<close>

definition active_claim :: "string \<Rightarrow> string \<Rightarrow> string \<Rightarrow> file_claim \<Rightarrow> bool" where
  "active_claim rid plan_id path c \<longleftrightarrow>
     fcl_run_id c = rid \<and> fcl_plan_id c = plan_id \<and> fcl_path c = path \<and> fcl_released_at c = None"

definition release_stamp :: "int \<Rightarrow> string \<Rightarrow> string \<Rightarrow> string set \<Rightarrow> file_claim \<Rightarrow> file_claim" where
  "release_stamp t rid plan_id paths c =
     (if fcl_path c \<in> paths \<and> active_claim rid plan_id (fcl_path c) c then c\<lparr>fcl_released_at := Some t\<rparr> else c)"

lemma release_stamp_insert:
  "release_stamp t rid pid (insert path paths) c =
     release_stamp t rid pid paths
       (if fcl_run_id c = rid \<and> fcl_plan_id c = pid \<and> fcl_path c = path \<and> fcl_released_at c = None
        then c\<lparr>fcl_released_at := Some t\<rparr> else c)"
  by (auto simp: release_stamp_def active_claim_def)

lemma apply_release:
  "apply_claims e k rid pid sid ''release'' paths d =
     (Ok (), d\<lparr>claims := map (release_stamp (e_secs e 0) rid pid (set paths)) (claims d)\<rparr>)"
proof (induction paths arbitrary: k d)
  case Nil
  then show ?case by (simp add: release_stamp_def)
next
  case (Cons path paths)
  then show ?case by (simp add: upd_where_def comp_def release_stamp_insert)
qed

lemma apply_claim_rows:
  "apply_claims e k rid pid sid ''claim'' paths d = (Inr u, d') \<Longrightarrow>
     \<exists>new. d' = d\<lparr>claims := claims d @ new\<rparr> \<and> map fcl_path new = paths \<and>
       (\<forall>c \<in> set new. active_claim rid pid (fcl_path c) c \<and> fcl_session_id c = sid)"
proof (induction paths arbitrary: k d)
  case Nil
  then show ?case by simp
next
  case (Cons path paths)
  obtain cs where ins: "insert_checked fcl_id ''plan_file_claims'' (plan_exists d pid)
      \<lparr>fcl_id = gen_id (e_nanos e k), fcl_run_id = rid, fcl_plan_id = pid, fcl_session_id = sid, fcl_path = path,
       fcl_action = ''claim'', fcl_created_at = e_secs e 0, fcl_released_at = None\<rparr> (claims d) = Inr cs"
    and rest: "apply_claims e (Suc k) rid pid sid ''claim'' paths (d\<lparr>claims := cs\<rparr>) = (Inr u, d')"
    using Cons.prems by (auto split: sum.splits)
  from Cons.IH [OF rest] obtain new where "d' = d\<lparr>claims := cs @ new\<rparr>" "map fcl_path new = paths"
    "\<forall>c \<in> set new. active_claim rid pid (fcl_path c) c \<and> fcl_session_id c = sid" by auto
  with ins show ?case by (intro exI [of _ "last cs # new"]) (auto simp: insert_checked_Ok active_claim_def)
qed

text \<open>
  Releasing paths always succeeds and closes exactly the run's open claims on them, stamping each
  with one time and changing no other claim; claiming paths, when it succeeds, only appends one open
  claim of this run, plan and session per path, in order.
\<close>

theorem claims_effect:
  "set_file_claims e rid pid sid paths ''release'' d =
     (Ok (), d\<lparr>claims := map (release_stamp (e_secs e 0) rid pid (set paths)) (claims d)\<rparr>) \<and>
   (\<forall>path \<in> set paths. \<forall>c \<in> set (map (release_stamp (e_secs e 0) rid pid (set paths)) (claims d)).
      \<not> active_claim rid pid path c) \<and>
   (\<forall>d'. set_file_claims e rid pid sid paths ''claim'' d = (Ok (), d') \<longrightarrow>
      (\<exists>new. d' = d\<lparr>claims := claims d @ new\<rparr> \<and> map fcl_path new = paths \<and>
         (\<forall>c \<in> set new. active_claim rid pid (fcl_path c) c \<and> fcl_session_id c = sid)))"
proof -
  have "set_file_claims e rid pid sid paths ''release'' d =
     (Ok (), d\<lparr>claims := map (release_stamp (e_secs e 0) rid pid (set paths)) (claims d)\<rparr>)"
    by (simp add: set_file_claims_def VALID_CLAIM_ACTIONS_def apply_release)
  moreover have "\<not> active_claim rid pid path (release_stamp (e_secs e 0) rid pid (set paths) c)"
    if "path \<in> set paths" for path c
    using that by (auto simp: release_stamp_def active_claim_def)
  moreover have "\<exists>new. d' = d\<lparr>claims := claims d @ new\<rparr> \<and> map fcl_path new = paths \<and>
         (\<forall>c \<in> set new. active_claim rid pid (fcl_path c) c \<and> fcl_session_id c = sid)"
    if "set_file_claims e rid pid sid paths ''claim'' d = (Ok (), d')" for d'
    using apply_claim_rows [of e 0 rid pid sid paths d "()" d'] that
    by (simp add: set_file_claims_def VALID_CLAIM_ACTIONS_def)
  ultimately show ?thesis by auto
qed

definition claimed_db :: db where
  "claimed_db = snd (set_file_claims env0 ''r1'' ''p1'' ''s1'' [''a'', ''b''] ''claim''
     (sample_db [sample_plan_row ''p1'' ''running''] []))"

lemmas claim_eval = set_file_claims_def VALID_CLAIM_ACTIONS_def insert_checked_def insert_row_def plan_exists_def
  sample_defs

theorem claims_effect_witness:
  "map (\<lambda>c. (fcl_path c, fcl_released_at c)) (claims claimed_db) = [(''a'', None), (''b'', None)] \<and>
   (\<exists>new. claimed_db = (sample_db [sample_plan_row ''p1'' ''running''] [])\<lparr>claims := new\<rparr> \<and> map fcl_path new = [''a'', ''b'']) \<and>
   fst (set_file_claims env0 ''r1'' ''p1'' ''s1'' [''a''] ''release'' claimed_db) = Ok ()"
proof (intro conjI)
  show "map (\<lambda>c. (fcl_path c, fcl_released_at c)) (claims claimed_db) = [(''a'', None), (''b'', None)]"
    by (simp add: claimed_db_def claim_eval)
  let ?d = "sample_db [sample_plan_row ''p1'' ''running''] []"
  have ok: "fst (set_file_claims env0 ''r1'' ''p1'' ''s1'' [''a'', ''b''] ''claim'' ?d) = Ok ()" by (simp add: claim_eval)
  then have "set_file_claims env0 ''r1'' ''p1'' ''s1'' [''a'', ''b''] ''claim'' ?d = (Ok (), claimed_db)"
    by (metis claimed_db_def prod.collapse)
  moreover have "claims ?d = []" by (simp add: sample_db_def)
  ultimately show "\<exists>new. claimed_db = ?d\<lparr>claims := new\<rparr> \<and> map fcl_path new = [''a'', ''b'']"
    using claims_effect [of env0 "''r1''" "''p1''" "''s1''" "[''a'', ''b'']" ?d] by auto
  show "fst (set_file_claims env0 ''r1'' ''p1'' ''s1'' [''a''] ''release'' claimed_db) = Ok ()"
    using claims_effect [of env0 "''r1''" "''p1''" "''s1''" "[''a'']" claimed_db] by simp
qed

subsection \<open>The merge-review queue\<close>

datatype merge_op =
    AddMerge env string string string bool "string list"
  | ReviewMerge env string string

fun merge_step :: "merge_op \<Rightarrow> db \<Rightarrow> db" where
  "merge_step (AddMerge e rid pid sid review overlapping) d = snd (add_to_merge_queue e rid pid sid review overlapping d)"
| "merge_step (ReviewMerge e i decision) d = snd (review_merge_entry e i decision d)"

definition merge_entry_ok :: "merge_entry \<Rightarrow> bool" where
  "merge_entry_ok m \<longleftrightarrow> (m_status m = ''pending'' \<and> m_reviewed_at m = None) \<or>
     (m_status m \<in> set VALID_MERGE_DECISIONS \<and> m_reviewed_at m \<noteq> None)"

definition merge_inv :: "db \<Rightarrow> bool" where
  "merge_inv d \<longleftrightarrow> distinct (map m_id (merge_queue d)) \<and> (\<forall>m \<in> set (merge_queue d). merge_entry_ok m)"

lemma review_cases:
  obtains (refused) "\<not> is_ok (fst (review_merge_entry e i decision d))" "snd (review_merge_entry e i decision d) = d"
  | (reviewed) m where "lookup_by m_id i (merge_queue d) = Some m" "decision \<in> set VALID_MERGE_DECISIONS"
      "m_status m \<noteq> ''merged''" "m_status m \<noteq> decision"
      "review_merge_entry e i decision d =
         (Ok (m\<lparr>m_status := decision, m_reviewed_at := Some (e_secs e 0)\<rparr>),
          d\<lparr>merge_queue := upd_where (\<lambda>m. m_id m = i)
              (\<lambda>m. m\<lparr>m_status := decision, m_reviewed_at := Some (e_secs e 0)\<rparr>) (merge_queue d)\<rparr>)"
proof (cases "lookup_by m_id i (merge_queue d)")
  case None
  then show ?thesis by (intro refused) (auto simp: review_merge_entry_def get_merge_entry_def)
next
  case (Some m)
  then have "m_id m = i" by (auto dest: lookup_by_SomeD)
  show ?thesis
  proof (cases "decision \<in> set VALID_MERGE_DECISIONS \<and> m_status m \<noteq> ''merged'' \<and> m_status m \<noteq> decision")
    case True
    with Some \<open>m_id m = i\<close> show ?thesis
      by (intro reviewed) (auto simp: review_merge_entry_def get_merge_entry_def lookup_by_upd_where Let_def)
  next
    case False
    with Some show ?thesis by (intro refused) (auto simp: review_merge_entry_def get_merge_entry_def)
  qed
qed

lemma add_merge_snd:
  "snd (add_to_merge_queue e rid pid sid review overlapping d) = d \<or>
   (\<exists>m. snd (add_to_merge_queue e rid pid sid review overlapping d) = d\<lparr>merge_queue := merge_queue d @ [m]\<rparr> \<and>
      m_id m \<notin> m_id ` set (merge_queue d) \<and> merge_entry_ok m)"
  by (auto simp: add_to_merge_queue_def Let_def merge_entry_ok_def insert_checked_Ok split: sum.splits)

lemma merge_step_inv: "merge_inv d \<Longrightarrow> merge_inv (merge_step x d)"
proof (cases x)
  case (AddMerge e rid pid sid review overlapping)
  assume "merge_inv d"
  then show ?thesis using add_merge_snd [of e rid pid sid review overlapping d] AddMerge by (auto simp: merge_inv_def)
next
  case (ReviewMerge e i decision)
  assume "merge_inv d"
  then show ?thesis
    by (cases rule: review_cases [of e i decision d])
      (simp_all add: ReviewMerge merge_inv_def map_key_upd_where ball_upd_where merge_entry_ok_def)
qed

lemma merge_step_final:
  "lookup_by m_id i (merge_queue d) = Some m \<Longrightarrow> m_status m = ''merged'' \<Longrightarrow>
     lookup_by m_id i (merge_queue (merge_step x d)) = Some m"
proof (cases x)
  case (AddMerge e rid pid sid review overlapping)
  assume "lookup_by m_id i (merge_queue d) = Some m"
  then show ?thesis
    using add_merge_snd [of e rid pid sid review overlapping d] AddMerge by (auto simp: lookup_by_append)
next
  case (ReviewMerge e j decision)
  assume row: "lookup_by m_id i (merge_queue d) = Some m" and merged: "m_status m = ''merged''"
  show ?thesis
  proof (cases rule: review_cases [of e j decision d])
    case refused
    with row show ?thesis by (simp add: ReviewMerge)
  next
    case (reviewed n)
    with row merged have "i \<noteq> j" by auto
    with row have "m_id m \<noteq> j" by (auto dest: lookup_by_SomeD)
    with row reviewed show ?thesis by (simp add: ReviewMerge lookup_by_upd_where)
  qed
qed

interpretation merge_reviews: machine merge_step merge_inv
  by unfold_locales (rule merge_step_inv)

interpretation merge_final: settle_once merge_step "\<lambda>i d. lookup_by m_id i (merge_queue d)" "\<lambda>m. m_status m = ''merged''"
  by unfold_locales (rule merge_step_final)

text \<open>
  A merge-review entry that was merged keeps its row whatever requests follow, and over any
  sequence of requests every entry is either pending and unreviewed or carries one of the three
  decisions with a review time.
\<close>

theorem merged_is_final:
  assumes "lookup_by m_id i (merge_queue d) = Some m" and "m_status m = ''merged''" and "merge_inv d"
  shows "lookup_by m_id i (merge_queue (fold merge_step ops d)) = Some m \<and> merge_inv (fold merge_step ops d)"
  using merge_final.run_settled [OF assms(1,2)] merge_reviews.run_inv [OF assms(3)] by blast

definition merged_db :: db where
  "merged_db = (sample_db [sample_plan_row ''p1'' ''finished''] [])
     \<lparr>merge_queue := [\<lparr>m_id = ''m1'', m_run_id = ''r1'', m_plan_id = ''p1'', m_session_id = ''s1'', m_status = ''merged'',
        m_collision_review = False, m_overlapping = [], m_reviewed_at = Some 7, m_created_at = 5\<rparr>]\<rparr>"

theorem merged_is_final_witness:
  "map_option m_status (lookup_by m_id ''m1'' (merge_queue (fold merge_step
      [ReviewMerge env0 ''m1'' ''rejected'', AddMerge env0 ''r2'' ''p1'' ''s1'' False []] merged_db))) = Some ''merged''"
proof -
  have row: "lookup_by m_id ''m1'' (merge_queue merged_db) = Some (hd (merge_queue merged_db))"
    and st: "m_status (hd (merge_queue merged_db)) = ''merged''" and inv: "merge_inv merged_db"
    by (simp_all add: merged_db_def merge_inv_def merge_entry_ok_def VALID_MERGE_DECISIONS_def)
  from merged_is_final [OF row st inv] st show ?thesis by (simp del: fold.simps)
qed

end
