(* ===== verification/RunnerProps.thy ===== *)
theory RunnerProps
  imports PlanCompletion CoordinationProps
begin

text \<open>
  What the runner guarantees: the concurrency caps, how runs start and end, what the dispatcher picks,
  and where starting, completing and reconciling do not fit together.
\<close>

subsection \<open>Messages do not touch the store\<close>

lemma emit_store [simp]: "store (emit m a) = store a" "tokens (emit m a) = tokens a"
  by (simp_all add: emit_def)

lemma announce_store [simp]: "store (announce_start rid sid pid chat a) = store a"
  "store (emit_planning_event run kind detail a) = store a" "store (drop_token rid a) = store a"
  by (simp_all add: announce_start_def emit_planning_event_def drop_token_def Let_def split: option.splits)

lemma on_store_simps [simp]:
  "store (snd (on_store f a)) = snd (f (store a))" "fst (on_store f a) = fst (f (store a))"
  by (simp_all add: on_store_def split_beta)

lemma on_store_split: "on_store f a = (r, a') \<longleftrightarrow> (\<exists>d. f (store a) = (r, d) \<and> a' = a\<lparr>store := d\<rparr>)"
  by (auto simp: on_store_def split: prod.splits)

subsection \<open>Counting\<close>

definition frame :: "db \<Rightarrow> db \<Rightarrow> bool" where
  "frame d d' \<longleftrightarrow> global_limits d' = global_limits d \<and> pipeline_statuses d' = pipeline_statuses d"

lemma frame_refl [simp]: "frame d d"
  by (simp add: frame_def)

lemma frame_trans: "frame d d' \<Longrightarrow> frame d' d'' \<Longrightarrow> frame d d''"
  by (simp add: frame_def)

lemma frame_caps: "frame d d' \<Longrightarrow> planning_cap d' = planning_cap d \<and> global_cap d' = global_cap d \<and>
    count_running_pipeline_runs d' = count_running_pipeline_runs d \<and> count_active_pipeline_runs d' = count_active_pipeline_runs d"
  by (simp add: frame_def planning_cap_def global_cap_def count_running_pipeline_runs_def count_active_pipeline_runs_def)

lemma frame_record_event: "frame d (snd (record_event m k s d))"
  by (cases rule: record_event_cases [of m k s d]) (simp_all add: frame_def)

lemma frame_commit: "frame d (snd r) \<Longrightarrow> frame d (snd (commit_or_rollback d r))"
  by (cases r) (auto simp: commit_or_rollback_def frame_def split: sum.splits)

lemma frame_set [simp]: "frame d (set_runs P f d)" "frame d (set_plans Q g d)" "frame d (set_chats C h d)"
  by (simp_all add: frame_def set_runs_def set_plans_def set_chats_def)

text \<open>A single run transition leaves the run table alone or updates the one row.\<close>

definition touches_run :: "string \<Rightarrow> string \<Rightarrow> db \<Rightarrow> db \<Rightarrow> bool" where
  "touches_run i st d d' \<longleftrightarrow> frame d d' \<and>
     (runs d' = runs d \<or> (\<exists>f. runs d' = upd_where (\<lambda>r. r_id r = i) f (runs d) \<and>
        (\<forall>r. r_id (f r) = r_id r \<and> r_status (f r) = st)))"

lemma touches_run_commit:
  assumes "frame d d2" and "runs d2 = upd_where (\<lambda>r. r_id r = i) f (runs d)"
    and "\<And>r. r_id (f r) = r_id r" "\<And>r. r_status (f r) = st"
  shows "touches_run i st d (snd (commit_or_rollback d (record_event m k s d2)))"
proof (cases rule: record_event_cases [of m k s d2])
  case (failed err)
  then show ?thesis by (simp add: touches_run_def frame_def)
next
  case recorded
  then show ?thesis using assms by (auto simp: touches_run_def frame_def)
qed

lemma touches_run_refl [simp]: "touches_run i st d d"
  by (simp add: touches_run_def)

lemma touches_kickoff_started: "touches_run i ''running'' d (snd (kickoff_started e i c d))"
  by (auto simp: kickoff_started_def Let_def split: option.splits intro!: touches_run_commit)
    (simp_all add: frame_def set_runs_def set_plans_def)

lemma touches_kickoff_failed: "touches_run i ''failed'' d (snd (kickoff_failed e i err d))"
  by (auto simp: kickoff_failed_def Let_def split: option.splits intro!: touches_run_commit)
    (simp_all add: frame_def set_runs_def set_plans_def)

lemma count_upd_one:
  assumes "distinct (map k xs)" and "\<And>r. k (f r) = k r"
  shows "count_where P (upd_where (\<lambda>r. k r = i) f xs) \<le> count_where (\<lambda>r. P r \<and> k r \<noteq> i) xs + 1"
proof -
  have none: "count_where P (upd_where (\<lambda>r. k r = i) f ys) = count_where (\<lambda>r. P r \<and> k r \<noteq> i) ys"
    if "i \<notin> k ` set ys" for ys
    using that by (induction ys) auto
  show ?thesis using assms(1)
  proof (induction xs)
    case (Cons x xs)
    then show ?case using none [of xs] by (cases "k x = i") auto
  qed simp
qed

lemma count_upd_less:
  "(\<And>r. \<not> P (f r)) \<Longrightarrow> count_where P (upd_where Q f xs) \<le> count_where P xs"
  by (induction xs) auto

subsection \<open>The caps\<close>

definition running_within_caps :: "db \<Rightarrow> bool" where
  "running_within_caps d \<longleftrightarrow> count_running_plan_runs d \<le> planning_cap d \<and> count_running_runs d \<le> global_cap d"

lemma caps_frame:
  "frame d d' \<Longrightarrow> count_running_plan_runs d' \<le> count_running_plan_runs d \<Longrightarrow> running_within_caps d \<Longrightarrow> running_within_caps d'"
  using frame_caps [of d d'] by (auto simp: running_within_caps_def count_running_runs_def)

lemma caps_fail: "touches_run i ''failed'' d d' \<Longrightarrow> running_within_caps d \<Longrightarrow> running_within_caps d'"
  by (auto simp: touches_run_def count_running_plan_runs_def intro!: caps_frame [of d d'] count_upd_less)

lemma running_le_active: "count_where (\<lambda>s. s = ''running'') ss \<le> count_where run_active ss"
  by (rule count_where_mono) (simp add: run_active_def)

lemma caps_start:
  assumes t: "touches_run i ''running'' d d'" and "distinct (map r_id (runs d))"
    and gate: "plan_run_can_start (Some i) d" and "running_within_caps d"
  shows "running_within_caps d'"
proof (cases "runs d' = runs d")
  case True
  with assms show ?thesis by (auto simp: touches_run_def count_running_plan_runs_def intro: caps_frame [of d d'])
next
  case False
  with t obtain f where f: "runs d' = upd_where (\<lambda>r. r_id r = i) f (runs d)" "\<And>r. r_id (f r) = r_id r"
    and fr: "frame d d'" by (auto simp: touches_run_def)
  have "count_running_plan_runs d' \<le> count_where (\<lambda>r. r_status r = ''running'' \<and> r_id r \<noteq> i) (runs d) + 1"
    using count_upd_one [OF assms(2), of f "\<lambda>r. r_status r = ''running''" i] f by (simp add: count_running_plan_runs_def)
  also have "count_where (\<lambda>r. r_status r = ''running'' \<and> r_id r \<noteq> i) (runs d) \<le> count_active_plan_runs (Some i) d"
    unfolding count_active_plan_runs_def by (rule count_where_mono) (simp add: run_active_def)
  finally have n: "count_running_plan_runs d' \<le> count_active_plan_runs (Some i) d + 1" by simp
  have "count_running_pipeline_runs d \<le> count_active_pipeline_runs d"
    by (simp add: count_running_pipeline_runs_def count_active_pipeline_runs_def running_le_active)
  with n gate frame_caps [OF fr] show ?thesis
    by (auto simp: running_within_caps_def count_running_runs_def plan_run_can_start_def Let_def split: if_splits)
qed

lemma claim_run_cases:
  obtains (same) "snd (claim_run e sid pid d) = d"
  | (new) i where "claim_run e sid pid d = (Inr i, d\<lparr>runs := runs d @ [new_run_row i pid sid None None ''native'' (e_secs e 0)]\<rparr>)"
      "i \<notin> r_id ` set (runs d)" "plan_exists d pid" "session_exists d sid"
proof (cases "newest_run (\<lambda>r. r_plan_id r = pid \<and> r_session_id r = sid \<and> r_status r = ''pending'') d")
  case (Some r)
  then show ?thesis by (intro same) (simp add: claim_run_def)
next
  case None
  show ?thesis
  proof (cases "gen_id (e_nanos e 0) \<notin> r_id ` set (runs d) \<and> plan_exists d pid \<and> session_exists d sid")
    case True
    with None show ?thesis
      by (intro new) (auto simp: claim_run_def Let_def insert_run_def insert_checked_def insert_row_def new_run_row_def)
  next
    case False
    with None show ?thesis
      by (intro same) (auto simp: claim_run_def Let_def insert_run_def insert_checked_def insert_row_def new_run_row_def)
  qed
qed

lemma claim_run_inv: "lifecycle_inv d \<Longrightarrow> lifecycle_inv (snd (claim_run e sid pid d))"
proof (cases rule: claim_run_cases [of e sid pid d])
  case (new i)
  assume "lifecycle_inv d"
  moreover have "plan_exists (runs_update g d) j = plan_exists d j" "session_exists (runs_update g d) j = session_exists d j" for g j
    by (simp_all add: plan_exists_def session_exists_def)
  moreover have "run_exists (d\<lparr>runs := runs d @ rs\<rparr>) j" if "run_exists d j" for rs j
    using that by (auto simp: run_exists_def)
  ultimately show ?thesis using new
    by (auto simp: lifecycle_inv_def wf_db_def new_run_row_def run_ok_defs)
qed simp

lemma claim_run_frame: "frame d (snd (claim_run e sid pid d))"
  by (cases rule: claim_run_cases [of e sid pid d]) (simp_all add: frame_def)

lemma claim_run_caps: "running_within_caps d \<Longrightarrow> running_within_caps (snd (claim_run e sid pid d))"
proof (cases rule: claim_run_cases [of e sid pid d])
  case (new i)
  assume "running_within_caps d"
  then show ?thesis
    by (rule caps_frame [OF claim_run_frame, rotated])
      (simp add: new count_running_plan_runs_def count_where_append new_run_row_def)
qed simp

lemma create_session_runs:
  "runs (snd (create_session_for_plan w e p prof d)) = runs d" "frame d (snd (create_session_for_plan w e p prof d))"
  "plans (snd (create_session_for_plan w e p prof d)) = plans d" "sessions (snd (create_session_for_plan w e p prof d)) = sessions d"
  by (auto simp: create_session_for_plan_def frame_def split: option.splits sum.splits)

text \<open>The shape of a start: what the store is after each way \<open>execute_run\<close> can end.\<close>

lemma execute_run_store:
  fixes w e sid q prof a
  defines "d1 \<equiv> snd (claim_run e sid (q_plan_id q) (store a))"
  obtains (untouched) "store (snd (execute_run w e sid q prof a)) = d1"
  | (failed) rid d2 err where "frame d1 d2" "runs d2 = runs d1"
      "store (snd (execute_run w e sid q prof a)) = snd (kickoff_failed (later 2 e) rid err d2)"
  | (refused) rid d2 d3 err where "frame d1 d2" "runs d2 = runs d1" "d3 = snd (kickoff_started (later 2 e) rid (Some (w_chat_id w)) d2)"
      "plan_run_can_start (Some rid) d1"
      "store (snd (execute_run w e sid q prof a)) = snd (kickoff_failed (later 5 e) rid err d3)"
  | (started) rid d2 where "frame d1 d2" "runs d2 = runs d1" "plan_run_can_start (Some rid) d1"
      "store (snd (execute_run w e sid q prof a)) = snd (kickoff_started (later 2 e) rid (Some (w_chat_id w)) d2)"
proof -
  obtain res d1' where "claim_run e sid (q_plan_id q) (store a) = (res, d1')" by fastforce
  then have claim: "claim_run e sid (q_plan_id q) (store a) = (res, d1)" by (simp add: d1_def)
  show ?thesis
  proof (cases res)
    case (Inl err)
    with claim show ?thesis by (intro untouched) (simp add: execute_run_def on_store_def)
  next
    case rid: (Inr rid)
    show ?thesis
    proof (cases "plan_run_can_start (Some rid) d1 \<and> tokens a rid = None \<and> plan_get d1 (q_plan_id q) \<noteq> None")
      case False
      with claim rid show ?thesis
        by (intro untouched) (auto simp: execute_run_def on_store_def Let_def split: option.splits)
    next
      case True
      then obtain plan where plan: "plan_get d1 (q_plan_id q) = Some plan" by auto
      obtain res2 d2 where create: "create_session_for_plan w (later 1 e) plan prof d1 = (res2, d2)" by fastforce
      then have d2: "frame d1 d2" "runs d2 = runs d1" using create_session_runs by (metis snd_conv)+
      show ?thesis
      proof (cases res2)
        case (Inl err)
        with claim rid True plan create show ?thesis
          by (intro failed [OF d2, of rid]) (simp add: execute_run_def on_store_def Let_def fail_kickoff_def split_beta)
      next
        case (Inr chat)
        with create have chat: "chat = w_chat_id w"
          by (auto simp: create_session_for_plan_def split: option.splits sum.splits)
        obtain res3 d3 where k: "kickoff_started (later 2 e) rid (Some (w_chat_id w)) d2 = (res3, d3)" by fastforce
        show ?thesis
        proof (cases res3)
          case (Inl err)
          with claim rid True plan create \<open>res2 = Inr chat\<close> chat k show ?thesis
            by (intro refused [OF d2, of d3 rid]) (simp_all add: execute_run_def on_store_def Let_def fail_kickoff_def split_beta)
        next
          case (Inr u)
          with claim rid True plan create \<open>res2 = Inr chat\<close> chat k show ?thesis
            by (intro started [OF d2, of rid]) (simp_all add: execute_run_def on_store_def Let_def)
        qed
      qed
    qed
  qed
qed

lemma gate_frame: "frame d d' \<Longrightarrow> runs d' = runs d \<Longrightarrow> plan_run_can_start x d' = plan_run_can_start x d"
  using frame_caps [of d d'] by (simp add: plan_run_can_start_def count_active_plan_runs_def)

lemma caps_execute_run:
  assumes inv: "lifecycle_inv (store a)" and caps: "running_within_caps (store a)"
  shows "running_within_caps (store (snd (execute_run w e sid q prof a)))"
proof -
  let ?d1 = "snd (claim_run e sid (q_plan_id q) (store a))"
  have d1: "running_within_caps ?d1" "distinct (map r_id (runs ?d1))"
    using claim_run_caps [OF caps] claim_run_inv [OF inv] by (simp_all add: lifecycle_inv_def wf_db_def)
  have step: "running_within_caps d2 \<and> distinct (map r_id (runs d2))" if "frame ?d1 d2" "runs d2 = runs ?d1" for d2
    using caps_frame [OF that(1) _ d1(1)] d1(2) that(2) by (simp add: count_running_plan_runs_def)
  show ?thesis
  proof (cases rule: execute_run_store [of w e sid q prof a])
    case untouched
    with d1 show ?thesis by simp
  next
    case (failed rid d2 err)
    with step caps_fail [OF touches_kickoff_failed] show ?thesis by simp
  next
    case (refused rid d2 d3 err)
    have "running_within_caps d3"
      using refused(3) caps_start [OF touches_kickoff_started, of d2 rid] step [OF refused(1,2)] gate_frame [OF refused(1,2)] refused(4)
      by simp
    with refused(5) caps_fail [OF touches_kickoff_failed] show ?thesis by simp
  next
    case (started rid d2)
    then show ?thesis
      using caps_start [OF touches_kickoff_started, of d2 rid] step [OF started(1,2)] gate_frame [OF started(1,2)] by simp
  qed
qed

text \<open>
  C13: starting a queued run keeps the caps: whatever the queue, the profile and the answers of the
  world, if no more than the planning cap of plan runs and the global cap of runs were running before
  \<open>execute_run\<close>, no more are running after it.
\<close>

theorem execute_run_keeps_caps:
  assumes "lifecycle_inv (store a)" and "running_within_caps (store a)"
  shows "running_within_caps (store (snd (execute_run w e sid q prof a)))"
  using assms by (rule caps_execute_run)

definition sample_world :: world where
  "sample_world = \<lparr>w_final_touches = (\<lambda>_. Ok []), w_task_progress = (\<lambda>_ _. (3, 3)), w_schematic_mtime = (\<lambda>_. 0),
     w_has_git = (\<lambda>_. False), w_commit_all = (\<lambda>_ _. Err ''no repository''), w_current_branch = (\<lambda>_. None),
     w_create_pr = (\<lambda>_ _ _ _. Err ''no remote''), w_worktrees = (\<lambda>_. False),
     w_create_worktree = (\<lambda>_ _ _ _. Err ''no repository''), w_resolve_model = (\<lambda>_ _ _ _. Ok ()),
     w_chat_id = ''nchat-1'', w_prime_chat = (\<lambda>_ _. Ok ())\<rparr>"

definition queue_row :: "string \<Rightarrow> string \<Rightarrow> queue_entry" where
  "queue_row i pid = \<lparr>q_id = i, q_session_id = ''s1'', q_plan_id = pid, q_sort_order = 0, q_created_at = 2\<rparr>"

definition queued_db :: db where
  "queued_db = (sample_db [sample_plan_row ''p1'' ''ready''] [])\<lparr>queue := [queue_row ''q1'' ''p1'']\<rparr>"

definition live_queue :: "app \<Rightarrow> app" where
  "live_queue a = a\<lparr>queue_states := [''s1'' \<mapsto> \<lparr>qs_paused = False, qs_generation = ''g1'',
     qs_profile = Some default_profile, qs_overrides = Map.empty\<rparr>]\<rparr>"

definition started_app :: app where
  "started_app = snd (execute_run sample_world env0 ''s1'' (queue_row ''q1'' ''p1'') default_profile (live_queue (sample_app queued_db)))"

lemma queued_inv: "lifecycle_inv (store (sample_app queued_db))"
  by (simp add: sample_app_def queued_db_def lifecycle_inv_def wf_db_def sample_defs plan_exists_def
      session_exists_def plan_ok_def)

lemma queued_caps: "running_within_caps (store (sample_app queued_db))"
  by code_simp

theorem execute_run_keeps_caps_witness:
  "running_within_caps (store (snd (execute_run sample_world env0 ''s1'' (queue_row ''q1'' ''p1'') default_profile
     (sample_app queued_db))))"
  by (rule execute_run_keeps_caps [OF queued_inv queued_caps])

lemmas cap_eval = plan_run_can_start_def count_active_plan_runs_def count_active_pipeline_runs_def planning_cap_def
  global_cap_def effective_planning_max_def effective_global_max_def conservative_limits_def DEFAULT_PLANNING_MAX_def
  DEFAULT_GLOBAL_MAX_def

subsection \<open>What a start leaves behind\<close>

definition start_row :: "env \<Rightarrow> string \<Rightarrow> run_row \<Rightarrow> run_row" where
  "start_row e chat r = r\<lparr>r_status := ''running'', r_chat := Some chat,
     r_started_at := coalesce_opt (r_started_at r) (Some (e_secs e 0)), r_finished_at := None, r_error := None\<rparr>"

lemma start_row_simps [simp]:
  "r_id (start_row e c r) = r_id r" "r_status (start_row e c r) = ''running''" "r_chat (start_row e c r) = Some c"
  "r_plan_id (start_row e c r) = r_plan_id r" "r_session_id (start_row e c r) = r_session_id r"
  "r_kind (start_row e c r) = r_kind r"
  by (simp_all add: start_row_def)

lemma commit_record_Ok:
  assumes "commit_or_rollback d (record_event m k s d2) = (Inr u, d')"
  shows "runs d' = runs d2 \<and> plans d' = plans d2 \<and> chats d' = chats d2 \<and> sessions d' = sessions d2 \<and>
    d' = d2\<lparr>event_seq := event_seq d', events := events d'\<rparr>"
  using assms by (cases rule: record_event_cases [of m k s d2]) auto

lemma kickoff_started_Ok:
  assumes "kickoff_started e i (Some c) d = (Inr u, d')" and "lookup_by r_id i (runs d) = Some r"
    and "r_status r \<noteq> ''running''"
  shows "runs d' = upd_where (\<lambda>r. r_id r = i) (start_row e c) (runs d) \<and> chats d' = chats d \<and> sessions d' = sessions d \<and>
    plans d' = upd_where (\<lambda>p. pl_id p = r_plan_id r) (\<lambda>p. p\<lparr>pl_status := ''running'', pl_updated_at := e_secs e 1\<rparr>) (plans d)"
proof -
  obtain fp where ctx: "run_context d i = Some (r_plan_id r, r_status r, fp)"
    using assms by (auto simp: kickoff_started_def run_context_def split: option.splits)
  have f: "(\<lambda>r. r\<lparr>r_status := ''running'', r_chat := Some c,
      r_started_at := coalesce_opt (r_started_at r) (Some (e_secs e 0)), r_finished_at := None, r_error := None\<rparr>) = start_row e c"
    by (rule ext) (simp add: start_row_def)
  from assms(1,3) obtain m k s where "commit_or_rollback d (record_event m k s
      (set_plans (\<lambda>p. pl_id p = r_plan_id r) (\<lambda>p. p\<lparr>pl_status := ''running'', pl_updated_at := e_secs e 1\<rparr>)
        (set_runs (\<lambda>r. r_id r = i) (start_row e c) d))) = (Inr u, d')"
    by (simp add: kickoff_started_def ctx Let_def f)
  from commit_record_Ok [OF this] show ?thesis by simp
qed

text \<open>The run a queued start claims is pending, belongs to the plan and the session, and has no chat of its own.\<close>

lemma claimed_row:
  assumes "claim_run e sid pid d = (Inr i, d1)" and "lifecycle_inv d"
    and "\<And>r. r \<in> set (runs d) \<Longrightarrow> r_status r = ''pending'' \<Longrightarrow> r_kind r = ''native''"
  shows "\<exists>r. lookup_by r_id i (runs d1) = Some r \<and> r_status r = ''pending'' \<and> r_plan_id r = pid \<and>
    r_session_id r = sid \<and> r_kind r = ''native'' \<and> plans d1 = plans d \<and> sessions d1 = sessions d \<and> chats d1 = chats d"
proof (cases "newest_run (\<lambda>r. r_plan_id r = pid \<and> r_session_id r = sid \<and> r_status r = ''pending'') d")
  case (Some r)
  then have r: "r \<in> set (runs d)" "r_plan_id r = pid" "r_session_id r = sid" "r_status r = ''pending''"
    by (auto simp: newest_run_def dest!: head_opt_SomeD)
  have "distinct (map r_id (runs d))" using assms(2) by (simp add: lifecycle_inv_def wf_db_def)
  from lookup_by_distinct [OF this r(1)] Some assms(1) r assms(3) [OF r(1)] show ?thesis by (simp add: claim_run_def)
next
  case None
  with assms(1) show ?thesis
    by (auto simp: claim_run_def Let_def insert_run_def insert_checked_Ok new_run_row_def lookup_by_append lookup_by_None
        split: sum.splits option.splits dest: lookup_by_key)
qed

lemma run_or_err_Ok: "run_or_err i err a = Inr run \<Longrightarrow>
    \<exists>r. lookup_by r_id i (runs (store a)) = Some r \<and> run = map_run r"
  by (auto simp: run_or_err_def get_run_def split: option.splits)

lemma map_run_status: "run_ok r \<Longrightarrow> run_status (map_run r) = RRunning \<longleftrightarrow> r_status r = ''running''"
  by (auto simp: map_run_def run_status_of_def)

lemma create_session_Ok:
  assumes "create_session_for_plan w e p prof d = (Inr chat, d')"
  shows "chat = w_chat_id w \<and> (\<exists>c. lookup_by c_id chat (chats d') = Some c \<and> c_run_state c = ''idle'') \<and>
    runs d' = runs d \<and> plans d' = plans d \<and> sessions d' = sessions d \<and> session_get d (p_session_id p) \<noteq> None"
  using assms
  by (auto simp: create_session_for_plan_def insert_checked_Ok lookup_by_append lookup_by_None
      split: option.splits sum.splits dest: lookup_by_key)

lemma execute_run_started:
  assumes ex: "execute_run w e sid q prof a = (Inr run, a')" and running: "run_status run = RRunning"
    and inv: "lifecycle_inv (store a)"
    and native: "\<And>r. r \<in> set (runs (store a)) \<Longrightarrow> r_status r = ''pending'' \<Longrightarrow> r_kind r = ''native''"
  shows "\<exists>r. lookup_by r_id (PlanData.run_id run) (runs (store a')) = Some r \<and> run = map_run r \<and> r_plan_id r = q_plan_id q \<and>
    stale_row (Some sid) None (store a') r"
proof -
  obtain res d1 where claim: "claim_run e sid (q_plan_id q) (store a) = (res, d1)" by fastforce
  with ex obtain i where i: "res = Inr i" by (cases res) (auto simp: execute_run_def on_store_def)
  obtain r where r: "lookup_by r_id i (runs d1) = Some r" "r_status r = ''pending''" "r_plan_id r = q_plan_id q"
    "r_session_id r = sid" "r_kind r = ''native''"
    using claimed_row [OF claim [unfolded i] inv] native by blast
  have pending: "run_or_err i m a1 \<noteq> Inr run" if "store a1 = d1" for m a1
    using r(1,2) running that by (auto simp: run_or_err_def get_run_def map_run_def run_status_of_def)
  from ex claim i pending [of "a\<lparr>store := d1\<rparr>"] obtain plan where can: "plan_run_can_start (Some i) d1" "tokens a i = None"
    and plan: "plan_get d1 (q_plan_id q) = Some plan"
    by (auto simp: execute_run_def on_store_def Let_def split: if_splits option.splits)
  obtain res2 d2 where create: "create_session_for_plan w (later 1 e) plan prof d1 = (res2, d2)" by fastforce
  with ex claim i can plan obtain chat where chat: "res2 = Inr chat"
    by (cases res2) (auto simp: execute_run_def on_store_def Let_def)
  note c = create_session_Ok [OF create [unfolded chat]]
  obtain res3 d3 where kick: "kickoff_started (later 2 e) i (Some chat) d2 = (res3, d3)" by fastforce
  with ex claim i can plan create chat obtain u where u: "res3 = Inr u"
    by (cases res3) (auto simp: execute_run_def on_store_def Let_def)
  have "lookup_by r_id i (runs d2) = Some r" "r_status r \<noteq> ''running''" using c r by simp_all
  note k = kickoff_started_Ok [OF kick [unfolded u] this]
  let ?a5 = "drop_token i (announce_start i sid (q_plan_id q) (Some chat) (a\<lparr>tokens := (tokens a)(i \<mapsto> False), store := d3\<rparr>))"
  have end_state: "run_or_err i ''Plan run not found after execution'' ?a5 = Inr run \<and> ?a5 = a'"
    using ex claim i can plan create chat kick u by (auto simp: execute_run_def on_store_def Let_def)
  then have a': "store a' = d3" by auto
  have row: "lookup_by r_id i (runs d3) = Some (start_row (later 2 e) chat r)"
    using c k r by (auto simp: lookup_by_upd_where dest: lookup_by_SomeD)
  with run_or_err_Ok [OF conjunct1 [OF end_state]] have run: "run = map_run (start_row (later 2 e) chat r)" by simp
  obtain p where p: "lookup_by pl_id (q_plan_id q) (plans d1) = Some p" "p_session_id plan = pl_session_id p"
    using plan by (auto simp: plan_get_def row_to_plan_def)
  have "stale_row (Some sid) None d3 (start_row (later 2 e) chat r)"
    using c k r p by (auto simp: stale_row_def in_scope_def project_of_session_def session_get_def chat_live_def
        lookup_by_upd_where split: option.splits)
  moreover have "PlanData.run_id run = i" using run r(1) by (auto simp: map_run_def dest: lookup_by_SomeD)
  ultimately show ?thesis using row run a' r(3) by auto
qed

text \<open>
  A run that \<open>execute_run\<close> just started has a chat in state \<open>idle\<close>, so the next reconciliation of
  its session counts it as ownerless: it names the run and moves it to \<open>awaiting_review\<close>, whatever the
  times, unless the chat starts a turn in between.
\<close>

theorem started_run_is_reclaimed:
  assumes "execute_run w e sid q prof a = (Ok run, a')" and "run_status run = RRunning"
    and "lifecycle_inv (store a)"
    and "\<And>r. r \<in> set (runs (store a)) \<Longrightarrow> r_status r = ''pending'' \<Longrightarrow> r_kind r = ''native''"
    and "reconcile_stale_owners e' (Some sid) None (store a') = (Ok ids, d')"
  shows "PlanData.run_id run \<in> set ids \<and>
    (\<forall>y \<in> set (runs d'). r_id y = PlanData.run_id run \<longrightarrow> r_status y = ''awaiting_review'')"
proof -
  obtain r where r: "lookup_by r_id (PlanData.run_id run) (runs (store a')) = Some r" "stale_row (Some sid) None (store a') r"
    using execute_run_started [OF assms(1-4)] by blast
  then have "r \<in> set (runs (store a'))" "r_id r = PlanData.run_id run" by (auto dest: lookup_by_SomeD)
  with r(2) reconcile_effect [OF assms(5), of e'] have "PlanData.run_id run \<in> set ids" by force
  with reconcile_effect [OF assms(5), of e'] show ?thesis by auto
qed

theorem started_run_is_reclaimed_witness:
  "PlanData.run_id (projr (fst (execute_run sample_world env0 ''s1'' (queue_row ''q1'' ''p1'') default_profile
      (live_queue (sample_app queued_db))))) \<in>
   set (projr (fst (reconcile_stale_owners env0 (Some ''s1'') None (store started_app))))"
proof -
  let ?r = "execute_run sample_world env0 ''s1'' (queue_row ''q1'' ''p1'') default_profile (live_queue (sample_app queued_db))"
  let ?c = "reconcile_stale_owners env0 (Some ''s1'') None (store (snd ?r))"
  have ok: "?r = (Ok (projr (fst ?r)), snd ?r)" by (rule ok_split) code_simp
  have run: "run_status (projr (fst ?r)) = RRunning" by code_simp
  have inv: "lifecycle_inv (store (live_queue (sample_app queued_db)))"
    using queued_inv by (simp add: live_queue_def)
  have none: "r_kind r = ''native''" if "r \<in> set (runs (store (live_queue (sample_app queued_db))))" for r
    using that by (simp add: live_queue_def sample_app_def queued_db_def sample_db_def)
  have rec: "?c = (Ok (projr (fst ?c)), snd ?c)" by (rule ok_split) code_simp
  from started_run_is_reclaimed [OF ok run inv none rec] show ?thesis unfolding started_app_def by blast
qed

text \<open>
  The dispatcher starts the same plan again. With one ready plan in a live queue, the first turn
  starts it; the next turn's own reconciliation takes the run away from its idle chat, returns the plan
  to ready and starts the entry again, with a second run and a second chat.
\<close>

theorem dispatcher_restarts_plan:
  "(let q = queue_row ''q1'' ''p1'';
        t1 = dispatch_turn insertion_order env0 ''s1'' ''g1'' (live_queue (sample_app queued_db));
        a1 = snd (execute_run sample_world (later 10 env0) ''s1'' q default_profile (snd t1));
        t2 = dispatch_turn insertion_order (later 30 env0) ''s1'' ''g1'' a1;
        a2 = snd (execute_run (sample_world\<lparr>w_chat_id := ''nchat-2''\<rparr>) (later 60 env0) ''s1'' q default_profile (snd t2))
    in fst t1 = Start q default_profile \<and> map r_status (runs (store a1)) = [''running''] \<and>
       fst t2 = Start q default_profile \<and> map r_status (runs (store (snd t2))) = [''awaiting_review''] \<and>
       map (\<lambda>r. (r_status r, r_chat r)) (runs (store a2)) =
         [(''awaiting_review'', Some ''nchat-1''), (''running'', Some ''nchat-2'')])"
  by code_simp

text \<open>
  Executing one queue entry twice, as two turns that picked it before either run existed do, starts
  two runs of the same plan: the guard keys on the run, and the second call finds no pending run to
  share and makes its own.
\<close>

theorem entry_started_twice:
  "(let q = queue_row ''q1'' ''p1'';
        a1 = snd (execute_run sample_world (later 10 env0) ''s1'' q default_profile (live_queue (sample_app queued_db)));
        a2 = snd (execute_run (sample_world\<lparr>w_chat_id := ''nchat-2''\<rparr>) (later 60 env0) ''s1'' q default_profile a1)
    in map (\<lambda>r. (r_plan_id r, r_status r, r_chat r)) (runs (store a2)) =
         [(''p1'', ''running'', Some ''nchat-1''), (''p1'', ''running'', Some ''nchat-2'')])"
  by code_simp

text \<open>
  Assigning a plan to a chat does not look at the caps: with a planning cap of one and one run
  already running, the assignment starts a second one.
\<close>

definition capped_db :: db where
  "capped_db = owned_db\<lparr>plans := [sample_plan_row ''p1'' ''running'', sample_plan_row ''p2'' ''ready''],
     chats := chats owned_db @ [\<lparr>c_id = ''c2'', c_project_path = ''/p'', c_run_state = ''idle'', c_updated_at = 0\<rparr>],
     global_limits := conservative_limits\<lparr>rl_planning_max := Some 1\<rparr>\<rparr>"

theorem assignment_ignores_caps:
  "running_within_caps capped_db \<and>
   is_ok (fst (assign_to_chat sample_world env0 ''p2'' ''c2'' (sample_app capped_db))) \<and>
   \<not> running_within_caps (store (snd (assign_to_chat sample_world env0 ''p2'' ''c2'' (sample_app capped_db))))"
  by code_simp

lemma pending_within_active:
  "distinct (map r_id rs) \<Longrightarrow>
     count_where (\<lambda>r. r_status r = ''pending'') rs \<le>
       count_where (\<lambda>r. run_active (r_status r) \<and> (case x of None \<Rightarrow> True | Some i \<Rightarrow> r_id r \<noteq> i)) rs + 1"
proof (induction rs)
  case (Cons r rs)
  have "count_where (\<lambda>r. r_status r = ''pending'') rs \<le>
      count_where (\<lambda>r. run_active (r_status r) \<and> (case x of None \<Rightarrow> True | Some i \<Rightarrow> r_id r \<noteq> i)) rs"
    if "x = Some (r_id r)"
  proof (rule count_where_mono)
    fix y
    assume y: "y \<in> set rs" "r_status y = ''pending''"
    have "r_id r \<notin> r_id ` set rs" using Cons.prems by simp
    with y(1) have "r_id y \<noteq> r_id r" by (metis imageI)
    with y that show "run_active (r_status y) \<and> (case x of None \<Rightarrow> True | Some i \<Rightarrow> r_id y \<noteq> i)"
      by (simp add: run_active_def)
  qed
  with Cons show ?case by (cases x) (auto simp: run_active_def)
qed simp

lemma reconcile_frame: "frame d (snd (reconcile_stale_owners e s p d))"
proof -
  have rows: "frame d' (snd (reconcile_rows e k d rs d'))" for k rs d'
  proof (induction rs arbitrary: k d')
    case (Cons r rs)
    obtain res d1 where r: "reconcile_one e k d r d' = (res, d1)" by fastforce
    have "frame d' (snd (reconcile_one e k d r d'))"
      unfolding reconcile_one_def by (rule frame_trans [OF frame_set(1) frame_record_event])
    then have "frame d' d1" by (simp add: r)
    with r Cons.IH show ?case by (cases res) (auto intro: frame_trans)
  qed simp
  obtain res d1 where r: "reconcile_rows e 0 d (filter (stale_row s p d) (runs d)) d = (res, d1)" by fastforce
  have "frame d (snd (reconcile_rows e 0 d (filter (stale_row s p d) (runs d)) d))" by (rule rows)
  then have "frame d d1" by (simp add: r)
  with r show ?thesis
    by (cases res) (simp_all add: reconcile_stale_owners_def Let_def frame_def set_plans_def)
qed

definition count_pending :: "db \<Rightarrow> int" where
  "count_pending d = count_where (\<lambda>r. r_status r = ''pending'') (runs d)"

lemma reconcile_keeps_pending:
  assumes "reconcile_stale_owners e s p d = (Ok ids, d')" and "distinct (map r_id (runs d))"
  shows "count_pending d' = count_pending d"
proof -
  let ?S = "r_id ` set (filter (stale_row s p d) (runs d))"
  have l: "list_all2 (reconciled ?S) (runs d) (runs d')"
    using assms(1) by (rule reconcile_decompose) simp
  have st: "(r_status y = ''pending'') = (r_status x = ''pending'')"
    if "reconciled ?S x y" "x \<in> set (runs d)" for x y
  proof (cases "r_id x \<in> ?S")
    case True
    then obtain z where z: "z \<in> set (runs d)" "stale_row s p d z" "r_id z = r_id x" by auto
    with assms(2) that(2) have "z = x" by (auto simp: distinct_map inj_on_def)
    with z that True show ?thesis by (simp add: reconciled_def stale_row_def)
  next
    case False
    with that have "y = x" unfolding reconciled_def by (simp only: if_False)
    then show ?thesis by simp
  qed
  from l have "\<forall>x \<in> set xs. x \<in> set (runs d) \<Longrightarrow> list_all2 (reconciled ?S) xs ys \<Longrightarrow>
      count_where (\<lambda>r. r_status r = ''pending'') ys = count_where (\<lambda>r. r_status r = ''pending'') xs" for xs ys
    by (induction xs arbitrary: ys) (auto simp: list_all2_Cons1 st)
  from this [OF _ l] show ?thesis by (simp add: count_pending_def)
qed

definition starving :: "db \<Rightarrow> bool" where
  "starving d \<longleftrightarrow> lifecycle_inv d \<and> planning_cap d < count_pending d"

definition running_ids :: "db \<Rightarrow> string set" where
  "running_ids d = r_id ` {r \<in> set (runs d). r_status r = ''running''}"

lemma starving_gate: "starving d \<Longrightarrow> \<not> plan_run_can_start (Some i) d"
  using pending_within_active [of "runs d" "Some i"]
  by (simp add: starving_def lifecycle_inv_def wf_db_def plan_run_can_start_def Let_def count_active_plan_runs_def count_pending_def)

lemma starving_reconcile:
  assumes "starving d"
  shows "starving (snd (reconcile_stale_owners e s p d)) \<and>
    running_ids (snd (reconcile_stale_owners e s p d)) \<subseteq> running_ids d"
proof -
  obtain res d' where r: "reconcile_stale_owners e s p d = (res, d')" by fastforce
  have inv: "lifecycle_inv d'" using inv_reconcile [of d e s p] assms r by (simp add: starving_def)
  have caps: "planning_cap d' = planning_cap d" using frame_caps [OF reconcile_frame [of d e s p]] r by simp
  show ?thesis
  proof (cases res)
    case (Inl err)
    with r have "runs d' = runs d" by (auto simp: reconcile_stale_owners_def commit_or_rollback_def Let_def split: prod.splits sum.splits)
    then have "count_pending d' = count_pending d" "running_ids d' = running_ids d" by (simp_all add: count_pending_def running_ids_def)
    with r inv caps assms show ?thesis by (simp add: starving_def)
  next
    case (Inr ids)
    with r have ok: "reconcile_stale_owners e s p d = (Ok ids, d')" by simp
    have "distinct (map r_id (runs d))" using assms by (simp add: starving_def lifecycle_inv_def wf_db_def)
    from reconcile_keeps_pending [OF ok this] have pend: "count_pending d' = count_pending d" .
    have l: "list_all2 (reconciled (r_id ` set (filter (stale_row s p d) (runs d)))) (runs d) (runs d')"
      using ok by (rule reconcile_decompose) simp
    have "running_ids d' \<subseteq> running_ids d"
    proof
      fix i assume "i \<in> running_ids d'"
      then obtain y where y: "y \<in> set (runs d')" "r_status y = ''running''" "i = r_id y" by (auto simp: running_ids_def)
      from list_all2_setD2 [OF l y(1)] obtain x where x: "x \<in> set (runs d)"
        "reconciled (r_id ` set (filter (stale_row s p d) (runs d))) x y" by blast
      with y(2) have "y = x" by (auto simp: reconciled_def split: if_splits)
      with x(1) y show "i \<in> running_ids d" by (auto simp: running_ids_def)
    qed
    with r inv caps pend assms show ?thesis by (simp add: starving_def)
  qed
qed

lemma starving_claim:
  assumes "starving d"
  shows "starving (snd (claim_run e sid pid d)) \<and> running_ids (snd (claim_run e sid pid d)) = running_ids d"
proof (cases rule: claim_run_cases [of e sid pid d])
  case same
  with assms show ?thesis by simp
next
  case (new i)
  have "count_pending (snd (claim_run e sid pid d)) = count_pending d + 1"
    by (simp add: new count_pending_def count_where_append new_run_row_def)
  moreover have "running_ids (snd (claim_run e sid pid d)) = running_ids d"
    by (auto simp: new running_ids_def new_run_row_def)
  moreover note claim_run_inv [of d e sid pid] frame_caps [OF claim_run_frame [of d e sid pid]]
  ultimately show ?thesis using assms by (simp add: starving_def)
qed

lemma starving_execute:
  assumes "starving (store a)"
  shows "store (snd (execute_run w e sid q prof a)) = snd (claim_run e sid (q_plan_id q) (store a))"
proof -
  obtain res d where c: "claim_run e sid (q_plan_id q) (store a) = (res, d)" by fastforce
  with starving_claim [OF assms, of e sid "q_plan_id q"] have "starving d" by simp
  with c show ?thesis
    by (cases res) (simp_all add: execute_run_def on_store_def starving_gate)
qed

text \<open>What the dispatchers do to the tables: they reconcile and they start queued runs.\<close>

datatype queue_work = Reconcile_work "string option" "string option" | Start_work string queue_entry execution_profile

fun queue_step :: "world \<Rightarrow> env \<times> queue_work \<Rightarrow> app \<Rightarrow> app" where
  "queue_step w (e, Reconcile_work s p) a = snd (on_store (reconcile_stale_owners e s p) a)"
| "queue_step w (e, Start_work sid q prof) a = snd (execute_run w e sid q prof a)"

lemma starving_step:
  "starving (store a) \<Longrightarrow> starving (store (queue_step w x a)) \<and> running_ids (store (queue_step w x a)) \<subseteq> running_ids (store a)"
  using starving_reconcile starving_claim
  by (cases "(w, x, a)" rule: queue_step.cases) (simp_all add: starving_execute on_store_def split: prod.splits, metis snd_conv)

text \<open>
  C40: a queue can starve. When more plan runs are pending than the planning cap lets be active, then however
  often the dispatchers reconcile, in whatever scope, and start queued runs, of whatever sessions and plans,
  no run becomes running that was not running before, and the start gate keeps refusing every run, each being
  held back by the others.
\<close>

theorem pending_runs_starve:
  assumes "lifecycle_inv (store a)" and "planning_cap (store a) < count_pending (store a)"
  shows "running_ids (store (fold (queue_step w) xs a)) \<subseteq> running_ids (store a) \<and>
    \<not> plan_run_can_start (Some i) (store (fold (queue_step w) xs a))"
proof -
  have "starving (store a)" using assms by (simp add: starving_def)
  then have "starving (store (fold (queue_step w) xs a)) \<and> running_ids (store (fold (queue_step w) xs a)) \<subseteq> running_ids (store a)"
  proof (induction xs arbitrary: a)
    case (Cons x xs)
    from starving_step [OF Cons.prems, of w x] Cons.IH [of "queue_step w x a"] show ?case by auto
  qed simp
  then show ?thesis using starving_gate by blast
qed

definition starving_db :: db where
  "starving_db = (sample_db [sample_plan_row ''p1'' ''ready'', sample_plan_row ''p2'' ''ready'']
      [sample_run_row ''r1'' ''p1'' None ''pending'', sample_run_row ''r2'' ''p2'' None ''pending''])
     \<lparr>global_limits := conservative_limits\<lparr>rl_planning_max := Some 1\<rparr>\<rparr>"

theorem pending_runs_starve_witness:
  "running_ids (store (fold (queue_step sample_world)
     [(env0, Start_work ''s1'' (queue_row ''q1'' ''p1'') default_profile), (env0, Reconcile_work None None),
      (env0, Start_work ''s1'' (queue_row ''q2'' ''p2'') default_profile)] (sample_app starving_db))) = {}"
proof -
  have inv: "lifecycle_inv (store (sample_app starving_db))"
    by (simp add: starving_db_def sample_app_def lifecycle_inv_def wf_db_def sample_defs plan_exists_def session_exists_def
        run_ok_defs plan_ok_def)
  have cap: "planning_cap (store (sample_app starving_db)) < count_pending (store (sample_app starving_db))" by code_simp
  have "running_ids (store (sample_app starving_db)) = {}"
    by (auto simp: running_ids_def starving_db_def sample_app_def sample_db_def sample_run_row_def)
  then show ?thesis using pending_runs_starve [OF inv cap] by blast
qed

end
