(* ===== verification/CompletionProps.thy ===== *)
theory CompletionProps
  imports RunnerProps
begin

text \<open>
  How runs end and what the dispatcher may pick: the evidence behind a succeeded run, the end of a chat
  turn, the finish policy, the order of the queue, and the entries of runs that failed or were stopped.
\<close>

subsection \<open>Evidence for success\<close>

text \<open>What \<open>complete_run\<close> and \<open>mark_complete\<close> ask of the linked checklist.\<close>

definition checklist_done :: "world \<Rightarrow> db \<Rightarrow> plan_run \<Rightarrow> bool" where
  "checklist_done w d run \<longleftrightarrow> (\<forall>p name s. plan_get d (run_plan_id run) = Some p \<longrightarrow> p_change_name p = Some name \<longrightarrow>
     session_get d (run_session_id run) = Some s \<longrightarrow> ss_project_path s \<noteq> [] \<longrightarrow>
     0 < snd (w_task_progress w (ss_project_path s) name) \<and>
     fst (w_task_progress w (ss_project_path s) name) \<ge> snd (w_task_progress w (ss_project_path s) name))"

lemma evaluate_done: "evaluate_checklist_completion w d run \<Longrightarrow> checklist_done w d run"
  by (auto simp: evaluate_checklist_completion_def checklist_progress_def checklist_done_def split: option.splits prod.splits)

lemma require_done: "require_checklist_completion w d run = Inr u \<Longrightarrow> checklist_done w d run"
  by (auto simp: require_checklist_completion_def checklist_progress_def checklist_done_def
      split: option.splits prod.splits if_splits)

lemma store_drift [simp]: "store (drift_notice w run project a) = store a"
  by (simp add: drift_notice_def Let_def)

lemma policy_outcome_runs:
  "runs (snd (policy_outcome w e run policy project dir ref d)) = runs d"
  by (auto simp: policy_outcome_def Let_def add_to_merge_queue_def split: prod.splits option.splits sum.splits)

lemma apply_inner_runs: "runs (store (snd (apply_finish_policy_inner w e rid a))) = runs (store a)"
  by (auto simp: apply_finish_policy_inner_def Let_def split_beta policy_outcome_runs split: option.splits)

lemma apply_policy_status:
  "map (\<lambda>r. (r_id r, r_status r)) (runs (store (snd (apply_finish_policy w e rid a)))) =
   map (\<lambda>r. (r_id r, r_status r)) (runs (store a))"
proof -
  obtain res a' where inner: "apply_finish_policy_inner w e rid a = (res, a')" by fastforce
  then have "runs (store a') = runs (store a)" using apply_inner_runs [of w e rid a] by simp
  with inner show ?thesis
    by (cases res) (auto simp: apply_finish_policy_def persist_finish_outcome_def upd_where_def)
qed

lemma finish_run_status:
  assumes "finish_run e i st d = (Inr u, d')" and "completion_row st = (run_st, plan_st, kind, err)"
  shows "\<exists>r. lookup_by r_id i (runs d') = Some r \<and> r_status r = run_st"
proof -
  have "moves d i run_st plan_st kind (Ok (), d')" using moves_finish_run [OF assms(2), of d i e] assms(1) by simp
  from moves_OkD [OF this refl] show ?thesis by (auto dest: run_contextD)
qed

lemma lookup_status:
  "map (\<lambda>r. (r_id r, r_status r)) xs = map (\<lambda>r. (r_id r, r_status r)) ys \<Longrightarrow>
     map_option r_status (lookup_by r_id i xs) = map_option r_status (lookup_by r_id i ys)"
proof (induction xs arbitrary: ys)
  case (Cons x xs)
  then show ?case by (cases ys) auto
qed simp

text \<open>The run as the database has it after \<open>complete_run\<close>: its completion state decides its status.\<close>

definition reached :: "world \<Rightarrow> string \<Rightarrow> bool \<Rightarrow> plan_run \<Rightarrow> app \<Rightarrow> completion_state" where
  "reached w rid succeeded run a =
     (let steps = final_steps w (project_of (store a) (run_session_id run))
      in if succeeded then completion_of w (update_run_steps rid steps (store a)) run steps else Failed)"

lemma settle_completion_Ok:
  assumes "settle_completion w e run rid project st a = (Inr u, a')"
  shows "map_option r_status (lookup_by r_id rid (runs (store a'))) = Some (fst (completion_row st))"
proof -
  obtain run_st plan_st kind err where row: "completion_row st = (run_st, plan_st, kind, err)" by (cases st) auto
  obtain res d2 where fin: "finish_run e rid st (store a) = (res, d2)" by fastforce
  with assms obtain v where v: "res = Inr v" by (cases res) (auto simp: settle_completion_def on_store_def)
  obtain r where r: "lookup_by r_id rid (runs d2) = Some r" "r_status r = run_st"
    using finish_run_status [OF fin [unfolded v] row] by blast
  have "map (\<lambda>r. (r_id r, r_status r)) (runs (store a')) = map (\<lambda>r. (r_id r, r_status r)) (runs d2)"
    using assms fin v r(1)
    by (auto simp: settle_completion_def Let_def on_store_def get_run_def apply_policy_status split: if_splits)
  from lookup_status [OF this, of rid] r show ?thesis by (simp add: row)
qed

lemma complete_run_Ok:
  assumes "complete_run w e rid succeeded a = (Inr u, a')"
  shows "\<exists>run. get_run (store a) rid = Some run \<and>
    map_option r_status (lookup_by r_id rid (runs (store a'))) = Some (fst (completion_row (reached w rid succeeded run a)))"
  using assms
  by (cases succeeded) (auto simp: complete_run_def Let_def reached_def dest!: settle_completion_Ok split: option.splits)

lemma project_sessions: "project_of (set_runs P f d) = project_of d"
  by (rule ext) (simp add: project_of_def session_get_def)

lemma checklist_update_steps: "checklist_done w (update_run_steps rid steps d) run = checklist_done w d run"
  by (simp add: checklist_done_def update_run_steps_def plan_get_def session_get_def)

text \<open>
  C6: \<open>complete_run\<close> leaves a run succeeded only on evidence: the caller reported success, no final
  touch failed (a final touch that could not run counts as failed), and every required task of the
  linked checklist, when there is one, is ticked.
\<close>

theorem success_needs_evidence:
  assumes "complete_run w e rid succeeded a = (Ok (), a')"
    and "map_option r_status (lookup_by r_id rid (runs (store a'))) = Some ''succeeded''"
  shows "succeeded \<and> (\<exists>run. get_run (store a) rid = Some run \<and> checklist_done w (store a) run \<and>
    (\<forall>s \<in> set (final_steps w (project_of (store a) (run_session_id run))). so_status s \<noteq> ''failed''))"
proof -
  obtain run where run: "get_run (store a) rid = Some run"
    and st: "fst (completion_row (reached w rid succeeded run a)) = ''succeeded''"
    using complete_run_Ok [OF assms(1)] assms(2) by auto
  then have "reached w rid succeeded run a = Succeeded" by (cases "reached w rid succeeded run a") auto
  then have "succeeded" and ok: "\<forall>s \<in> set (final_steps w (project_of (store a) (run_session_id run))). so_status s \<noteq> ''failed''"
    and "evaluate_checklist_completion w (update_run_steps rid (final_steps w (project_of (store a) (run_session_id run))) (store a)) run"
    by (auto simp: reached_def Let_def completion_of_def split: if_splits)
  with evaluate_done checklist_update_steps run show ?thesis by blast
qed

definition review_db :: db where
  "review_db = (sample_db [(sample_plan_row ''p1'' ''running'')\<lparr>pl_change_name := Some ''add-x''\<rparr>]
     [sample_run_row ''r1'' ''p1'' (Some ''c1'') ''running''])"

theorem success_needs_evidence_witness:
  "\<exists>run. get_run review_db ''r1'' = Some run \<and> checklist_done sample_world review_db run"
proof -
  let ?r = "complete_run sample_world env0 ''r1'' True (sample_app review_db)"
  have "is_ok (fst ?r)" by code_simp
  then have "?r = (Ok (projr (fst ?r)), snd ?r)" by (rule ok_split)
  then have r: "?r = (Ok (), snd ?r)" by simp
  have st: "map_option r_status (lookup_by r_id ''r1'' (runs (store (snd ?r)))) = Some ''succeeded''" by code_simp
  from success_needs_evidence [OF r st] show ?thesis by (auto simp: sample_app_def)
qed

text \<open>
  Marking complete is refused, with nothing changed, unless the run is up for review or already
  succeeded and its checklist has tasks that are all ticked; when it is accepted the run is succeeded
  and its plan finished.
\<close>

theorem mark_complete_guarded:
  assumes "get_run (store a) rid = Some run"
  shows "(run_status run \<notin> {RAwaitingReview, RSucceeded} \<or> require_checklist_completion w (store a) run \<noteq> Ok () \<longrightarrow>
      \<not> is_ok (fst (mark_complete w e rid a)) \<and> snd (mark_complete w e rid a) = a) \<and>
    (is_ok (fst (mark_complete w e rid a)) \<longrightarrow> checklist_done w (store a) run \<and>
      (\<exists>pid. run_context (store (snd (mark_complete w e rid a))) rid = Some (pid, ''succeeded'', ''finished'')))"
proof -
  obtain res d' where fin: "finish_run e rid Succeeded (store a) = (res, d')" by fastforce
  have ctx: "\<exists>pid. run_context d' rid = Some (pid, ''succeeded'', ''finished'')" if "res = Inr ()"
    using moves_finish_run [of Succeeded, OF completion_row.simps(1), of "store a" rid e] fin that
    by (auto dest: moves_OkD)
  show ?thesis
    using assms fin ctx
    by (auto simp: mark_complete_def on_store_def require_done split: sum.splits)
qed

theorem mark_complete_guarded_witness:
  "snd (mark_complete sample_world env0 ''r1'' (sample_app review_db)) = sample_app review_db"
proof -
  have g: "get_run (store (sample_app review_db)) ''r1'' = Some (map_run (sample_run_row ''r1'' ''p1'' (Some ''c1'') ''running''))"
    by (simp add: sample_app_def review_db_def sample_db_def get_run_def sample_run_row_def new_run_row_def)
  have "run_status (map_run (sample_run_row ''r1'' ''p1'' (Some ''c1'') ''running'')) = RRunning" by code_simp
  with mark_complete_guarded [OF g, of sample_world env0] show ?thesis by simp
qed

subsection \<open>The end of a chat turn\<close>

lemma settle_chat_Ok:
  assumes "settle_chat_run e chat st r p d = (Inr u, d')" and "lookup_by r_id (r_id r) (runs d) = Some r0"
    and "lookup_by pl_id (r_plan_id r) (plans d) = Some p0" and "r_plan_id r0 = r_plan_id r"
  shows "run_context d' (r_id r) = Some (r_plan_id r, fst (terminal_row st), ''ready'')"
proof -
  obtain run_st kind err where row: "terminal_row st = (run_st, kind, err)" by (cases st) auto
  have ids: "r_id r0 = r_id r" "pl_id p0 = r_plan_id r" using assms by (auto dest: lookup_by_SomeD)
  from commit_record_Ok [OF assms(1) [unfolded settle_chat_run_def row Let_def prod.case]]
  have "runs d' = upd_where (\<lambda>x. r_id x = r_id r) (\<lambda>x. x\<lparr>r_status := run_st, r_error := Some err,
       r_finished_at := coalesce_opt (r_finished_at x) (Some (e_secs e 0))\<rparr>) (runs d)"
    and "plans d' = upd_where (\<lambda>x. pl_id x = r_plan_id r) (\<lambda>x. x\<lparr>pl_status := ''ready'', pl_updated_at := e_secs e 1\<rparr>) (plans d)"
    by simp_all
  with assms ids row show ?thesis by (simp add: run_context_def lookup_by_upd_where)
qed

lemma active_run_of_chatD:
  assumes "active_run_of_chat chat d = Some r"
  shows "r \<in> set (runs d) \<and> r_chat r = Some chat \<and> run_active (r_status r) \<and>
    (\<exists>p. lookup_by pl_id (r_plan_id r) (plans d) = Some p \<and> session_exists d (pl_session_id p))"
  using assms by (auto simp: active_run_of_chat_def newest_run_def dest!: head_opt_SomeD split: option.splits)

text \<open>Whether an idle turn completes its run: the plan's linked checklist is not empty and all ticked.\<close>

definition turn_completes :: "world \<Rightarrow> db \<Rightarrow> run_row \<Rightarrow> bool" where
  "turn_completes w d r =
     (case lookup_by pl_id (r_plan_id r) (plans d) of
        None \<Rightarrow> False
      | Some p \<Rightarrow>
          (case pl_change_name p of
             None \<Rightarrow> False
           | Some name \<Rightarrow> (case w_task_progress w (project_of d (pl_session_id p)) name of
               (ticked, tasks) \<Rightarrow> 0 < tasks \<and> ticked = tasks)))"

text \<open>
  When a chat's turn ends in failure, cancellation or interruption, or idles before its checklist
  is complete, and the call succeeds, its newest active run is settled in the state of that ending and
  its plan is ready again; without an active run only the chat's state changes. In every case the
  windows are told how the turn ended.
\<close>

theorem chat_end_settles_run:
  assumes "chat_terminal w e chat st a = (Ok (), a')" and "lifecycle_inv (store a)"
  shows "(case active_run_of_chat chat (store a) of
      None \<Rightarrow> runs (store a') = runs (store a) \<and> plans (store a') = plans (store a) \<and>
        outbox a' = outbox a @ [Transcript chat (chat_outcome_name st)]
    | Some r \<Rightarrow> (st = TIdle \<and> turn_completes w (store a) r) \<or>
        run_context (store a') (r_id r) = Some (r_plan_id r, fst (terminal_row st), ''ready'') \<and>
        outbox a' = outbox a @ [Transcript chat (chat_outcome_name st)])"
proof (cases "active_run_of_chat chat (store a)")
  case None
  with assms(1) show ?thesis by (auto simp: chat_terminal_def Let_def emit_def)
next
  case (Some r)
  from active_run_of_chatD [OF Some] obtain p where r: "r \<in> set (runs (store a))"
    and p: "lookup_by pl_id (r_plan_id r) (plans (store a)) = Some p" by blast
  have row: "lookup_by r_id (r_id r) (runs (store a)) = Some r"
    using assms(2) r by (simp add: lifecycle_inv_def wf_db_def lookup_by_distinct)
  let ?d1 = "set_chats (\<lambda>c. c_id c = chat) (\<lambda>c. c\<lparr>c_run_state := chat_state_name st, c_updated_at := e_millis e 0\<rparr>) (store a)"
  show ?thesis
  proof (cases "st = TIdle \<and> turn_completes w (store a) r")
    case True
    with Some show ?thesis by simp
  next
    case False
    then have c: "\<not> (st = TIdle \<and> (case pl_change_name p of None \<Rightarrow> False
        | Some name \<Rightarrow> (case w_task_progress w (project_of (store a) (pl_session_id p)) name of
            (ticked, tasks) \<Rightarrow> 0 < tasks \<and> ticked = tasks)))"
      by (simp add: turn_completes_def p)
    from assms(1) have "on_store (settle_chat_run (later 1 e) chat st r p)
        (emit (Transcript chat (chat_outcome_name st)) (a\<lparr>store := ?d1\<rparr>)) = (Ok (), a')"
      unfolding chat_terminal_def Let_def Some option.case p if_not_P [OF c] .
    then obtain d' where s: "settle_chat_run (later 1 e) chat st r p ?d1 = (Ok (), d')"
      and a': "a' = (emit (Transcript chat (chat_outcome_name st)) (a\<lparr>store := ?d1\<rparr>))\<lparr>store := d'\<rparr>"
      by (auto simp: on_store_split)
    have "run_context d' (r_id r) = Some (r_plan_id r, fst (terminal_row st), ''ready'')"
      by (rule settle_chat_Ok [OF s]) (simp_all add: row p)
    with Some a' show ?thesis by (simp add: emit_def)
  qed
qed

theorem chat_end_settles_run_witness:
  "run_context (store (snd (chat_terminal sample_world env0 ''c1'' TFailed (sample_app review_db)))) ''r1'' =
     Some (''p1'', ''failed'', ''ready'')"
proof -
  let ?r = "chat_terminal sample_world env0 ''c1'' TFailed (sample_app review_db)"
  have "is_ok (fst ?r)" by code_simp
  then have "?r = (Ok (projr (fst ?r)), snd ?r)" by (rule ok_split)
  then have r: "?r = (Ok (), snd ?r)" by simp
  have inv: "lifecycle_inv (store (sample_app review_db))"
    by (simp add: sample_app_def review_db_def lifecycle_inv_def wf_db_def sample_defs plan_exists_def
        session_exists_def run_ok_defs plan_ok_def)
  have act: "active_run_of_chat ''c1'' (store (sample_app review_db)) = Some (sample_run_row ''r1'' ''p1'' (Some ''c1'') ''running'')"
    by code_simp
  show ?thesis using chat_end_settles_run [OF r inv, unfolded act option.case]
    by (simp add: sample_run_row_def new_run_row_def)
qed

end
