(* ===== verification/QueueProps.thy ===== *)
theory QueueProps
  imports CompletionProps
begin

text \<open>
  The queue: the order of its entries, what a dispatcher turn may start, how a restarted queue retires
  its old dispatcher, what happens to the entry of a cancelled run, and when the finish policy acts.
\<close>

subsection \<open>Order\<close>

lemma insort_key_last: "f y \<le> f x \<Longrightarrow> insort_key f y (zs @ [x]) = insort_key f y zs @ [x]"
  by (induction zs) auto

lemma sort_key_last: "(\<And>y. y \<in> set xs \<Longrightarrow> f y \<le> f x) \<Longrightarrow> sort_key f (xs @ [x]) = sort_key f xs @ [x]"
  by (induction xs) (simp_all add: insort_key_last)

lemma foldl_max_ge: "y = x \<or> y \<in> set xs \<Longrightarrow> (y :: int) \<le> foldl max x xs"
proof (induction xs arbitrary: x)
  case (Cons z zs)
  have "max x z \<le> foldl max (max x z) zs"
  proof -
    have "w \<le> foldl max w zs" for w :: int by (induction zs arbitrary: w) (auto intro: order.trans [OF max.cobounded1])
    then show ?thesis .
  qed
  moreover have "y \<in> set zs \<Longrightarrow> y \<le> foldl max (max x z) zs" using Cons.IH by blast
  ultimately show ?case using Cons.prems by auto
qed simp

lemma next_order_gt:
  assumes "q \<in> set (queue d)" and "q_session_id q = sid"
  shows "q_sort_order q < next_order sid d"
proof -
  define ks where "ks = map q_sort_order (filter (\<lambda>q. q_session_id q = sid) (queue d))"
  have "q_sort_order q \<in> set ks" using assms by (auto simp: ks_def)
  then obtain k rest where ks: "ks = k # rest" and "q_sort_order q = k \<or> q_sort_order q \<in> set rest" by (cases ks) auto
  then have "q_sort_order q \<le> foldl max k rest" by (intro foldl_max_ge)
  then show ?thesis using ks by (simp add: next_order_def ks_def)
qed

text \<open>
  A plan that is enqueued goes to the end of its session's queue: the entries already there keep
  their order, and the queues of other sessions do not change.
\<close>

theorem enqueue_appends:
  assumes "enqueue e sid pid d = (Ok q, d')"
  shows "list_queue sid d' = list_queue sid d @ [q] \<and> q_plan_id q = pid \<and>
    (\<forall>other. other \<noteq> sid \<longrightarrow> list_queue other d' = list_queue other d)"
proof -
  have q: "queue d' = queue d @ [q]" "q_session_id q = sid" "q_plan_id q = pid" "q_sort_order q = next_order sid d"
    using assms by (auto simp: enqueue_def Let_def insert_checked_Ok split: if_splits sum.splits)
  have "sort_key q_sort_order (filter (\<lambda>q. q_session_id q = sid) (queue d) @ [q]) =
      sort_key q_sort_order (filter (\<lambda>q. q_session_id q = sid) (queue d)) @ [q]"
    by (rule sort_key_last) (use next_order_gt q(4) in \<open>force intro: less_imp_le\<close>)
  with q show ?thesis by (simp add: list_queue_def order_asc_def)
qed

theorem enqueue_appends_witness:
  "list_queue ''s1'' (snd (enqueue env0 ''s1'' ''p1'' queued_db)) =
     list_queue ''s1'' queued_db @ [projr (fst (enqueue env0 ''s1'' ''p1'' queued_db))]"
proof -
  let ?r = "enqueue env0 ''s1'' ''p1'' queued_db"
  have "is_ok (fst ?r)" by code_simp
  then have "?r = (Ok (projr (fst ?r)), snd ?r)" by (rule ok_split)
  from enqueue_appends [OF this] show ?thesis by blast
qed

subsection \<open>Turns of the dispatcher\<close>

lemma next_pending_cases:
  assumes "next_pending_entry ord e sid a = (Inr (Some q), a')"
  shows "\<exists>g ys zs. build_graph ord e sid a = (Inr g, a') \<and> pending_entries sid (store a) = ys @ q # zs \<and>
    node_dispatchable_in g (q_plan_id q) \<and> (\<forall>y \<in> set ys. \<not> node_dispatchable_in g (q_plan_id y))"
  using assms
  by (auto simp: next_pending_entry_def Let_def find_Some_iff split: if_splits prod.splits sum.splits)
    (metis (no_types, lifting) append_take_drop_id id_take_nth_drop in_set_conv_nth length_take min_less_iff_conj nth_take)

text \<open>
  When a plan of the session may start, without the graph: it is open, its prerequisites are finished
  plans of the session, and, unless it is in yolo mode, no other running plan touches its paths.
\<close>

definition yolo :: "string \<Rightarrow> db \<Rightarrow> string \<Rightarrow> bool" where
  "yolo sid d i \<longleftrightarrow> (case session_deps sid d i of None \<Rightarrow> False | Some m \<Rightarrow> d_scheduling_mode m = ''yolo'')"

definition may_start :: "string \<Rightarrow> db \<Rightarrow> string \<Rightarrow> bool" where
  "may_start sid d i \<longleftrightarrow>
     (\<exists>p \<in> set (list_plan_rows sid d). p_id p = i \<and> p_status p \<notin> {Finished, Cancelled, Running}) \<and>
     (\<forall>j \<in> set (session_prereqs sid d i). \<exists>q \<in> set (list_plan_rows sid d). p_id q = j \<and> p_status q = Finished) \<and>
     (yolo sid d i \<or> \<not> (\<exists>q \<in> set (list_plan_rows sid d). p_status q = Running \<and> p_id q \<noteq> i \<and>
        touches_same sid d i (p_id q)))"

lemma node_yolo:
  "n_yolo_confirmed (node_of ord (list_plan_rows sid d) (session_deps sid d) (owners_of sid d) p) = yolo sid d (p_id p)"
  by (simp add: node_of_def Let_def split_beta yolo_def split: option.splits)

lemma node_may_start:
  assumes "hash_order ord" and "distinct (map pl_id (plans d))" and "p \<in> set (list_plan_rows sid d)"
  shows "n_dispatchable (node_of ord (list_plan_rows sid d) (session_deps sid d) (owners_of sid d) p) \<longleftrightarrow>
    may_start sid d (p_id p)"
proof -
  have "q = p" if "q \<in> set (list_plan_rows sid d)" "p_id q = p_id p" for q
    using list_plan_ids [OF assms(2), of sid] that assms(3) by (auto simp: distinct_map inj_on_def)
  then have "(\<exists>q \<in> set (list_plan_rows sid d). p_id q = p_id p \<and> p_status q \<notin> {Finished, Cancelled, Running}) \<longleftrightarrow>
      p_status p \<notin> {Finished, Cancelled, Running}" using assms(3) by blast
  with node_dispatchable [OF assms(1,2), of sid p] show ?thesis
    by (simp add: may_start_def node_yolo session_prereqs_def)
qed

lemma graph_node_dispatchable:
  assumes "hash_order ord" and "distinct (map pl_id (plans d))"
  shows "node_dispatchable_in (graph_of ord sid (list_plan_rows sid d) d) i \<longleftrightarrow> may_start sid d i"
proof (cases "find (\<lambda>n. n_plan_id n = i) (g_nodes (graph_of ord sid (list_plan_rows sid d) d))")
  case None
  then have "i \<notin> p_id ` set (list_plan_rows sid d)" by (auto simp: find_None_iff graph_nodes)
  with None show ?thesis by (auto simp: node_dispatchable_in_def may_start_def)
next
  case (Some n)
  then have "n \<in> set (g_nodes (graph_of ord sid (list_plan_rows sid d) d))" "n_plan_id n = i"
    by (auto simp: find_Some_iff)
  then obtain p where "p \<in> set (list_plan_rows sid d)" "p_id p = i"
    "n = node_of ord (list_plan_rows sid d) (session_deps sid d) (owners_of sid d) p" by (auto simp: graph_nodes)
  with Some node_may_start [OF assms] show ?thesis by (simp add: node_dispatchable_in_def)
qed

text \<open>
  C5: a dispatcher turn starts an entry only while its queue is current and not paused, with room under the
  caps: the entry is the first pending one whose plan may start, and its profile is the queue's profile for that
  plan. A plan may start when it is an unarchived plan of the session that is not finished, cancelled or
  running, its prerequisites are finished plans among these, and, unless the plan is in yolo mode, no other
  running plan among these declares or claims one of its paths.
\<close>

theorem dispatch_start_conditions:
  assumes "dispatch_turn ord e sid gen a = (Start q prof, a')" and "hash_order ord" and "lifecycle_inv (store a)"
  shows "(\<exists>qs. queue_states a sid = Some qs \<and> qs_generation qs = gen \<and> \<not> qs_paused qs) \<and>
    plan_start_capacity_available (store a') \<and> may_start sid (store a') (q_plan_id q) \<and>
    prof = queue_profile sid (q_plan_id q) a' \<and>
    (\<exists>ys zs. pending_entries sid (store (snd (reconcile_owners e (Some sid) None a))) = ys @ q # zs \<and>
       (\<forall>y \<in> set ys. \<not> may_start sid (store a') (q_plan_id y)))"
proof -
  let ?a1 = "snd (reconcile_owners e (Some sid) None a)"
  have inv: "lifecycle_inv (store ?a1)"
    using inv_reconcile [OF assms(3), of e "Some sid" None]
    by (auto simp: reconcile_owners_def on_store_def split: prod.splits sum.splits)
  from assms(1) have nxt: "next_pending_entry ord e sid ?a1 = (Inr (Some q), a')"
    and rest: "fst (queue_status sid gen a)" "\<not> snd (queue_status sid gen a)"
      "plan_start_capacity_available (store a')" "prof = queue_profile sid (q_plan_id q) a'"
    by (auto simp: dispatch_turn_def Let_def split: prod.splits if_splits sum.splits option.splits)
  from next_pending_cases [OF nxt] obtain g ys zs where g: "build_graph ord e sid ?a1 = (Inr g, a')"
    and p: "pending_entries sid (store ?a1) = ys @ q # zs" "node_dispatchable_in g (q_plan_id q)"
      "\<forall>y \<in> set ys. \<not> node_dispatchable_in g (q_plan_id y)" by blast
  have "distinct (map pl_id (plans (store a')))"
    using build_graph_inv [OF g inv] by (simp add: lifecycle_inv_def wf_db_def)
  moreover have "g = graph_of ord sid (list_plan_rows sid (store a')) (store a')" using build_graphE [OF g] by blast
  ultimately have "node_dispatchable_in g i = may_start sid (store a') i" for i
    using graph_node_dispatchable [OF assms(2)] by simp
  with p rest show ?thesis by (auto simp: queue_status_def split: option.splits)
qed

theorem dispatch_start_conditions_witness:
  "may_start ''s1'' (store (snd (dispatch_turn insertion_order env0 ''s1'' ''g1'' (live_queue (sample_app queued_db))))) ''p1''"
proof -
  let ?r = "dispatch_turn insertion_order env0 ''s1'' ''g1'' (live_queue (sample_app queued_db))"
  have "fst ?r = Start (queue_row ''q1'' ''p1'') default_profile" by code_simp
  then have r: "?r = (Start (queue_row ''q1'' ''p1'') default_profile, snd ?r)" by (simp add: prod_eq_iff)
  have "lifecycle_inv (store (live_queue (sample_app queued_db)))" using queued_inv by (simp add: live_queue_def)
  from dispatch_start_conditions [OF r insertion_order_ok this] show ?thesis by (simp add: queue_row_def)
qed

subsection \<open>Starting, pausing and cancelling\<close>

lemma map_of_keyed: "map_of (map (\<lambda>v. (k v, f v)) vs) i = map_option f (find (\<lambda>v. k v = i) vs)"
  by (induction vs) auto

text \<open>
  Restarting a queue retires the dispatcher of the old generation, pausing it makes the current
  dispatcher sleep, both without touching anything else; and a restarted queue gives a plan the last
  override that names it, or else the queue's profile.
\<close>

theorem queue_control:
  "(gen \<noteq> gen_id (e_nanos e 0) \<longrightarrow>
      (let a' = snd (start_queue e wt rq a) in dispatch_turn ord e' (sq_session_id rq) gen a' = (Retire, a'))) \<and>
   (fst (queue_status sid gen a) \<longrightarrow>
      dispatch_turn ord e' sid gen (pause_queue sid a) = (Sleep, pause_queue sid a)) \<and>
   queue_profile (sq_session_id rq) pid (snd (start_queue e wt rq a)) =
     (case find (\<lambda>v. ov_plan_id v = pid) (rev (coalesce (sq_overrides rq) [])) of
        None \<Rightarrow> sq_profile rq
      | Some v \<Rightarrow> \<lparr>ep_concurrency = ep_concurrency (sq_profile rq), ep_provider_id = ov_provider_id v,
          ep_model_id = ov_model_id v, ep_effort = ov_effort v\<rparr>)"
proof (intro conjI impI)
  assume "gen \<noteq> gen_id (e_nanos e 0)"
  then show "let a' = snd (start_queue e wt rq a) in dispatch_turn ord e' (sq_session_id rq) gen a' = (Retire, a')"
    by (simp add: dispatch_turn_def queue_status_def start_queue_def Let_def)
next
  assume "fst (queue_status sid gen a)"
  then show "dispatch_turn ord e' sid gen (pause_queue sid a) = (Sleep, pause_queue sid a)"
    by (auto simp: dispatch_turn_def queue_status_def pause_queue_def split: option.splits)
qed (simp add: queue_profile_def start_queue_def Let_def rev_map map_of_keyed split: option.splits)

theorem queue_control_witness:
  "dispatch_turn insertion_order env0 ''s1'' ''g1'' (pause_queue ''s1'' (live_queue (sample_app queued_db))) =
     (Sleep, pause_queue ''s1'' (live_queue (sample_app queued_db)))"
proof -
  have "fst (queue_status ''s1'' ''g1'' (live_queue (sample_app queued_db)))"
    by (simp add: queue_status_def live_queue_def)
  with queue_control show ?thesis by blast
qed

lemma queue_record [simp]: "queue (snd (record_event m k s d)) = queue d"
  by (cases rule: record_event_cases [of m k s d]) simp_all

lemma queue_commit: "queue (snd r) = queue d \<Longrightarrow> queue (snd (commit_or_rollback d r)) = queue d"
  by (cases r) (auto simp: commit_or_rollback_def split: sum.splits)

lemma queue_user_stop: "queue (snd (user_stop e i cancel d)) = queue d"
  by (auto simp: user_stop_def Let_def set_runs_def set_plans_def split: option.splits intro!: queue_commit)

lemma user_stop_rows:
  assumes "user_stop e i cancel d = (Inr (), d')"
  shows "(\<exists>f. runs d' = upd_where (\<lambda>r. r_id r = i) f (runs d) \<and>
    (\<forall>r. r_id (f r) = r_id r \<and> r_plan_id (f r) = r_plan_id r \<and> r_session_id (f r) = r_session_id r \<and>
      (\<forall>s0. lookup_by r_id i (runs d) = Some s0 \<longrightarrow> r = s0 \<longrightarrow> r_status (f r) = ''cancelled'')))"
proof (cases "run_context d i")
  case None
  with assms show ?thesis by (simp add: user_stop_def)
next
  case (Some x)
  obtain pid from_run from_plan where x: "x = (pid, from_run, from_plan)" by (cases x)
  show ?thesis
  proof (cases "from_run = ''cancelled'' \<and> from_plan = (if cancel then ''cancelled'' else ''ready'')")
    case True
    with assms Some x have "d' = d" by (auto simp: user_stop_def Let_def)
    moreover have "runs d = upd_where (\<lambda>r. r_id r = i) (\<lambda>r. r) (runs d)" by (induction "runs d") (auto simp: upd_where_def)
    ultimately show ?thesis using True Some x
      by (intro exI [of _ "\<lambda>r. r"]) (auto simp: run_context_def split: option.splits)
  next
    case False
    then have "user_stop e i cancel d = commit_or_rollback d (record_event (e_millis e 0) (e_secs e 2)
      \<lparr>es_run = Some i, es_plan = pid, es_chat = None, es_kind = ''user_stop'', es_from_run = Some from_run,
       es_to_run = Some ''cancelled'', es_from_plan = Some from_plan,
       es_to_plan = Some (if cancel then ''cancelled'' else ''ready'')\<rparr>
      (set_plans (\<lambda>p. pl_id p = pid)
         (\<lambda>p. p\<lparr>pl_status := (if cancel then ''cancelled'' else ''ready''), pl_updated_at := e_secs e 1\<rparr>)
         (set_runs (\<lambda>r. r_id r = i) (\<lambda>r. r\<lparr>r_status := ''cancelled'', r_error := Some ''Cancelled by user'',
            r_finished_at := coalesce_opt (r_finished_at r) (Some (e_secs e 0))\<rparr>) d)))"
      unfolding user_stop_def Some x option.case prod.case Let_def by (rule if_not_P)
    from commit_record_Ok [OF assms [unfolded this]] show ?thesis
      by (intro exI [of _ "\<lambda>r. r\<lparr>r_status := ''cancelled'', r_error := Some ''Cancelled by user'',
            r_finished_at := coalesce_opt (r_finished_at r) (Some (e_secs e 0))\<rparr>"]) auto
  qed
qed

text \<open>
  Cancelling a run without its plan puts the plan back to ready; if no other run of the plan is
  running or has succeeded, every queue entry of the plan in the run's session is pending again, so the
  dispatcher may start the plan anew.
\<close>

theorem cancelled_run_requeued:
  assumes "cancel_run e rid False a = (Ok (), a')" and "lifecycle_inv (store a)"
    and "lookup_by r_id rid (runs (store a)) = Some r"
    and "q \<in> set (queue (store a))" and "q_plan_id q = r_plan_id r" and "q_session_id q = r_session_id r"
    and "\<forall>x \<in> set (runs (store a)). r_plan_id x = r_plan_id r \<and> r_session_id x = r_session_id r \<and> r_id x \<noteq> rid \<longrightarrow>
      r_status x \<noteq> ''running'' \<and> r_status x \<noteq> ''succeeded''"
  shows "run_context (store a') rid = Some (r_plan_id r, ''cancelled'', ''ready'') \<and>
    q \<in> set (pending_entries (r_session_id r) (store a'))"
proof -
  obtain d' where us: "user_stop e rid False (store a) = (Inr (), d')" and st: "store a' = d'"
    using assms(1) by (auto simp: cancel_run_def on_store_split cancel_token_def
        split: prod.splits sum.splits option.splits)
  from moves_OkD [OF moves_user_stop [of "store a" rid False e, unfolded us] refl]
  obtain pid where ctx: "run_context d' rid = Some (pid, ''cancelled'', ''ready'')" by auto
  from user_stop_rows [OF us] obtain f where f: "runs d' = upd_where (\<lambda>r. r_id r = rid) f (runs (store a))"
    "\<And>r. r_id (f r) = r_id r" "\<And>r. r_plan_id (f r) = r_plan_id r" "\<And>r. r_session_id (f r) = r_session_id r"
    "r_status (f r) = ''cancelled''" using assms(3) by auto
  have only: "x = r" if "x \<in> set (runs (store a))" "r_id x = rid" for x
    using assms(2,3) that by (metis lifecycle_inv_def lookup_by_distinct option.inject wf_db_def)
  have "pid = r_plan_id r" using ctx assms(3) f
    by (auto simp: run_context_def lookup_by_upd_where split: option.splits)
  moreover have "q \<in> set (pending_entries (r_session_id r) d')"
    using assms(4-7) f only queue_user_stop [of e rid False "store a", unfolded us]
    by (fastforce simp: pending_entries_def set_upd_where)
  ultimately show ?thesis using ctx st by simp
qed

definition busy_db :: db where
  "busy_db = (sample_db [sample_plan_row ''p1'' ''running''] [sample_run_row ''r1'' ''p1'' (Some ''c1'') ''running''])
     \<lparr>queue := [queue_row ''q1'' ''p1'']\<rparr>"

theorem cancelled_run_requeued_witness:
  "queue_row ''q1'' ''p1'' \<in> set (pending_entries ''s1''
     (store (snd (cancel_run env0 ''r1'' False (sample_app busy_db)))))"
proof -
  let ?r = "cancel_run env0 ''r1'' False (sample_app busy_db)"
  have "is_ok (fst ?r)" by code_simp
  then have "?r = (Ok (projr (fst ?r)), snd ?r)" by (rule ok_split)
  then have r: "?r = (Ok (), snd ?r)" by simp
  have inv: "lifecycle_inv (store (sample_app busy_db))"
    by (simp add: sample_app_def busy_db_def lifecycle_inv_def wf_db_def sample_defs plan_exists_def
        session_exists_def run_ok_defs plan_ok_def)
  have row: "lookup_by r_id ''r1'' (runs (store (sample_app busy_db))) = Some (sample_run_row ''r1'' ''p1'' (Some ''c1'') ''running'')"
    by (simp add: sample_app_def busy_db_def sample_defs)
  from cancelled_run_requeued [OF r inv row, of "queue_row ''q1'' ''p1''"] show ?thesis
    by (simp add: sample_app_def busy_db_def sample_defs queue_row_def)
qed

subsection \<open>The finish policy\<close>

text \<open>
  Under the policy \<open>hold\<close> (which a project without a launch profile has), or where the work
  directory is no git repository, finishing leaves the work alone: the answer says so and is recorded
  on the run, no other part of the store changes, and no answer of git or of the forge matters.
\<close>

theorem hold_leaves_work_alone:
  assumes "get_run (store a) rid = Some run" and "session_get (store a) (run_session_id run) = Some s"
    and "get_launch_profile (ss_project_path s) (store a) = None \<or>
      map_option lp_finish_policy (get_launch_profile (ss_project_path s) (store a)) = Some ''hold'' \<or>
      \<not> w_has_git w (work_dir_of run (ss_project_path s))"
  shows "\<exists>res. (res = Hold \<or> (\<exists>msg. res = FallbackHold msg)) \<and>
    fst (apply_finish_policy w e rid a) = Ok res \<and>
    store (snd (apply_finish_policy w e rid a)) = persist_finish_outcome rid res (store a) \<and>
    get_finish_outcome rid (store (snd (apply_finish_policy w e rid a))) = Some res \<and>
    (w_has_git w' = w_has_git w \<longrightarrow> apply_finish_policy w' e rid a = apply_finish_policy w e rid a)"
proof -
  let ?policy = "case get_launch_profile (ss_project_path s) (store a) of None \<Rightarrow> ''hold'' | Some p \<Rightarrow> lp_finish_policy p"
  define res where "res = (if ?policy = ''hold'' then Hold
     else FallbackHold (''Finish policy '' @ quote ?policy @ '' not applied: not a git repository.''))"
  define a1 where "a1 = (if ?policy = ''hold'' then a else emit (Notice ''integration_action'' rid ''Finish policy fallback''
     (Some (''Finish policy '' @ quote ?policy @ '' not applied: not a git repository.''))) a)"
  have inner: "apply_finish_policy_inner v e rid a = (Inr res, a1)" if "w_has_git v = w_has_git w" for v
    using assms that by (auto simp: apply_finish_policy_inner_def res_def a1_def Let_def split: option.splits)
  have "store a1 = store a" by (simp add: a1_def)
  obtain row where "lookup_by r_id rid (runs (store a)) = Some row" "r_id row = rid"
    using assms(1) by (auto simp: get_run_def dest: lookup_by_SomeD)
  then have "get_finish_outcome rid (persist_finish_outcome rid res (store a)) = Some res"
    by (simp add: get_finish_outcome_def persist_finish_outcome_def lookup_by_upd_where)
  moreover have "res = Hold \<or> (\<exists>msg. res = FallbackHold msg)" by (simp add: res_def)
  ultimately show ?thesis using inner \<open>store a1 = store a\<close>
    by (intro exI [of _ res]) (simp add: apply_finish_policy_def)
qed

theorem hold_leaves_work_alone_witness:
  "get_finish_outcome ''r1'' (store (snd (apply_finish_policy sample_world env0 ''r1'' (sample_app busy_db)))) = Some Hold"
proof -
  have g: "get_run (store (sample_app busy_db)) ''r1'' = Some (map_run (sample_run_row ''r1'' ''p1'' (Some ''c1'') ''running''))"
    by (simp add: sample_app_def busy_db_def get_run_def sample_defs)
  have s: "session_get (store (sample_app busy_db)) (run_session_id (map_run (sample_run_row ''r1'' ''p1'' (Some ''c1'') ''running''))) =
      Some (hd (sessions busy_db))" by code_simp
  have p: "get_launch_profile (ss_project_path (hd (sessions busy_db))) (store (sample_app busy_db)) = None"
    by (simp add: get_launch_profile_def sample_app_def busy_db_def sample_defs)
  have "apply_finish_policy_inner sample_world env0 ''r1'' (sample_app busy_db) = (Ok Hold, sample_app busy_db)"
    using g s p by (simp add: apply_finish_policy_inner_def)
  then have "fst (apply_finish_policy sample_world env0 ''r1'' (sample_app busy_db)) = Ok Hold"
    by (simp add: apply_finish_policy_def)
  moreover obtain res where "fst (apply_finish_policy sample_world env0 ''r1'' (sample_app busy_db)) = Ok res"
    "get_finish_outcome ''r1'' (store (snd (apply_finish_policy sample_world env0 ''r1'' (sample_app busy_db)))) = Some res"
    using hold_leaves_work_alone [OF g s disjI1 [OF p], of sample_world env0] by blast
  ultimately show ?thesis by simp
qed

end
