(* ===== verification/TextOps.thy ===== *)
theory TextOps
  imports Prelude
begin

text \<open>
  The methods of \<open>str\<close> the text services call, on UTF-8 bytes: \<open>lines\<close>, \<open>trim\<close>, \<open>trim_end\<close>,
  \<open>split\<close> and \<open>trim_matches\<close> with an ASCII character, \<open>strip_prefix\<close>, \<open>chars\<close> as the list of the
  characters' byte sequences, and padded decimal printing.
\<close>

subsection \<open>Lines\<close>

abbreviation NL :: char where "NL \<equiv> CHR 0x0A"
abbreviation CR :: char where "CR \<equiv> CHR 0x0D"

fun split_inclusive :: "string \<Rightarrow> string list" where
  "split_inclusive [] = []"
| "split_inclusive (c # s) =
     (if c = NL then [c] # split_inclusive s
      else case split_inclusive s of [] \<Rightarrow> [[c]] | p # ps \<Rightarrow> (c # p) # ps)"

definition strip_suffix_char :: "char \<Rightarrow> string \<Rightarrow> string option" where
  "strip_suffix_char c s = (if s \<noteq> [] \<and> last s = c then Some (butlast s) else None)"

definition strip_eol :: "string \<Rightarrow> string" where
  "strip_eol p =
     (case strip_suffix_char NL p of
        None \<Rightarrow> p
      | Some l \<Rightarrow> (case strip_suffix_char CR l of None \<Rightarrow> l | Some k \<Rightarrow> k))"

definition lines :: "string \<Rightarrow> string list" where
  "lines s = map strip_eol (split_inclusive s)"

definition ends_with_char :: "char \<Rightarrow> string \<Rightarrow> bool" where
  "ends_with_char c s \<longleftrightarrow> s \<noteq> [] \<and> last s = c"

lemma lines_Nil [simp]: "lines [] = []"
  by (simp add: lines_def)

lemma split_inclusive_line:
  "NL \<notin> set l \<Longrightarrow> split_inclusive (l @ NL # s) = (l @ [NL]) # split_inclusive s"
  by (induction l) auto

lemma split_inclusive_last: "NL \<notin> set l \<Longrightarrow> l \<noteq> [] \<Longrightarrow> split_inclusive l = [l]"
proof (induction l)
  case (Cons c l)
  then show ?case by (cases "l = []") auto
qed simp

lemma strip_eol_line: "CR \<notin> set l \<Longrightarrow> strip_eol (l @ [NL]) = l"
  by (auto simp: strip_eol_def strip_suffix_char_def split: option.splits dest: last_in_set)

lemma strip_eol_plain: "NL \<notin> set l \<Longrightarrow> strip_eol l = l"
  by (auto simp: strip_eol_def strip_suffix_char_def split: option.splits dest: last_in_set)

text \<open>A line: no line break in it.\<close>

definition plain_line :: "string \<Rightarrow> bool" where
  "plain_line l \<longleftrightarrow> NL \<notin> set l \<and> CR \<notin> set l"

lemma lines_Cons: "plain_line l \<Longrightarrow> lines (l @ NL # s) = l # lines s"
  by (simp add: lines_def plain_line_def split_inclusive_line strip_eol_line)

lemma lines_single: "plain_line l \<Longrightarrow> l \<noteq> [] \<Longrightarrow> lines l = [l]"
  by (simp add: lines_def plain_line_def split_inclusive_last strip_eol_plain)

text \<open>Joining lines with newlines and splitting again gives the lines back.\<close>

lemma lines_join_nl: "\<forall>l \<in> set ls. plain_line l \<Longrightarrow> ls \<noteq> [] \<Longrightarrow> lines (join_with [NL] ls @ [NL]) = ls"
proof (induction ls rule: induct_list012)
  case (2 x)
  then show ?case using lines_Cons [of x "[]"] by simp
next
  case (3 x y ys)
  then show ?case using lines_Cons [of x "join_with [NL] (y # ys) @ [NL]"] by simp
qed simp

lemma lines_join: "\<forall>l \<in> set ls. plain_line l \<Longrightarrow> ls \<noteq> [] \<Longrightarrow> last ls \<noteq> [] \<Longrightarrow> lines (join_with [NL] ls) = ls"
proof (induction ls rule: induct_list012)
  case (2 x)
  then show ?case using lines_single [of x] by simp
next
  case (3 x y ys)
  then show ?case using lines_Cons [of x "join_with [NL] (y # ys)"] by simp
qed simp

lemma split_inclusive_pieces: "p \<in> set (split_inclusive s) \<Longrightarrow> NL \<notin> set (butlast p) \<and> p \<noteq> [] \<and> set p \<subseteq> set s"
proof (induction s arbitrary: p)
  case (Cons c s)
  show ?case
  proof (cases "c = NL")
    case True
    with Cons show ?thesis by auto
  next
    case False
    show ?thesis
    proof (cases "split_inclusive s")
      case Nil
      with False Cons.prems show ?thesis by simp
    next
      case (Cons q qs)
      with False \<open>p \<in> set (split_inclusive (c # s))\<close> have "p = c # q \<or> p \<in> set qs" by simp
      with False Cons Cons.IH [of q] Cons.IH [of p] show ?thesis by auto
    qed
  qed
qed simp

lemma lines_plain: "CR \<notin> set s \<Longrightarrow> l \<in> set (lines s) \<Longrightarrow> plain_line l"
proof -
  assume cr: "CR \<notin> set s" and "l \<in> set (lines s)"
  then obtain p where p: "p \<in> set (split_inclusive s)" "l = strip_eol p" by (auto simp: lines_def)
  from split_inclusive_pieces [OF p(1)] have q: "NL \<notin> set (butlast p)" "p \<noteq> []" "CR \<notin> set p" using cr by auto
  then have "CR \<notin> set (butlast p)" by (meson in_set_butlastD)
  then have b: "strip_suffix_char CR (butlast p) = None" by (auto simp: strip_suffix_char_def dest: last_in_set)
  show ?thesis
  proof (cases "last p = NL")
    case True
    with p q b \<open>CR \<notin> set (butlast p)\<close> show ?thesis by (simp add: plain_line_def strip_eol_def strip_suffix_char_def)
  next
    case False
    with q have "NL \<notin> set p" by (cases p rule: rev_cases) auto
    with p q show ?thesis by (simp add: plain_line_def strip_eol_plain)
  qed
qed

lemma split_inclusive_Nil_iff [simp]: "split_inclusive s = [] \<longleftrightarrow> s = []"
  by (cases s) (auto split: list.splits)

lemma length_split_le: "length (split_inclusive s) \<le> length s"
  by (induction s) (auto split: list.splits)

lemma length_lines_le: "length (lines s) \<le> length s"
  by (simp add: lines_def length_split_le)

text \<open>Every text without carriage returns is its lines joined, up to a final newline.\<close>

lemma split_concat: "concat (split_inclusive s) = s"
  by (induction s) (auto split: list.splits)

lemma last_line:
  "s \<noteq> [] \<Longrightarrow> last s \<noteq> NL \<Longrightarrow> CR \<notin> set s \<Longrightarrow> last (lines s) \<noteq> []"
proof -
  assume s: "s \<noteq> []" "last s \<noteq> NL" "CR \<notin> set s"
  have "split_inclusive s \<noteq> []" using s by simp
  then obtain ps p where ps: "split_inclusive s = ps @ [p]" by (metis rev_exhaust)
  with split_concat [of s] have "s = concat ps @ p" by simp
  moreover have p: "NL \<notin> set (butlast p)" "p \<noteq> []" using split_inclusive_pieces [of p s] ps by auto
  ultimately have "last p \<noteq> NL" using s by simp
  with p have "NL \<notin> set p" by (cases p rule: rev_cases) auto
  with p ps show ?thesis by (simp add: lines_def strip_eol_plain)
qed

lemma join_lines:
  assumes "CR \<notin> set s" and "s \<noteq> []"
  shows "join_with [NL] (lines s) @ (if ends_with_char NL s then [NL] else []) = s"
  using assms
proof (induction s rule: length_induct)
  case (1 s)
  show ?case
  proof (cases "NL \<in> set s")
    case False
    then have "lines s = [s]" using 1 by (intro lines_single) (auto simp: plain_line_def)
    moreover have "\<not> ends_with_char NL s" using False by (auto simp: ends_with_char_def dest: last_in_set)
    ultimately show ?thesis by simp
  next
    case True
    then obtain l t where s: "s = l @ NL # t" "NL \<notin> set l" by (meson split_list_first)
    with 1 have l: "plain_line l" by (auto simp: plain_line_def)
    then have ls: "lines s = l # lines t" using s lines_Cons by simp
    show ?thesis
    proof (cases "t = []")
      case True
      with s ls show ?thesis by (simp add: ends_with_char_def)
    next
      case False
      then have "lines t \<noteq> []" by (simp add: lines_def)
      then obtain x xs where x: "lines t = x # xs" by (cases "lines t") auto
      have "join_with [NL] (lines t) @ (if ends_with_char NL t then [NL] else []) = t"
        using 1 s False by auto
      moreover have "ends_with_char NL s = ends_with_char NL t" using s False by (simp add: ends_with_char_def)
      ultimately show ?thesis using s ls x by simp
    qed
  qed
qed

subsection \<open>Trimming and prefixes\<close>

fun trim_end :: "string \<Rightarrow> string" where
  "trim_end [] = []"
| "trim_end (c # s) = (if is_blank (c # s) then [] else c # trim_end s)"

definition trim :: "string \<Rightarrow> string" where
  "trim s = trim_end (trim_start s)"

definition strip_prefix :: "string \<Rightarrow> string \<Rightarrow> string option" where
  "strip_prefix p s = (if prefix p s then Some (drop (length p) s) else None)"

definition trim_matches :: "(char \<Rightarrow> bool) \<Rightarrow> string \<Rightarrow> string" where
  "trim_matches P s = rev (dropWhile P (rev (dropWhile P s)))"

lemma strip_prefix_Some: "strip_prefix p s = Some r \<longleftrightarrow> s = p @ r"
  by (auto simp: strip_prefix_def prefix_def)

lemma strip_prefix_None: "strip_prefix p s = None \<longleftrightarrow> \<not> prefix p s"
  by (simp add: strip_prefix_def)

lemma trim_start_suffix: "suffix (trim_start s) s"
proof (induction s rule: trim_start.induct)
  case (1 s)
  then show ?case
    by (subst trim_start.simps) (auto intro: suffix_order.trans suffix_drop)
qed

lemma trim_start_idem [simp]: "ws_len s = 0 \<Longrightarrow> trim_start s = s"
  by (simp add: trim_start.simps)

lemma ws_len_trim_start [simp]: "ws_len (trim_start s) = 0"
proof (induction s rule: trim_start.induct)
  case (1 s)
  then show ?case by (subst trim_start.simps) auto
qed

lemma trim_end_prefix: "prefix (trim_end s) s"
  by (induction s) auto

text \<open>The white space \<open>trim_start\<close> drops.\<close>

definition lead_ws :: "string \<Rightarrow> string" where
  "lead_ws s = take (length s - length (trim_start s)) s"

lemma lead_ws_trim: "lead_ws s @ trim_start s = s"
  using trim_start_suffix [of s] by (metis lead_ws_def append_eq_append_conv_if append_take_drop_id
      diff_diff_cancel length_append length_drop suffixE suffix_length_le suffix_take)

subsection \<open>Splitting and characters\<close>

fun split_char :: "char \<Rightarrow> string \<Rightarrow> string list" where
  "split_char d [] = [[]]"
| "split_char d (c # s) =
     (if c = d then [] # split_char d s
      else case split_char d s of [] \<Rightarrow> [[c]] | p # ps \<Rightarrow> (c # p) # ps)"

lemma split_char_ne [simp]: "split_char d s \<noteq> []"
  by (cases s) (auto split: list.splits)

lemma join_split: "join_with [d] (split_char d s) = s"
proof (induction s)
  case (Cons c s)
  then show ?case by (cases "split_char d s"; cases "tl (split_char d s)") auto
qed simp

lemma split_char_parts: "p \<in> set (split_char d s) \<Longrightarrow> d \<notin> set p \<and> set p \<subseteq> set s"
proof (induction s arbitrary: p)
  case (Cons c s)
  obtain q qs where q: "split_char d s = q # qs" by (cases "split_char d s") auto
  with Cons.prems have "p = [] \<and> c = d \<or> p \<in> set (split_char d s) \<or> (c \<noteq> d \<and> p = c # q)" by (auto split: if_splits)
  with q Cons.IH [of q] Cons.IH [of p] show ?case by auto
qed simp

text \<open>The characters of a text, each as its bytes.\<close>

fun chars :: "string \<Rightarrow> string list" where
  "chars [] = []"
| "chars (c # s) =
     (case chars s of
        [] \<Rightarrow> [[c]]
      | p # ps \<Rightarrow> if p \<noteq> [] \<and> \<not> is_lead (hd p) then (c # p) # ps else [c] # p # ps)"

lemma concat_chars: "concat (chars s) = s"
  by (induction s) (auto split: list.splits)

subsection \<open>Padded numbers\<close>

definition pad_left :: "nat \<Rightarrow> string \<Rightarrow> string" where
  "pad_left n s = replicate (n - length s) (CHR ''0'') @ s"

text \<open>\<open>{:0n}\<close> of a signed integer: the sign comes first and counts.\<close>

definition show_padded :: "nat \<Rightarrow> int \<Rightarrow> string" where
  "show_padded n i =
     (if i < 0 then CHR ''-'' # pad_left (n - 1) (show_nat (nat (- i))) else pad_left n (show_nat (nat i)))"

end
