(* ===== verification/SpecText.thy ===== *)
theory SpecText
  imports TextOps
begin

text \<open>
  The text functions of \<open>services/openspec_service.rs\<close>: change names, the checkboxes of \<open>tasks.md\<close>
  (progress, structured view, toggling) and the merge of delta specs into canonical specs. The case
  tables and letter classes of Unicode are the record \<open>unicode\<close>. Counters and line numbers are naturals:
  they stay below the number of bytes of the file (\<open>SpecProps\<close>), so the code's 32 bits hold them
  for any file under four gigabytes.
\<close>

subsection \<open>Change names\<close>

record unicode =
  u_lower :: "string \<Rightarrow> string"
  u_upper :: "string \<Rightarrow> string"
  u_alnum :: "string \<Rightarrow> bool"

definition untitled :: string where "untitled = ''untitled-change''"

definition kebab_char :: "unicode \<Rightarrow> string \<Rightarrow> string" where
  "kebab_char u c = (if u_alnum u c then c else if c \<in> {'' '', ''_'', ''-''} then ''-'' else [CHR 0x00])"

definition derive_change_name :: "unicode \<Rightarrow> string \<Rightarrow> string" where
  "derive_change_name u title =
     (let trimmed = trim title
      in if trimmed = [] then untitled
         else
           (let kebab = filter (\<lambda>b. b \<noteq> CHR 0x00) (concat (map (kebab_char u) (chars (u_lower u trimmed))));
                collapsed = join_with ''-'' (filter (\<lambda>p. p \<noteq> []) (split_char (CHR ''-'') kebab))
            in if collapsed = [] then untitled else collapsed))"

text \<open>The loop over suffixes; whether a name is taken is asked of the file system each time.\<close>

partial_function (option) unique_from :: "(string \<Rightarrow> bool) \<Rightarrow> string \<Rightarrow> string \<Rightarrow> u32 \<Rightarrow> string option" where
  "unique_from taken base candidate k =
     (if taken candidate then unique_from taken base (base @ ''-'' @ show_nat (unat k)) (k + 1) else Some candidate)"

definition resolve_unique_change_name :: "unicode \<Rightarrow> bool \<Rightarrow> (string \<Rightarrow> bool) \<Rightarrow> string \<Rightarrow> string option" where
  "resolve_unique_change_name u dir_exists taken title =
     (let base = derive_change_name u title
      in if \<not> dir_exists then Some base else unique_from taken base base 2)"

subsection \<open>Task progress\<close>

definition task_mark :: "string \<Rightarrow> bool option" where
  "task_mark line =
     (let trimmed = trim_start line;
          checkbox = (if prefix ''- ['' trimmed then Some (drop 3 trimmed)
                      else if prefix ''* ['' trimmed then Some (drop 3 trimmed) else None)
      in case checkbox of
           None \<Rightarrow> None
         | Some rest \<Rightarrow> if prefix ''x'' rest \<or> prefix ''X'' rest then Some True
                        else if prefix '' '' rest then Some False else None)"

fun count_mark :: "string \<Rightarrow> nat \<times> nat \<Rightarrow> nat \<times> nat" where
  "count_mark line (completed, tasks) =
     (case task_mark line of
        None \<Rightarrow> (completed, tasks)
      | Some True \<Rightarrow> (completed + 1, tasks + 1)
      | Some False \<Rightarrow> (completed, tasks + 1))"

definition parse_task_progress :: "string \<Rightarrow> nat \<times> nat" where
  "parse_task_progress content = fold count_mark (lines content) (0, 0)"

subsection \<open>The structured view\<close>

record structured_task =
  st_line :: nat
  st_checked :: bool
  st_id :: "string option"
  st_text :: string

record task_phase =
  ph_name :: string
  ph_line :: nat
  ph_tasks :: "structured_task list"

record structured_tasks =
  ts_phases :: "task_phase list"
  ts_total :: nat
  ts_completed :: nat

definition is_digit :: "char \<Rightarrow> bool" where
  "is_digit c \<longleftrightarrow> (let n = (of_char c :: nat) in 48 \<le> n \<and> n \<le> 57)"

definition is_ascii_ws :: "char \<Rightarrow> bool" where
  "is_ascii_ws c \<longleftrightarrow> c \<in> {CHR 0x20, CHR 0x09, CHR 0x0A, CHR 0x0C, CHR 0x0D}"

definition parse_task_id :: "string \<Rightarrow> string option \<times> string" where
  "parse_task_id text =
     (case (takeWhile is_digit text, dropWhile is_digit text) of
        (major, after) \<Rightarrow>
          (if major = [] \<or> after = [] \<or> hd after \<noteq> CHR ''.'' then (None, text)
           else case (takeWhile is_digit (tl after), dropWhile is_digit (tl after)) of
             (minor, rest) \<Rightarrow>
               (if minor = [] then (None, text)
                else if rest \<noteq> [] \<and> \<not> is_ascii_ws (hd rest) then (None, text)
                else (Some (major @ ''.'' @ minor), trim_start rest))))"

definition task_box :: "string \<Rightarrow> (bool \<times> string) option" where
  "task_box trimmed =
     (case strip_prefix ''- [x]'' trimmed of
        Some r \<Rightarrow> Some (True, r)
      | None \<Rightarrow>
          (case strip_prefix ''- [X]'' trimmed of
             Some r \<Rightarrow> Some (True, r)
           | None \<Rightarrow> (case strip_prefix ''- [ ]'' trimmed of Some r \<Rightarrow> Some (False, r) | None \<Rightarrow> None)))"

text \<open>The loop's state: the closed phases, the open one, the totals.\<close>

record task_scan =
  sc_phases :: "task_phase list"
  sc_current :: "task_phase option"
  sc_total :: nat
  sc_completed :: nat

definition close_phase :: "task_scan \<Rightarrow> task_phase list" where
  "close_phase s = (case sc_current s of None \<Rightarrow> sc_phases s | Some ph \<Rightarrow> sc_phases s @ [ph])"

definition push_task :: "structured_task \<Rightarrow> task_phase option \<Rightarrow> task_phase" where
  "push_task t cur =
     (case cur of
        Some ph \<Rightarrow> ph\<lparr>ph_tasks := ph_tasks ph @ [t]\<rparr>
      | None \<Rightarrow> \<lparr>ph_name = ''Tasks'', ph_line = 0, ph_tasks = [t]\<rparr>)"

definition scan_line :: "nat \<times> string \<Rightarrow> task_scan \<Rightarrow> task_scan" where
  "scan_line il s =
     (case il of (idx, line) \<Rightarrow>
        (let line_no = idx + 1; trimmed = trim_start line
         in case strip_prefix ''## '' trimmed of
              Some rest \<Rightarrow>
                s\<lparr>sc_phases := close_phase s,
                  sc_current := Some \<lparr>ph_name = trim rest, ph_line = line_no, ph_tasks = []\<rparr>\<rparr>
            | None \<Rightarrow>
                (case task_box trimmed of
                   None \<Rightarrow> s
                 | Some (checked, rest) \<Rightarrow>
                     (case parse_task_id (trim_start rest) of
                        (i, text) \<Rightarrow>
                          s\<lparr>sc_total := sc_total s + 1,
                            sc_completed := sc_completed s + (if checked then 1 else 0),
                            sc_current := Some (push_task
                               \<lparr>st_line = line_no, st_checked = checked, st_id = i, st_text = text\<rparr>
                               (sc_current s))\<rparr>))))"

definition empty_scan :: task_scan where
  "empty_scan = \<lparr>sc_phases = [], sc_current = None, sc_total = 0, sc_completed = 0\<rparr>"

definition parse_tasks_structured :: "string \<Rightarrow> structured_tasks" where
  "parse_tasks_structured content =
     (let s = fold scan_line (enumerate 0 (lines content)) empty_scan
      in \<lparr>ts_phases = close_phase s, ts_total = sc_total s, ts_completed = sc_completed s\<rparr>)"

subsection \<open>Toggling a checkbox\<close>

definition tick_box :: string where "tick_box = ''- [x]''"
definition open_box :: string where "open_box = ''- [ ]''"

definition join_back :: "string \<Rightarrow> string list \<Rightarrow> string" where
  "join_back content ls = join_with [NL] ls @ (if ends_with_char NL content then [NL] else [])"

text \<open>The new text of \<open>tasks.md\<close>, \<open>None\<close> when the box already is as wanted.\<close>

definition toggle_text :: "string \<Rightarrow> nat \<Rightarrow> bool \<Rightarrow> string option result" where
  "toggle_text content line_no make_checked =
     (let ls = lines content
      in if line_no = 0 \<or> length ls < line_no
         then Err (''Line '' @ show_nat line_no @ '' is out of range (1..='' @ show_nat (length ls) @ '').'')
         else
           (let target = ls ! (line_no - 1);
                old_marker = (if make_checked then open_box else tick_box);
                new_marker = (if make_checked then tick_box else open_box);
                trimmed = trim_start target
            in if \<not> prefix old_marker trimmed
               then (if prefix new_marker trimmed then Ok None
                     else Err (''Line '' @ show_nat line_no @ '' is not a '' @ old_marker @ '' checkbox.''))
               else Ok (Some (join_back content
                      (ls[line_no - 1 := lead_ws target @ new_marker @ drop (length old_marker) trimmed])))))"

subsection \<open>Requirements\<close>

definition requirement_name :: "string \<Rightarrow> string option" where
  "requirement_name line = map_option trim (strip_prefix ''### Requirement:'' (trim line))"

definition in_block :: "string \<Rightarrow> bool" where
  "in_block line \<longleftrightarrow> requirement_name line = None \<and> \<not> prefix ''## '' (trim line)"

definition block_of :: "string list \<Rightarrow> string" where
  "block_of ls = trim_end (join_with [NL] ls)"

function requirement_blocks :: "string list \<Rightarrow> (string \<times> string) list" where
  "requirement_blocks [] = []"
| "requirement_blocks (l # ls) =
     (case requirement_name l of
        None \<Rightarrow> requirement_blocks ls
      | Some name \<Rightarrow> (name, block_of (l # takeWhile in_block ls)) # requirement_blocks (dropWhile in_block ls))"
  by pat_completeness auto
termination
  by (relation "measure length") (auto simp: le_imp_less_Suc length_dropWhile_le)

definition parse_requirement_blocks :: "string \<Rightarrow> (string \<times> string) list" where
  "parse_requirement_blocks content = requirement_blocks (lines content)"

subsection \<open>Delta specs\<close>

datatype delta_operation = Added | Modified | Removed

definition section_of :: "string \<Rightarrow> delta_operation option \<Rightarrow> delta_operation option" where
  "section_of trimmed operation =
     (if trimmed = ''## ADDED Requirements'' then Some Added
      else if trimmed = ''## MODIFIED Requirements'' then Some Modified
      else if trimmed = ''## REMOVED Requirements'' then Some Removed
      else if prefix ''## '' trimmed then None
      else operation)"

type_synonym delta = "delta_operation \<times> string \<times> string"

function delta_requirements :: "delta_operation option \<Rightarrow> string list \<Rightarrow> delta list result" where
  "delta_requirements operation [] = Ok []"
| "delta_requirements operation (l # ls) =
     (let op = section_of (trim l) operation
      in case requirement_name l of
           None \<Rightarrow> delta_requirements op ls
         | Some name \<Rightarrow>
             (case op of
                None \<Rightarrow> Err (''Requirement '' @ CHR 0x27 # name @ CHR 0x27 #
                          '' is outside an ADDED, MODIFIED, or REMOVED section.'')
              | Some current \<Rightarrow>
                  (case delta_requirements op (dropWhile in_block ls) of
                     Inl err \<Rightarrow> Err err
                   | Inr ds \<Rightarrow> Ok ((current, name, block_of (l # takeWhile in_block ls)) # ds))))"
  by pat_completeness auto
termination
  by (relation "measure (\<lambda>(_, ls). length ls)") (auto simp: le_imp_less_Suc length_dropWhile_le)

definition parse_delta_requirements :: "string \<Rightarrow> delta list result" where
  "parse_delta_requirements content = delta_requirements None (lines content)"

definition unquoted :: "string \<Rightarrow> string" where
  "unquoted s = trim_matches (\<lambda>c. c = CHR 0x60) (trim s)"

fun delta_renames :: "bool \<Rightarrow> string option \<Rightarrow> string list \<Rightarrow> (string \<times> string) list result" where
  "delta_renames in_renames pending [] =
     (if pending = None then Ok [] else Err ''RENAMED Requirements contains FROM without TO.'')"
| "delta_renames in_renames pending (l # ls) =
     (let trimmed = trim l
      in if prefix ''## '' trimmed then delta_renames (trimmed = ''## RENAMED Requirements'') pending ls
         else if \<not> in_renames then delta_renames in_renames pending ls
         else case strip_prefix ''- FROM:'' trimmed of
                Some v \<Rightarrow> delta_renames in_renames (Some (unquoted v)) ls
              | None \<Rightarrow>
                  (case strip_prefix ''- TO:'' trimmed of
                     None \<Rightarrow> delta_renames in_renames pending ls
                   | Some v \<Rightarrow>
                       (case pending of
                          None \<Rightarrow> Err ''RENAMED Requirements contains TO without FROM.''
                        | Some source \<Rightarrow>
                            (case delta_renames in_renames None ls of
                               Inl err \<Rightarrow> Err err
                             | Inr rs \<Rightarrow> Ok ((source, unquoted v) # rs)))))"

definition parse_delta_renames :: "string \<Rightarrow> (string \<times> string) list result" where
  "parse_delta_renames content = delta_renames False None (lines content)"

subsection \<open>Merging\<close>

definition title_word :: "unicode \<Rightarrow> string \<Rightarrow> string" where
  "title_word u word = (case chars word of [] \<Rightarrow> [] | c # cs \<Rightarrow> u_upper u c @ concat cs)"

definition canonical_spec_title :: "unicode \<Rightarrow> string \<Rightarrow> string" where
  "canonical_spec_title u capability =
     ''# '' @ join_with '' '' (map (title_word u) (filter (\<lambda>w. w \<noteq> []) (split_char (CHR ''-'') capability)))
       @ '' Specification''"

type_synonym blocks = "(string \<times> string) list"
type_synonym positions = "string \<rightharpoonup> nat"

text \<open>Later blocks of the same name overwrite the position of earlier ones.\<close>

definition positions_of :: "blocks \<Rightarrow> positions" where
  "positions_of bs = fold (\<lambda>ib m. m(fst (snd ib) \<mapsto> fst ib)) (enumerate 0 bs) Map.empty"

definition sync_error :: "string \<Rightarrow> string \<Rightarrow> string \<Rightarrow> string" where
  "sync_error verb name rest = ''Cannot sync '' @ verb @ '' requirement '' @ CHR 0x27 # name @ CHR 0x27 # rest"

definition apply_delta :: "delta \<Rightarrow> blocks \<times> positions \<Rightarrow> (blocks \<times> positions) result" where
  "apply_delta dl st =
     (case (dl, st) of
        ((Added, name, block), (bs, pos)) \<Rightarrow>
          (case pos name of
             Some i \<Rightarrow> (if snd (bs ! i) \<noteq> block
                then Err (sync_error ''ADDED'' name '': it already exists with different content.'') else Ok (bs, pos))
           | None \<Rightarrow> Ok (bs @ [(name, block)], pos(name \<mapsto> length bs)))
      | ((Modified, name, block), (bs, pos)) \<Rightarrow>
          (case pos name of
             None \<Rightarrow> Err (sync_error ''MODIFIED'' name '': canonical requirement not found.'')
           | Some i \<Rightarrow> Ok (bs[i := (fst (bs ! i), block)], pos))
      | ((Removed, name, block), (bs, pos)) \<Rightarrow>
          (case pos name of
             None \<Rightarrow> Err (sync_error ''REMOVED'' name '': canonical requirement not found.'')
           | Some i \<Rightarrow> (let bs' = take i bs @ drop (Suc i) bs in Ok (bs', positions_of bs'))))"

definition renamed_block :: "string \<Rightarrow> string \<Rightarrow> string" where
  "renamed_block to block = trim_end (''### Requirement: '' @ to @ [NL] @ join_with [NL] (drop 1 (lines block)))"

definition apply_rename :: "string \<times> string \<Rightarrow> blocks \<times> positions \<Rightarrow> (blocks \<times> positions) result" where
  "apply_rename r st =
     (case (r, st) of ((source, to), (bs, pos)) \<Rightarrow>
        (case pos source of
           None \<Rightarrow> Err (sync_error ''RENAMED'' source '': canonical requirement not found.'')
         | Some i \<Rightarrow>
             (if pos to \<noteq> None
              then Err (''Cannot rename requirement '' @ CHR 0x27 # source @ CHR 0x27 # '' to '' @ CHR 0x27 # to
                     @ CHR 0x27 # '': target already exists.'')
              else Ok (bs[i := (to, renamed_block to (snd (bs ! i)))], (pos(source := None))(to \<mapsto> i)))))"

fun apply_all :: "('a \<Rightarrow> 's \<Rightarrow> 's result) \<Rightarrow> 'a list \<Rightarrow> 's \<Rightarrow> 's result" where
  "apply_all f [] st = Ok st"
| "apply_all f (x # xs) st = (case f x st of Inl err \<Rightarrow> Err err | Inr st' \<Rightarrow> apply_all f xs st')"

definition spec_header :: "unicode \<Rightarrow> string \<Rightarrow> string \<Rightarrow> string" where
  "spec_header u capability canonical =
     (if \<exists>l \<in> set (lines canonical). requirement_name l \<noteq> None
      then join_with [NL] (takeWhile (\<lambda>l. requirement_name l = None) (lines canonical))
      else if trim canonical = [] then canonical_spec_title u capability
      else trim_end canonical)"

definition render_spec :: "string \<Rightarrow> blocks \<Rightarrow> string" where
  "render_spec header bs =
     trim_end header @ (if bs \<noteq> [] then [NL, NL] @ join_with [NL, NL] (map snd bs) else []) @ [NL]"

definition merge_delta_spec :: "unicode \<Rightarrow> string \<Rightarrow> string option \<Rightarrow> string \<Rightarrow> string result" where
  "merge_delta_spec u capability canonical delta_text =
     (let text = coalesce canonical [];
          bs = parse_requirement_blocks text
      in case parse_delta_requirements delta_text of
           Inl err \<Rightarrow> Err err
         | Inr ds \<Rightarrow>
             (case apply_all apply_delta ds (bs, positions_of bs) of
                Inl err \<Rightarrow> Err err
              | Inr st \<Rightarrow>
                  (case parse_delta_renames delta_text of
                     Inl err \<Rightarrow> Err err
                   | Inr rs \<Rightarrow>
                       (case apply_all apply_rename rs st of
                          Inl err \<Rightarrow> Err err
                        | Inr (bs', _) \<Rightarrow> Ok (render_spec (spec_header u capability text) bs')))))"

end
