(* ===== verification/ChangeStore.thy ===== *)
theory ChangeStore
  imports SpecText Calendar PlanCompletion "HOL-Library.Char_ord" "HOL-Library.List_Lexorder"
begin

text \<open>
  The rest of \<open>services/openspec_service.rs\<close>: change directories on disk, their link to plans, the
  fingerprint of their artifacts, toggling a task in the file, merging delta specs into the canonical
  specs and archiving. A path is its list of components (a leading slash is the component \<open>/\<close>); the
  file system is the list of its nodes in directory order, a file with its text, a directory without;
  which calls of the operating system fail, and how, is the record \<open>os\<close>.
\<close>

subsection \<open>Files\<close>

type_synonym path = "string list"
type_synonym tree = "(path \<times> string option) list"

record os =
  os_unreadable :: "path \<Rightarrow> string option"
  os_unwritable :: "path \<Rightarrow> string option"
  os_no_rename :: "path \<Rightarrow> string option"

definition file_text :: "tree \<Rightarrow> path \<Rightarrow> string option" where
  "file_text t p = (case map_of t p of Some (Some c) \<Rightarrow> Some c | _ \<Rightarrow> None)"

definition is_dir :: "tree \<Rightarrow> path \<Rightarrow> bool" where
  "is_dir t p \<longleftrightarrow> map_of t p = Some None"

definition path_exists :: "tree \<Rightarrow> path \<Rightarrow> bool" where
  "path_exists t p \<longleftrightarrow> map_of t p \<noteq> None"

definition is_file :: "tree \<Rightarrow> path \<Rightarrow> bool" where
  "is_file t p \<longleftrightarrow> file_text t p \<noteq> None"

definition not_found :: string where "not_found = ''No such file or directory (os error 2)''"

definition not_empty :: string where "not_empty = ''Directory not empty (os error 39)''"

definition read_text :: "os \<Rightarrow> tree \<Rightarrow> path \<Rightarrow> string result" where
  "read_text os t p =
     (case os_unreadable os p of
        Some err \<Rightarrow> Err err
      | None \<Rightarrow> (case file_text t p of None \<Rightarrow> Err not_found | Some c \<Rightarrow> Ok c))"

definition dir_names :: "tree \<Rightarrow> path \<Rightarrow> string list" where
  "dir_names t p = map (\<lambda>n. last (fst n)) (filter (\<lambda>n. fst n \<noteq> [] \<and> butlast (fst n) = p) t)"

definition read_dir :: "os \<Rightarrow> tree \<Rightarrow> path \<Rightarrow> string list result" where
  "read_dir os t p =
     (case os_unreadable os p of
        Some err \<Rightarrow> Err err
      | None \<Rightarrow> if is_dir t p then Ok (dir_names t p) else Err not_found)"

definition put_node :: "path \<Rightarrow> string option \<Rightarrow> tree \<Rightarrow> tree" where
  "put_node p c t = (if path_exists t p then map (\<lambda>n. if fst n = p then (p, c) else n) t else t @ [(p, c)])"

definition write_text :: "os \<Rightarrow> path \<Rightarrow> string \<Rightarrow> tree \<Rightarrow> unit result \<times> tree" where
  "write_text os p c t =
     (case os_unwritable os p of Some err \<Rightarrow> (Err err, t) | None \<Rightarrow> (Ok (), put_node p (Some c) t))"

text \<open>\<open>create_dir_all\<close>: every missing directory on the way.\<close>

definition create_dirs :: "os \<Rightarrow> path \<Rightarrow> tree \<Rightarrow> unit result \<times> tree" where
  "create_dirs os p t =
     (case os_unwritable os p of
        Some err \<Rightarrow> (Err err, t)
      | None \<Rightarrow> (Ok (), fold (\<lambda>n t. if path_exists t (take n p) then t else put_node (take n p) None t)
                       [1..<Suc (length p)] t))"

definition remove_tree :: "path \<Rightarrow> tree \<Rightarrow> tree" where
  "remove_tree p t = filter (\<lambda>n. \<not> prefix p (fst n)) t"

definition move_tree :: "path \<Rightarrow> path \<Rightarrow> tree \<Rightarrow> tree" where
  "move_tree src dest t = map (\<lambda>n. if prefix src (fst n) then (dest @ drop (length src) (fst n), snd n) else n) t"

definition rename_path :: "os \<Rightarrow> path \<Rightarrow> path \<Rightarrow> tree \<Rightarrow> unit result \<times> tree" where
  "rename_path os src dest t =
     (case os_no_rename os dest of
        Some err \<Rightarrow> (Err err, t)
      | None \<Rightarrow>
          (if \<not> path_exists t src then (Err not_found, t)
           else if is_dir t dest \<and> dir_names t dest \<noteq> [] then (Err not_empty, t)
           else (Ok (), move_tree src dest (remove_tree dest t))))"

text \<open>\<open>Path::join\<close>: an absolute path replaces, empty and dot components vanish.\<close>

definition components :: "string \<Rightarrow> path" where
  "components s = (if prefix ''/'' s then [''/''] else []) @
     filter (\<lambda>c. c \<noteq> [] \<and> c \<noteq> ''.'') (split_char (CHR ''/'') s)"

definition join_path :: "path \<Rightarrow> string \<Rightarrow> path" where
  "join_path p s = (if prefix ''/'' s then components s else p @ components s)"

definition display_path :: "path \<Rightarrow> string" where
  "display_path p = (case p of [] \<Rightarrow> [] | c # cs \<Rightarrow> if c = ''/'' then CHR ''/'' # join_with ''/'' cs else join_with ''/'' p)"

subsection \<open>Change directories\<close>

definition changes_dir :: "string \<Rightarrow> path" where
  "changes_dir project = components project @ [''openspec'', ''changes'']"

definition change_dir :: "string \<Rightarrow> string \<Rightarrow> path" where
  "change_dir project name = join_path (changes_dir project) name"

definition tasks_file :: "string \<Rightarrow> string \<Rightarrow> path" where
  "tasks_file project name = change_dir project name @ [''tasks.md'']"

definition bad_change_name :: "string \<Rightarrow> bool" where
  "bad_change_name name \<longleftrightarrow> CHR ''/'' \<in> set name \<or> CHR 0x5C \<in> set name \<or> has_infix ''..'' name"

definition read_task_progress :: "os \<Rightarrow> tree \<Rightarrow> string \<Rightarrow> string \<Rightarrow> nat \<times> nat" where
  "read_task_progress os t project name =
     (case read_text os t (tasks_file project name) of Inr c \<Rightarrow> parse_task_progress c | Inl _ \<Rightarrow> (0, 0))"

text \<open>Artifacts are written into a temporary directory that is renamed last.\<close>

fun write_specs :: "os \<Rightarrow> path \<Rightarrow> (string \<times> string) list \<Rightarrow> tree \<Rightarrow> unit result \<times> tree" where
  "write_specs os dir [] t = (Ok (), t)"
| "write_specs os dir ((capability, content) # specs) t =
     (let spec_dir = join_path (dir @ [''specs'']) capability
      in case create_dirs os spec_dir t of
           (Inl err, t') \<Rightarrow> (Err (''Failed to create spec dir for '' @ capability @ '': '' @ err), t')
         | (Inr _, t') \<Rightarrow>
             (case write_text os (spec_dir @ [''spec.md'']) content t' of
                (Inl err, t'') \<Rightarrow> (Err (''Failed to write spec.md for '' @ capability @ '': '' @ err), t'')
              | (Inr _, t'') \<Rightarrow> write_specs os dir specs t''))"

definition bind_tree :: "unit result \<times> tree \<Rightarrow> string \<Rightarrow> (tree \<Rightarrow> 'a result \<times> tree) \<Rightarrow> 'a result \<times> tree" where
  "bind_tree r what f = (case r of (Inl err, t) \<Rightarrow> (Err (what @ err), t) | (Inr _, t) \<Rightarrow> f t)"

definition write_artifacts_atomic ::
  "os \<Rightarrow> string \<Rightarrow> string \<Rightarrow> string \<Rightarrow> (string \<times> string) list \<Rightarrow> string option \<Rightarrow> string \<Rightarrow> tree \<Rightarrow> path result \<times> tree" where
  "write_artifacts_atomic os project name proposal specs design tasks t =
     (let final_dir = change_dir project name;
          parent = butlast final_dir;
          temp_dir = join_path parent (''.'' @ name @ ''.tmp'')
      in bind_tree (create_dirs os parent t) ''Failed to create changes directory: '' (\<lambda>t1.
         bind_tree (create_dirs os temp_dir (if path_exists t1 temp_dir then remove_tree temp_dir t1 else t1))
           ''Failed to create temp directory: '' (\<lambda>t2.
         bind_tree (write_text os (temp_dir @ [''proposal.md'']) proposal t2) ''Failed to write proposal.md: '' (\<lambda>t3.
         bind_tree (write_specs os temp_dir specs t3) [] (\<lambda>t4.
         bind_tree (case design of None \<Rightarrow> (Ok (), t4) | Some c \<Rightarrow> write_text os (temp_dir @ [''design.md'']) c t4)
           ''Failed to write design.md: '' (\<lambda>t5.
         bind_tree (write_text os (temp_dir @ [''tasks.md'']) tasks t5) ''Failed to write tasks.md: '' (\<lambda>t6.
         bind_tree (write_text os (temp_dir @ [''.openspec.yaml'']) (''change: '' @ name @ [NL]) t6)
           ''Failed to write .openspec.yaml: '' (\<lambda>t7.
         case rename_path os temp_dir final_dir t7 of
           (Inl err, t8) \<Rightarrow> (Err (''Failed to finalize change directory: '' @ err), remove_tree temp_dir t8)
         | (Inr _, t8) \<Rightarrow> (Ok final_dir, t8)))))))))"

subsection \<open>The artifact fingerprint\<close>

definition has_md_extension :: "string \<Rightarrow> bool" where
  "has_md_extension n \<longleftrightarrow> suffix ''.md'' n \<and> 3 < length n"

definition spec_paths :: "tree \<Rightarrow> path \<Rightarrow> string \<Rightarrow> path list" where
  "spec_paths t specs_root n =
     (let p = specs_root @ [n]
      in if is_dir t p then (if is_file t (p @ [''spec.md'']) then [p @ [''spec.md'']] else [])
         else if has_md_extension n then [p] else [])"

fun read_all :: "os \<Rightarrow> tree \<Rightarrow> path list \<Rightarrow> string list result" where
  "read_all os t [] = Ok []"
| "read_all os t (p # ps) =
     (case read_text os t p of
        Inl err \<Rightarrow> Err (''Failed to read '' @ display_path p @ '': '' @ err)
      | Inr c \<Rightarrow> (case read_all os t ps of Inl err \<Rightarrow> Err err | Inr cs \<Rightarrow> Ok (c # cs)))"

definition assessment_artifact_fingerprint :: "os \<Rightarrow> tree \<Rightarrow> string \<Rightarrow> string \<Rightarrow> string result" where
  "assessment_artifact_fingerprint os t project name =
     (if bad_change_name name then Err ''Invalid change name.''
      else
        (let root = change_dir project name; specs_root = root @ [''specs'']
         in case read_dir os t specs_root of
              Inl err \<Rightarrow> Err (''Failed to read '' @ display_path specs_root @ '': '' @ err)
            | Inr names \<Rightarrow>
                (case read_all os t (sort ([root @ [''proposal.md''], root @ [''design.md''], root @ [''tasks.md'']]
                        @ concat (map (spec_paths t specs_root) names))) of
                   Inl err \<Rightarrow> Err err
                 | Inr contents \<Rightarrow> Ok (artifact_fingerprint contents))))"

subsection \<open>Links between plans and changes\<close>

definition find_plan_by_change :: "string \<Rightarrow> db \<Rightarrow> plan option" where
  "find_plan_by_change name d = map_option row_to_plan (find (\<lambda>p. pl_change_name p = Some name) (plans d))"

definition refresh_assessment_staleness ::
  "os \<Rightarrow> tree \<Rightarrow> env \<Rightarrow> string \<Rightarrow> string \<Rightarrow> db \<Rightarrow> bool result \<times> db" where
  "refresh_assessment_staleness os t e project name d =
     (case find_plan_by_change name d of
        None \<Rightarrow> (Ok False, d)
      | Some plan \<Rightarrow>
          (if p_assessment plan = None then (Ok False, d)
           else case assessment_artifact_fingerprint os t project name of
             Inl err \<Rightarrow> (Err err, d)
           | Inr fingerprint \<Rightarrow> mark_assessment_stale e (p_id plan) fingerprint d))"

definition link_plan_to_change :: "env \<Rightarrow> string \<Rightarrow> string \<Rightarrow> db \<Rightarrow> unit result \<times> db" where
  "link_plan_to_change e plan_id name d =
     (Ok (), set_plans (\<lambda>p. pl_id p = plan_id) (\<lambda>p. p\<lparr>pl_change_name := Some name, pl_updated_at := e_secs e 0\<rparr>) d)"

definition unlink_plan_from_change :: "env \<Rightarrow> string \<Rightarrow> db \<Rightarrow> unit result \<times> db" where
  "unlink_plan_from_change e plan_id d =
     (let cleared = (Ok (), set_plans (\<lambda>p. pl_id p = plan_id)
                       (\<lambda>p. p\<lparr>pl_change_name := None, pl_updated_at := e_secs e 0\<rparr>) d)
      in case lookup_by pl_id plan_id (plans d) of
           None \<Rightarrow> cleared
         | Some p \<Rightarrow>
             (if plan_status_of (pl_status p) = Running \<or> plan_status_of (pl_status p) = Ready
              then (Err (''Cannot unlink: plan is '' @ pl_status p
                      @ '' (must be finished, cancelled, draft, or openspec).''), d)
              else cleared))"

definition link_change_to_plan :: "env \<Rightarrow> string \<Rightarrow> string \<Rightarrow> db \<Rightarrow> unit result \<times> db" where
  "link_change_to_plan e name plan_id d =
     (case find_plan_by_change name d of
        None \<Rightarrow> link_plan_to_change e plan_id name d
      | Some existing \<Rightarrow>
          (if p_id existing \<noteq> plan_id
           then (Err (''Change '' @ quote name @ '' is already linked to plan '' @ p_reference_id existing
                   @ '' ('' @ p_id existing @ '')''), d)
           else link_plan_to_change e plan_id name d))"

subsection \<open>Progress and toggling on disk\<close>

definition show_progress :: "nat \<times> nat \<Rightarrow> string" where
  "show_progress p = show_nat (fst p) @ ''/'' @ show_nat (snd p)"

definition progress_event :: "string \<Rightarrow> string \<Rightarrow> nat \<times> nat \<Rightarrow> message" where
  "progress_event project name p =
     PlanningEvent ''task_progress_changed'' name project None (name @ ''/tasks.md'') (Some (show_progress p))"

definition refresh_task_progress ::
  "os \<Rightarrow> tree \<Rightarrow> env \<Rightarrow> string \<Rightarrow> string \<Rightarrow> nat \<times> nat \<Rightarrow> app \<Rightarrow> bool result \<times> app" where
  "refresh_task_progress os t e project name previous a =
     (let now = read_task_progress os t project name
      in case on_store (refresh_assessment_staleness os t e project name) a of
           (Inl err, a') \<Rightarrow> (Err err, a')
         | (Inr _, a') \<Rightarrow>
             (if now = previous then (Ok False, a') else (Ok True, emit (progress_event project name now) a')))"

definition toggle_task ::
  "os \<Rightarrow> env \<Rightarrow> string \<Rightarrow> string \<Rightarrow> nat \<Rightarrow> bool \<Rightarrow> tree \<Rightarrow> app \<Rightarrow> unit result \<times> tree \<times> app" where
  "toggle_task os e project name line_no make_checked t a =
     (if bad_change_name name then (Err ''Invalid change name.'', t, a)
      else
        (let tasks_path = tasks_file project name; tmp = change_dir project name @ [''tasks.md.tmp'']
         in case read_text os t tasks_path of
              Inl err \<Rightarrow> (Err (''Failed to read tasks.md: '' @ err), t, a)
            | Inr content \<Rightarrow>
                (case toggle_text content line_no make_checked of
                   Inl err \<Rightarrow> (Err err, t, a)
                 | Inr None \<Rightarrow> (Ok (), t, a)
                 | Inr (Some new) \<Rightarrow>
                     (case write_text os tmp new t of
                        (Inl err, t1) \<Rightarrow> (Err (''Failed to write temp tasks.md: '' @ err), t1, a)
                      | (Inr _, t1) \<Rightarrow>
                          (case rename_path os tmp tasks_path t1 of
                             (Inl err, t2) \<Rightarrow> (Err (''Failed to rename tasks.md: '' @ err), remove_tree tmp t2, a)
                           | (Inr _, t2) \<Rightarrow>
                               (let a1 = emit (progress_event project name (parse_task_progress new)) a
                                in case on_store (refresh_assessment_staleness os t2 e project name) a1 of
                                     (Inl err, a2) \<Rightarrow> (Err err, t2, a2)
                                   | (Inr _, a2) \<Rightarrow> (Ok (), t2, a2)))))))"

subsection \<open>Canonical specs\<close>

text \<open>The merges a change asks for, computed before anything is written.\<close>

fun pending_specs :: "os \<Rightarrow> unicode \<Rightarrow> tree \<Rightarrow> path \<Rightarrow> path \<Rightarrow> string list \<Rightarrow> (path \<times> string) list result" where
  "pending_specs os u t delta_root canonical_root [] = Ok []"
| "pending_specs os u t delta_root canonical_root (n # ns) =
     (let delta_path = delta_root @ [n, ''spec.md'']; canonical_path = canonical_root @ [n, ''spec.md'']
      in if \<not> is_dir t (delta_root @ [n]) \<or> \<not> is_file t delta_path
         then pending_specs os u t delta_root canonical_root ns
         else case read_text os t delta_path of
           Inl err \<Rightarrow> Err (''Failed to read '' @ display_path delta_path @ '': '' @ err)
         | Inr delta_text \<Rightarrow>
             (case (if is_file t canonical_path then map_sum id Some (read_text os t canonical_path) else Ok None) of
                Inl err \<Rightarrow> Err (''Failed to read '' @ display_path canonical_path @ '': '' @ err)
              | Inr canonical \<Rightarrow>
                  (case merge_delta_spec u n canonical delta_text of
                     Inl err \<Rightarrow> Err err
                   | Inr merged \<Rightarrow>
                       (case pending_specs os u t delta_root canonical_root ns of
                          Inl err \<Rightarrow> Err err
                        | Inr ps \<Rightarrow> Ok ((canonical_path, merged) # ps)))))"

fun write_pending :: "os \<Rightarrow> (path \<times> string) list \<Rightarrow> tree \<Rightarrow> unit result \<times> tree" where
  "write_pending os [] t = (Ok (), t)"
| "write_pending os ((p, c) # ps) t =
     (case create_dirs os (butlast p) t of
        (Inl err, t1) \<Rightarrow> (Err (''Failed to create '' @ display_path (butlast p) @ '': '' @ err), t1)
      | (Inr _, t1) \<Rightarrow>
          (case write_text os p c t1 of
             (Inl err, t2) \<Rightarrow> (Err (''Failed to write '' @ display_path p @ '': '' @ err), t2)
           | (Inr _, t2) \<Rightarrow> write_pending os ps t2))"

definition sync_delta_specs :: "os \<Rightarrow> unicode \<Rightarrow> string \<Rightarrow> string \<Rightarrow> tree \<Rightarrow> unit result \<times> tree" where
  "sync_delta_specs os u project name t =
     (let delta_root = change_dir project name @ [''specs''];
          canonical_root = components project @ [''openspec'', ''specs'']
      in if \<not> is_dir t delta_root then (Ok (), t)
         else case read_dir os t delta_root of
           Inl err \<Rightarrow> (Err (''Failed to read delta specs: '' @ err), t)
         | Inr names \<Rightarrow>
             (case pending_specs os u t delta_root canonical_root names of
                Inl err \<Rightarrow> (Err err, t)
              | Inr ps \<Rightarrow> write_pending os ps t))"

subsection \<open>Archiving\<close>

definition archive_refused :: "os \<Rightarrow> tree \<Rightarrow> string \<Rightarrow> string \<Rightarrow> plan option \<Rightarrow> string option" where
  "archive_refused os t project name linked =
     (case linked of
        None \<Rightarrow> None
      | Some plan \<Rightarrow>
          (if p_status plan \<noteq> Finished \<and> p_status plan \<noteq> Cancelled
           then Some (''Cannot archive: linked plan '' @ p_reference_id plan @ '' is ''
                  @ plan_status_str (p_status plan) @ '' (must be finished or cancelled).'')
           else if p_status plan = Finished
           then (case read_task_progress os t project name of (completed, tasks) \<Rightarrow>
                   (if tasks = 0
                    then Some ''Cannot archive: the finished change has no required tasks to validate.''
                    else if completed \<noteq> tasks
                    then Some (''Cannot archive: '' @ show_progress (completed, tasks) @ '' required tasks are complete.'')
                    else None))
           else None))"

definition archive_plan :: "plan option \<Rightarrow> db \<Rightarrow> db" where
  "archive_plan linked d = (case linked of None \<Rightarrow> d | Some p \<Rightarrow> d\<lparr>archived := add_once (p_id p) (archived d)\<rparr>)"

definition unarchive_plan :: "plan option \<Rightarrow> db \<Rightarrow> db" where
  "unarchive_plan linked d =
     (case linked of None \<Rightarrow> d | Some p \<Rightarrow> d\<lparr>archived := filter (\<lambda>i. i \<noteq> p_id p) (archived d)\<rparr>)"

definition archive_change ::
  "os \<Rightarrow> unicode \<Rightarrow> env \<Rightarrow> string \<Rightarrow> string \<Rightarrow> tree \<Rightarrow> db \<Rightarrow> unit result \<times> tree \<times> db" where
  "archive_change os u e project name t d =
     (if bad_change_name name then (Err ''Invalid change name.'', t, d)
      else
        (let linked = find_plan_by_change name d; src = change_dir project name
         in case archive_refused os t project name linked of
              Some err \<Rightarrow> (Err err, t, d)
            | None \<Rightarrow>
                (if \<not> path_exists t src then (Err (''Change directory not found: '' @ name), t, d)
                 else case (if map_option p_status linked \<noteq> Some Cancelled
                            then sync_delta_specs os u project name t else (Ok (), t)) of
                   (Inl err, t1) \<Rightarrow> (Err err, t1, d)
                 | (Inr _, t1) \<Rightarrow>
                     (case create_dirs os (changes_dir project @ [''archive'']) t1 of
                        (Inl err, t2) \<Rightarrow> (Err (''Failed to create archive dir: '' @ err), t2, d)
                      | (Inr _, t2) \<Rightarrow>
                          (let dest = join_path (changes_dir project @ [''archive''])
                                 (current_date_string (e_secs e 0) @ ''-'' @ name);
                               d1 = archive_plan linked d
                           in case rename_path os src dest t2 of
                                (Inl err, t3) \<Rightarrow>
                                  (Err (''Failed to move change to archive: '' @ err), t3, unarchive_plan linked d1)
                              | (Inr _, t3) \<Rightarrow> (Ok (), t3, d1))))))"

subsection \<open>The catalog\<close>

record catalog_row =
  ce_name :: string
  ce_has_proposal :: bool
  ce_has_design :: bool
  ce_has_tasks :: bool
  ce_has_specs :: bool
  ce_completed :: nat
  ce_total :: nat
  ce_linked :: "string option"
  ce_archived :: bool
  ce_created_at :: int

fun created_in :: "string list \<Rightarrow> int" where
  "created_in [] = 0"
| "created_in (l # ls) =
     (case strip_prefix ''created:'' (trim l) of
        None \<Rightarrow> created_in ls
      | Some rest \<Rightarrow>
          (let val = trim_matches (\<lambda>c. c = CHR 0x22 \<or> c = CHR 0x27) (trim rest)
           in case parse_i64 val of Some secs \<Rightarrow> secs | None \<Rightarrow> parse_date_to_epoch val))"

definition parse_openspec_created_at :: "os \<Rightarrow> tree \<Rightarrow> path \<Rightarrow> int" where
  "parse_openspec_created_at os t p =
     (case read_text os t (p @ [''.openspec.yaml'']) of Inl _ \<Rightarrow> 0 | Inr c \<Rightarrow> created_in (lines c))"

definition catalog_entry :: "os \<Rightarrow> tree \<Rightarrow> db \<Rightarrow> path \<Rightarrow> string \<Rightarrow> bool \<Rightarrow> string \<Rightarrow> catalog_row" where
  "catalog_entry os t d p name arch project =
     (let has_tasks = path_exists t (p @ [''tasks.md'']);
          progress = (if has_tasks then read_task_progress os t project name else (0, 0))
      in \<lparr>ce_name = name, ce_has_proposal = path_exists t (p @ [''proposal.md'']),
          ce_has_design = path_exists t (p @ [''design.md'']), ce_has_tasks = has_tasks,
          ce_has_specs = (is_dir t (p @ [''specs'']) \<and> (case read_dir os t (p @ [''specs'']) of Inl _ \<Rightarrow> False | Inr ns \<Rightarrow> ns \<noteq> [])),
          ce_completed = fst progress, ce_total = snd progress,
          ce_linked = map_option p_reference_id (find_plan_by_change name d), ce_archived = arch,
          ce_created_at = parse_openspec_created_at os t p\<rparr>)"

definition dir_entries :: "os \<Rightarrow> tree \<Rightarrow> db \<Rightarrow> path \<Rightarrow> bool \<Rightarrow> string \<Rightarrow> string list \<Rightarrow> catalog_row list" where
  "dir_entries os t d dir arch project names =
     map (\<lambda>n. catalog_entry os t d (dir @ [n]) n arch project) (filter (\<lambda>n. is_dir t (dir @ [n])) names)"

definition list_changes :: "os \<Rightarrow> tree \<Rightarrow> db \<Rightarrow> string \<Rightarrow> catalog_row list result" where
  "list_changes os t d project =
     (let dir = changes_dir project; archive = dir @ [''archive''];
          open_names = (if path_exists t dir then read_dir os t dir else Ok []);
          archived_names = (if path_exists t archive then read_dir os t archive else Ok [])
      in case open_names of
           Inl err \<Rightarrow> Err (''Failed to read changes dir: '' @ err)
         | Inr ns \<Rightarrow>
             (case archived_names of
                Inl err \<Rightarrow> Err (''Failed to read archive dir: '' @ err)
              | Inr as \<Rightarrow> Ok (sort_key ce_name (dir_entries os t d dir False project (filter (\<lambda>n. n \<noteq> ''archive'') ns))
                          @ sort_key ce_name (dir_entries os t d archive True project as))))"

end
