(* ===== verification/SpecProps.thy ===== *)
theory SpecProps
  imports SpecText PlanCompletion
begin

text \<open>
  What the text functions of the OpenSpec service guarantee: names that are valid and fresh, progress
  counts and the structured view that agree, toggling that changes one box and can be undone, and
  merges of delta specs that refine updates of a finite map and parse back to what was rendered.
\<close>

subsection \<open>Leading white space\<close>

lemma ws_len_le: "ws_len s \<le> length s"
  by (cases s rule: ws_len.cases) (auto split: list.splits)

lemma ws_len_take: "ws_len s = Suc k \<Longrightarrow> ws_len (take (Suc k) s @ t) = Suc k"
  by (cases s rule: ws_len.cases) (auto split: list.splits if_splits)

lemma lead_ws_step:
  assumes "ws_len s = Suc k"
  shows "trim_start s = trim_start (drop (Suc k) s)" "lead_ws s = take (Suc k) s @ lead_ws (drop (Suc k) s)"
proof -
  show t: "trim_start s = trim_start (drop (Suc k) s)" using assms by (subst trim_start.simps) simp
  have "lead_ws s @ trim_start s = take (Suc k) s @ lead_ws (drop (Suc k) s) @ trim_start (drop (Suc k) s)"
    by (simp add: lead_ws_trim)
  with t show "lead_ws s = take (Suc k) s @ lead_ws (drop (Suc k) s)" by simp
qed

lemma lead_ws_none: "ws_len s = 0 \<Longrightarrow> lead_ws s = []"
  by (simp add: lead_ws_def)

lemma trim_start_replace: "ws_len t = 0 \<Longrightarrow> trim_start (lead_ws s @ t) = t"
proof (induction s rule: trim_start.induct)
  case (1 s)
  show ?case
  proof (cases "ws_len s")
    case 0
    with 1 show ?thesis by (simp add: lead_ws_none)
  next
    case (Suc k)
    have w: "ws_len (lead_ws s @ t) = Suc k"
      using ws_len_take [OF Suc, of "lead_ws (drop (Suc k) s) @ t"] by (simp add: lead_ws_step [OF Suc])
    have "drop (Suc k) (lead_ws s @ t) = lead_ws (drop (Suc k) s) @ t"
      using ws_len_le [of s] Suc by (simp add: lead_ws_step [OF Suc])
    with w have "trim_start (lead_ws s @ t) = trim_start (lead_ws (drop (Suc k) s) @ t)"
      by (subst trim_start.simps) simp
    with 1 Suc show ?thesis by simp
  qed
qed


subsection \<open>Toggling\<close>

lemma boxes [simp]:
  "ws_len (open_box @ r) = 0" "ws_len (tick_box @ r) = 0" "length open_box = 5" "length tick_box = 5"
  "prefix open_box (tick_box @ r) \<longleftrightarrow> False" "prefix tick_box (open_box @ r) \<longleftrightarrow> False"
  by (simp_all add: open_box_def tick_box_def)


definition box :: "bool \<Rightarrow> string" where "box b = (if b then tick_box else open_box)"

lemma box_simps [simp]: "ws_len (box b @ r) = 0" "length (box b) = 5" "prefix (box (\<not> b)) (box b @ r) \<longleftrightarrow> False"
  "prefix (box b) (box (\<not> b) @ r) \<longleftrightarrow> False"
  by (cases b; simp add: box_def)+


text \<open>A successful toggle replaces the box of one line.\<close>

lemma toggle_textE:
  assumes "toggle_text c n b = Ok (Some c')"
  obtains i ws r where "n = Suc i" "i < length (lines c)" "lines c ! i = lead_ws (lines c ! i) @ box (\<not> b) @ r"
    "c' = join_back c ((lines c)[i := lead_ws (lines c ! i) @ box b @ r])"
proof -
  let ?t = "lines c ! (n - 1)"
  have n: "n \<noteq> 0" "n \<le> length (lines c)" and p: "prefix (box (\<not> b)) (trim_start ?t)"
    and c': "c' = join_back c ((lines c)[n - 1 := lead_ws ?t @ box b @ drop 5 (trim_start ?t)])"
    using assms by (auto simp: toggle_text_def Let_def box_def split: if_splits)
  from p obtain r where r: "trim_start ?t = box (\<not> b) @ r" by (auto simp: prefix_def)
  with lead_ws_trim [of ?t] have "?t = lead_ws ?t @ box (\<not> b) @ r" by simp
  with that [of "n - 1" r] n c' r show thesis by simp
qed


lemma lines_join_back:
  assumes "\<forall>l \<in> set ls. plain_line l" and "ls \<noteq> []" and "ends_with_char NL c \<or> last ls \<noteq> []"
  shows "lines (join_back c ls) = ls"
  using assms by (auto simp: join_back_def lines_join_nl lines_join)

lemma last_join: "ls \<noteq> [] \<Longrightarrow> last ls \<noteq> [] \<Longrightarrow> last (join_with sep ls) = last (last ls) \<and> join_with sep ls \<noteq> []"
  by (induction ls rule: induct_list012) auto

lemma ends_join_back:
  assumes "\<forall>l \<in> set ls. plain_line l" and "ls \<noteq> []" and "ends_with_char NL c \<or> last ls \<noteq> []"
  shows "ends_with_char NL (join_back c ls) = ends_with_char NL c"
proof (cases "ends_with_char NL c")
  case True
  then show ?thesis by (simp add: join_back_def ends_with_char_def)
next
  case False
  with assms have "last ls \<noteq> []" by simp
  moreover from this assms have "last (last ls) \<noteq> NL" by (metis last_in_set plain_line_def)
  ultimately show ?thesis using False last_join [OF assms(2), of "[NL]"] by (simp add: join_back_def ends_with_char_def)
qed


lemma set_join: "set (join_with sep ls) \<subseteq> set sep \<union> (\<Union>l \<in> set ls. set l)"
  by (induction sep ls rule: join_with.induct) auto

definition mark_counts :: "bool option \<Rightarrow> nat \<times> nat" where
  "mark_counts m = (case m of None \<Rightarrow> (0, 0) | Some True \<Rightarrow> (1, 1) | Some False \<Rightarrow> (0, 1))"

definition counts :: "string list \<Rightarrow> nat \<times> nat" where
  "counts ls = (sum_list (map (\<lambda>l. fst (mark_counts (task_mark l))) ls), sum_list (map (\<lambda>l. snd (mark_counts (task_mark l))) ls))"

lemma fold_count_mark: "fold count_mark ls (k, t) = (k + fst (counts ls), t + snd (counts ls))"
  by (induction ls arbitrary: k t) (auto simp: counts_def mark_counts_def split: option.splits bool.splits)

lemma progress_counts: "parse_task_progress c = counts (lines c)"
  by (simp add: parse_task_progress_def fold_count_mark)

lemma counts_append: "counts (xs @ ys) = (fst (counts xs) + fst (counts ys), snd (counts xs) + snd (counts ys))"
  by (simp add: counts_def)


text \<open>No line has a newline, and the last one is not empty unless the text ends with a newline.\<close>

lemma line_no_NL: "l \<in> set (lines s) \<Longrightarrow> NL \<notin> set l"
proof -
  assume "l \<in> set (lines s)"
  then obtain p where p: "p \<in> set (split_inclusive s)" "l = strip_eol p" by (auto simp: lines_def)
  from split_inclusive_pieces [OF p(1)] have q: "NL \<notin> set (butlast p)" "p \<noteq> []" by auto
  then have "p = butlast p @ [last p]" by simp
  show ?thesis
  proof (cases "last p = NL")
    case True
    with q p(2) show ?thesis by (auto simp: strip_eol_def strip_suffix_char_def dest: in_set_butlastD split: if_splits)
  next
    case False
    with \<open>p = butlast p @ [last p]\<close> q have "NL \<notin> set p" by (metis Un_iff empty_iff list.set(1) set_ConsD set_append)
    with p(2) show ?thesis by (simp add: strip_eol_plain)
  qed
qed

lemma last_line_text: "s \<noteq> [] \<Longrightarrow> last s \<noteq> NL \<Longrightarrow> last (lines s) \<noteq> []"
proof -
  assume s: "s \<noteq> []" "last s \<noteq> NL"
  have "split_inclusive s \<noteq> []" using s by simp
  then obtain ps p where ps: "split_inclusive s = ps @ [p]" by (metis rev_exhaust)
  with split_concat [of s] have "s = concat ps @ p" by simp
  moreover have p: "NL \<notin> set (butlast p)" "p \<noteq> []" using split_inclusive_pieces [of p s] ps by auto
  ultimately have "last p \<noteq> NL" using s by simp
  with p have "strip_eol p = p" by (simp add: strip_eol_def strip_suffix_char_def)
  with p ps show ?thesis by (simp add: lines_def)
qed

lemma plain_lines: "\<forall>l \<in> set (lines c). CR \<notin> set l \<Longrightarrow> \<forall>l \<in> set (lines c). plain_line l"
  using line_no_NL by (auto simp: plain_line_def)

lemma lines_no_CR: "CR \<notin> set c \<Longrightarrow> \<forall>l \<in> set (lines c). CR \<notin> set l"
  using lines_plain by (auto simp: plain_line_def)

lemma toggle_linesE:
  assumes "toggle_text c n b = Ok (Some c')" and "\<forall>l \<in> set (lines c). CR \<notin> set l"
  obtains i ws r where "n = Suc i" "i < length (lines c)" "lines c ! i = lead_ws (lines c ! i) @ box (\<not> b) @ r"
    "lines c' = (lines c)[i := lead_ws (lines c ! i) @ box b @ r]" "ends_with_char NL c' = ends_with_char NL c"
    "CR \<notin> set c'"
proof -
  let ?ls = "lines c"
  from toggle_textE [OF assms(1)] obtain i r where n: "n = Suc i" and i: "i < length ?ls"
    and old: "?ls ! i = lead_ws (?ls ! i) @ box (\<not> b) @ r"
    and c': "c' = join_back c (?ls[i := lead_ws (?ls ! i) @ box b @ r])" by metis
  define new where "new = lead_ws (?ls ! i) @ box b @ r"
  have c: "c \<noteq> []" using i by auto
  have plain: "\<forall>l \<in> set ?ls. plain_line l" using plain_lines [OF assms(2)] .
  then have "plain_line (?ls ! i)" using i by simp
  then have "plain_line (lead_ws (?ls ! i) @ box (\<not> b) @ r)" using old by metis
  then have newp: "plain_line new" by (auto simp: new_def plain_line_def box_def open_box_def tick_box_def)
  have new_ne: "new \<noteq> []" by (simp add: new_def box_def open_box_def tick_box_def)
  have pl': "\<forall>l \<in> set (?ls[i := new]). plain_line l" using plain newp set_update_subset_insert by fastforce
  have ne: "?ls[i := new] \<noteq> []" using i by auto
  have last: "ends_with_char NL c \<or> last (?ls[i := new]) \<noteq> []"
  proof (cases "ends_with_char NL c")
    case False
    then have "last ?ls \<noteq> []" using last_line_text [OF c] c by (simp add: ends_with_char_def)
    then show ?thesis using new_ne i by (cases "?ls = []") (auto simp: last_list_update)
  qed simp
  have "CR \<notin> (\<Union>l \<in> set (?ls[i := new]). set l)" using pl' by (auto simp: plain_line_def)
  with set_join [of "[NL]" "?ls[i := new]"] have "CR \<notin> set (join_back c (?ls[i := new]))"
    by (auto simp: join_back_def)
  with that [OF n i old] lines_join_back [OF pl' ne last] ends_join_back [OF pl' ne last] c'
  show thesis by (simp add: new_def)
qed




subsection \<open>The structured view\<close>

definition phase_tasks :: "task_phase list \<Rightarrow> structured_task list" where
  "phase_tasks ps = concat (map ph_tasks ps)"

definition scan_tasks :: "task_scan \<Rightarrow> structured_task list" where
  "scan_tasks s = phase_tasks (close_phase s)"

text \<open>The lines the structured view reads as tasks.\<close>

definition line_box :: "string \<Rightarrow> bool option" where
  "line_box l = (if prefix ''## '' (trim_start l) then None else map_option fst (task_box (trim_start l)))"

lemma scan_tasks_close:
  "scan_tasks s = phase_tasks (sc_phases s) @ (case sc_current s of None \<Rightarrow> [] | Some ph \<Rightarrow> ph_tasks ph)"
  by (auto simp: scan_tasks_def close_phase_def phase_tasks_def split: option.splits)

lemma scan_line_cases:
  obtains (heading) "line_box l = None" "scan_tasks (scan_line (k, l) s) = scan_tasks s"
      "sc_total (scan_line (k, l) s) = sc_total s" "sc_completed (scan_line (k, l) s) = sc_completed s"
  | (task) t where "line_box l = Some (st_checked t)" "st_line t = Suc k"
      "scan_tasks (scan_line (k, l) s) = scan_tasks s @ [t]"
      "sc_total (scan_line (k, l) s) = Suc (sc_total s)"
      "sc_completed (scan_line (k, l) s) = sc_completed s + (if st_checked t then 1 else 0)"
proof (cases "strip_prefix ''## '' (trim_start l)")
  case (Some rest)
  then have "line_box l = None" by (auto simp: line_box_def strip_prefix_def split: if_splits)
  with Some show thesis
    by (intro heading) (auto simp: scan_line_def Let_def scan_tasks_close close_phase_def phase_tasks_def split: option.splits)
next
  case None
  then have h: "\<not> prefix ''## '' (trim_start l)" by (simp add: strip_prefix_None)
  show thesis
  proof (cases "task_box (trim_start l)")
    case None
    with h \<open>strip_prefix ''## '' (trim_start l) = None\<close> show thesis
      by (intro heading) (simp_all add: scan_line_def line_box_def Let_def)
  next
    case (Some x)
    obtain b rest where x: "x = (b, rest)" by (cases x)
    obtain i body where it: "parse_task_id (trim_start rest) = (i, body)" by fastforce
    from Some x it h \<open>strip_prefix ''## '' (trim_start l) = None\<close> show thesis
      by (intro task [of "\<lparr>st_line = Suc k, st_checked = b, st_id = i, st_text = body\<rparr>"])
        (auto simp: scan_line_def line_box_def Let_def scan_tasks_close push_task_def split: option.splits)
  qed
qed

text \<open>What the scan has collected after the first lines: their tasks, in order, with their line numbers.\<close>

definition scanned :: "string list \<Rightarrow> nat \<Rightarrow> (nat \<times> bool) list" where
  "scanned ls k = map (\<lambda>(i, l). (Suc i, the (line_box l))) (filter (\<lambda>(i, l). line_box l \<noteq> None) (enumerate k ls))"

lemma fold_scan_line:
  "map (\<lambda>t. (st_line t, st_checked t)) (scan_tasks (fold scan_line (enumerate k ls) s)) =
     map (\<lambda>t. (st_line t, st_checked t)) (scan_tasks s) @ scanned ls k \<and>
   sc_total (fold scan_line (enumerate k ls) s) = sc_total s + length (scanned ls k) \<and>
   sc_completed (fold scan_line (enumerate k ls) s) = sc_completed s + length (filter snd (scanned ls k))"
proof (induction ls arbitrary: k s)
  case (Cons l ls)
  show ?case
    by (cases rule: scan_line_cases [of l k s]) (simp_all add: Cons.IH [of "Suc k" "scan_line (k, l) s"] scanned_def)
qed (simp add: scanned_def)

lemma line_box_mark: "line_box l = Some b \<Longrightarrow> task_mark l = Some b"
  by (auto simp: line_box_def task_box_def strip_prefix_Some task_mark_def Let_def split: option.splits if_splits)

lemma scanned_le_counts:
  "length (scanned ls k) \<le> snd (counts ls) \<and> length (filter snd (scanned ls k)) \<le> fst (counts ls) \<and> snd (counts ls) \<le> length ls"
proof (induction ls arbitrary: k)
  case (Cons l ls)
  from Cons [of "Suc k"] show ?case
    by (cases "line_box l") (auto simp: scanned_def counts_def mark_counts_def line_box_mark split: option.splits bool.splits)
qed (simp add: scanned_def counts_def)

lemma scanned_Cons:
  "scanned (l # ls) k = (case line_box l of None \<Rightarrow> [] | Some b \<Rightarrow> [(Suc k, b)]) @ scanned ls (Suc k)"
  by (auto simp: scanned_def split: option.splits)

lemma scanned_line:
  "(i, b) \<in> set (scanned ls k) \<Longrightarrow> k < i \<and> i \<le> k + length ls \<and> line_box (ls ! (i - Suc k)) = Some b"
proof (induction ls arbitrary: k)
  case (Cons l ls)
  then consider "line_box l = Some b" "i = Suc k" | "(i, b) \<in> set (scanned ls (Suc k))"
    by (auto simp: scanned_Cons split: option.splits)
  then show ?case
  proof cases
    case 2
    with Cons.IH have "Suc k < i \<and> i \<le> Suc k + length ls \<and> line_box (ls ! (i - Suc (Suc k))) = Some b" by blast
    then show ?thesis by (auto simp: nth_Cons' Suc_diff_Suc)
  qed simp
qed (simp add: scanned_def)

lemma scanned_sorted: "sorted_wrt (<) (map fst (scanned ls k))"
proof (induction ls arbitrary: k)
  case (Cons l ls)
  have "k < i" if "(i, b) \<in> set (scanned ls (Suc k))" for i b using scanned_line [OF that] by simp
  with Cons.IH [of "Suc k"] scanned_line [of _ _ ls "Suc k"] show ?case
    by (fastforce simp: scanned_Cons split: option.splits)
qed (simp add: scanned_def)

lemma structured_scan:
  "map (\<lambda>t. (st_line t, st_checked t)) (phase_tasks (ts_phases (parse_tasks_structured c))) = scanned (lines c) 0"
  "ts_total (parse_tasks_structured c) = length (scanned (lines c) 0)"
  "ts_completed (parse_tasks_structured c) = length (filter snd (scanned (lines c) 0))"
  using fold_scan_line [of 0 "lines c" empty_scan]
  by (simp_all add: parse_tasks_structured_def Let_def scan_tasks_def [symmetric])
    (simp_all add: empty_scan_def scan_tasks_close phase_tasks_def)

lemma structured_line:
  "t \<in> set (phase_tasks (ts_phases (parse_tasks_structured c))) \<Longrightarrow>
     0 < st_line t \<and> st_line t \<le> length (lines c) \<and> line_box (lines c ! (st_line t - 1)) = Some (st_checked t)"
proof -
  assume "t \<in> set (phase_tasks (ts_phases (parse_tasks_structured c)))"
  then have "(st_line t, st_checked t) \<in> set (scanned (lines c) 0)" unfolding structured_scan(1) [symmetric] by auto
  from scanned_line [OF this] show ?thesis by simp
qed

text \<open>
  The structured view lists its tasks by rising line number, its totals count them, each carries
  the box of its line, and its totals never exceed the progress counts, which never exceed the lines.
\<close>

theorem structured_view_consistent:
  fixes c :: string
  defines "v \<equiv> parse_tasks_structured c"
  shows "ts_total v = length (phase_tasks (ts_phases v)) \<and>
    ts_completed v = length (filter st_checked (phase_tasks (ts_phases v))) \<and>
    sorted_wrt (<) (map st_line (phase_tasks (ts_phases v))) \<and>
    list_all (\<lambda>t. 0 < st_line t \<and> st_line t \<le> length (lines c) \<and>
      line_box (lines c ! (st_line t - 1)) = Some (st_checked t)) (phase_tasks (ts_phases v)) \<and>
    ts_total v \<le> snd (parse_task_progress c) \<and> ts_completed v \<le> fst (parse_task_progress c) \<and>
    snd (parse_task_progress c) \<le> length (lines c)"
proof -
  let ?ts = "phase_tasks (ts_phases v)"
  have sc: "map (\<lambda>t. (st_line t, st_checked t)) ?ts = scanned (lines c) 0" by (simp add: v_def structured_scan)
  have "length (filter st_checked ?ts) = length (filter snd (map (\<lambda>t. (st_line t, st_checked t)) ?ts))"
    by (simp add: filter_map comp_def)
  moreover have "length ?ts = length (scanned (lines c) 0)" unfolding sc [symmetric] by simp
  moreover have "map st_line ?ts = map fst (scanned (lines c) 0)" unfolding sc [symmetric] by (simp add: comp_def)
  ultimately show ?thesis
    using structured_line [of _ c] scanned_sorted [of "lines c" 0] scanned_le_counts [of "lines c" 0] sc
    by (simp add: v_def structured_scan progress_counts list_all_iff)
qed

subsection \<open>Tasks written with a star\<close>

text \<open>Toggling as the buttons of the view do it: a refused toggle leaves the file alone.\<close>

definition press :: "nat \<times> bool \<Rightarrow> string \<Rightarrow> string" where
  "press nb c = (case toggle_text c (fst nb) (snd nb) of Inr (Some c') \<Rightarrow> c' | _ \<Rightarrow> c)"

definition star_task :: "nat \<Rightarrow> string \<Rightarrow> bool" where
  "star_task i c \<longleftrightarrow> CR \<notin> set c \<and> i < length (lines c) \<and> prefix ''* [ '' (trim_start (lines c ! i))"

lemma star_not_box: "prefix ''* [ '' (trim_start l) \<Longrightarrow> l \<noteq> lead_ws l @ box b @ r"
proof
  assume p: "prefix ''* [ '' (trim_start l)" and l: "l = lead_ws l @ box b @ r"
  have "trim_start l = box b @ r" by (subst l) (simp add: trim_start_replace)
  with p show False by (cases b) (auto simp: box_def open_box_def tick_box_def)
qed

lemma press_star: "star_task i c \<Longrightarrow> star_task i (press nb c)"
proof (cases "\<exists>c'. toggle_text c (fst nb) (snd nb) = Ok (Some c')")
  case False
  moreover assume "star_task i c"
  ultimately show ?thesis by (auto simp: press_def split: sum.splits option.splits)
next
  case True
  then obtain c' where t: "toggle_text c (fst nb) (snd nb) = Ok (Some c')" by blast
  assume s: "star_task i c"
  then have "\<forall>l \<in> set (lines c). CR \<notin> set l" by (auto simp: star_task_def dest: lines_no_CR)
  from toggle_linesE [OF t this] obtain j r where j: "lines c ! j = lead_ws (lines c ! j) @ box (\<not> snd nb) @ r"
    and ls: "lines c' = (lines c)[j := lead_ws (lines c ! j) @ box (snd nb) @ r]" "CR \<notin> set c'" by metis
  have "i \<noteq> j" using s star_not_box j by (auto simp: star_task_def)
  with ls s have "star_task i c'" by (simp add: star_task_def)
  with t show ?thesis by (simp add: press_def)
qed

lemma star_incomplete: "star_task i c \<Longrightarrow> fst (parse_task_progress c) < snd (parse_task_progress c)"
proof -
  assume s: "star_task i c"
  have "task_mark (lines c ! i) = Some False" using s
    by (auto simp: star_task_def task_mark_def Let_def prefix_def)
  moreover have "fst (counts ls) < snd (counts ls)" if "task_mark (ls ! j) = Some False" "j < length ls" for ls j
  proof -
    have le: "fst (counts xs) \<le> snd (counts xs)" for xs
      by (induction xs) (auto simp: counts_def mark_counts_def split: option.splits bool.splits)
    have "ls = take j ls @ ls ! j # drop (Suc j) ls" using that(2) by (rule id_take_nth_drop)
    then have "counts ls = counts (take j ls @ [ls ! j] @ drop (Suc j) ls)" by simp
    with le [of "take j ls"] le [of "drop (Suc j) ls"] that(1) show ?thesis
      by (simp add: counts_append) (simp add: counts_def mark_counts_def)
  qed
  ultimately show ?thesis using s by (simp add: progress_counts star_task_def)
qed

text \<open>
  An open task written with a star counts for the progress, but the structured view does not list
  it and no press of its buttons ticks it: however the listed boxes are pressed, the checklist stays
  incomplete.
\<close>

theorem star_task_blocks_completion:
  assumes "star_task i c"
  shows "(let c' = fold press presses c
    in fst (parse_task_progress c') < snd (parse_task_progress c') \<and>
       list_all (\<lambda>t. st_line t \<noteq> Suc i) (phase_tasks (ts_phases (parse_tasks_structured c'))))"
proof -
  have s: "star_task i (fold press presses c)" using assms by (induction presses arbitrary: c) (auto intro: press_star)
  then have "line_box (lines (fold press presses c) ! i) = None"
    using line_box_mark by (auto simp: star_task_def line_box_def task_box_def strip_prefix_Some prefix_def split: option.splits if_splits)
  with star_incomplete [OF s] structured_line [of _ "fold press presses c"] show ?thesis
    by (fastforce simp: Let_def list_all_iff)
qed

theorem star_task_blocks_completion_witness:
  "fst (parse_task_progress (press (1, True) (''* [ ] a'' @ [NL]))) < snd (parse_task_progress (press (1, True) (''* [ ] a'' @ [NL])))"
proof -
  have "star_task 0 (''* [ ] a'' @ [NL])" by code_simp
  from star_task_blocks_completion [OF this, of "[(1, True)]"] show ?thesis by (simp add: Let_def)
qed

end
