(* ===== verification/NameProps.thy ===== *)
theory NameProps
  imports SpecProps
begin

text \<open>
  The names of change directories: the name derived from any title passes the check for change names,
  and the search for a free one ends.
\<close>

text \<open>What the letters of Unicode never are: a separator, a dot or a NUL.\<close>

definition separators :: "char set" where
  "separators = {CHR ''/'', CHR 0x5C, CHR ''.'', CHR 0x00}"

definition letters_ok :: "unicode \<Rightarrow> bool" where
  "letters_ok u \<longleftrightarrow> (\<forall>c. u_alnum u c \<longrightarrow> set c \<inter> separators = {})"

lemma validate_change_name_Ok:
  "validate_change_name name = Ok () \<longleftrightarrow> name \<noteq> [] \<and> CHR ''/'' \<notin> set name \<and> CHR 0x5C \<notin> set name \<and>
     \<not> sublist ''..'' name \<and> CHR 0x00 \<notin> set name"
  by (auto simp: validate_change_name_def has_infix_sublist)

definition plain_name :: "string \<Rightarrow> bool" where
  "plain_name n \<longleftrightarrow> n \<noteq> [] \<and> set n \<inter> separators = {}"

lemma plain_name_valid: "plain_name n \<Longrightarrow> validate_change_name n = Ok ()"
proof -
  assume n: "plain_name n"
  then have "\<not> sublist ''..'' n" by (auto simp: plain_name_def separators_def dest: set_mono_sublist)
  with n show ?thesis by (auto simp: validate_change_name_Ok plain_name_def separators_def)
qed

lemma kebab_char_plain:
  assumes "letters_ok u" and "x \<in> set (kebab_char u c)" and "x \<noteq> CHR 0x00"
  shows "x \<notin> separators"
proof (cases "u_alnum u c")
  case True
  with assms show ?thesis by (auto simp: kebab_char_def letters_ok_def)
next
  case False
  with assms(2,3) have "x = CHR ''-''" by (simp add: kebab_char_def split: if_splits)
  then show ?thesis by (simp add: separators_def)
qed

lemma derive_plain:
  assumes "letters_ok u"
  shows "plain_name (derive_change_name u title)"
proof -
  define kebab where "kebab = filter (\<lambda>b. b \<noteq> CHR 0x00) (concat (map (kebab_char u) (chars (u_lower u (trim title)))))"
  define parts where "parts = filter (\<lambda>p. p \<noteq> []) (split_char (CHR ''-'') kebab)"
  have kebab: "x \<notin> separators" if "x \<in> set kebab" for x
    using that kebab_char_plain [OF assms] by (auto simp: kebab_def)
  have parts: "set p \<subseteq> set kebab" if "p \<in> set parts" for p
    using that split_char_parts by (auto simp: parts_def)
  have "CHR ''-'' \<notin> separators" by (simp add: separators_def)
  then have "set (join_with ''-'' parts) \<inter> separators = {}"
    using set_join [of "''-''" parts] kebab parts by fastforce
  moreover have "plain_name untitled" by (simp add: plain_name_def untitled_def separators_def)
  ultimately show ?thesis
    by (simp add: derive_change_name_def Let_def plain_name_def flip: kebab_def parts_def)
qed

lemma show_nat_digits: "set (show_nat n) \<subseteq> set ''0123456789'' \<and> show_nat n \<noteq> []"
proof (induction n rule: show_nat.induct)
  case (1 n)
  have "list_all (\<lambda>k. char_of (48 + k) \<in> set ''0123456789'') [0 :: nat, 1, 2, 3, 4, 5, 6, 7, 8, 9]" by code_simp
  then have "char_of (48 + k) \<in> set ''0123456789''" if "k \<in> set [0, 1, 2, 3, 4, 5, 6, 7, 8, 9]" for k :: nat
    using that by (simp only: list_all_iff)
  moreover have "k \<in> set [0, 1, 2, 3, 4, 5, 6, 7, 8, 9]" if "k < 10" for k :: nat using that by (simp add: numeral_eq_Suc less_Suc_eq)
  ultimately have digit: "char_of (48 + k) \<in> set ''0123456789''" if "k < 10" for k :: nat using that by blast
  show ?case
  proof (cases "n < 10")
    case True
    with digit [of n] show ?thesis by (simp add: show_nat.simps [of n])
  next
    case False
    with 1 digit [of "n mod 10"] show ?thesis by (simp add: show_nat.simps [of n])
  qed
qed

lemma plain_name_numbered: "plain_name n \<Longrightarrow> plain_name (n @ ''-'' @ show_nat k)"
proof -
  assume n: "plain_name n"
  have "set ''0123456789'' \<inter> separators = {}" "CHR ''-'' \<notin> separators" by (simp_all add: separators_def)
  then have "set (show_nat k) \<inter> separators = {}" "CHR ''-'' \<notin> separators"
    using show_nat_digits [of k] by blast+
  with n show ?thesis by (auto simp: plain_name_def)
qed

lemma unique_from_steps:
  assumes "\<And>j. j < m \<Longrightarrow> taken (base @ ''-'' @ show_nat (unat (k + of_nat j)))"
    and "\<not> taken (base @ ''-'' @ show_nat (unat (k + of_nat m)))"
  shows "unique_from taken base (base @ ''-'' @ show_nat (unat k)) (k + 1) =
    Some (base @ ''-'' @ show_nat (unat (k + of_nat m)))"
  using assms
proof (induction m arbitrary: k)
  case 0
  then show ?case by (subst unique_from.simps) simp
next
  case (Suc m)
  have "taken (base @ ''-'' @ show_nat (unat k))" using Suc.prems(1) [of 0] by simp
  then have "unique_from taken base (base @ ''-'' @ show_nat (unat k)) (k + 1) =
      unique_from taken base (base @ ''-'' @ show_nat (unat (k + 1))) (k + 1 + 1)"
    by (subst unique_from.simps) simp
  also have "\<dots> = Some (base @ ''-'' @ show_nat (unat (k + 1 + of_nat m)))"
    by (rule Suc.IH) (use Suc.prems(1) [of "Suc _"] Suc.prems(2) in \<open>simp_all add: algebra_simps\<close>)
  finally show ?case by (simp add: algebra_simps)
qed

lemma unique_from_fresh:
  assumes "finite {n. taken n}" and "card {n. taken n} < 2 ^ 32"
  shows "\<exists>c. unique_from taken base base 2 = Some c \<and> \<not> taken c \<and> (c = base \<or> (\<exists>k. c = base @ ''-'' @ show_nat k))"
proof (cases "taken base")
  case False
  then show ?thesis by (subst unique_from.simps) simp
next
  case True
  let ?f = "\<lambda>j. base @ ''-'' @ show_nat (unat (2 + of_nat j :: u32))"
  have inj: "inj_on ?f {..< 2 ^ 32}"
  proof (rule inj_onI)
    fix i j :: nat
    assume ij: "i \<in> {..< 2 ^ 32}" "j \<in> {..< 2 ^ 32}" and "?f i = ?f j"
    then have "unat (2 + of_nat i :: u32) = unat (2 + of_nat j :: u32)" by (simp add: show_nat_inj)
    then have "(2 + of_nat i :: u32) = 2 + of_nat j" by (simp only: word_unat_eq_iff)
    then have "(of_nat i :: u32) = of_nat j" by (simp only: add_left_cancel)
    then have "unat (of_nat i :: u32) = unat (of_nat j :: u32)" by simp
    with ij show "i = j" by (simp add: unat_of_nat)
  qed
  have "\<exists>j. \<not> taken (?f j)"
  proof (rule ccontr)
    assume "\<nexists>j. \<not> taken (?f j)"
    then have "?f ` {..< 2 ^ 32} \<subseteq> {n. taken n}" by auto
    then have "card (?f ` {..< 2 ^ 32}) \<le> card {n. taken n}" by (intro card_mono assms(1))
    with card_image [OF inj] assms(2) show False by simp
  qed
  then obtain m where m: "\<not> taken (?f m)" "\<And>j. j < m \<Longrightarrow> taken (?f j)"
    using exists_least_iff [of "\<lambda>j. \<not> taken (?f j)"] by auto
  have "unique_from taken base base 2 = unique_from taken base (base @ ''-'' @ show_nat (unat (2 :: u32))) (2 + 1)"
    using True by (subst unique_from.simps) simp
  also have "\<dots> = Some (?f m)" using m by (intro unique_from_steps) simp_all
  finally show ?thesis using m(1) by blast
qed

text \<open>
  C35: the search for a free change name ends for every title while fewer than \<open>2 ^ 32\<close> names are taken;
  the name is free, it is the name derived from the title or that name with a number, and it passes the
  check for change names, whatever the case tables of Unicode are.
\<close>

theorem change_name_fresh_and_valid:
  assumes "letters_ok u" and "finite {n. taken n}" and "card {n. taken n} < 2 ^ 32" and "\<not> dir_exists \<longrightarrow> {n. taken n} = {}"
  shows "\<exists>c. resolve_unique_change_name u dir_exists taken title = Some c \<and> \<not> taken c \<and>
    validate_change_name c = Ok () \<and>
    (c = derive_change_name u title \<or> (\<exists>k. c = derive_change_name u title @ ''-'' @ show_nat k))"
proof -
  let ?base = "derive_change_name u title"
  have plain: "plain_name ?base" "\<And>k. plain_name (?base @ ''-'' @ show_nat k)"
    using derive_plain [OF assms(1), of title] plain_name_numbered by (blast, blast)
  show ?thesis
  proof (cases dir_exists)
    case False
    with assms(4) plain show ?thesis by (auto simp: resolve_unique_change_name_def plain_name_valid)
  next
    case True
    with unique_from_fresh [OF assms(2,3), of ?base] plain show ?thesis
      by (auto simp: resolve_unique_change_name_def plain_name_valid Let_def)
  qed
qed

definition ascii :: unicode where
  "ascii = \<lparr>u_lower = (\<lambda>s. s), u_upper = (\<lambda>s. s), u_alnum = (\<lambda>c. length c = 1 \<and> is_ascii_hexdigit (hd c))\<rparr>"

theorem change_name_fresh_and_valid_witness:
  "\<exists>c. resolve_unique_change_name ascii True (\<lambda>n. n = ''add'') ''add'' = Some c \<and> c \<noteq> ''add'' \<and> validate_change_name c = Ok ()"
proof -
  have "u_alnum ascii c \<Longrightarrow> set c \<inter> separators = {}" for c
    by (cases c) (auto simp: separators_def ascii_def is_ascii_hexdigit_def Let_def)
  then have "letters_ok ascii" by (simp add: letters_ok_def)
  from change_name_fresh_and_valid [OF this, of "\<lambda>n. n = ''add''" True "''add''"] show ?thesis by auto
qed

end
