(* ===== verification/MergeProps.thy ===== *)
theory MergeProps
  imports NameProps
begin

text \<open>
  Merging a delta spec: the list of blocks with its position table refines a finite map from
  requirement names to their text, and what the merge does not keep.
\<close>

subsection \<open>The abstract spec: a finite map\<close>

type_synonym spec = "string \<rightharpoonup> string"

fun spec_delta :: "delta \<Rightarrow> spec \<Rightarrow> spec option" where
  "spec_delta (Added, n, b) M = (case M n of None \<Rightarrow> Some (M(n \<mapsto> b)) | Some b' \<Rightarrow> if b' = b then Some M else None)"
| "spec_delta (Modified, n, b) M = (if M n = None then None else Some (M(n \<mapsto> b)))"
| "spec_delta (Removed, n, b) M = (if M n = None then None else Some (M(n := None)))"

fun spec_rename :: "string \<times> string \<Rightarrow> spec \<Rightarrow> spec option" where
  "spec_rename (s, t) M =
     (case M s of
        None \<Rightarrow> None
      | Some b \<Rightarrow> if M t \<noteq> None then None else Some ((M(s := None))(t \<mapsto> renamed_block t b)))"

fun spec_all :: "('a \<Rightarrow> spec \<Rightarrow> spec option) \<Rightarrow> 'a list \<Rightarrow> spec \<Rightarrow> spec option" where
  "spec_all f [] M = Some M"
| "spec_all f (x # xs) M = (case f x M of None \<Rightarrow> None | Some M' \<Rightarrow> spec_all f xs M')"

subsection \<open>The position table\<close>

definition pos_ok :: "blocks \<Rightarrow> positions \<Rightarrow> bool" where
  "pos_ok bs pos \<longleftrightarrow> distinct (map fst bs) \<and> (\<forall>n i. pos n = Some i \<longleftrightarrow> i < length bs \<and> fst (bs ! i) = n)"

lemma pos_ok_None: "pos_ok bs pos \<Longrightarrow> pos n = None \<longleftrightarrow> n \<notin> fst ` set bs"
proof -
  assume ok: "pos_ok bs pos"
  have "n \<in> fst ` set bs \<longleftrightarrow> (\<exists>i < length bs. fst (bs ! i) = n)" using in_set_conv_nth [of n "map fst bs"] by auto
  also have "\<dots> \<longleftrightarrow> (\<exists>i. pos n = Some i)" using ok by (auto simp: pos_ok_def)
  finally show ?thesis by auto
qed

lemma pos_ok_Some:
  assumes "pos_ok bs pos" and "pos n = Some i"
  obtains xs b ys where "bs = xs @ (n, b) # ys" "i = length xs" "n \<notin> fst ` set xs" "n \<notin> fst ` set ys"
proof -
  from assms have i: "i < length bs" "fst (bs ! i) = n" "distinct (map fst bs)" by (auto simp: pos_ok_def)
  then have bs: "bs = take i bs @ (n, snd (bs ! i)) # drop (Suc i) bs"
    using id_take_nth_drop [of i bs] by (metis prod.collapse)
  with i(3) have "distinct (map fst (take i bs @ (n, snd (bs ! i)) # drop (Suc i) bs))" by simp
  with that [OF bs] i(1) show thesis by auto
qed

lemma pos_ok_append:
  assumes "pos_ok bs pos" and "n \<notin> fst ` set bs"
  shows "pos_ok (bs @ [(n, b)]) (pos(n \<mapsto> length bs))"
proof -
  have "\<not> (i < length bs \<and> fst (bs ! i) = n)" for i using assms(2) by (metis image_eqI nth_mem)
  with assms show ?thesis by (auto simp: pos_ok_def nth_append less_Suc_eq)
qed

lemma positions_of_snoc: "positions_of (bs @ [x]) = (positions_of bs)(fst x \<mapsto> length bs)"
  by (simp add: positions_of_def enumerate_append_eq)

lemma pos_ok_positions: "distinct (map fst bs) \<Longrightarrow> pos_ok bs (positions_of bs)"
proof (induction bs rule: rev_induct)
  case Nil
  then show ?case by (simp add: pos_ok_def positions_of_def)
next
  case (snoc x bs)
  then have "pos_ok (bs @ [(fst x, snd x)]) ((positions_of bs)(fst x \<mapsto> length bs))" by (intro pos_ok_append) auto
  then show ?case by (simp only: positions_of_snoc prod.collapse)
qed

lemma pos_ok_same:
  "pos_ok (xs @ (n, b) # ys) pos \<Longrightarrow> pos_ok (xs @ (n, b') # ys) pos"
  by (auto simp: pos_ok_def nth_append nth_Cons' split: if_splits)

lemma pos_ok_rename:
  assumes ok: "pos_ok (xs @ (s, b) # ys) pos" and t: "pos t = None"
  shows "pos_ok (xs @ (t, b') # ys) ((pos(s := None))(t \<mapsto> length xs))"
proof -
  let ?old = "xs @ (s, b) # ys" and ?new = "xs @ (t, b') # ys"
  have out: "t \<notin> fst ` set ?old" using pos_ok_None [OF ok] t by blast
  have d: "distinct (map fst ?old)" using ok by (simp add: pos_ok_def)
  have nth: "?new ! i = (if i = length xs then (t, b') else ?old ! i)" for i by (auto simp: nth_append nth_Cons')
  have at: "i = length xs" if "i < length ?old" "fst (?old ! i) = s" for i
  proof -
    have "map fst ?old ! i = fst (?old ! i)" using that by (intro nth_map) simp
    then have "map fst ?old ! i = map fst ?old ! length xs" using that(2) by (simp add: nth_append)
    moreover have "length xs < length (map fst ?old)" "i < length (map fst ?old)" using that by simp_all
    ultimately show ?thesis using d nth_eq_iff_index_eq by blast
  qed
  have tn: "fst (?old ! i) \<noteq> t" if "i < length ?old" for i using out that by (metis image_eqI nth_mem)
  show ?thesis
    unfolding pos_ok_def
  proof (intro conjI allI)
    show "distinct (map fst ?new)" using d out by auto
    show "((pos(s := None))(t \<mapsto> length xs)) n = Some i \<longleftrightarrow> i < length ?new \<and> fst (?new ! i) = n" for n i
      using ok at [of i] tn [of i] unfolding pos_ok_def nth by auto
  qed
qed

subsection \<open>Refinement\<close>

definition refines :: "(blocks \<times> positions) result \<Rightarrow> spec option \<Rightarrow> bool" where
  "refines r M \<longleftrightarrow>
     (case r of Inl _ \<Rightarrow> M = None | Inr (bs, pos) \<Rightarrow> pos_ok bs pos \<and> M = Some (map_of bs))"

lemma refines_simps [simp]:
  "refines (Inl e) M \<longleftrightarrow> M = None"
  "refines (Inr (bs, pos)) M \<longleftrightarrow> pos_ok bs pos \<and> M = Some (map_of bs)"
  by (simp_all add: refines_def)

lemma map_of_None_iff: "map_of bs n = None \<longleftrightarrow> n \<notin> fst ` set bs"
  by (rule map_of_eq_None_iff)

lemma map_of_split:
  assumes "n \<notin> fst ` set xs" and "n \<notin> fst ` set ys"
  shows "map_of (xs @ (n, b) # ys) n = Some b"
    and "map_of (xs @ (n, b') # ys) = (map_of (xs @ (n, b) # ys))(n \<mapsto> b')"
    and "map_of (xs @ ys) = (map_of (xs @ (n, b) # ys))(n := None)"
  using assms [folded map_of_None_iff] by (auto simp: map_add_def fun_eq_iff split: option.splits)

lemma map_of_split_rename:
  assumes "s \<notin> fst ` set xs" "s \<notin> fst ` set ys" "t \<notin> fst ` set xs" "t \<notin> fst ` set ys" "t \<noteq> s"
  shows "map_of (xs @ (t, b') # ys) = ((map_of (xs @ (s, b) # ys))(s := None))(t \<mapsto> b')"
  using assms(5) assms(1-4) [folded map_of_None_iff] by (auto simp: map_add_def fun_eq_iff split: option.splits)

lemma delta_refines:
  assumes "pos_ok bs pos"
  shows "refines (apply_delta (op, n, b) (bs, pos)) (spec_delta (op, n, b) (map_of bs))"
proof (cases "pos n")
  case None
  then have "n \<notin> fst ` set bs" using pos_ok_None [OF assms] by blast
  moreover from this have "map_of bs n = None" by (simp add: map_of_None_iff)
  moreover from this have "map_of (bs @ [(n, b)]) = (map_of bs)(n \<mapsto> b)"
    by (auto simp: map_add_def fun_eq_iff split: option.splits)
  ultimately show ?thesis using None pos_ok_append [OF assms, of n b] by (cases op) (simp_all add: apply_delta_def)
next
  case (Some i)
  from pos_ok_Some [OF assms Some] obtain xs b0 ys where bs: "bs = xs @ (n, b0) # ys" and i: "i = length xs"
    and out: "n \<notin> fst ` set xs" "n \<notin> fst ` set ys" by metis
  have "distinct (map fst (xs @ ys))" using assms by (auto simp: pos_ok_def bs)
  then have "pos_ok (xs @ ys) (positions_of (xs @ ys))" by (rule pos_ok_positions)
  then show ?thesis
    using Some assms map_of_split(1) [OF out, of b0] map_of_split(3) [OF out, of b0]
      map_of_split(2) [OF out, of b b0, symmetric] pos_ok_same [of xs n b0 ys pos b]
    by (cases op) (simp_all add: apply_delta_def bs i Let_def del: map_of_append)
qed

lemma rename_refines:
  assumes "pos_ok bs pos"
  shows "refines (apply_rename (s, t) (bs, pos)) (spec_rename (s, t) (map_of bs))"
proof (cases "pos s")
  case None
  then have "map_of bs s = None" using pos_ok_None [OF assms] by (simp add: map_of_None_iff)
  with None show ?thesis by (simp add: apply_rename_def)
next
  case (Some i)
  from pos_ok_Some [OF assms Some] obtain xs b ys where bs: "bs = xs @ (s, b) # ys" and i: "i = length xs"
    and out: "s \<notin> fst ` set xs" "s \<notin> fst ` set ys" by metis
  have tt: "pos t = None \<longleftrightarrow> map_of bs t = None" using pos_ok_None [OF assms] by (simp add: map_of_None_iff)
  show ?thesis
  proof (cases "pos t")
    case None
    then have "t \<notin> fst ` set bs" using pos_ok_None [OF assms] by blast
    then have t: "t \<notin> fst ` set xs" "t \<notin> fst ` set ys" "t \<noteq> s" by (auto simp: bs)
    from map_of_split_rename [OF out t, of "renamed_block t b" b] map_of_split(1) [OF out, of b]
      pos_ok_rename [of xs s b ys pos t] assms None Some tt
    show ?thesis by (simp add: apply_rename_def bs i)
  next
    case (Some j)
    with \<open>pos s = Some i\<close> tt map_of_split(1) [OF out, of b] show ?thesis by (auto simp: apply_rename_def bs)
  qed
qed

lemma apply_all_refines:
  assumes "\<And>x bs pos. pos_ok bs pos \<Longrightarrow> refines (f x (bs, pos)) (g x (map_of bs))" and "pos_ok bs pos"
  shows "refines (apply_all f xs (bs, pos)) (spec_all g xs (map_of bs))"
  using assms(2)
proof (induction xs arbitrary: bs pos)
  case (Cons x xs)
  show ?case
  proof (cases "f x (bs, pos)")
    case (Inl e)
    with assms(1) [OF Cons.prems, of x] show ?thesis by simp
  next
    case (Inr st)
    obtain b1 p1 where st: "st = (b1, p1)" by (cases st)
    with Inr assms(1) [OF Cons.prems, of x] have "pos_ok b1 p1" "g x (map_of bs) = Some (map_of b1)" by simp_all
    with Inr st Cons.IH [of b1 p1] show ?thesis by simp
  qed
qed simp

lemma spec_delta_other: "spec_delta (op, n, b) M = Some M' \<Longrightarrow> m \<noteq> n \<Longrightarrow> M' m = M m"
  by (cases op) (auto split: option.splits if_splits)

lemma spec_rename_other: "spec_rename (s, t) M = Some M' \<Longrightarrow> m \<noteq> s \<Longrightarrow> m \<noteq> t \<Longrightarrow> M' m = M m"
  by (auto split: option.splits if_splits)

lemma spec_all_other:
  assumes "\<And>x M M'. x \<in> set xs \<Longrightarrow> f x M = Some M' \<Longrightarrow> M' m = M m" and "spec_all f xs M = Some M'"
  shows "M' m = M m"
  using assms
proof (induction xs arbitrary: M)
  case (Cons x xs)
  then obtain M1 where "f x M = Some M1" "spec_all f xs M1 = Some M'" by (auto split: option.splits)
  then have "M' m = M1 m" by (intro Cons.IH) (auto intro: Cons.prems(1))
  moreover have "M1 m = M m" by (rule Cons.prems(1) [OF _ \<open>f x M = Some M1\<close>]) simp
  ultimately show ?case by simp
qed simp

definition spec_merge :: "string \<Rightarrow> spec \<Rightarrow> spec option" where
  "spec_merge delta_text M =
     (case (parse_delta_requirements delta_text, parse_delta_renames delta_text) of
        (Inr ds, Inr rs) \<Rightarrow> (case spec_all spec_delta ds M of None \<Rightarrow> None | Some M1 \<Rightarrow> spec_all spec_rename rs M1)
      | _ \<Rightarrow> None)"

definition touched :: "string \<Rightarrow> string set" where
  "touched delta_text =
     (case parse_delta_requirements delta_text of Inl _ \<Rightarrow> {} | Inr ds \<Rightarrow> (\<lambda>(_, n, _). n) ` set ds) \<union>
     (case parse_delta_renames delta_text of Inl _ \<Rightarrow> {} | Inr rs \<Rightarrow> fst ` set rs \<union> snd ` set rs)"

lemma spec_merge_other:
  assumes "spec_merge delta_text M = Some M'" and "n \<notin> touched delta_text"
  shows "M' n = M n"
proof -
  from assms(1) obtain ds rs M1 where d: "parse_delta_requirements delta_text = Inr ds" "parse_delta_renames delta_text = Inr rs"
    and m: "spec_all spec_delta ds M = Some M1" "spec_all spec_rename rs M1 = Some M'"
    by (auto simp: spec_merge_def split: sum.splits option.splits)
  have "M1 n = M n"
    by (rule spec_all_other [OF _ m(1)]) (use assms(2) d in \<open>force simp: touched_def intro: spec_delta_other\<close>)
  moreover have "M' n = M1 n"
    by (rule spec_all_other [OF _ m(2)]) (use assms(2) d in \<open>force simp: touched_def intro: spec_rename_other\<close>)
  ultimately show ?thesis by simp
qed

text \<open>
  C3: if the requirements of the canonical spec have distinct names, a merge succeeds exactly when its
  delta parses and every operation and rename applies to the map of requirements; the new spec is then
  the old header and the blocks of the updated map, and a requirement no operation and no rename names
  keeps its text.
\<close>

theorem merge_refines_map:
  assumes "distinct (map fst (parse_requirement_blocks (coalesce canonical [])))"
  shows "(case merge_delta_spec u capability canonical delta_text of
      Inl _ \<Rightarrow> spec_merge delta_text (map_of (parse_requirement_blocks (coalesce canonical []))) = None
    | Inr out \<Rightarrow> \<exists>bs. distinct (map fst bs) \<and>
        out = render_spec (spec_header u capability (coalesce canonical [])) bs \<and>
        spec_merge delta_text (map_of (parse_requirement_blocks (coalesce canonical []))) = Some (map_of bs) \<and>
        (\<forall>n. n \<notin> touched delta_text \<longrightarrow> map_of bs n = map_of (parse_requirement_blocks (coalesce canonical [])) n))"
proof -
  let ?bs = "parse_requirement_blocks (coalesce canonical [])"
  have main: "case merge_delta_spec u capability canonical delta_text of
      Inl _ \<Rightarrow> spec_merge delta_text (map_of ?bs) = None
    | Inr out \<Rightarrow> \<exists>bs. distinct (map fst bs) \<and> out = render_spec (spec_header u capability (coalesce canonical [])) bs \<and>
        spec_merge delta_text (map_of ?bs) = Some (map_of bs)"
  proof (cases "parse_delta_requirements delta_text")
    case (Inr ds)
    have d: "refines (apply_all apply_delta ds (?bs, positions_of ?bs)) (spec_all spec_delta ds (map_of ?bs))"
      by (rule apply_all_refines) (use pos_ok_positions [OF assms] in \<open>auto intro: delta_refines\<close>)
    show ?thesis
    proof (cases "apply_all apply_delta ds (?bs, positions_of ?bs)")
      case (Inr st)
      then obtain bs1 pos1 where st: "apply_all apply_delta ds (?bs, positions_of ?bs) = Inr (bs1, pos1)" by (cases st) auto
      with d have b1: "pos_ok bs1 pos1" "spec_all spec_delta ds (map_of ?bs) = Some (map_of bs1)" by simp_all
      have r: "refines (apply_all apply_rename rs (bs1, pos1)) (spec_all spec_rename rs (map_of bs1))" for rs
        by (rule apply_all_refines [OF _ b1(1)]) (auto intro: rename_refines)
      show ?thesis
      proof (cases "parse_delta_renames delta_text")
        case (Inl e)
        with st b1 \<open>parse_delta_requirements delta_text = Inr ds\<close> show ?thesis
          by (simp add: merge_delta_spec_def spec_merge_def Let_def)
      next
        case (Inr rs)
        with st b1 r [of rs] \<open>parse_delta_requirements delta_text = Inr ds\<close> show ?thesis
          by (cases "apply_all apply_rename rs (bs1, pos1)")
            (auto simp: merge_delta_spec_def spec_merge_def Let_def refines_def pos_ok_def)
      qed
    qed (use d \<open>parse_delta_requirements delta_text = Inr ds\<close> in
        \<open>auto simp: merge_delta_spec_def spec_merge_def split: sum.splits\<close>)
  qed (simp add: merge_delta_spec_def spec_merge_def)
  then show ?thesis using spec_merge_other by (auto split: sum.splits)
qed

definition sample_spec :: string where
  "sample_spec = ''# Login'' @ [NL] @ ''### Requirement: A'' @ [NL] @ ''old'' @ [NL] @ ''### Requirement: B'' @ [NL] @ ''kept'' @ [NL]"

definition sample_delta :: string where
  "sample_delta = ''## MODIFIED Requirements'' @ [NL] @ ''### Requirement: A'' @ [NL] @ ''new'' @ [NL]"

theorem merge_refines_map_witness:
  "\<exists>bs. distinct (map fst bs) \<and> map_of bs ''B'' = Some (''### Requirement: B'' @ [NL] @ ''kept'') \<and>
     spec_merge sample_delta (map_of (parse_requirement_blocks sample_spec)) = Some (map_of bs)"
proof -
  have d: "distinct (map fst (parse_requirement_blocks (coalesce (Some sample_spec) [])))" by code_simp
  have "is_ok (merge_delta_spec ascii ''login'' (Some sample_spec) sample_delta)" by code_simp
  then obtain out where o: "merge_delta_spec ascii ''login'' (Some sample_spec) sample_delta = Inr out"
    by (auto simp: is_ok_iff)
  have b: "map_of (parse_requirement_blocks sample_spec) ''B'' = Some (''### Requirement: B'' @ [NL] @ ''kept'')" by code_simp
  have "parse_delta_renames sample_delta = Inr []" by code_simp
  moreover have "parse_delta_requirements sample_delta = Inr [(Modified, ''A'', ''### Requirement: A'' @ [NL] @ ''new'')]" by code_simp
  ultimately have "''B'' \<notin> touched sample_delta" by (simp add: touched_def)
  with merge_refines_map [OF d, where u = ascii and capability = "''login''" and delta_text = sample_delta] o b show ?thesis by auto
qed

subsection \<open>What a merge does not keep\<close>

lemma split_inclusive_append:
  "s = [] \<or> last s = NL \<Longrightarrow> split_inclusive (s @ t) = split_inclusive s @ split_inclusive t"
proof (induction s)
  case (Cons c s)
  show ?case
  proof (cases "s = []")
    case True
    with Cons.prems show ?thesis by simp
  next
    case False
    with Cons have "split_inclusive (s @ t) = split_inclusive s @ split_inclusive t" by simp
    moreover obtain q qs where "split_inclusive s = q # qs" using False by (cases "split_inclusive s") auto
    ultimately show ?thesis by simp
  qed
qed simp

lemma lines_append: "s = [] \<or> last s = NL \<Longrightarrow> lines (s @ t) = lines s @ lines t"
  by (simp add: lines_def split_inclusive_append)

lemma blocks_none: "\<forall>l \<in> set ls. requirement_name l = None \<Longrightarrow> requirement_blocks ls = []"
  by (induction ls) simp_all

lemma blocks_before_section:
  assumes "\<not> in_block h" and "\<forall>l \<in> set (h # hs). requirement_name l = None"
  shows "requirement_blocks (ls @ h # hs) = requirement_blocks ls"
proof (induction ls rule: length_induct)
  case (1 ls)
  show ?case
  proof (cases ls)
    case Nil
    with blocks_none [OF assms(2)] show ?thesis by simp
  next
    case (Cons l ks)
    have "length (dropWhile in_block ks) \<le> length ks" by (rule length_dropWhile_le)
    then have ih: "requirement_blocks (dropWhile in_block ks @ h # hs) = requirement_blocks (dropWhile in_block ks)"
      and ih': "requirement_blocks (ks @ h # hs) = requirement_blocks ks" using 1 Cons by simp_all
    have "takeWhile in_block (ks @ h # hs) = takeWhile in_block ks \<and>
        requirement_blocks (dropWhile in_block (ks @ h # hs)) = requirement_blocks (dropWhile in_block ks)"
    proof (cases "\<forall>k \<in> set ks. in_block k")
      case True
      then have d: "dropWhile in_block ks = []" "takeWhile in_block ks = ks" by (simp_all add: takeWhile_eq_all_conv)
      have "takeWhile in_block (ks @ h # hs) = ks" "dropWhile in_block (ks @ h # hs) = h # hs"
        using True assms(1) by (simp_all add: dropWhile_append takeWhile_append2)
      then show ?thesis using ih unfolding d by simp
    next
      case False
      with ih show ?thesis by (auto simp: dropWhile_append takeWhile_append)
    qed
    with ih' Cons show ?thesis by (simp split: option.splits)
  qed
qed

text \<open>
  A merge drops what follows the requirements: a second-level section after a canonical spec's
  requirements, with whatever text below it that holds no requirement, makes no difference to any merge,
  so the new spec does not contain it.
\<close>

theorem merge_drops_sections:
  assumes "last s = NL" and "\<exists>l \<in> set (lines s). requirement_name l \<noteq> None"
    and "lines notes = h # hs" and "prefix ''## '' (trim h)" and "\<forall>l \<in> set (lines notes). requirement_name l = None"
  shows "merge_delta_spec u capability (Some (s @ notes)) delta_text = merge_delta_spec u capability (Some s) delta_text"
proof -
  have ls: "lines (s @ notes) = lines s @ h # hs" using lines_append assms(1,3) by metis
  have "\<not> in_block h" using assms(4) by (simp add: in_block_def)
  with assms(3,5) have blocks: "parse_requirement_blocks (s @ notes) = parse_requirement_blocks s"
    by (simp add: parse_requirement_blocks_def ls blocks_before_section)
  have header: "spec_header u capability (s @ notes) = spec_header u capability s"
    using assms(2) by (auto simp: spec_header_def ls takeWhile_append)
  show ?thesis unfolding merge_delta_spec_def coalesce_simps Let_def blocks header by (rule refl)
qed

theorem merge_drops_sections_witness:
  "merge_delta_spec ascii ''login'' (Some (sample_spec @ ''## Notes'' @ [NL] @ ''keep me'' @ [NL])) sample_delta =
     merge_delta_spec ascii ''login'' (Some sample_spec) sample_delta"
proof -
  have l: "last sample_spec = NL" by code_simp
  have r: "\<exists>l \<in> set (lines sample_spec). requirement_name l \<noteq> None" by code_simp
  have n: "lines (''## Notes'' @ [NL] @ ''keep me'' @ [NL]) = [''## Notes'', ''keep me'']" by code_simp
  have h: "prefix ''## '' (trim ''## Notes'')" by code_simp
  have "\<forall>l \<in> set (lines (''## Notes'' @ [NL] @ ''keep me'' @ [NL])). requirement_name l = None" by code_simp
  from merge_drops_sections [OF l r n h this] show ?thesis .
qed

end
