(* ===== verification/CalendarProps.thy ===== *)
theory CalendarProps
  imports Calendar
begin

text \<open>
  The counting loops and the closed form give the same date. The proof goes through the number of days
  before a year, counted from January for the loops and from March for the closed form.
\<close>

lemma sdiv_pos [simp]: "0 \<le> a \<Longrightarrow> 0 < b \<Longrightarrow> a sdiv b = a div (b :: int)"
  by (simp add: signed_divide_int_def sgn_if zabs_def)

subsection \<open>Days before a year\<close>

definition leaps :: "int \<Rightarrow> int" where
  "leaps y = y div 4 - y div 100 + y div 400"

lemma div_pred: "0 < k \<Longrightarrow> (y - 1) div k = y div k - (if y mod k = 0 then 1 else 0)" for y k :: int
proof -
  assume k: "0 < k"
  have y: "y = k * (y div k) + y mod k" by simp
  show ?thesis
  proof (cases "y mod k = 0")
    case True
    with y k have "y - 1 = k * (y div k - 1) + (k - 1)" by (simp add: algebra_simps)
    then have "(y - 1) div k = y div k - 1" by (rule int_div_pos_eq) (use k in simp_all)
    with True show ?thesis by simp
  next
    case False
    with y have "y - 1 = k * (y div k) + (y mod k - 1)" by linarith
    moreover have "0 \<le> y mod k - 1" "y mod k - 1 < k" using False pos_mod_bound [OF k, of y] pos_mod_sign [OF k, of y] by linarith+
    ultimately have "(y - 1) div k = y div k" by (intro int_div_pos_eq)
    with False show ?thesis by simp
  qed
qed

lemma leaps_step: "leaps y = leaps (y - 1) + (if is_leap_year y then 1 else 0)"
proof -
  have "y mod 100 = 0 \<Longrightarrow> y mod 4 = 0" "y mod 400 = 0 \<Longrightarrow> y mod 100 = 0" by presburger+
  then show ?thesis by (auto simp: leaps_def div_pred is_leap_year_def)
qed

definition days_before :: "int \<Rightarrow> int" where
  "days_before y = 365 * (y - 1970) + leaps (y - 1) - 477"

lemma days_before_step: "days_before (y + 1) = days_before y + year_days y"
  using leaps_step [of y] by (simp add: days_before_def year_days_def)

lemma days_before_epoch: "days_before 1970 = 0"
  by (simp add: days_before_def leaps_def)

lemma year_loop_spec:
  assumes "0 \<le> r"
  shows "case year_loop y r of (Y, R) \<Rightarrow> y \<le> Y \<and> 0 \<le> R \<and> R < year_days Y \<and> days_before y + r = days_before Y + R"
  using assms
proof (induction y r rule: year_loop.induct)
  case (1 y r)
  show ?case
  proof (cases "r < year_days y")
    case True
    with 1 show ?thesis by (simp add: year_loop.simps [of y r])
  next
    case False
    with 1 have "case year_loop (y + 1) (r - year_days y) of (Y, R) \<Rightarrow> y + 1 \<le> Y \<and> 0 \<le> R \<and> R < year_days Y \<and>
        days_before (y + 1) + (r - year_days y) = days_before Y + R" by simp
    with False show ?thesis by (auto simp: year_loop.simps [of y r] days_before_step split: prod.splits)
  qed
qed

subsection \<open>The year of an era\<close>

definition era_count :: "int \<Rightarrow> int" where
  "era_count n = n - n div 1460 + n div 36524 - n div 146096"

lemma era_count_step: "era_count (n - 1) \<le> era_count n"
proof -
  have "(36524 :: int) dvd 146096" by simp
  then have "n mod 146096 = 0 \<Longrightarrow> n mod 36524 = 0" by (meson dvd_eq_mod_eq_0 dvd_trans)
  then show ?thesis by (auto simp: era_count_def div_pred)
qed

lemma era_count_mono: "m \<le> n \<Longrightarrow> era_count m \<le> era_count n"
proof (induction n rule: int_ge_induct)
  case (step n)
  with era_count_step [of "n + 1"] show ?case by simp
qed simp

definition year_start :: "int \<Rightarrow> int" where
  "year_start y = 365 * y + y div 4 - y div 100"

definition last_day :: "int \<Rightarrow> int" where
  "last_day y = (if is_leap_year (y + 1) then 365 else 364)"

lemma era_years:
  "list_all (\<lambda>y. 365 * y \<le> era_count (year_start y) \<and> era_count (year_start y + last_day y) < 365 * (y + 1) \<and>
     year_start y + last_day y < 146097) [0..399]"
  by code_simp

lemma era_year_of_day:
  assumes "0 \<le> y" and "y < 400" and "0 \<le> doy" and "doy \<le> last_day y"
  shows "day_of_era_year (year_start y + doy) = y" and "year_start y + doy < 146097" and "0 \<le> year_start y"
proof -
  have "y \<in> set [0..399]" using assms by simp
  with era_years have e: "365 * y \<le> era_count (year_start y)" "era_count (year_start y + last_day y) < 365 * (y + 1)"
    "year_start y + last_day y < 146097" by (simp_all only: list_all_iff)
  show ys: "0 \<le> year_start y" using assms(1) by (simp add: year_start_def)
  have lo: "365 * y \<le> era_count (year_start y + doy)"
    using e(1) assms(3) era_count_mono [of "year_start y" "year_start y + doy"] by linarith
  have hi: "era_count (year_start y + doy) < 365 * (y + 1)"
    using e(2) assms(4) era_count_mono [of "year_start y + doy" "year_start y + last_day y"] by linarith
  have "day_of_era_year (year_start y + doy) = era_count (year_start y + doy) sdiv 365"
    unfolding day_of_era_year_def using ys assms(3) by (simp add: era_count_def)
  also have "\<dots> = era_count (year_start y + doy) div 365" using lo assms(1) by simp
  also have "\<dots> = y" by (rule int_div_pos_eq [of _ _ _ "era_count (year_start y + doy) - 365 * y"]) (use lo hi in simp_all)
  finally show "day_of_era_year (year_start y + doy) = y" .
  show "year_start y + doy < 146097" using e(3) assms(4) by linarith
qed

subsection \<open>Months\<close>

definition march_month :: "int \<Rightarrow> int \<times> int" where
  "march_month doy =
     (let mp = (5 * doy + 2) div 153
      in (if mp < 10 then mp + 3 else mp - 9, doy - (153 * mp + 2) div 5))"

lemma march_months:
  "list_all (\<lambda>r. march_month r = month_loop (month_lengths False) 1 (r + 59) \<and>
     march_month r = month_loop (month_lengths True) 1 (r + 60) \<and> 2 < fst (march_month r)) [0..305]"
  by code_simp

lemma january_months:
  "list_all (\<lambda>r. march_month (r + 306) = month_loop (month_lengths True) 1 r \<and>
     march_month (r + 306) = month_loop (month_lengths False) 1 r \<and> fst (march_month (r + 306)) \<le> 2) [0..58]"
  by code_simp

lemma leap_day: "march_month 365 = month_loop (month_lengths True) 1 59 \<and> fst (march_month 365) \<le> 2"
  by code_simp

text \<open>Day \<open>r\<close> of a year, as a day of the year that starts in March.\<close>

lemma march_day:
  assumes "0 \<le> r" and "r < year_days y"
  obtains (january) doy where "doy = r + 306" "doy \<le> (if is_leap_year y then 365 else 364)"
      "march_month doy = month_loop (month_lengths (is_leap_year y)) 1 r" "fst (march_month doy) \<le> 2"
  | (march) doy where "doy = r - 59 - (if is_leap_year y then 1 else 0)" "0 \<le> doy" "doy \<le> 305"
      "march_month doy = month_loop (month_lengths (is_leap_year y)) 1 r" "2 < fst (march_month doy)"
proof (cases "r < 59 + (if is_leap_year y then 1 else 0)")
  case True
  show thesis
  proof (cases "r = 59")
    case True
    with \<open>r < 59 + (if is_leap_year y then 1 else 0)\<close> leap_day show thesis
      by (intro january [of 365]) (auto split: if_splits)
  next
    case False
    with True have "r < 59" by (auto split: if_splits)
    then have "r \<in> set [0..58]" using assms(1) by simp
    from bspec [OF january_months [unfolded list_all_iff] this]
    have j: "march_month (r + 306) = month_loop (month_lengths True) 1 r"
      "march_month (r + 306) = month_loop (month_lengths False) 1 r" "fst (march_month (r + 306)) \<le> 2" by blast+
    with \<open>r < 59\<close> show thesis by (intro january [of "r + 306"]) (cases "is_leap_year y"; simp)+
  qed
next
  case False
  define doy where "doy = r - 59 - (if is_leap_year y then 1 else 0)"
  have d: "0 \<le> doy" "doy \<le> 305" using False assms(2) by (auto simp: doy_def year_days_def split: if_splits)
  then have "doy \<in> set [0..305]" by simp
  from bspec [OF march_months [unfolded list_all_iff] this]
  have m: "march_month doy = month_loop (month_lengths False) 1 (doy + 59)"
    "march_month doy = month_loop (month_lengths True) 1 (doy + 60)" "2 < fst (march_month doy)" by blast+
  with d show thesis by (intro march [OF doy_def]) (cases "is_leap_year y"; simp add: doy_def)+
qed

subsection \<open>The two dates\<close>

lemma closed_form:
  assumes "0 \<le> y" and "y < 400" and "0 \<le> e" and "0 \<le> doy" and "doy \<le> last_day y"
  shows "days_to_iso_date (e * 146097 + year_start y + doy - 719468) =
    (case march_month doy of (m, d) \<Rightarrow> format_date (if m \<le> 2 then y + e * 400 + 1 else y + e * 400) m (d + 1))"
proof -
  note era = era_year_of_day [OF assms(1,2,4,5)]
  define doe where "doe = year_start y + doy"
  have doe: "0 \<le> doe" "doe < 146097" "day_of_era_year doe = y" using era assms(4) by (simp_all add: doe_def)
  have z: "e * 146097 + year_start y + doy - 719468 + 719468 = e * 146097 + doe" by (simp add: doe_def)
  have pos: "0 \<le> e * 146097 + doe" using doe assms(3) by simp
  have "(e * 146097 + doe) div 146097 = e" using doe by simp
  then have e: "(if 0 \<le> e * 146097 + doe then e * 146097 + doe else e * 146097 + doe - 146096) sdiv 146097 = e"
    using pos by simp
  have doy: "doe - (365 * y + y sdiv 4 - y sdiv 100) = doy" using assms(1) by (simp add: doe_def year_start_def)
  have mp: "(5 * doy + 2) sdiv 153 = (5 * doy + 2) div 153" "0 \<le> (5 * doy + 2) div 153" using assms(4) by simp_all
  then have d: "(153 * ((5 * doy + 2) div 153) + 2) sdiv 5 = (153 * ((5 * doy + 2) div 153) + 2) div 5" by simp
  show ?thesis
    unfolding days_to_iso_date_def Let_def z e add_diff_cancel_left' doe(3) doy mp(1) d
    by (simp add: march_month_def Let_def)
qed

lemma leap_period: "is_leap_year (y + e * 400) = is_leap_year y"
proof -
  have "(y + e * 400) mod k = y mod k" if "k dvd 400" for k
  proof -
    from that obtain c where "400 = k * c" by blast
    then have "y + e * 400 = y + k * (e * c)" by simp
    then show ?thesis by (simp only: mod_mult_self2)
  qed
  from this [of 4] this [of 100] this [of 400] show ?thesis by (simp add: is_leap_year_def)
qed

lemma march_year:
  assumes "0 \<le> Y"
  shows "365 * Y + leaps Y = (Y div 400) * 146097 + year_start (Y mod 400)"
proof -
  define e y where "e = Y div 400" and "y = Y mod 400"
  have Y: "Y = 400 * e + y" "0 \<le> y" "y < 400" by (simp_all add: e_def y_def)
  have "Y div 4 = 100 * e + y div 4" "Y div 100 = 4 * e + y div 100" "Y div 400 = e" using Y by simp_all
  then show ?thesis using Y by (simp add: leaps_def year_start_def flip: e_def y_def)
qed

text \<open>
  C22: the counting loops and the closed form agree: on every day since the epoch the date written into an
  archived change's name and the date written into an imported plan are the same.
\<close>

theorem dates_agree:
  assumes "0 \<le> secs"
  shows "current_date_string secs = import_date secs"
proof -
  define days where "days = secs div 86400"
  have days: "0 \<le> days" "secs sdiv 86400 = days" using assms by (simp_all add: days_def)
  obtain Y r where yl: "year_loop 1970 days = (Y, r)" by fastforce
  from year_loop_spec [OF days(1), of 1970] yl have Y: "1970 \<le> Y" and r: "0 \<le> r" "r < year_days Y"
    and d: "days = days_before Y + r" by (simp_all add: days_before_epoch)
  obtain m rest where ml: "month_loop (month_lengths (is_leap_year Y)) 1 r = (m, rest)" by fastforce
  have cur: "current_date_string secs = format_date Y m (rest + 1)" by (simp add: current_date_string_def days yl ml)
  have closed: "import_date secs = (case march_month doy of (m, d) \<Rightarrow> format_date (if m \<le> 2 then M + 1 else M) m (d + 1))"
    if M: "0 \<le> M" "days = 365 * M + leaps M + doy - 719468" "0 \<le> doy" "doy \<le> (if is_leap_year (M + 1) then 365 else 364)" for M doy
  proof -
    have "is_leap_year (M mod 400 + 1 + (M div 400) * 400) = is_leap_year (M mod 400 + 1)" by (rule leap_period)
    moreover have "M mod 400 + 1 + (M div 400) * 400 = M + 1" by simp
    ultimately have "doy \<le> last_day (M mod 400)" using M(4) by (simp add: last_day_def)
    from closed_form [OF _ _ _ M(3) this, of "M div 400"] M(1,2) march_year [OF M(1)]
    have "import_date secs = (case march_month doy of (m, d) \<Rightarrow>
        format_date (if m \<le> 2 then M mod 400 + M div 400 * 400 + 1 else M mod 400 + M div 400 * 400) m (d + 1))"
      by (simp add: import_date_def days pos_imp_zdiv_nonneg_iff)
    moreover have "M mod 400 + M div 400 * 400 = M" by simp
    ultimately show ?thesis by (simp only:)
  qed
  show ?thesis using r
  proof (cases rule: march_day)
    case (january doy)
    have "days = 365 * (Y - 1) + leaps (Y - 1) + doy - 719468" using d january(1) by (simp add: days_before_def)
    from closed [OF _ this] january r Y show ?thesis by (simp add: cur ml split: if_splits)
  next
    case (march doy)
    have "days = 365 * Y + leaps Y + doy - 719468"
      using d march(1) leaps_step [of Y] by (simp add: days_before_def)
    from closed [OF _ this] march r Y show ?thesis by (simp add: cur ml split: if_splits)
  qed
qed

theorem dates_agree_witness: "current_date_string 951782400 = import_date 951782400"
  using dates_agree [of 951782400] by simp

end
