(* ===== verification/ChangeProps.thy ===== *)
theory ChangeProps
  imports ChangeStore MergeProps CalendarProps
begin

text \<open>
  Changes on disk and their plans: what archiving requires and hides, what a failed archiving leaves
  behind, and what the catalog shows of archived changes.
\<close>

subsection \<open>Archiving\<close>



lemma find_plan_archive [simp]: "find_plan_by_change name (archive_plan linked d) = find_plan_by_change name d"
  by (simp add: find_plan_by_change_def archive_plan_def split: option.splits)

lemma find_plan_name: "find_plan_by_change name d = Some p \<Longrightarrow> p_change_name p = Some name"
  by (auto simp: find_plan_by_change_def find_Some_iff row_to_plan_def)


definition no_failures :: os where
  "no_failures = \<lparr>os_unreadable = (\<lambda>_. None), os_unwritable = (\<lambda>_. None), os_no_rename = (\<lambda>_. None)\<rparr>"

definition archive_locked :: os where
  "archive_locked = no_failures\<lparr>os_no_rename := (\<lambda>p. if ''archive'' \<in> set p then Some ''Permission denied (os error 13)'' else None)\<rparr>"

definition repo :: "string \<Rightarrow> tree" where
  "repo delta_text = [([''/'', ''p''], None), ([''/'', ''p'', ''openspec''], None), ([''/'', ''p'', ''openspec'', ''changes''], None),
     ([''/'', ''p'', ''openspec'', ''changes'', ''add''], None),
     ([''/'', ''p'', ''openspec'', ''changes'', ''add'', ''tasks.md''], Some (''- [x] done'' @ [NL])),
     ([''/'', ''p'', ''openspec'', ''changes'', ''add'', ''specs''], None),
     ([''/'', ''p'', ''openspec'', ''changes'', ''add'', ''specs'', ''login''], None),
     ([''/'', ''p'', ''openspec'', ''changes'', ''add'', ''specs'', ''login'', ''spec.md''], Some delta_text),
     ([''/'', ''p'', ''openspec'', ''specs'', ''login'', ''spec.md''], Some sample_spec)]"

definition finished_db :: db where
  "finished_db = sample_db [(sample_plan_row ''p1'' ''finished'')\<lparr>pl_change_name := Some ''add''\<rparr>] []"


definition removing_delta :: string where
  "removing_delta = ''## REMOVED Requirements'' @ [NL] @ ''### Requirement: A'' @ [NL]"

text \<open>
  A failed archiving is not undone: if the directory cannot be moved after the canonical specs were
  merged, they stay merged, and an archiving of the change that removes a requirement can never succeed
  again, because the requirement it removes is gone.
\<close>

theorem failed_archive_cannot_be_retried:
  "(let first = archive_change archive_locked ascii env0 ''/p'' ''add'' (repo removing_delta) finished_db;
        again = archive_change no_failures ascii env0 ''/p'' ''add'' (fst (snd first)) (snd (snd first))
    in \<not> is_ok (fst first) \<and> archived (snd (snd first)) = [] \<and> fst (snd first) \<noteq> repo removing_delta \<and>
       fst again = Err (sync_error ''REMOVED'' ''A'' '': canonical requirement not found.''))"
  by code_simp

subsection \<open>The catalog\<close>

lemma read_progress_missing:
  "\<not> path_exists t (tasks_file project name) \<Longrightarrow> read_task_progress os t project name = (0, 0)"
  by (auto simp: read_task_progress_def read_text_def file_text_def path_exists_def split: option.splits)

text \<open>
  The catalog lists the open changes before the archived ones and each group by name; but the
  progress of an archived row is looked up under the open changes, so an archived change shows no tasks,
  done or not, unless an open change has the very same dated name.
\<close>

theorem catalog_order_and_archived_progress:
  assumes "list_changes os t d project = Ok rows"
  shows "sorted_wrt (\<lambda>x y. ce_archived x \<longrightarrow> ce_archived y) rows \<and>
    (\<forall>arch. sorted (map ce_name (filter (\<lambda>r. ce_archived r = arch) rows))) \<and>
    (\<forall>r \<in> set rows. ce_archived r \<and> \<not> path_exists t (tasks_file project (ce_name r)) \<longrightarrow>
       ce_completed r = 0 \<and> ce_total r = 0)"
proof -
  from assms obtain ns as where rows: "rows =
      sort_key ce_name (dir_entries os t d (changes_dir project) False project ns) @
      sort_key ce_name (dir_entries os t d (changes_dir project @ [''archive'']) True project as)"
    by (auto simp: list_changes_def Let_def split: sum.splits)
  have arch: "r \<in> set (dir_entries os t d dir b project names) \<Longrightarrow> ce_archived r = b" for r dir b names
    by (auto simp: dir_entries_def catalog_entry_def Let_def)
  have filt: "filter (\<lambda>r. ce_archived r = c) (sort_key ce_name (dir_entries os t d dir b project names)) =
      (if b = c then sort_key ce_name (dir_entries os t d dir b project names) else [])" for c dir b names
    using arch by (auto simp: filter_id_conv filter_empty_conv)
  have "r \<in> set (dir_entries os t d dir b project names) \<Longrightarrow> \<not> path_exists t (tasks_file project (ce_name r)) \<Longrightarrow>
      ce_completed r = 0 \<and> ce_total r = 0" for r dir b names
    by (auto simp: dir_entries_def catalog_entry_def Let_def read_progress_missing)
  then show ?thesis using arch by (auto simp: rows filt sorted_wrt_append intro: sorted_wrt_mono_rel [OF _ sorted_wrt_true])
qed

definition archived_repo :: tree where
  "archived_repo = fst (snd (archive_change no_failures ascii env0 ''/p'' ''add'' (repo sample_delta) finished_db))"

theorem catalog_order_and_archived_progress_witness:
  "map (\<lambda>r. (ce_archived r, ce_has_tasks r, ce_completed r, ce_total r))
     (projr (list_changes no_failures archived_repo finished_db ''/p'')) = [(True, True, 0, 0)] \<and>
   sorted (map ce_name (filter (\<lambda>r. ce_archived r = True) (projr (list_changes no_failures archived_repo finished_db ''/p''))))"
proof
  let ?r = "list_changes no_failures archived_repo finished_db ''/p''"
  have "is_ok ?r" by code_simp
  then have "?r = Ok (projr ?r)" by (cases ?r) simp_all
  from catalog_order_and_archived_progress [OF this]
  show "sorted (map ce_name (filter (\<lambda>r. ce_archived r = True) (projr ?r)))" by blast
qed code_simp

end
