(* ===== verification/Interaction.thy ===== *)
theory Interaction
  imports PlanStore
begin

text \<open>
  Questions an agent asks the user: \<open>models/interaction.rs\<close> and \<open>services/interaction_service.rs\<close>.
  The table \<open>pending_interactions\<close> is a list of rows; its JSON columns hold the values they encode and
  its status column the enum whose text forms the statements write. \<open>resolve\<close> and \<open>save_draft\<close> read
  the row, check the request, and only then update it: what other connections commit in between is
  their argument \<open>between\<close>.
\<close>

subsection \<open>Data\<close>

datatype question_kind = Options | Multi | Confirm | TextAnswer | Rating

fun question_kind_str :: "question_kind \<Rightarrow> string" where
  "question_kind_str Options = ''options''"
| "question_kind_str Multi = ''multi''"
| "question_kind_str Confirm = ''confirm''"
| "question_kind_str TextAnswer = ''text''"
| "question_kind_str Rating = ''rating''"

definition question_kind_of :: "string \<Rightarrow> question_kind" where
  "question_kind_of s =
     (if s = ''multi'' then Multi else if s = ''confirm'' then Confirm else if s = ''text'' then TextAnswer
      else if s = ''rating'' then Rating else Options)"

datatype rating_style = Stars | Numbers

record rating_scale =
  sc_min :: int
  sc_max :: int
  sc_low_label :: "string option"
  sc_high_label :: "string option"
  sc_style :: "rating_style option"

record question_option =
  op_label :: string
  op_description :: "string option"

record question =
  qn_id :: string
  qn_prompt :: string
  qn_kind :: question_kind
  qn_options :: "question_option list"
  qn_recommended :: "nat option"
  qn_allow_free_text :: bool
  qn_detail :: "string option"
  qn_page_id :: "string option"
  qn_page_title :: "string option"
  qn_page_description :: "string option"
  qn_required :: bool
  qn_multiline :: bool
  qn_scale :: "rating_scale option"

datatype interaction_status = Interaction_pending | Answered | Interaction_cancelled

fun interaction_status_str :: "interaction_status \<Rightarrow> string" where
  "interaction_status_str Interaction_pending = ''pending''"
| "interaction_status_str Answered = ''answered''"
| "interaction_status_str Interaction_cancelled = ''cancelled''"

definition interaction_status_of :: "string \<Rightarrow> interaction_status" where
  "interaction_status_of s =
     (if s = ''answered'' then Answered else if s = ''cancelled'' then Interaction_cancelled
      else Interaction_pending)"

record question_answer =
  an_question_id :: string
  an_selected :: "string list"
  an_text :: "string option"
  an_value :: "int option"

record interaction =
  in_id :: string
  in_session_id :: string
  in_run_id :: "string option"
  in_title :: "string option"
  in_description :: "string option"
  in_questions :: "question list"
  in_status :: interaction_status
  in_answers :: "question_answer list option"
  in_draft_answers :: "question_answer list option"
  in_current_page :: nat
  in_created_at :: int
  in_resolved_at :: "int option"

type_synonym interactions = "interaction list"

interpretation question_kind_codec: status_codec question_kind_str question_kind_of
proof
  show "question_kind_of (question_kind_str k) = k" for k by (cases k) (simp_all add: question_kind_of_def)
qed

interpretation interaction_status_codec: status_codec interaction_status_str interaction_status_of
proof
  show "interaction_status_of (interaction_status_str s) = s" for s
    by (cases s) (simp_all add: interaction_status_of_def)
qed

subsection \<open>Checking a questionnaire\<close>

definition MAX_QUESTIONS :: nat where "MAX_QUESTIONS = 32"
definition MAX_ID_BYTES :: nat where "MAX_ID_BYTES = 128"
definition MAX_TITLE_BYTES :: nat where "MAX_TITLE_BYTES = 256"
definition MAX_DESCRIPTION_BYTES :: nat where "MAX_DESCRIPTION_BYTES = 4096"
definition MAX_PROMPT_BYTES :: nat where "MAX_PROMPT_BYTES = 4096"
definition MAX_DETAIL_BYTES :: nat where "MAX_DETAIL_BYTES = 8192"
definition MAX_OPTIONS :: nat where "MAX_OPTIONS = 20"
definition MAX_OPTION_LABEL_BYTES :: nat where "MAX_OPTION_LABEL_BYTES = 256"
definition MAX_OPTION_DESCRIPTION_BYTES :: nat where "MAX_OPTION_DESCRIPTION_BYTES = 1024"
definition MAX_ANSWER_TEXT_BYTES :: nat where "MAX_ANSWER_TEXT_BYTES = 32768"

lemmas limit_defs = MAX_QUESTIONS_def MAX_ID_BYTES_def MAX_TITLE_BYTES_def MAX_DESCRIPTION_BYTES_def
  MAX_PROMPT_BYTES_def MAX_DETAIL_BYTES_def MAX_OPTIONS_def MAX_OPTION_LABEL_BYTES_def
  MAX_OPTION_DESCRIPTION_BYTES_def MAX_ANSWER_TEXT_BYTES_def

definition text_within :: "nat \<Rightarrow> string option \<Rightarrow> bool" where
  "text_within n s \<longleftrightarrow> (case s of None \<Rightarrow> True | Some t \<Rightarrow> length t \<le> n)"

definition validate_optional_text :: "string \<Rightarrow> string option \<Rightarrow> nat \<Rightarrow> unit result" where
  "validate_optional_text label value n =
     refuse_if (\<not> text_within n value) (label @ '' exceeds '' @ show_nat n @ '' bytes'')"

definition bad_name :: "nat \<Rightarrow> string \<Rightarrow> bool" where
  "bad_name n s \<longleftrightarrow> is_blank s \<or> n < length s"

definition head_checks :: "string list \<Rightarrow> question \<Rightarrow> unit result list" where
  "head_checks seen q =
     [refuse_if (bad_name MAX_ID_BYTES (qn_id q))
        (''Question id is empty or exceeds '' @ show_nat MAX_ID_BYTES @ '' bytes''),
      refuse_if (qn_id q \<in> set seen) (''Duplicate question id: '' @ qn_id q),
      refuse_if (bad_name MAX_PROMPT_BYTES (qn_prompt q))
        (''Question '' @ qn_id q @ '' prompt is empty or exceeds '' @ show_nat MAX_PROMPT_BYTES @ '' bytes''),
      validate_optional_text (''Question '' @ qn_id q @ '' detail'') (qn_detail q) MAX_DETAIL_BYTES,
      validate_optional_text (''Question '' @ qn_id q @ '' page title'') (qn_page_title q) MAX_TITLE_BYTES,
      validate_optional_text (''Question '' @ qn_id q @ '' page description'') (qn_page_description q)
        MAX_DESCRIPTION_BYTES]"

text \<open>The set of page ids seen so far and the page of the previous question.\<close>

definition page_step ::
    "string list \<Rightarrow> string option \<Rightarrow> question \<Rightarrow> (string list \<times> string option) result" where
  "page_step pages cur q =
     (case qn_page_id q of
        Some p \<Rightarrow>
          (if bad_name MAX_ID_BYTES p then Err (''Question '' @ qn_id q @ '' has an invalid page id'')
           else if cur \<noteq> Some p then
             (if p \<in> set pages then Err (''Page id '' @ p @ '' is not contiguous'')
              else Ok (p # pages, Some p))
           else Ok (pages, cur))
      | None \<Rightarrow>
          (if qn_page_title q \<noteq> None \<or> qn_page_description q \<noteq> None
           then Err (''Question '' @ qn_id q @ '' has page metadata without a page id'')
           else if pages \<noteq> [] then Err ''Paged and legacy flat questions cannot be mixed''
           else Ok (pages, cur)))"

fun check_options :: "string \<Rightarrow> string list \<Rightarrow> question_option list \<Rightarrow> unit result" where
  "check_options qid seen [] = Ok ()"
| "check_options qid seen (p # ps) =
     (case first_err
        [refuse_if (bad_name MAX_OPTION_LABEL_BYTES (op_label p)) (''Question '' @ qid @ '' has an invalid option label''),
         refuse_if (op_label p \<in> set seen) (''Question '' @ qid @ '' has duplicate option '' @ op_label p),
         validate_optional_text (''Question '' @ qid @ '' option description'') (op_description p)
           MAX_OPTION_DESCRIPTION_BYTES] of
        Inl err \<Rightarrow> Err err
      | Inr _ \<Rightarrow> check_options qid (op_label p # seen) ps)"

definition scale_ok :: "rating_scale \<Rightarrow> bool" where
  "scale_ok s \<longleftrightarrow> \<not> (sc_min s < 0 \<or> sc_max s > 10 \<or> sc_min s \<ge> sc_max s \<or> sc_max s - sc_min s > 10)"

definition kind_checks :: "question \<Rightarrow> unit result list" where
  "kind_checks q =
     (if qn_kind q = Rating then
        [refuse_if (qn_options q \<noteq> [] \<or> qn_recommended q \<noteq> None)
           (''Rating question '' @ qn_id q @ '' cannot declare options or a recommendation''),
         refuse_if (\<exists>s \<in> set_option (qn_scale q). \<not> scale_ok s)
           (''Rating question '' @ qn_id q @ '' must use an increasing 0'' @ [CHR 0xE2, CHR 0x80, CHR 0x93] @ ''10 scale'')]
      else
        [refuse_if (qn_scale q \<noteq> None) (''Only rating question '' @ qn_id q @ '' may declare a scale'')])"

definition tail_checks :: "question \<Rightarrow> unit result list" where
  "tail_checks q =
     [refuse_if (MAX_OPTIONS < length (qn_options q)) (''Question '' @ qn_id q @ '' exceeds '' @ show_nat MAX_OPTIONS @ '' options''),
      check_options (qn_id q) [] (qn_options q),
      refuse_if (case qn_recommended q of None \<Rightarrow> False | Some i \<Rightarrow> length (qn_options q) \<le> i)
        (''Question '' @ qn_id q @ '' has an invalid recommended index'')] @ kind_checks q"

fun check_questions ::
    "string list \<Rightarrow> string list \<Rightarrow> string option \<Rightarrow> question list \<Rightarrow> unit result" where
  "check_questions seen pages cur [] = Ok ()"
| "check_questions seen pages cur (q # qs) =
     (case first_err (head_checks seen q) of
        Inl err \<Rightarrow> Err err
      | Inr _ \<Rightarrow>
          (case page_step pages cur q of
             Inl err \<Rightarrow> Err err
           | Inr (pages', cur') \<Rightarrow>
               (case first_err (tail_checks q) of
                  Inl err \<Rightarrow> Err err
                | Inr _ \<Rightarrow> check_questions (qn_id q # seen) pages' cur' qs)))"

definition validate_questions :: "string option \<Rightarrow> string option \<Rightarrow> question list \<Rightarrow> unit result" where
  "validate_questions title description qs =
     first_err
       [validate_optional_text ''Interaction title'' title MAX_TITLE_BYTES,
        validate_optional_text ''Interaction description'' description MAX_DESCRIPTION_BYTES,
        refuse_if (qs = []) ''Interaction must contain at least one question'',
        refuse_if (MAX_QUESTIONS < length qs) (''Interaction exceeds '' @ show_nat MAX_QUESTIONS @ '' questions''),
        check_questions [] [] None qs]"

subsection \<open>Checking answers\<close>

definition question_of :: "question list \<Rightarrow> string \<Rightarrow> question option" where
  "question_of qs i = find (\<lambda>q. qn_id q = i) qs"

definition in_scale :: "question \<Rightarrow> int \<Rightarrow> bool" where
  "in_scale q v \<longleftrightarrow>
     (case qn_scale q of None \<Rightarrow> 1 \<le> v \<and> v \<le> 5 | Some s \<Rightarrow> sc_min s \<le> v \<and> v \<le> sc_max s)"

definition answer_checks :: "question \<Rightarrow> question_answer \<Rightarrow> unit result list" where
  "answer_checks q a =
     [validate_optional_text (''Answer '' @ an_question_id a) (an_text a) MAX_ANSWER_TEXT_BYTES,
      refuse_if (\<exists>l \<in> set (an_selected a). l \<notin> set (map op_label (qn_options q)))
        (''Answer '' @ an_question_id a @ '' contains an unknown option''),
      refuse_if (qn_kind q \<in> {Options, Confirm} \<and> 1 < length (an_selected a))
        (''Answer '' @ an_question_id a @ '' accepts only one option''),
      (if qn_kind q = Rating
       then refuse_if (\<exists>v \<in> set_option (an_value a). \<not> in_scale q v)
              (''Answer '' @ an_question_id a @ '' is outside the rating scale'')
       else refuse_if (an_value a \<noteq> None)
              (''Only rating answer '' @ an_question_id a @ '' may contain a numeric value''))]"

fun check_answers :: "question list \<Rightarrow> string list \<Rightarrow> question_answer list \<Rightarrow> unit result" where
  "check_answers qs seen [] = Ok ()"
| "check_answers qs seen (a # ans) =
     (if an_question_id a \<in> set seen then Err (''Duplicate answer for '' @ an_question_id a)
      else case question_of qs (an_question_id a) of
        None \<Rightarrow> Err (''Unknown question id: '' @ an_question_id a)
      | Some q \<Rightarrow>
          (case first_err (answer_checks q a) of
             Inl err \<Rightarrow> Err err
           | Inr _ \<Rightarrow> check_answers qs (an_question_id a # seen) ans))"

definition has_text :: "question_answer \<Rightarrow> bool" where
  "has_text a \<longleftrightarrow> (case an_text a of None \<Rightarrow> False | Some t \<Rightarrow> \<not> is_blank t)"

definition present :: "question \<Rightarrow> question_answer \<Rightarrow> bool" where
  "present q a =
     (case qn_kind q of
        Rating \<Rightarrow> an_value a \<noteq> None
      | TextAnswer \<Rightarrow> has_text a
      | _ \<Rightarrow> an_selected a \<noteq> [] \<or> qn_allow_free_text q \<and> has_text a)"

definition check_required :: "question_answer list \<Rightarrow> question \<Rightarrow> unit result" where
  "check_required ans q =
     refuse_if (case find (\<lambda>a. an_question_id a = qn_id q) ans of None \<Rightarrow> True | Some a \<Rightarrow> \<not> present q a)
       (''Required question '' @ qn_id q @ '' is unanswered'')"

definition validate_answers :: "question list \<Rightarrow> question_answer list \<Rightarrow> bool \<Rightarrow> unit result" where
  "validate_answers qs ans complete =
     first_err (check_answers qs [] ans #
       (if complete then map (check_required ans) (filter qn_required qs) else []))"

subsection \<open>The service\<close>

definition get_interaction :: "string \<Rightarrow> interactions \<Rightarrow> interaction option" where
  "get_interaction i xs = lookup_by in_id i xs"

definition open_row :: "string \<Rightarrow> interaction \<Rightarrow> bool" where
  "open_row i r \<longleftrightarrow> in_id r = i \<and> in_status r = Interaction_pending"

definition create_with_metadata ::
    "env \<Rightarrow> string \<Rightarrow> string option \<Rightarrow> string option \<Rightarrow> string option \<Rightarrow> question list \<Rightarrow>
     interactions \<Rightarrow> interaction result \<times> interactions" where
  "create_with_metadata e session_id rid title description qs xs =
     (case validate_questions title description qs of
        Inl err \<Rightarrow> (Err err, xs)
      | Inr _ \<Rightarrow>
          (let i = gen_id (e_nanos e 0);
               row = \<lparr>in_id = i, in_session_id = session_id, in_run_id = rid, in_title = title,
                      in_description = description, in_questions = qs, in_status = Interaction_pending,
                      in_answers = None, in_draft_answers = None, in_current_page = 0,
                      in_created_at = e_millis e 0, in_resolved_at = None\<rparr>
           in case insert_checked in_id ''pending_interactions'' True row xs of
                Inl err \<Rightarrow> (Err err, xs)
              | Inr ys \<Rightarrow>
                  (case get_interaction i ys of
                     None \<Rightarrow> Err ''Interaction not found after insert''
                   | Some r \<Rightarrow> Ok r, ys)))"

definition create_interaction ::
    "env \<Rightarrow> string \<Rightarrow> string option \<Rightarrow> question list \<Rightarrow> interactions \<Rightarrow> interaction result \<times> interactions" where
  "create_interaction e session_id rid qs = create_with_metadata e session_id rid None None qs"

definition already_resolved :: "string \<Rightarrow> string" where
  "already_resolved i = ''Interaction '' @ i @ '' is already resolved''"

definition resolve ::
    "env \<Rightarrow> string \<Rightarrow> question_answer list \<Rightarrow> (interactions \<Rightarrow> interactions) \<Rightarrow>
     interactions \<Rightarrow> interaction result \<times> interactions" where
  "resolve e i ans between xs =
     (case get_interaction i xs of
        None \<Rightarrow> (Err (''Interaction not found: '' @ i), xs)
      | Some r \<Rightarrow>
          (if in_status r \<noteq> Interaction_pending then (Err (already_resolved i), xs)
           else case validate_answers (in_questions r) ans True of
             Inl err \<Rightarrow> (Err err, xs)
           | Inr _ \<Rightarrow>
               (let ys = between xs;
                    zs = upd_where (open_row i)
                      (\<lambda>r. r\<lparr>in_status := Answered, in_answers := Some ans, in_draft_answers := None,
                             in_resolved_at := Some (e_millis e 0)\<rparr>) ys
                in if length (filter (open_row i) ys) \<noteq> 1 then (Err (already_resolved i), zs)
                   else (case get_interaction i zs of
                           None \<Rightarrow> Err ''Interaction not found after resolve''
                         | Some r' \<Rightarrow> Ok r', zs))))"

definition page_count :: "question list \<Rightarrow> nat" where
  "page_count qs = max (card (set (List.map_filter qn_page_id qs))) 1"

definition save_draft ::
    "string \<Rightarrow> question_answer list \<Rightarrow> nat \<Rightarrow> (interactions \<Rightarrow> interactions) \<Rightarrow>
     interactions \<Rightarrow> interaction result \<times> interactions" where
  "save_draft i ans current_page between xs =
     (case get_interaction i xs of
        None \<Rightarrow> (Err (''Interaction not found: '' @ i), xs)
      | Some r \<Rightarrow>
          (if in_status r \<noteq> Interaction_pending then (Err (already_resolved i), xs)
           else case validate_answers (in_questions r) ans False of
             Inl err \<Rightarrow> (Err err, xs)
           | Inr _ \<Rightarrow>
               (let n = page_count (in_questions r)
                in if n \<le> current_page
                   then (Err (''Draft page '' @ show_nat current_page @ '' is outside '' @ show_nat n @
                              '' questionnaire pages''), xs)
                   else
                     (let ys = between xs;
                          zs = upd_where (open_row i)
                            (\<lambda>r. r\<lparr>in_draft_answers := Some ans, in_current_page := current_page\<rparr>) ys
                      in if length (filter (open_row i) ys) \<noteq> 1 then (Err (already_resolved i), zs)
                         else (case get_interaction i zs of
                                 None \<Rightarrow> Err ''Interaction not found after draft save''
                               | Some r' \<Rightarrow> Ok r', zs)))))"

definition cancelled_at :: "int \<Rightarrow> interaction \<Rightarrow> interaction" where
  "cancelled_at now r = r\<lparr>in_status := Interaction_cancelled, in_resolved_at := Some now\<rparr>"

definition cancel :: "env \<Rightarrow> string \<Rightarrow> interactions \<Rightarrow> interactions" where
  "cancel e i xs = upd_where (open_row i) (cancelled_at (e_millis e 0)) xs"

definition pending_in :: "string \<Rightarrow> interaction \<Rightarrow> bool" where
  "pending_in sid r \<longleftrightarrow> in_session_id r = sid \<and> in_status r = Interaction_pending"

definition cancel_pending_for_session :: "env \<Rightarrow> string \<Rightarrow> interactions \<Rightarrow> nat \<times> interactions" where
  "cancel_pending_for_session e sid xs =
     (length (filter (pending_in sid) xs), upd_where (pending_in sid) (cancelled_at (e_millis e 0)) xs)"

definition list_pending :: "string \<Rightarrow> interactions \<Rightarrow> interaction list" where
  "list_pending sid xs = order_asc in_created_at (filter (pending_in sid) xs)"

definition list_all_for :: "string \<Rightarrow> interactions \<Rightarrow> interaction list" where
  "list_all_for sid xs = order_asc in_created_at (filter (\<lambda>r. in_session_id r = sid) xs)"

definition sweep_orphans :: "env \<Rightarrow> interactions \<Rightarrow> nat \<times> interactions" where
  "sweep_orphans e xs =
     (length (filter (\<lambda>r. in_status r = Interaction_pending) xs),
      upd_where (\<lambda>r. in_status r = Interaction_pending) (cancelled_at (e_millis e 0)) xs)"

end
