(* ===== verification/InteractionProps.thy ===== *)
theory InteractionProps
  imports Interaction LifecycleProps
begin

text \<open>
  What the checks of \<open>services/interaction_service.rs\<close> accept, and the life of a stored interaction:
  the declarative contract of a questionnaire and of its answers, the invariant of the table over any
  interleaving of requests, and that an interaction is settled once.
\<close>

subsection \<open>The contract of a questionnaire\<close>

text \<open>The runs of equal page ids are runs of different ids.\<close>

definition contiguous :: "string list \<Rightarrow> bool" where
  "contiguous ps \<longleftrightarrow> distinct (remdups_adj ps)"

definition pages_ok :: "string option list \<Rightarrow> bool" where
  "pages_ok ps \<longleftrightarrow>
     (\<exists>n gs. ps = replicate n None @ map Some gs \<and> contiguous gs \<and> (\<forall>p \<in> set gs. \<not> bad_name MAX_ID_BYTES p))"

definition options_ok :: "question \<Rightarrow> bool" where
  "options_ok q \<longleftrightarrow> length (qn_options q) \<le> MAX_OPTIONS \<and> distinct (map op_label (qn_options q)) \<and>
     (\<forall>p \<in> set (qn_options q). \<not> bad_name MAX_OPTION_LABEL_BYTES (op_label p) \<and>
        text_within MAX_OPTION_DESCRIPTION_BYTES (op_description p)) \<and>
     (\<forall>i. qn_recommended q = Some i \<longrightarrow> i < length (qn_options q))"

definition kind_ok :: "question \<Rightarrow> bool" where
  "kind_ok q \<longleftrightarrow>
     (if qn_kind q = Rating
      then qn_options q = [] \<and> qn_recommended q = None \<and>
        (\<forall>s. qn_scale q = Some s \<longrightarrow> 0 \<le> sc_min s \<and> sc_min s < sc_max s \<and> sc_max s \<le> 10)
      else qn_scale q = None)"

definition question_ok :: "question \<Rightarrow> bool" where
  "question_ok q \<longleftrightarrow> \<not> bad_name MAX_ID_BYTES (qn_id q) \<and> \<not> bad_name MAX_PROMPT_BYTES (qn_prompt q) \<and>
     text_within MAX_DETAIL_BYTES (qn_detail q) \<and> text_within MAX_TITLE_BYTES (qn_page_title q) \<and>
     text_within MAX_DESCRIPTION_BYTES (qn_page_description q) \<and>
     (qn_page_id q = None \<longrightarrow> qn_page_title q = None \<and> qn_page_description q = None) \<and> options_ok q \<and> kind_ok q"

definition questionnaire_ok :: "string option \<Rightarrow> string option \<Rightarrow> question list \<Rightarrow> bool" where
  "questionnaire_ok title description qs \<longleftrightarrow> text_within MAX_TITLE_BYTES title \<and>
     text_within MAX_DESCRIPTION_BYTES description \<and> qs \<noteq> [] \<and> length qs \<le> MAX_QUESTIONS \<and>
     distinct (map qn_id qs) \<and> pages_ok (map qn_page_id qs) \<and> (\<forall>q \<in> set qs. question_ok q)"

lemma validate_optional_text_Ok [simp]: "validate_optional_text l v n = Inr u \<longleftrightarrow> text_within n v"
  by (simp add: validate_optional_text_def)

lemma then_Ok: "(case r of Inl e \<Rightarrow> Inl e | Inr _ \<Rightarrow> x) = Inr u \<longleftrightarrow> r = Inr () \<and> x = Inr u"
  by (cases r) auto

lemma check_options_Ok:
  "check_options qid seen ps = Inr u \<longleftrightarrow>
     distinct (map op_label ps) \<and> set (map op_label ps) \<inter> set seen = {} \<and>
     (\<forall>p \<in> set ps. \<not> bad_name MAX_OPTION_LABEL_BYTES (op_label p) \<and>
        text_within MAX_OPTION_DESCRIPTION_BYTES (op_description p))"
proof (induction ps arbitrary: seen)
  case (Cons p ps)
  let ?hd = "\<not> bad_name MAX_OPTION_LABEL_BYTES (op_label p) \<and> op_label p \<notin> set seen \<and>
    text_within MAX_OPTION_DESCRIPTION_BYTES (op_description p)"
  have "check_options qid seen (p # ps) = Inr u \<longleftrightarrow> ?hd \<and> check_options qid (op_label p # seen) ps = Inr u"
    by (simp add: then_Ok conj_ac)
  with Cons.IH [of "op_label p # seen"] show ?case by (auto simp del: check_options.simps)
qed simp

lemma kind_checks_Ok: "(\<forall>r \<in> set (kind_checks q). r = Inr ()) \<longleftrightarrow> kind_ok q"
  by (cases "qn_scale q"; cases "qn_recommended q") (auto simp: kind_checks_def kind_ok_def scale_ok_def)

lemma tail_checks_Ok: "first_err (tail_checks q) = Inr u \<longleftrightarrow> options_ok q \<and> kind_ok q"
proof -
  have "first_err (tail_checks q) = Inr u \<longleftrightarrow> (\<forall>r \<in> set (tail_checks q). r = Inr ())"
    by (rule first_err_Ok)
  also have "\<dots> \<longleftrightarrow> options_ok q \<and> kind_ok q"
    using kind_checks_Ok [of q]
    by (cases "qn_recommended q") (auto simp: tail_checks_def options_ok_def check_options_Ok)
  finally show ?thesis .
qed

lemma head_checks_Ok:
  "first_err (head_checks seen q) = Inr u \<longleftrightarrow> \<not> bad_name MAX_ID_BYTES (qn_id q) \<and> qn_id q \<notin> set seen \<and>
     \<not> bad_name MAX_PROMPT_BYTES (qn_prompt q) \<and> text_within MAX_DETAIL_BYTES (qn_detail q) \<and>
     text_within MAX_TITLE_BYTES (qn_page_title q) \<and> text_within MAX_DESCRIPTION_BYTES (qn_page_description q)"
  by (simp add: head_checks_def)

text \<open>The pages of the questions, as the walk of \<open>check_questions\<close> sees them.\<close>

definition page_meta_ok :: "question \<Rightarrow> bool" where
  "page_meta_ok q \<longleftrightarrow> (qn_page_id q = None \<longrightarrow> qn_page_title q = None \<and> qn_page_description q = None)"

fun page_walk :: "string list \<Rightarrow> string option \<Rightarrow> question list \<Rightarrow> bool" where
  "page_walk pages cur [] = True"
| "page_walk pages cur (q # qs) =
     (case page_step pages cur q of Inl _ \<Rightarrow> False | Inr (pages', cur') \<Rightarrow> page_walk pages' cur' qs)"

lemma check_questions_Ok:
  "check_questions seen pages cur qs = Inr u \<longleftrightarrow>
     distinct (map qn_id qs) \<and> set (map qn_id qs) \<inter> set seen = {} \<and> page_walk pages cur qs \<and>
     (\<forall>q \<in> set qs. question_ok q)"
proof (induction qs arbitrary: seen pages cur)
  case (Cons q qs)
  show ?case
  proof (cases "page_step pages cur q")
    case (Inl e)
    then show ?thesis by (simp add: then_Ok)
  next
    case (Inr pc)
    obtain pages' cur' where pc: "pc = (pages', cur')" by fastforce
    from Inr have "page_meta_ok q"
      by (auto simp: page_step_def page_meta_ok_def split: option.splits if_splits)
    then show ?thesis
      using Cons.IH [of "qn_id q # seen" pages' cur'] Inr pc
      by (auto simp: then_Ok head_checks_Ok tail_checks_Ok question_ok_def page_meta_ok_def)
  qed
qed simp

abbreviation page_names :: "question list \<Rightarrow> string list" where
  "page_names qs \<equiv> map (\<lambda>q. the (qn_page_id q)) qs"

lemma page_walk_paged:
  "p \<in> set pages \<Longrightarrow> (\<forall>q \<in> set qs. page_meta_ok q) \<Longrightarrow> page_walk pages (Some p) qs \<longleftrightarrow>
     (\<forall>q \<in> set qs. qn_page_id q \<noteq> None) \<and> contiguous (p # page_names qs) \<and>
     (set (page_names qs) - {p}) \<inter> set pages = {} \<and> (\<forall>g \<in> set (page_names qs). \<not> bad_name MAX_ID_BYTES g)"
proof (induction qs arbitrary: p pages)
  case Nil
  then show ?case by (simp add: contiguous_def)
next
  case (Cons q qs)
  from Cons.prems have ne: "pages \<noteq> []" and meta: "\<forall>q \<in> set qs. page_meta_ok q" by auto
  show ?case
  proof (cases "qn_page_id q")
    case None
    with ne show ?thesis by (simp add: page_step_def)
  next
    case (Some g)
    show ?thesis
    proof (cases "g = p")
      case True
      with Some Cons.IH [OF Cons.prems(1) meta] show ?thesis by (auto simp: page_step_def contiguous_def)
    next
      case False
      have "page_walk (g # pages) (Some g) qs \<longleftrightarrow>
          (\<forall>q \<in> set qs. qn_page_id q \<noteq> None) \<and> contiguous (g # page_names qs) \<and>
          (set (page_names qs) - {g}) \<inter> set (g # pages) = {} \<and>
          (\<forall>g \<in> set (page_names qs). \<not> bad_name MAX_ID_BYTES g)"
        by (rule Cons.IH) (simp_all add: meta)
      with Some False Cons.prems(1) show ?thesis
        by (auto simp: page_step_def contiguous_def)
    qed
  qed
qed

lemma pages_ok_nil: "pages_ok []"
  by (auto simp: pages_ok_def contiguous_def intro: exI [of _ 0])

lemma pages_ok_flat: "pages_ok (None # ps) \<longleftrightarrow> pages_ok ps"
proof
  assume "pages_ok (None # ps)"
  then obtain n gs where p: "None # ps = replicate n None @ map Some gs"
    and ok: "contiguous gs" "\<forall>p \<in> set gs. \<not> bad_name MAX_ID_BYTES p"
    unfolding pages_ok_def by blast
  from p obtain m where "n = Suc m" by (cases n; cases gs) auto
  with p ok show "pages_ok ps" unfolding pages_ok_def by auto
next
  assume "pages_ok ps"
  then obtain n gs where "None # ps = replicate (Suc n) None @ map Some gs"
    and "contiguous gs" "\<forall>p \<in> set gs. \<not> bad_name MAX_ID_BYTES p"
    unfolding pages_ok_def by auto
  then show "pages_ok (None # ps)" unfolding pages_ok_def by blast
qed

lemma pages_ok_paged:
  "pages_ok (Some g # map f qs) \<longleftrightarrow> (\<forall>q \<in> set qs. f q \<noteq> None) \<and> contiguous (g # map (\<lambda>q. the (f q)) qs) \<and>
     (\<forall>p \<in> set (g # map (\<lambda>q. the (f q)) qs). \<not> bad_name MAX_ID_BYTES p)"
proof
  assume "pages_ok (Some g # map f qs)"
  then obtain n gs where p: "Some g # map f qs = replicate n None @ map Some gs"
    and ok: "contiguous gs" "\<forall>p \<in> set gs. \<not> bad_name MAX_ID_BYTES p"
    unfolding pages_ok_def by blast
  from p have "n = 0" by (cases n) auto
  with p obtain hs where hs: "gs = g # hs" "map f qs = map Some hs" by (cases gs) auto
  from arg_cong [OF hs(2), of "map the"] have "map (\<lambda>q. the (f q)) qs = hs" by (simp add: comp_def)
  moreover have "f q \<noteq> None" if "q \<in> set qs" for q
  proof -
    from that hs(2) have "f q \<in> set (map Some hs)" by (metis image_eqI list.set_map)
    then show ?thesis by auto
  qed
  ultimately show "(\<forall>q \<in> set qs. f q \<noteq> None) \<and> contiguous (g # map (\<lambda>q. the (f q)) qs) \<and>
     (\<forall>p \<in> set (g # map (\<lambda>q. the (f q)) qs). \<not> bad_name MAX_ID_BYTES p)" using ok hs by simp
next
  let ?gs = "g # map (\<lambda>q. the (f q)) qs"
  assume a: "(\<forall>q \<in> set qs. f q \<noteq> None) \<and> contiguous ?gs \<and> (\<forall>p \<in> set ?gs. \<not> bad_name MAX_ID_BYTES p)"
  then have "Some g # map f qs = replicate 0 None @ map Some ?gs" by auto
  with a show "pages_ok (Some g # map f qs)" unfolding pages_ok_def by blast
qed

lemma page_walk_flat:
  "(\<forall>q \<in> set qs. page_meta_ok q) \<Longrightarrow> page_walk [] None qs \<longleftrightarrow> pages_ok (map qn_page_id qs)"
proof (induction qs)
  case Nil
  show ?case by (auto simp: pages_ok_def contiguous_def intro: exI [of _ 0])
next
  case (Cons q qs)
  show ?case
  proof (cases "qn_page_id q")
    case None
    with Cons have "page_walk [] None (q # qs) \<longleftrightarrow> pages_ok (map qn_page_id qs)"
      by (simp add: page_step_def page_meta_ok_def)
    also have "\<dots> \<longleftrightarrow> pages_ok (map qn_page_id (q # qs))"
      by (simp add: None pages_ok_flat)
    finally show ?thesis .
  next
    case (Some g)
    have "page_walk [g] (Some g) qs \<longleftrightarrow>
        (\<forall>q \<in> set qs. qn_page_id q \<noteq> None) \<and> contiguous (g # page_names qs) \<and>
        (set (page_names qs) - {g}) \<inter> set [g] = {} \<and> (\<forall>g \<in> set (page_names qs). \<not> bad_name MAX_ID_BYTES g)"
      by (rule page_walk_paged) (use Cons.prems in auto)
    with Some show ?thesis
      by (auto simp: page_step_def pages_ok_paged)
  qed
qed

theorem questionnaire_contract:
  "validate_questions title description qs = Ok () \<longleftrightarrow> questionnaire_ok title description qs"
proof -
  have "(\<forall>q \<in> set qs. question_ok q) \<Longrightarrow> page_walk [] None qs \<longleftrightarrow> pages_ok (map qn_page_id qs)"
    by (rule page_walk_flat) (simp add: question_ok_def page_meta_ok_def)
  then show ?thesis
    by (auto simp: validate_questions_def questionnaire_ok_def check_questions_Ok not_less)
qed

subsection \<open>The contract of the answers\<close>

definition answer_ok :: "question \<Rightarrow> question_answer \<Rightarrow> bool" where
  "answer_ok q a \<longleftrightarrow> text_within MAX_ANSWER_TEXT_BYTES (an_text a) \<and>
     set (an_selected a) \<subseteq> set (map op_label (qn_options q)) \<and>
     (qn_kind q \<in> {Options, Confirm} \<longrightarrow> length (an_selected a) \<le> 1) \<and>
     (\<forall>v. an_value a = Some v \<longrightarrow> qn_kind q = Rating \<and> in_scale q v)"

definition answers_ok :: "question list \<Rightarrow> question_answer list \<Rightarrow> bool" where
  "answers_ok qs ans \<longleftrightarrow> distinct (map an_question_id ans) \<and>
     (\<forall>a \<in> set ans. \<exists>q. question_of qs (an_question_id a) = Some q \<and> answer_ok q a)"

definition answers_complete :: "question list \<Rightarrow> question_answer list \<Rightarrow> bool" where
  "answers_complete qs ans \<longleftrightarrow>
     (\<forall>q \<in> set qs. qn_required q \<longrightarrow> (\<exists>a \<in> set ans. an_question_id a = qn_id q \<and> present q a))"

lemma answer_checks_Ok: "first_err (answer_checks q a) = Inr u \<longleftrightarrow> answer_ok q a"
  by (cases "an_value a") (auto simp: answer_checks_def answer_ok_def not_less)

lemma check_answers_Ok:
  "check_answers qs seen ans = Inr u \<longleftrightarrow> set (map an_question_id ans) \<inter> set seen = {} \<and> answers_ok qs ans"
proof (induction ans arbitrary: seen)
  case Nil
  show ?case by (simp add: answers_ok_def)
next
  case (Cons a ans)
  then show ?case
    by (cases "question_of qs (an_question_id a)") (auto simp: answers_ok_def then_Ok answer_checks_Ok)
qed

lemma find_answer:
  "distinct (map an_question_id ans) \<Longrightarrow>
     (\<exists>a. find (\<lambda>a. an_question_id a = i) ans = Some a \<and> P a) \<longleftrightarrow> (\<exists>a \<in> set ans. an_question_id a = i \<and> P a)"
  by (induction ans) (auto simp: image_iff)

lemma check_required_Ok:
  "distinct (map an_question_id ans) \<Longrightarrow>
     check_required ans q = Inr () \<longleftrightarrow> (\<exists>a \<in> set ans. an_question_id a = qn_id q \<and> present q a)"
  using find_answer [of ans "qn_id q" "present q"]
  by (auto simp: check_required_def split: option.splits)

lemma answers_accepted:
  "validate_answers qs ans complete = Inr u \<longleftrightarrow>
     answers_ok qs ans \<and> (complete \<longrightarrow> answers_complete qs ans)"
proof -
  have "validate_answers qs ans complete = Inr u \<longleftrightarrow> check_answers qs [] ans = Inr () \<and>
      (complete \<longrightarrow> (\<forall>q \<in> set qs. qn_required q \<longrightarrow> check_required ans q = Inr ()))"
    by (auto simp: validate_answers_def first_err_Ok)
  then show ?thesis
    by (auto simp: check_answers_Ok answers_complete_def check_required_Ok answers_ok_def)
qed

subsection \<open>The life of an interaction\<close>

text \<open>
  A request, with the requests other connections complete between its read and its write.
\<close>

datatype iop =
    Ask env string "string option" "string option" "string option" "question list"
  | Answer env string "question_answer list" "iop list"
  | KeepDraft string "question_answer list" nat "iop list"
  | Drop env string
  | DropSession env string
  | Sweep env

fun istep :: "iop \<Rightarrow> interactions \<Rightarrow> interactions" and iruns :: "iop list \<Rightarrow> interactions \<Rightarrow> interactions" where
  "istep (Ask e sid rid t desc qs) xs = snd (create_with_metadata e sid rid t desc qs xs)"
| "istep (Answer e i ans ops) xs = snd (resolve e i ans (iruns ops) xs)"
| "istep (KeepDraft i ans pg ops) xs = snd (save_draft i ans pg (iruns ops) xs)"
| "istep (Drop e i) xs = cancel e i xs"
| "istep (DropSession e sid) xs = snd (cancel_pending_for_session e sid xs)"
| "istep (Sweep e) xs = snd (sweep_orphans e xs)"
| "iruns [] xs = xs"
| "iruns (x # ops) xs = iruns ops (istep x xs)"

lemma iruns_fold: "iruns ops = fold istep ops"
proof (rule ext)
  show "iruns ops xs = fold istep ops xs" for xs by (induction ops arbitrary: xs) simp_all
qed

text \<open>What a row may become: the same questionnaire, and nothing else once it is settled.\<close>

definition settled :: "interaction \<Rightarrow> bool" where
  "settled r \<longleftrightarrow> in_status r \<noteq> Interaction_pending"

definition evolves :: "interaction \<Rightarrow> interaction \<Rightarrow> bool" where
  "evolves r r' \<longleftrightarrow> in_questions r' = in_questions r \<and> (settled r \<longrightarrow> r' = r)"

lemma evolves_refl [simp]: "evolves r r"
  by (simp add: evolves_def)

lemma evolves_trans: "evolves r s \<Longrightarrow> evolves s t \<Longrightarrow> evolves r t"
  by (auto simp: evolves_def)

definition keeps_rows :: "(interactions \<Rightarrow> interactions) \<Rightarrow> bool" where
  "keeps_rows f \<longleftrightarrow> (\<forall>xs i r. lookup_by in_id i xs = Some r \<longrightarrow>
     (\<exists>r'. lookup_by in_id i (f xs) = Some r' \<and> evolves r r'))"

lemma keeps_rowsI:
  "(\<And>xs i r. lookup_by in_id i xs = Some r \<Longrightarrow> \<exists>r'. lookup_by in_id i (f xs) = Some r' \<and> evolves r r') \<Longrightarrow>
     keeps_rows f"
  by (simp add: keeps_rows_def)

lemma keeps_rowsD:
  "keeps_rows f \<Longrightarrow> lookup_by in_id i xs = Some r \<Longrightarrow>
     \<exists>r'. lookup_by in_id i (f xs) = Some r' \<and> evolves r r'"
  by (simp add: keeps_rows_def)

lemma keeps_rows_comp: "keeps_rows f \<Longrightarrow> keeps_rows g \<Longrightarrow> keeps_rows (\<lambda>xs. g (f xs))"
  unfolding keeps_rows_def by (meson evolves_trans)

lemma keeps_rows_fold: "(\<And>x. x \<in> set ops \<Longrightarrow> keeps_rows (step x)) \<Longrightarrow> keeps_rows (\<lambda>xs. fold step ops xs)"
proof (induction ops)
  case Nil
  then show ?case by (simp add: keeps_rows_def)
next
  case (Cons x ops)
  then show ?case using keeps_rows_comp [of "step x" "\<lambda>xs. fold step ops xs"] by simp
qed

lemma keeps_rows_upd:
  "(\<And>r. P r \<Longrightarrow> \<not> settled r) \<Longrightarrow> (\<And>r. in_id (f r) = in_id r) \<Longrightarrow>
   (\<And>r. in_questions (f r) = in_questions r) \<Longrightarrow> keeps_rows (upd_where P f)"
  by (auto simp: keeps_rows_def lookup_by_upd_where evolves_def)

lemma open_not_settled: "open_row i r \<Longrightarrow> \<not> settled r" "pending_in sid r \<Longrightarrow> \<not> settled r"
  by (auto simp: open_row_def pending_in_def settled_def)

lemma create_snd:
  "snd (create_with_metadata e sid rid t desc qs xs) = xs \<or>
   (\<exists>row. snd (create_with_metadata e sid rid t desc qs xs) = xs @ [row] \<and> in_id row \<notin> in_id ` set xs \<and>
      validate_questions t desc qs = Ok () \<and>
      row = \<lparr>in_id = gen_id (e_nanos e 0), in_session_id = sid, in_run_id = rid, in_title = t,
             in_description = desc, in_questions = qs, in_status = Interaction_pending, in_answers = None,
             in_draft_answers = None, in_current_page = 0, in_created_at = e_millis e 0, in_resolved_at = None\<rparr>)"
  by (auto simp: create_with_metadata_def Let_def insert_checked_Ok split: sum.splits)

text \<open>The answer is written only over a row that is still open; otherwise only the other requests count.\<close>

definition answer_row :: "env \<Rightarrow> question_answer list \<Rightarrow> interaction \<Rightarrow> interaction" where
  "answer_row e ans r = r\<lparr>in_status := Answered, in_answers := Some ans, in_draft_answers := None,
     in_resolved_at := Some (e_millis e 0)\<rparr>"

definition draft_row :: "question_answer list \<Rightarrow> nat \<Rightarrow> interaction \<Rightarrow> interaction" where
  "draft_row ans pg r = r\<lparr>in_draft_answers := Some ans, in_current_page := pg\<rparr>"

lemma resolve_cases:
  obtains (refused) "snd (resolve e i ans between xs) = xs" "\<not> is_ok (fst (resolve e i ans between xs))"
  | (written) r where "lookup_by in_id i xs = Some r" "\<not> settled r" "answers_ok (in_questions r) ans"
      "answers_complete (in_questions r) ans"
      "snd (resolve e i ans between xs) = upd_where (open_row i) (answer_row e ans) (between xs)"
proof (cases "lookup_by in_id i xs")
  case None
  then show ?thesis using refused by (simp add: resolve_def get_interaction_def)
next
  case (Some r)
  show ?thesis
  proof (cases "settled r \<or> validate_answers (in_questions r) ans True \<noteq> Ok ()")
    case True
    with Some show ?thesis using refused
      by (auto simp: resolve_def get_interaction_def settled_def split: sum.splits)
  next
    case False
    with Some show ?thesis
      using written [of r] answers_accepted [of "in_questions r" ans True]
      by (auto simp: resolve_def get_interaction_def settled_def Let_def answer_row_def [abs_def])
  qed
qed

lemma save_draft_cases:
  obtains (refused) "snd (save_draft i ans pg between xs) = xs"
  | (written) r where "lookup_by in_id i xs = Some r" "\<not> settled r" "answers_ok (in_questions r) ans"
      "pg < page_count (in_questions r)"
      "snd (save_draft i ans pg between xs) = upd_where (open_row i) (draft_row ans pg) (between xs)"
proof (cases "lookup_by in_id i xs")
  case None
  then show ?thesis using refused by (simp add: save_draft_def get_interaction_def)
next
  case (Some r)
  show ?thesis
  proof (cases "settled r \<or> validate_answers (in_questions r) ans False \<noteq> Ok () \<or> page_count (in_questions r) \<le> pg")
    case True
    with Some show ?thesis using refused
      by (auto simp: save_draft_def get_interaction_def settled_def Let_def split: sum.splits)
  next
    case False
    with Some show ?thesis
      using written [of r] answers_accepted [of "in_questions r" ans False]
      by (auto simp: save_draft_def get_interaction_def settled_def Let_def draft_row_def [abs_def])
  qed
qed

lemma istep_keeps_rows: "keeps_rows (istep x)"
proof (induction x)
  case (Ask e sid rid t desc qs)
  show ?case
  proof (rule keeps_rowsI)
    fix xs :: interactions and i r assume "lookup_by in_id i xs = Some r"
    then show "\<exists>r'. lookup_by in_id i (istep (Ask e sid rid t desc qs) xs) = Some r' \<and> evolves r r'"
      using create_snd [of e sid rid t desc qs xs] by (auto simp: lookup_by_append)
  qed
next
  case (Answer e i ans ops)
  then have f: "keeps_rows (\<lambda>xs. upd_where (open_row i) (answer_row e ans) (iruns ops xs))"
    unfolding iruns_fold
    by (intro keeps_rows_comp [OF keeps_rows_fold keeps_rows_upd])
      (simp_all add: answer_row_def open_not_settled)
  show ?case
  proof (rule keeps_rowsI)
    fix xs :: interactions and j r assume r: "lookup_by in_id j xs = Some r"
    show "\<exists>r'. lookup_by in_id j (istep (Answer e i ans ops) xs) = Some r' \<and> evolves r r'"
      by (cases rule: resolve_cases [of e i ans "iruns ops" xs])
        (use r keeps_rowsD [OF f r] in simp_all)
  qed
next
  case (KeepDraft i ans pg ops)
  then have f: "keeps_rows (\<lambda>xs. upd_where (open_row i) (draft_row ans pg) (iruns ops xs))"
    unfolding iruns_fold
    by (intro keeps_rows_comp [OF keeps_rows_fold keeps_rows_upd])
      (simp_all add: draft_row_def open_not_settled)
  show ?case
  proof (rule keeps_rowsI)
    fix xs :: interactions and j r assume r: "lookup_by in_id j xs = Some r"
    show "\<exists>r'. lookup_by in_id j (istep (KeepDraft i ans pg ops) xs) = Some r' \<and> evolves r r'"
      by (cases rule: save_draft_cases [of i ans pg "iruns ops" xs])
        (use r keeps_rowsD [OF f r] in simp_all)
  qed
next
  case (Drop e i)
  have "keeps_rows (cancel e i)"
    unfolding cancel_def [abs_def] by (rule keeps_rows_upd) (simp_all add: cancelled_at_def open_not_settled)
  then show ?case by (simp add: keeps_rows_def)
next
  case (DropSession e sid)
  have "keeps_rows (upd_where (pending_in sid) (cancelled_at (e_millis e 0)))"
    by (rule keeps_rows_upd) (simp_all add: cancelled_at_def open_not_settled)
  then show ?case by (simp add: keeps_rows_def cancel_pending_for_session_def)
next
  case (Sweep e)
  have "keeps_rows (upd_where (\<lambda>r. in_status r = Interaction_pending) (cancelled_at (e_millis e 0)))"
    by (rule keeps_rows_upd) (simp_all add: cancelled_at_def settled_def)
  then show ?case by (simp add: keeps_rows_def sweep_orphans_def)
qed

interpretation interaction_life: settle_once istep "\<lambda>i xs. lookup_by in_id i xs" settled
proof
  fix i r x and xs :: interactions
  assume "lookup_by in_id i xs = Some r" and "settled r"
  then show "lookup_by in_id i (istep x xs) = Some r"
    using keeps_rowsD [OF istep_keeps_rows] by (fastforce simp: evolves_def)
qed

subsection \<open>The invariant of the table\<close>

definition row_ok :: "interaction \<Rightarrow> bool" where
  "row_ok r \<longleftrightarrow> questionnaire_ok (in_title r) (in_description r) (in_questions r) \<and>
     in_current_page r < page_count (in_questions r) \<and>
     (\<forall>d. in_draft_answers r = Some d \<longrightarrow> answers_ok (in_questions r) d) \<and>
     (case in_status r of
        Interaction_pending \<Rightarrow> in_answers r = None \<and> in_resolved_at r = None
      | Answered \<Rightarrow> in_draft_answers r = None \<and> in_resolved_at r \<noteq> None \<and>
          (\<exists>ans. in_answers r = Some ans \<and> answers_ok (in_questions r) ans \<and> answers_complete (in_questions r) ans)
      | Interaction_cancelled \<Rightarrow> in_answers r = None \<and> in_resolved_at r \<noteq> None)"

definition table_ok :: "interactions \<Rightarrow> bool" where
  "table_ok xs \<longleftrightarrow> distinct (map in_id xs) \<and> (\<forall>r \<in> set xs. row_ok r)"

lemma page_count_pos: "0 < page_count qs"
  by (simp add: page_count_def)

lemma table_ok_upd:
  "table_ok xs \<Longrightarrow> (\<And>r. in_id (f r) = in_id r) \<Longrightarrow> (\<And>r. r \<in> set xs \<Longrightarrow> P r \<Longrightarrow> row_ok r \<Longrightarrow> row_ok (f r)) \<Longrightarrow>
     table_ok (upd_where P f xs)"
  by (auto simp: table_ok_def map_key_upd_where set_upd_where)

lemma cancelled_row_ok: "\<not> settled r \<Longrightarrow> row_ok r \<Longrightarrow> row_ok (cancelled_at now r)"
  by (auto simp: row_ok_def settled_def cancelled_at_def)

lemma fold_keeps: "(\<And>x s. x \<in> set es \<Longrightarrow> J s \<Longrightarrow> J (step x s)) \<Longrightarrow> J s \<Longrightarrow> J (fold step es s)"
  by (induction es arbitrary: s) simp_all

text \<open>The row an update finds open asks the questions its request was checked against.\<close>

lemma open_row_questions:
  assumes "table_ok (iruns ops xs)" and "lookup_by in_id i xs = Some r"
    and "s \<in> set (iruns ops xs)" and "open_row i s"
  shows "in_questions s = in_questions r"
proof -
  have "keeps_rows (iruns ops)" unfolding iruns_fold by (rule keeps_rows_fold) (rule istep_keeps_rows)
  from keeps_rowsD [OF this assms(2)] obtain r' where
    r': "lookup_by in_id i (iruns ops xs) = Some r'" "in_questions r' = in_questions r"
    by (auto simp: evolves_def)
  have "lookup_by in_id (in_id s) (iruns ops xs) = Some s"
    using assms(1,3) by (intro lookup_by_distinct) (simp_all add: table_ok_def)
  with r' assms(4) show ?thesis by (simp add: open_row_def)
qed

lemma istep_table_ok: "table_ok xs \<Longrightarrow> table_ok (istep x xs)"
proof (induction x arbitrary: xs)
  case (Ask e sid rid t desc qs)
  then show ?case
    using create_snd [of e sid rid t desc qs xs]
    by (auto simp: table_ok_def row_ok_def questionnaire_contract [symmetric] page_count_pos)
next
  case (Answer e i ans ops)
  then have inv: "table_ok (iruns ops xs)" unfolding iruns_fold by (rule fold_keeps)
  show ?case
  proof (cases rule: resolve_cases [of e i ans "iruns ops" xs])
    case (written r)
    have "row_ok (answer_row e ans s)" if "s \<in> set (iruns ops xs)" "open_row i s" "row_ok s" for s
      using that written(3,4) open_row_questions [OF inv written(1) that(1,2)]
      by (auto simp: row_ok_def answer_row_def)
    with written(5) inv show ?thesis by (simp add: table_ok_upd answer_row_def)
  qed (simp add: Answer)
next
  case (KeepDraft i ans pg ops)
  then have inv: "table_ok (iruns ops xs)" unfolding iruns_fold by (rule fold_keeps)
  show ?case
  proof (cases rule: save_draft_cases [of i ans pg "iruns ops" xs])
    case (written r)
    have "row_ok (draft_row ans pg s)" if "s \<in> set (iruns ops xs)" "open_row i s" "row_ok s" for s
      using that written(3,4) open_row_questions [OF inv written(1) that(1,2)]
      by (auto simp: row_ok_def draft_row_def open_row_def)
    with written(5) inv show ?thesis by (simp add: table_ok_upd draft_row_def)
  qed (simp add: KeepDraft)
next
  case (Drop e i)
  then show ?case
    by (auto simp: cancel_def cancelled_at_def intro!: table_ok_upd cancelled_row_ok [unfolded cancelled_at_def] dest: open_not_settled)
next
  case (DropSession e sid)
  then show ?case
    by (auto simp: cancel_pending_for_session_def cancelled_at_def
        intro!: table_ok_upd cancelled_row_ok [unfolded cancelled_at_def] dest: open_not_settled)
next
  case (Sweep e)
  then show ?case
    by (auto simp: sweep_orphans_def cancelled_at_def settled_def
        intro!: table_ok_upd cancelled_row_ok [unfolded cancelled_at_def])
qed

interpretation interaction_table: machine istep table_ok
  by unfold_locales (rule istep_table_ok)

text \<open>
  C18: over any sequence of requests, with other requests committed between the read and the write of
  each, every stored interaction asks a valid questionnaire, its draft is well formed and its page
  exists, and it is pending without answers, cancelled without answers, or answered with well-formed
  answers to every required question; once it is answered or cancelled its row never changes again.
\<close>

theorem interaction_settles_once:
  assumes "table_ok xs"
  shows "table_ok (fold istep ops xs) \<and>
    (\<forall>i r. lookup_by in_id i xs = Some r \<and> settled r \<longrightarrow> lookup_by in_id i (fold istep ops xs) = Some r)"
  using interaction_table.run_inv [OF assms] interaction_life.run_settled by blast

text \<open>
  C34: a questionnaire is accepted exactly when its texts fit, its question ids, option labels and page
  runs are distinct, every recommendation is an option, only ratings have scales and these lie in
  0..10. Flat questions may come first and paged ones after them.
\<close>

theorem questionnaire_accepted_iff:
  "validate_questions title description qs = Ok () \<longleftrightarrow> questionnaire_ok title description qs"
  by (rule questionnaire_contract)

lemma one_open:
  assumes "table_ok ys" and "lookup_by in_id i ys = Some r"
  shows "length (filter (open_row i) ys) = (if settled r then 0 else 1)"
proof -
  have "filter (open_row i) ys = (if settled r then [] else [r])"
    using assms
  proof (induction ys)
    case (Cons y ys)
    show ?case
    proof (cases "in_id y = i")
      case True
      then have "filter (open_row i) ys = []"
        using Cons.prems(1) by (auto simp: table_ok_def open_row_def filter_empty_conv image_iff)
      moreover have "open_row i y \<longleftrightarrow> \<not> settled y" using True by (simp add: open_row_def settled_def)
      ultimately show ?thesis using True Cons.prems(2) by auto
    next
      case False
      then have "\<not> open_row i y" by (simp add: open_row_def)
      with False Cons show ?thesis by (simp add: table_ok_def)
    qed
  qed simp
  then show ?thesis by simp
qed

lemma lookup_answered:
  "lookup_by in_id i ys = Some r \<Longrightarrow> \<not> settled r \<Longrightarrow>
     lookup_by in_id i (upd_where (open_row i) (answer_row e ans) ys) = Some (answer_row e ans r)"
  by (auto simp: lookup_by_upd_where answer_row_def open_row_def settled_def dest: lookup_by_SomeD)

lemma resolve_written:
  assumes "lookup_by in_id i xs = Some r" and "\<not> settled r" and "answers_ok (in_questions r) ans"
    and "answers_complete (in_questions r) ans" and "lookup_by in_id i (between xs) = Some r'"
    and "length (filter (open_row i) (between xs)) = (if settled r' then 0 else 1)"
  shows "resolve e i ans between xs =
    (if settled r' then Err (already_resolved i) else Ok (answer_row e ans r'),
     upd_where (open_row i) (answer_row e ans) (between xs))"
proof -
  have v: "validate_answers (in_questions r) ans True = Inr ()"
    using assms(3,4) answers_accepted [of "in_questions r" ans True] by simp
  have "resolve e i ans between xs =
      (let zs = upd_where (open_row i) (answer_row e ans) (between xs)
       in if length (filter (open_row i) (between xs)) \<noteq> 1 then (Err (already_resolved i), zs)
          else (case lookup_by in_id i zs of None \<Rightarrow> Err ''Interaction not found after resolve'' | Some r' \<Rightarrow> Ok r', zs))"
    using assms(1,2) v by (simp add: resolve_def get_interaction_def settled_def answer_row_def [abs_def] Let_def)
  with assms(5,6) show ?thesis by (simp add: Let_def lookup_answered)
qed

lemma answer_outcome:
  assumes "table_ok xs"
  shows "(is_ok (fst (resolve e i ans (iruns ops) xs)) \<longleftrightarrow>
      (\<exists>r r'. lookup_by in_id i xs = Some r \<and> \<not> settled r \<and> answers_ok (in_questions r) ans \<and>
         answers_complete (in_questions r) ans \<and> lookup_by in_id i (iruns ops xs) = Some r' \<and> \<not> settled r')) \<and>
    (if is_ok (fst (resolve e i ans (iruns ops) xs))
     then map_option in_answers (lookup_by in_id i (snd (resolve e i ans (iruns ops) xs))) = Some (Some ans)
     else snd (resolve e i ans (iruns ops) xs) \<in> {xs, iruns ops xs})"
proof -
  let ?res = "resolve e i ans (iruns ops) xs"
  have keep: "keeps_rows (iruns ops)" unfolding iruns_fold by (rule keeps_rows_fold) (rule istep_keeps_rows)
  have inv: "table_ok (iruns ops xs)" unfolding iruns_fold using assms by (rule interaction_table.run_inv)
  show ?thesis
  proof (cases rule: resolve_cases [of e i ans "iruns ops" xs])
    case refused
    have "\<not> (\<exists>r r'. lookup_by in_id i xs = Some r \<and> \<not> settled r \<and> answers_ok (in_questions r) ans \<and>
         answers_complete (in_questions r) ans \<and> lookup_by in_id i (iruns ops xs) = Some r' \<and> \<not> settled r')"
    proof
      assume "\<exists>r r'. lookup_by in_id i xs = Some r \<and> \<not> settled r \<and> answers_ok (in_questions r) ans \<and>
         answers_complete (in_questions r) ans \<and> lookup_by in_id i (iruns ops xs) = Some r' \<and> \<not> settled r'"
      then obtain r r' where w: "lookup_by in_id i xs = Some r" "\<not> settled r" "answers_ok (in_questions r) ans"
        "answers_complete (in_questions r) ans" "lookup_by in_id i (iruns ops xs) = Some r'" "\<not> settled r'"
        by blast
      then have "is_ok (fst ?res)"
        using one_open [OF inv w(5)] by (simp add: resolve_written)
      with refused show False by simp
    qed
    with refused show ?thesis by simp
  next
    case (written r)
    from keeps_rowsD [OF keep written(1)] obtain r' where r': "lookup_by in_id i (iruns ops xs) = Some r'" by blast
    with written have "?res = (if settled r' then Err (already_resolved i) else Ok (answer_row e ans r'),
        upd_where (open_row i) (answer_row e ans) (iruns ops xs))"
      using one_open [OF inv r'] by (simp add: resolve_written)
    moreover have "upd_where (open_row i) (answer_row e ans) (iruns ops xs) = iruns ops xs" if "settled r'"
      using one_open [OF inv r'] that by (intro upd_where_none) (simp add: filter_empty_conv)
    moreover have "lookup_by in_id i (upd_where (open_row i) (answer_row e ans) (iruns ops xs)) =
        Some (answer_row e ans r')" if "\<not> settled r'"
      using r' that by (simp add: lookup_answered)
    ultimately show ?thesis using written r' by (auto simp: answer_row_def)
  qed
qed

lemma answer_stored:
  assumes "table_ok xs" and "is_ok (fst (resolve e i ans (iruns ops) xs))"
  shows "map_option in_answers (lookup_by in_id i (snd (resolve e i ans (iruns ops) xs))) = Some (Some ans)"
  using answer_outcome [OF assms(1), of e i ans ops] assms(2) by (simp del: iruns.simps)

text \<open>
  C36: an answer is accepted exactly when the interaction is pending when it is read, the answers are
  well formed and complete, and no request that came in between has settled it; then the answer is
  stored, and otherwise the table holds what the other requests left.
\<close>

theorem answer_accepted_iff:
  assumes "table_ok xs"
  shows "(is_ok (fst (resolve e i ans (iruns ops) xs)) \<longleftrightarrow>
      (\<exists>r r'. lookup_by in_id i xs = Some r \<and> \<not> settled r \<and> answers_ok (in_questions r) ans \<and>
         answers_complete (in_questions r) ans \<and> lookup_by in_id i (iruns ops xs) = Some r' \<and> \<not> settled r')) \<and>
    (if is_ok (fst (resolve e i ans (iruns ops) xs))
     then map_option in_answers (lookup_by in_id i (snd (resolve e i ans (iruns ops) xs))) = Some (Some ans)
     else snd (resolve e i ans (iruns ops) xs) \<in> {xs, iruns ops xs})"
  using assms by (rule answer_outcome)

subsection \<open>A sample\<close>

definition sample_question :: "string \<Rightarrow> question_kind \<Rightarrow> string list \<Rightarrow> question" where
  "sample_question i k opts = \<lparr>qn_id = i, qn_prompt = ''Which?'', qn_kind = k,
     qn_options = map (\<lambda>l. \<lparr>op_label = l, op_description = None\<rparr>) opts, qn_recommended = None,
     qn_allow_free_text = False, qn_detail = None, qn_page_id = None, qn_page_title = None,
     qn_page_description = None, qn_required = True, qn_multiline = False, qn_scale = None\<rparr>"

definition sample_answer :: "string \<Rightarrow> string list \<Rightarrow> question_answer" where
  "sample_answer i sel = \<lparr>an_question_id = i, an_selected = sel, an_text = None, an_value = None\<rparr>"

definition sample_asked :: "question list \<Rightarrow> interactions" where
  "sample_asked qs = istep (Ask env0 ''c1'' (Some ''call-1'') None None qs) []"

definition colour :: "question list" where
  "colour = [sample_question ''q1'' Options [''red'', ''blue'']]"

lemma sample_asked_ok: "table_ok (sample_asked qs)"
  unfolding sample_asked_def by (rule istep_table_ok) (simp add: table_ok_def)

definition asked_row :: "question list \<Rightarrow> interaction" where
  "asked_row qs = \<lparr>in_id = ''a'', in_session_id = ''c1'', in_run_id = Some ''call-1'', in_title = None,
     in_description = None, in_questions = qs, in_status = Interaction_pending, in_answers = None,
     in_draft_answers = None, in_current_page = 0, in_created_at = 5, in_resolved_at = None\<rparr>"

lemma sample_id: "gen_id 10 = ''a''"
  by code_simp

lemma sample_asked_row: "questionnaire_ok None None qs \<Longrightarrow> sample_asked qs = [asked_row qs]"
  by (simp add: sample_asked_def asked_row_def create_with_metadata_def sample_id Let_def insert_checked_def
      insert_row_def questionnaire_contract [symmetric] get_interaction_def env0_def)

lemma sample_question_ok:
  "k \<noteq> Rating \<Longrightarrow> opts = [] \<or> opts = [''red'', ''blue''] \<Longrightarrow>
     questionnaire_ok None None [sample_question ''q1'' k opts]"
  by (auto simp: questionnaire_ok_def question_ok_def options_ok_def kind_ok_def text_within_def limit_defs
      pages_ok_flat pages_ok_nil sample_question_def bad_name_def text_eval)

lemma colour_asked: "sample_asked colour = [asked_row colour]"
  unfolding colour_def by (rule sample_asked_row) (rule sample_question_ok, simp_all)

definition red :: iop where "red = Answer env0 ''a'' [sample_answer ''q1'' [''red'']] []"

lemma colour_answered:
  assumes "c \<in> {''red'', ''blue''}" and "lookup_by in_id ''a'' (between [asked_row colour]) = Some r'"
    and "length (filter (open_row ''a'') (between [asked_row colour])) = (if settled r' then 0 else 1)"
  shows "resolve env0 ''a'' [sample_answer ''q1'' [c]] between [asked_row colour] =
    (if settled r' then Err (already_resolved ''a'') else Ok (answer_row env0 [sample_answer ''q1'' [c]] r'),
     upd_where (open_row ''a'') (answer_row env0 [sample_answer ''q1'' [c]]) (between [asked_row colour]))"
proof (rule resolve_written [where r = "asked_row colour" and xs = "[asked_row colour]"])
  show "answers_ok (in_questions (asked_row colour)) [sample_answer ''q1'' [c]]"
    and "answers_complete (in_questions (asked_row colour)) [sample_answer ''q1'' [c]]"
    using assms(1)
    by (auto simp: asked_row_def colour_def answers_ok_def answers_complete_def question_of_def sample_question_def
        sample_answer_def answer_ok_def present_def text_within_def)
qed (use assms(2,3) in \<open>simp_all add: asked_row_def settled_def\<close>)

lemma red_run: "istep red [asked_row colour] = [answer_row env0 [sample_answer ''q1'' [''red'']] (asked_row colour)]"
  using colour_answered [of "''red''" "iruns []" "asked_row colour"]
  by (simp add: red_def asked_row_def settled_def open_row_def)

theorem interaction_settles_once_witness:
  "table_ok (fold istep [red, Sweep env0] (sample_asked colour)) \<and>
   map_option in_status (lookup_by in_id ''a'' (fold istep [Sweep env0, Drop env0 ''a''] (istep red (sample_asked colour)))) =
     Some Answered"
proof -
  let ?xs = "istep red (sample_asked colour)" and ?r = "answer_row env0 [sample_answer ''q1'' [''red'']] (asked_row colour)"
  have r: "lookup_by in_id ''a'' ?xs = Some ?r" and s: "settled ?r" "in_status ?r = Answered"
    by (simp_all add: colour_asked red_run) (simp_all add: answer_row_def asked_row_def settled_def)
  have "table_ok ?xs" by (rule istep_table_ok) (rule sample_asked_ok)
  with r s(1) have "lookup_by in_id ''a'' (fold istep [Sweep env0, Drop env0 ''a''] ?xs) = Some ?r"
    using interaction_settles_once [of ?xs "[Sweep env0, Drop env0 ''a'']"] by blast
  with s(2) interaction_settles_once [OF sample_asked_ok [of colour], of "[red, Sweep env0]"] show ?thesis by simp
qed

text \<open>Two answers race: the one committed in between wins, the other is refused.\<close>

theorem answer_accepted_iff_witness:
  "\<not> is_ok (fst (resolve env0 ''a'' [sample_answer ''q1'' [''blue'']] (iruns [red]) (sample_asked colour))) \<and>
   map_option in_answers (lookup_by in_id ''a''
      (snd (resolve env0 ''a'' [sample_answer ''q1'' [''blue'']] (iruns []) (sample_asked colour)))) =
     Some (Some [sample_answer ''q1'' [''blue'']])"
proof -
  have "lookup_by in_id ''a'' (iruns [red] (sample_asked colour)) =
      Some (answer_row env0 [sample_answer ''q1'' [''red'']] (asked_row colour))"
    by (simp add: colour_asked red_run) (simp add: answer_row_def asked_row_def)
  then have "\<not> is_ok (fst (resolve env0 ''a'' [sample_answer ''q1'' [''blue'']] (iruns [red]) (sample_asked colour)))"
    using answer_accepted_iff [OF sample_asked_ok [of colour], of env0 "''a''" "[sample_answer ''q1'' [''blue'']]" "[red]"]
    by (auto simp: answer_row_def settled_def simp del: iruns.simps)
  moreover have "is_ok (fst (resolve env0 ''a'' [sample_answer ''q1'' [''blue'']] (iruns []) (sample_asked colour)))"
    using colour_answered [of "''blue''" "iruns []" "asked_row colour"]
    by (simp add: colour_asked asked_row_def settled_def open_row_def)
  ultimately show ?thesis
    using answer_accepted_iff [OF sample_asked_ok [of colour], of env0 "''a''" "[sample_answer ''q1'' [''blue'']]" "[]"]
    by (simp del: iruns.simps)
qed

text \<open>
  A required choice without options and without free text is accepted when it is asked, but no
  answer to it is ever accepted: such an interaction can only be cancelled.
\<close>

theorem unanswerable_question:
  assumes "table_ok xs" and "lookup_by in_id i xs = Some r" and "q \<in> set (in_questions r)" and "qn_required q"
    and "qn_kind q \<in> {Options, Multi, Confirm}" and "qn_options q = []" and "\<not> qn_allow_free_text q"
  shows "\<not> is_ok (fst (resolve e i ans (iruns ops) xs))"
proof -
  have row: "row_ok r" using assms(1,2) by (auto simp: table_ok_def dest: lookup_by_SomeD)
  then have distinct: "distinct (map qn_id (in_questions r))" and ok: "question_ok q"
    using assms(3) by (auto simp: row_ok_def questionnaire_ok_def)
  have "\<not> (answers_ok (in_questions r) ans \<and> answers_complete (in_questions r) ans)"
  proof
    assume a: "answers_ok (in_questions r) ans \<and> answers_complete (in_questions r) ans"
    then obtain a where a': "a \<in> set ans" "an_question_id a = qn_id q" "present q a"
      using assms(3,4) by (auto simp: answers_complete_def)
    moreover have "question_of (in_questions r) (qn_id q) = Some q"
      using assms(3) distinct lookup_by_distinct [of qn_id "in_questions r" q] by (simp add: question_of_def lookup_by_def)
    ultimately have "answer_ok q a" using a by (auto simp: answers_ok_def)
    with a'(3) assms(5-7) show False by (auto simp: answer_ok_def present_def)
  qed
  then show ?thesis
    by (cases rule: resolve_cases [of e i ans "iruns ops" xs]) (use assms(2) in auto)
qed

theorem unanswerable_question_witness:
  "\<not> is_ok (fst (resolve env0 ''a'' [sample_answer ''q1'' [''yes'']] (iruns [])
      (sample_asked [sample_question ''q1'' Confirm []])))"
proof -
  let ?q = "sample_question ''q1'' Confirm []"
  have "sample_asked [?q] = [asked_row [?q]]"
    by (rule sample_asked_row) (rule sample_question_ok, simp_all)
  then have "lookup_by in_id ''a'' (sample_asked [?q]) = Some (asked_row [?q])" by (simp add: asked_row_def)
  from unanswerable_question [OF sample_asked_ok this, of ?q env0 "[sample_answer ''q1'' [''yes'']]" "[]"]
  show ?thesis by (simp add: asked_row_def sample_question_def del: iruns.simps)
qed

end
