(* ===== verification/AskUser.thy ===== *)
theory AskUser
  imports InteractionProps
begin

text \<open>
  The parked agent: \<open>execute_ask_user\<close> and \<open>await_interaction\<close> of
  \<open>services/agent_loop_service.rs\<close> against the commands of \<open>commands/interactions.rs\<close>. The agent loop,
  the commands and every other request are threads that share the table and the map
  \<open>PENDING_INTERACTIONS\<close> of parked channels; \<open>ask_step\<close> has one rule for each action one of them
  does without interruption, for the interaction \<open>i\<close>.
\<close>

datatype resolution = Answers "question_answer list" | Cancellation

text \<open>
  Where the asking iteration is: the row exists and the event is out, the channel is registered, the
  600 seconds are over, the channel is removed, and the result the model gets.
\<close>

datatype ask_phase = Announced | Waiting | Expired | Unparked | Received resolution | Timed_out

record ask_state =
  ask_rows :: interactions
  ask_parked :: bool
  ask_mail :: "resolution list"
  ask_sends :: "resolution list"
  ask_phase :: ask_phase

text \<open>
  \<open>ask_sends\<close> holds the resolutions of commands that have updated the table and have not yet looked
  for the channel.
\<close>

definition post :: "resolution \<Rightarrow> ask_state \<Rightarrow> ask_state" where
  "post m s = (if ask_parked s then s\<lparr>ask_parked := False, ask_mail := ask_mail s @ [m]\<rparr> else s)"

inductive ask_step :: "string \<Rightarrow> ask_state \<Rightarrow> ask_state \<Rightarrow> bool" for i where
  park: "ask_phase s = Announced \<Longrightarrow> ask_step i s (s\<lparr>ask_parked := True, ask_phase := Waiting\<rparr>)"
| receive: "ask_phase s = Waiting \<Longrightarrow> ask_mail s = m # ms \<Longrightarrow>
    ask_step i s (s\<lparr>ask_mail := ms, ask_phase := Received m\<rparr>)"
| expire: "ask_phase s = Waiting \<Longrightarrow> ask_mail s = [] \<Longrightarrow> ask_step i s (s\<lparr>ask_phase := Expired\<rparr>)"
| unpark: "ask_phase s = Expired \<Longrightarrow> ask_step i s (s\<lparr>ask_parked := False, ask_phase := Unparked\<rparr>)"
| give_up: "ask_phase s = Unparked \<Longrightarrow>
    ask_step i s (s\<lparr>ask_rows := cancel e i (ask_rows s), ask_phase := Timed_out\<rparr>)"
| answer: "resolve e i ans (iruns ops) (ask_rows s) = (Inr r, rows) \<Longrightarrow>
    ask_step i s (s\<lparr>ask_rows := rows, ask_sends := ask_sends s @ [Answers ans]\<rparr>)"
| dismiss: "ask_step i s (s\<lparr>ask_rows := cancel e i (ask_rows s), ask_sends := ask_sends s @ [Cancellation]\<rparr>)"
| stop_chat: "ask_step i s (post Cancellation s)"
| deliver: "ask_sends s = xs @ m # ys \<Longrightarrow> ask_step i s (post m (s\<lparr>ask_sends := xs @ ys\<rparr>))"
| other: "ask_step i s (s\<lparr>ask_rows := istep x (ask_rows s)\<rparr>)"

inductive_cases ask_stepE: "ask_step i s t"

inductive ask_reachable :: "string \<Rightarrow> ask_state \<Rightarrow> ask_state \<Rightarrow> bool" for i s0 where
  ask_start: "ask_reachable i s0 s0"
| ask_more: "ask_reachable i s0 s \<Longrightarrow> ask_step i s t \<Longrightarrow> ask_reachable i s0 t"

definition ask_init :: "interactions \<Rightarrow> ask_state" where
  "ask_init rows = \<lparr>ask_rows = rows, ask_parked = False, ask_mail = [], ask_sends = [], ask_phase = Announced\<rparr>"

subsection \<open>What the agent is told\<close>

text \<open>Every answer on its way to the agent is the answer the table holds.\<close>

definition recorded :: "string \<Rightarrow> interactions \<Rightarrow> resolution \<Rightarrow> bool" where
  "recorded i rows m \<longleftrightarrow> (case m of
     Cancellation \<Rightarrow> True
   | Answers ans \<Rightarrow> (\<exists>r. lookup_by in_id i rows = Some r \<and> in_status r = Answered \<and> in_answers r = Some ans))"

definition in_flight :: "ask_state \<Rightarrow> resolution set" where
  "in_flight s = set (ask_mail s) \<union> set (ask_sends s) \<union> {m. ask_phase s = Received m}"

definition ask_inv :: "string \<Rightarrow> ask_state \<Rightarrow> bool" where
  "ask_inv i s \<longleftrightarrow> table_ok (ask_rows s) \<and> (\<forall>m \<in> in_flight s. recorded i (ask_rows s) m)"

lemma recorded_kept:
  "(\<And>r. lookup_by in_id i rows = Some r \<Longrightarrow> settled r \<Longrightarrow> lookup_by in_id i rows' = Some r) \<Longrightarrow>
     recorded i rows m \<Longrightarrow> recorded i rows' m"
  by (auto simp: recorded_def settled_def split: resolution.splits)

lemma recorded_istep: "recorded i rows m \<Longrightarrow> recorded i (istep x rows) m"
  by (rule recorded_kept) (rule interaction_life.step_settled)

lemma ask_inv_rows:
  assumes "ask_inv i s" and "ask_rows t = istep x (ask_rows s)"
    and "\<And>m. m \<in> in_flight t \<Longrightarrow> m \<in> in_flight s \<or> recorded i (ask_rows t) m"
  shows "ask_inv i t"
  unfolding ask_inv_def
proof
  show "table_ok (ask_rows t)" using assms(1,2) by (simp add: ask_inv_def istep_table_ok)
  show "\<forall>m \<in> in_flight t. recorded i (ask_rows t) m"
  proof
    fix m assume "m \<in> in_flight t"
    from assms(3) [OF this] assms(1,2) show "recorded i (ask_rows t) m"
      by (auto simp: ask_inv_def recorded_istep)
  qed
qed

lemma ask_inv_same:
  assumes "ask_inv i s" and "ask_rows t = ask_rows s"
    and "\<And>m. m \<in> in_flight t \<Longrightarrow> m \<in> in_flight s \<or> m = Cancellation"
  shows "ask_inv i t"
  unfolding ask_inv_def
proof
  show "table_ok (ask_rows t)" using assms(1,2) by (simp add: ask_inv_def)
  show "\<forall>m \<in> in_flight t. recorded i (ask_rows t) m"
  proof
    fix m assume "m \<in> in_flight t"
    from assms(3) [OF this] assms(1,2) show "recorded i (ask_rows t) m"
      by (auto simp: ask_inv_def recorded_def)
  qed
qed

lemma answer_recorded:
  assumes "table_ok rows" and "resolve e i ans (iruns ops) rows = (Inr r, rows')"
  shows "rows' = istep (Answer e i ans ops) rows \<and> recorded i rows' (Answers ans)"
proof -
  have rows': "rows' = istep (Answer e i ans ops) rows" using assms(2) by simp
  with assms have "table_ok rows'" by (simp only: istep_table_ok)
  have "map_option in_answers (lookup_by in_id i rows') = Some (Some ans)"
    using answer_stored [OF assms(1), of e i ans ops] assms(2) by simp
  then obtain r' where r': "lookup_by in_id i rows' = Some r'" "in_answers r' = Some ans" by auto
  with \<open>table_ok rows'\<close> have "row_ok r'" by (auto simp: table_ok_def dest: lookup_by_SomeD)
  with r'(2) have "in_status r' = Answered" by (cases "in_status r'") (simp_all add: row_ok_def)
  with r' rows' show ?thesis by (simp add: recorded_def)
qed

lemma in_flight_post: "m' \<in> in_flight (post m s) \<Longrightarrow> m' \<in> in_flight s \<or> m' = m"
  by (auto simp: post_def in_flight_def split: if_splits)

lemma post_rows [simp]: "ask_rows (post m s) = ask_rows s"
  by (simp add: post_def)

lemma ask_inv_post: "ask_inv i s \<Longrightarrow> recorded i (ask_rows s) m \<Longrightarrow> ask_inv i (post m s)"
  using in_flight_post [of _ m s] by (fastforce simp: ask_inv_def)

lemma ask_step_inv: "ask_step i s t \<Longrightarrow> ask_inv i s \<Longrightarrow> ask_inv i t"
proof (induction rule: ask_step.induct)
  case (park s)
  show ?case by (rule ask_inv_same [of i s]) (use park in \<open>auto simp: in_flight_def\<close>)
next
  case (receive s m ms)
  show ?case by (rule ask_inv_same [of i s]) (use receive in \<open>auto simp: in_flight_def\<close>)
next
  case (expire s)
  show ?case by (rule ask_inv_same [of i s]) (use expire in \<open>auto simp: in_flight_def\<close>)
next
  case (unpark s)
  show ?case by (rule ask_inv_same [of i s]) (use unpark in \<open>auto simp: in_flight_def\<close>)
next
  case (give_up s e)
  show ?case by (rule ask_inv_rows [of i s _ "Drop e i"]) (use give_up in \<open>auto simp: in_flight_def\<close>)
next
  case (answer e ans ops s r rows)
  let ?t = "s\<lparr>ask_rows := rows, ask_sends := ask_sends s @ [Answers ans]\<rparr>"
  have "table_ok (ask_rows s)" using answer(2) by (simp add: ask_inv_def)
  from answer_recorded [OF this answer(1)]
  have rows: "rows = istep (Answer e i ans ops) (ask_rows s)" and rec: "recorded i rows (Answers ans)" by blast+
  have "m \<in> in_flight s \<or> recorded i rows m" if "m \<in> in_flight ?t" for m
    using that rec by (auto simp: in_flight_def)
  then show ?case using ask_inv_rows [OF answer(2), of ?t "Answer e i ans ops"] rows by (simp del: istep.simps)
next
  case (dismiss s e)
  show ?case by (rule ask_inv_rows [of i s _ "Drop e i"]) (use dismiss in \<open>auto simp: in_flight_def recorded_def\<close>)
next
  case (stop_chat s)
  show ?case by (rule ask_inv_post) (use stop_chat in \<open>simp_all add: recorded_def\<close>)
next
  case (deliver s xs m ys)
  have "ask_inv i (s\<lparr>ask_sends := xs @ ys\<rparr>)" by (rule ask_inv_same [of i s]) (use deliver in \<open>auto simp: in_flight_def\<close>)
  moreover have "recorded i (ask_rows s) m" using deliver by (auto simp: ask_inv_def in_flight_def)
  ultimately show ?case using ask_inv_post by simp
next
  case (other s x)
  show ?case by (rule ask_inv_rows [of i s _ x]) (use other in \<open>auto simp: in_flight_def\<close>)
qed

lemma ask_reachable_inv: "ask_reachable i s0 s \<Longrightarrow> ask_inv i s0 \<Longrightarrow> ask_inv i s"
  by (induction rule: ask_reachable.induct) (auto intro: ask_step_inv)

text \<open>
  C24: whatever the commands and the other requests do, an answer the agent receives is the answer
  stored for its question, and no later request changes it.
\<close>

theorem received_answer_is_stored:
  assumes "table_ok rows" and "ask_reachable i (ask_init rows) s" and "ask_phase s = Received (Answers ans)"
  shows "\<exists>r. lookup_by in_id i (fold istep ops (ask_rows s)) = Some r \<and> in_status r = Answered \<and>
    in_answers r = Some ans"
proof -
  have "ask_inv i (ask_init rows)" using assms(1) by (simp add: ask_inv_def in_flight_def ask_init_def)
  with assms(2) have "ask_inv i s" by (rule ask_reachable_inv)
  with assms(3) have "recorded i (ask_rows s) (Answers ans)" by (simp add: ask_inv_def in_flight_def)
  then obtain r where r: "lookup_by in_id i (ask_rows s) = Some r" "in_status r = Answered" "in_answers r = Some ans"
    by (auto simp: recorded_def)
  then have "lookup_by in_id i (fold istep ops (ask_rows s)) = Some r"
    by (intro interaction_life.run_settled) (simp_all add: settled_def)
  with r show ?thesis by blast
qed

text \<open>The steps from the question to its answer, in the two orders of parking and answering.\<close>

abbreviation blue :: "question_answer list" where
  "blue \<equiv> [sample_answer ''q1'' [''blue'']]"

abbreviation asked :: interactions where
  "asked \<equiv> sample_asked colour"

definition blue_rows :: interactions where
  "blue_rows = [answer_row env0 blue (asked_row colour)]"

lemma blue_resolved: "resolve env0 ''a'' blue (iruns []) asked = (Inr (answer_row env0 blue (asked_row colour)), blue_rows)"
  using colour_answered [of "''blue''" "iruns []" "asked_row colour"]
  by (simp add: colour_asked blue_rows_def asked_row_def settled_def open_row_def)

definition told :: ask_state where
  "told = \<lparr>ask_rows = blue_rows, ask_parked = False, ask_mail = [], ask_sends = [],
           ask_phase = Received (Answers blue)\<rparr>"

lemma blue_told: "ask_reachable ''a'' (ask_init asked) told"
proof -
  let ?s1 = "(ask_init asked)\<lparr>ask_parked := True, ask_phase := Waiting\<rparr>"
  let ?s2 = "?s1\<lparr>ask_rows := blue_rows, ask_sends := [Answers blue]\<rparr>"
  let ?s3 = "?s2\<lparr>ask_sends := [], ask_parked := False, ask_mail := [Answers blue]\<rparr>"
  have "ask_step ''a'' (ask_init asked) ?s1" by (rule park) (simp add: ask_init_def)
  moreover have "ask_step ''a'' ?s1 ?s2"
    using answer [of env0 "''a''" blue "[]" ?s1] blue_resolved by (simp add: ask_init_def)
  moreover have "ask_step ''a'' ?s2 ?s3"
    using deliver [of ?s2 "[]" "Answers blue" "[]"] by (simp add: post_def ask_init_def)
  moreover have "ask_step ''a'' ?s3 told"
    using receive [of ?s3 "Answers blue" "[]"] by (simp add: told_def ask_init_def)
  ultimately show ?thesis by (meson ask_start ask_more)
qed

theorem received_answer_is_stored_witness:
  "\<exists>r. lookup_by in_id ''a'' (fold istep [Sweep env0] blue_rows) = Some r \<and> in_status r = Answered \<and>
     in_answers r = Some blue"
  using received_answer_is_stored [OF sample_asked_ok blue_told, of blue "[Sweep env0]"]
  by (simp add: told_def del: fold.simps)

text \<open>
  An answer given between the announcement of the question and the registration of its channel is
  stored, and the question can no longer be answered, but the agent waits its 600 seconds and is told
  that nobody answered.
\<close>

theorem early_answer_lost:
  "\<exists>s. ask_reachable ''a'' (ask_init (sample_asked colour)) s \<and> ask_phase s = Timed_out \<and>
     map_option in_answers (lookup_by in_id ''a'' (ask_rows s)) = Some (Some [sample_answer ''q1'' [''blue'']]) \<and>
     ask_mail s = [] \<and> ask_sends s = []"
proof -
  let ?s1 = "(ask_init asked)\<lparr>ask_rows := blue_rows, ask_sends := [Answers blue]\<rparr>"
  let ?s2 = "?s1\<lparr>ask_sends := []\<rparr>"
  let ?s3 = "?s2\<lparr>ask_parked := True, ask_phase := Waiting\<rparr>"
  let ?s4 = "?s3\<lparr>ask_phase := Expired\<rparr>"
  let ?s5 = "?s4\<lparr>ask_parked := False, ask_phase := Unparked\<rparr>"
  let ?s6 = "?s5\<lparr>ask_phase := Timed_out\<rparr>"
  have "ask_step ''a'' (ask_init asked) ?s1"
    using answer [of env0 "''a''" blue "[]" "ask_init asked"] blue_resolved by (simp add: ask_init_def)
  moreover have "ask_step ''a'' ?s1 ?s2"
    using deliver [of ?s1 "[]" "Answers blue" "[]"] by (simp add: post_def ask_init_def)
  moreover have "ask_step ''a'' ?s2 ?s3" by (rule park) (simp add: ask_init_def)
  moreover have "ask_step ''a'' ?s3 ?s4" by (rule expire) (simp_all add: ask_init_def)
  moreover have "ask_step ''a'' ?s4 ?s5" by (rule unpark) simp
  moreover have "ask_step ''a'' ?s5 ?s6"
  proof -
    have "cancel env0 ''a'' blue_rows = blue_rows"
      by (simp add: cancel_def blue_rows_def answer_row_def open_row_def)
    then show ?thesis using give_up [of ?s5 "''a''" env0] by (simp add: ask_init_def)
  qed
  ultimately have "ask_reachable ''a'' (ask_init asked) ?s6" by (meson ask_start ask_more)
  moreover have "map_option in_answers (lookup_by in_id ''a'' blue_rows) = Some (Some blue)"
    by (simp add: blue_rows_def answer_row_def asked_row_def)
  ultimately show ?thesis by (intro exI [of _ ?s6]) (simp add: ask_init_def)
qed

end
