(* ===== verification/Approval.thy ===== *)
theory Approval
  imports PlanStore
begin

text \<open>
  The approval gateway in front of the agent's tools: \<open>models/permission.rs\<close>, the approval part of
  \<open>services/settings_service.rs\<close>, the tool registry's names and kinds
  (\<open>services/tool_runtime_service.rs\<close>), and \<open>execute_with_gateway\<close>, \<open>record_tool_event\<close> and
  \<open>process_tool_calls\<close> of \<open>services/agent_loop_service.rs\<close>. What a tool does, what the user answers,
  the provider of the chat and the command inside the JSON arguments are inputs; a Rust panic is
  \<open>None\<close>.
\<close>

subsection \<open>Permissions\<close>

datatype permission_decision = Ask_user | Allow | Deny

fun decision_str :: "permission_decision \<Rightarrow> string" where
  "decision_str Ask_user = ''ask''"
| "decision_str Allow = ''allow''"
| "decision_str Deny = ''deny''"

definition decision_of :: "string \<Rightarrow> permission_decision" where
  "decision_of s = (if s = ''allow'' then Allow else if s = ''deny'' then Deny else Ask_user)"

datatype approval_mode = Safe_mode | Balanced | Auto

fun approval_mode_str :: "approval_mode \<Rightarrow> string" where
  "approval_mode_str Safe_mode = ''safe''"
| "approval_mode_str Balanced = ''balanced''"
| "approval_mode_str Auto = ''auto''"

definition approval_mode_of :: "string \<Rightarrow> approval_mode" where
  "approval_mode_of s = (if s = ''safe'' then Safe_mode else if s = ''auto'' then Auto else Balanced)"

interpretation decision_codec: status_codec decision_str decision_of
proof
  show "decision_of (decision_str d) = d" for d by (cases d) (simp_all add: decision_of_def)
qed

interpretation approval_mode_codec: status_codec approval_mode_str approval_mode_of
proof
  show "approval_mode_of (approval_mode_str m) = m" for m by (cases m) (simp_all add: approval_mode_of_def)
qed

record permission_rules =
  pr_command_execution :: permission_decision
  pr_external_context :: permission_decision
  pr_file_modification :: permission_decision
  pr_analytics_collection :: bool
  pr_analytics_upload :: bool
  pr_detailed_diagnostics :: bool

definition conservative_rules :: permission_rules where
  "conservative_rules = \<lparr>pr_command_execution = Ask_user, pr_external_context = Ask_user,
     pr_file_modification = Ask_user, pr_analytics_collection = False, pr_analytics_upload = False,
     pr_detailed_diagnostics = False\<rparr>"

definition telemetry_default_rules :: permission_rules where
  "telemetry_default_rules = \<lparr>pr_command_execution = Ask_user, pr_external_context = Ask_user,
     pr_file_modification = Ask_user, pr_analytics_collection = False, pr_analytics_upload = False,
     pr_detailed_diagnostics = False\<rparr>"

record approval_rule =
  ap_id :: string
  ap_project_path :: string
  ap_tool_name :: string
  ap_command_prefix :: "string option"
  ap_decision :: permission_decision
  ap_created_at :: int

record session_rule =
  sr_tool_name :: string
  sr_command_prefix :: "string option"
  sr_decision :: permission_decision

record gateway_decision =
  gd_decision :: permission_decision
  gd_requires_prompt :: bool
  gd_reason :: string
  gd_rule_source :: "string option"

subsection \<open>Stored settings\<close>

record settings =
  app_defaults :: "(string \<times> string) list"
  stored_rules :: "permission_rules option"
  approval_rules :: "approval_rule list"

text \<open>\<open>INSERT ... ON CONFLICT(key) DO UPDATE\<close>.\<close>

fun put_default :: "string \<Rightarrow> string \<Rightarrow> (string \<times> string) list \<Rightarrow> (string \<times> string) list" where
  "put_default k v [] = [(k, v)]"
| "put_default k v (p # ps) = (if fst p = k then (k, v) # ps else p # put_default k v ps)"

lemma map_of_put_default: "map_of (put_default k v ps) = (map_of ps)(k \<mapsto> v)"
  by (induction k v ps rule: put_default.induct) auto

definition approval_mode_key :: "string \<Rightarrow> string" where
  "approval_mode_key project = ''approval_mode:'' @ project"

definition get_approval_mode :: "string \<Rightarrow> settings \<Rightarrow> approval_mode" where
  "get_approval_mode project s =
     (case map_of (app_defaults s) (approval_mode_key project) of
        None \<Rightarrow> Balanced | Some v \<Rightarrow> approval_mode_of v)"

definition set_approval_mode :: "string \<Rightarrow> approval_mode \<Rightarrow> settings \<Rightarrow> settings" where
  "set_approval_mode project m s =
     s\<lparr>app_defaults := put_default (approval_mode_key project) (approval_mode_str m) (app_defaults s)\<rparr>"

definition auto_commit_key :: "string \<Rightarrow> string" where
  "auto_commit_key project = ''milestone_auto_commit:'' @ project"

definition get_milestone_auto_commit :: "string \<Rightarrow> settings \<Rightarrow> bool" where
  "get_milestone_auto_commit project s \<longleftrightarrow> map_of (app_defaults s) (auto_commit_key project) = Some ''true''"

definition set_milestone_auto_commit :: "string \<Rightarrow> bool \<Rightarrow> settings \<Rightarrow> settings" where
  "set_milestone_auto_commit project enabled s =
     s\<lparr>app_defaults := put_default (auto_commit_key project) (if enabled then ''true'' else ''false'') (app_defaults s)\<rparr>"

definition list_approval_rules :: "string \<Rightarrow> settings \<Rightarrow> approval_rule list" where
  "list_approval_rules project s =
     order_asc ap_created_at (filter (\<lambda>r. ap_project_path r = project) (approval_rules s))"

definition add_approval_rule :: "approval_rule \<Rightarrow> settings \<Rightarrow> unit result \<times> settings" where
  "add_approval_rule r s =
     (case insert_checked ap_id ''approval_rules'' True r (approval_rules s) of
        Inl err \<Rightarrow> (Err err, s) | Inr rs \<Rightarrow> (Ok (), s\<lparr>approval_rules := rs\<rparr>))"

definition remove_approval_rule :: "string \<Rightarrow> settings \<Rightarrow> settings" where
  "remove_approval_rule i s = s\<lparr>approval_rules := filter (\<lambda>r. ap_id r \<noteq> i) (approval_rules s)\<rparr>"

definition get_permission_rules :: "settings \<Rightarrow> permission_rules" where
  "get_permission_rules s = coalesce (stored_rules s) telemetry_default_rules"

definition set_permission_rules :: "permission_rules \<Rightarrow> settings \<Rightarrow> settings" where
  "set_permission_rules r s = s\<lparr>stored_rules := Some r\<rparr>"

definition reset_permission_rules :: "settings \<Rightarrow> settings" where
  "reset_permission_rules s = set_permission_rules conservative_rules s"

subsection \<open>Tools\<close>

datatype tool_kind = ReadOnly | Mutating | Network

definition registry :: "(string \<times> tool_kind) list" where
  "registry =
     [(''read_file'', ReadOnly), (''write_file'', Mutating), (''edit_file'', Mutating), (''list_files'', ReadOnly),
      (''search_files'', ReadOnly), (''run_command'', Mutating), (''get_execution_advice'', ReadOnly),
      (''project_status'', ReadOnly), (''propose_ideas'', ReadOnly), (''list_skills'', ReadOnly),
      (''read_skill'', ReadOnly), (''ask_user'', ReadOnly), (''todo_write'', ReadOnly), (''task'', ReadOnly),
      (''web_fetch'', Network)]"

definition tool_kind_of :: "string \<Rightarrow> tool_kind option" where
  "tool_kind_of name = map_of registry name"

definition allowed_in_plan_mode :: "string \<Rightarrow> bool" where
  "allowed_in_plan_mode name \<longleftrightarrow> tool_kind_of name \<in> {Some ReadOnly, Some Network}"

record tool_result =
  tr_content :: string
  tr_status :: string
  tr_full_content :: "string option"
  tr_diff :: "string option"
  tr_decision :: "string option"
  tr_rule_source :: "string option"
  tr_sensitive :: bool

definition plain_result :: "string \<Rightarrow> string \<Rightarrow> tool_result" where
  "plain_result content status = \<lparr>tr_content = content, tr_status = status, tr_full_content = None,
     tr_diff = None, tr_decision = None, tr_rule_source = None, tr_sensitive = False\<rparr>"

subsection \<open>Resolving a call\<close>

definition rule_matches :: "string \<Rightarrow> string option \<Rightarrow> string \<Rightarrow> string option \<Rightarrow> bool" where
  "rule_matches rule_tool rule_prefix tool command \<longleftrightarrow> rule_tool = tool \<and>
     (case (rule_prefix, command) of (Some p, Some c) \<Rightarrow> prefix p c | _ \<Rightarrow> True)"

definition sr_matches :: "string \<Rightarrow> string option \<Rightarrow> session_rule \<Rightarrow> bool" where
  "sr_matches tool command r = rule_matches (sr_tool_name r) (sr_command_prefix r) tool command"

definition ap_matches :: "string \<Rightarrow> string option \<Rightarrow> approval_rule \<Rightarrow> bool" where
  "ap_matches tool command r = rule_matches (ap_tool_name r) (ap_command_prefix r) tool command"

definition read_only_names :: "string list" where
  "read_only_names = [''read_file'', ''list_files'', ''search_files'', ''todo_write'']"

definition decided :: "permission_decision \<Rightarrow> bool \<Rightarrow> string \<Rightarrow> string \<Rightarrow> gateway_decision" where
  "decided d prompt reason source =
     \<lparr>gd_decision = d, gd_requires_prompt = prompt, gd_reason = reason, gd_rule_source = Some source\<rparr>"

definition mode_decision :: "approval_mode \<Rightarrow> string \<Rightarrow> gateway_decision" where
  "mode_decision m tool =
     (case m of
        Safe_mode \<Rightarrow> decided Ask_user True ''Safe mode: all tools prompt.'' ''mode:safe''
      | Balanced \<Rightarrow>
          (if tool \<in> set read_only_names
           then decided Allow False ''Balanced mode: read-only tools auto-allowed.'' ''mode:balanced''
           else decided Ask_user True ''Balanced mode: mutating tools prompt.'' ''mode:balanced'')
      | Auto \<Rightarrow> decided Allow False ''Auto mode: all tools auto-allowed.'' ''mode:auto'')"

definition resolve_tool_call ::
    "settings \<Rightarrow> string \<Rightarrow> string \<Rightarrow> string option \<Rightarrow> session_rule list \<Rightarrow> bool \<Rightarrow> gateway_decision" where
  "resolve_tool_call s project tool command rules plan_mode =
     (if plan_mode \<and> \<not> allowed_in_plan_mode tool
      then decided Deny False (''Plan mode is on: '' @ tool @
             '' is blocked until the plan is approved. Read-only tools still run.'') ''plan-mode''
      else case find (sr_matches tool command) rules of
        Some r \<Rightarrow> decided (sr_decision r) False (''Matched session rule for '' @ sr_tool_name r @ ''.'')
                    (''session:'' @ sr_tool_name r)
      | None \<Rightarrow>
          (case find (ap_matches tool command) (list_approval_rules project s) of
             Some r \<Rightarrow> decided (ap_decision r) False (''Matched persistent rule for '' @ ap_tool_name r @ ''.'')
                         (''persistent:'' @ ap_id r)
           | None \<Rightarrow> mode_decision (get_approval_mode project s) tool))"

subsection \<open>Running a call\<close>

record tool_call =
  tc_id :: string
  tc_name :: string
  tc_arguments :: string

record tool_def =
  td_name :: string
  td_kind :: tool_kind
  td_execute :: "string \<Rightarrow> tool_result"

record approval =
  aw_decision :: permission_decision
  aw_session_rule :: "session_rule option"

record gateway_world =
  gw_settings :: settings
  gw_project :: string
  gw_plan_mode :: bool
  gw_command :: "string \<Rightarrow> string option"
  gw_external_provider :: bool
  gw_approval :: "tool_call \<Rightarrow> approval"

text \<open>The answer of the approval card, as \<open>native_chat_resolve_approval\<close> sends it.\<close>

definition approval_of_answer :: "string \<Rightarrow> string option \<Rightarrow> approval" where
  "approval_of_answer decision command_prefix =
     (if decision = ''allow'' then \<lparr>aw_decision = Allow, aw_session_rule = None\<rparr>
      else if decision = ''allow_session'' then
        \<lparr>aw_decision = Allow,
         aw_session_rule = Some \<lparr>sr_tool_name = ''*'', sr_command_prefix = command_prefix, sr_decision = Allow\<rparr>\<rparr>
      else \<lparr>aw_decision = Deny, aw_session_rule = None\<rparr>)"

definition external_context :: "gateway_world \<Rightarrow> tool_call \<Rightarrow> gateway_decision \<Rightarrow> gateway_decision" where
  "external_context w c d =
     (if tc_name c = ''get_execution_advice'' \<and> gw_external_provider w then
        (case pr_external_context (get_permission_rules (gw_settings w)) of
           Allow \<Rightarrow> d
         | Deny \<Rightarrow> decided Deny False ''External context delivery is disabled in Privacy settings.''
                     ''privacy:external-context''
         | Ask_user \<Rightarrow> decided Ask_user True
             ''Execution advice would be returned to the external model; explicit approval is required.''
             ''privacy:external-context'')
      else d)"

definition prompt_reason :: "permission_decision \<Rightarrow> string" where
  "prompt_reason d = (case d of Allow \<Rightarrow> ''Approved by user.'' | Deny \<Rightarrow> ''Denied by user.''
     | Ask_user \<Rightarrow> ''Approval required.'')"

text \<open>The decision after the privacy setting and the user's answer, and the session rules then.\<close>

definition final_decision :: "gateway_world \<Rightarrow> session_rule list \<Rightarrow> tool_call \<Rightarrow> gateway_decision \<times> session_rule list" where
  "final_decision w rules c =
     (let d = external_context w c
            (resolve_tool_call (gw_settings w) (gw_project w) (tc_name c) (gw_command w (tc_arguments c)) rules
               (gw_plan_mode w))
      in if gd_requires_prompt d
         then (let a = gw_approval w c
               in (d\<lparr>gd_decision := aw_decision a, gd_reason := prompt_reason (aw_decision a)\<rparr>,
                   rules @ (case aw_session_rule a of None \<Rightarrow> [] | Some r \<Rightarrow> [r])))
         else (d, rules))"

text \<open>\<open>&s[..s.len().min(200)]\<close>: a panic unless byte 200 starts a character.\<close>

definition summary_of :: "string \<Rightarrow> string option" where
  "summary_of s = (if length s \<le> 200 \<or> is_lead (s ! 200) then Some (take 200 s) else None)"

definition execute_with_gateway ::
    "gateway_world \<Rightarrow> tool_def \<Rightarrow> tool_call \<Rightarrow> session_rule list \<Rightarrow> (tool_result \<times> session_rule list) option" where
  "execute_with_gateway w def c rules =
     (let (d, rules') = final_decision w rules c
      in case gd_decision d of
           Allow \<Rightarrow>
             (let r = (td_execute def (tc_arguments c))
                       \<lparr>tr_decision := Some ''approved'', tr_rule_source := gd_rule_source d\<rparr>
              in case summary_of (tr_content r) of None \<Rightarrow> None | Some _ \<Rightarrow> Some (r, rules'))
         | Deny \<Rightarrow>
             Some ((plain_result (''Denied: '' @ gd_reason d) ''denied'')
                     \<lparr>tr_decision := Some ''denied'', tr_rule_source := gd_rule_source d\<rparr>, rules')
         | Ask_user \<Rightarrow> Some (plain_result ''Approval required but not handled.'' ''denied'', rules'))"

subsection \<open>A batch of calls\<close>

definition tool_def_for :: "string \<Rightarrow> tool_def list \<Rightarrow> tool_def option" where
  "tool_def_for name defs = find (\<lambda>d. td_name d = name) defs"

definition is_intercepted :: "string \<Rightarrow> tool_def list \<Rightarrow> bool" where
  "is_intercepted name defs \<longleftrightarrow> name \<in> {''propose_ideas'', ''ask_user'', ''todo_write'', ''task''} \<and>
     tool_def_for name defs \<noteq> None"

definition has_kind :: "tool_kind list \<Rightarrow> tool_def list \<Rightarrow> tool_call \<Rightarrow> bool" where
  "has_kind ks defs c \<longleftrightarrow> (case tool_def_for (tc_name c) defs of None \<Rightarrow> False | Some d \<Rightarrow> td_kind d \<in> set ks)"

text \<open>
  What the batch meets besides the gateway: the result of an intercepted call, what the cancellation token
  says before the call of an index is started, and what it says when the thread of that call is set up, which
  is a second reading.
\<close>

record batch_world =
  bw_gateway :: gateway_world
  bw_intercept :: "tool_call \<Rightarrow> tool_result"
  bw_cancelled :: "nat \<Rightarrow> bool"
  bw_caught :: "nat \<Rightarrow> bool"

type_synonym batch_results = "(tool_call \<times> tool_result) list"

text \<open>Recording an event takes the summary of its result.\<close>

fun record_all :: "batch_results \<Rightarrow> batch_results option" where
  "record_all [] = Some []"
| "record_all ((c, r) # rs) =
     (case summary_of (tr_content r) of
        None \<Rightarrow> None
      | Some _ \<Rightarrow> map_option (\<lambda>out. (c, r) # out) (record_all rs))"

definition intercepted_results :: "batch_world \<Rightarrow> tool_def list \<Rightarrow> string \<Rightarrow> tool_call list \<Rightarrow> batch_results" where
  "intercepted_results b defs name calls =
     map (\<lambda>c. (c, bw_intercept b c)) (filter (\<lambda>c. tc_name c = name \<and> is_intercepted (tc_name c) defs) calls)"

text \<open>
  The threads of the read-only calls: each works on its own copy of the session rules, a thread that
  panics leaves no result, and none is started after the token is seen cancelled. A cancellation between the
  two readings gives the call a result of its own.
\<close>

definition read_results ::
    "batch_world \<Rightarrow> tool_def list \<Rightarrow> session_rule list \<Rightarrow> (nat \<times> tool_call) list \<Rightarrow> batch_results" where
  "read_results b defs rules ics =
     List.map_filter
       (\<lambda>(i, c). if bw_caught b i then Some (c, plain_result ''Cancelled'' ''cancelled'') else
        case tool_def_for (tc_name c) defs of
          None \<Rightarrow> Some (c, plain_result (''Unknown tool: '' @ tc_name c) ''failed'')
        | Some def \<Rightarrow> map_option (\<lambda>(r, _). (c, r)) (execute_with_gateway (bw_gateway b) def c rules))
       (takeWhile (\<lambda>(i, c). \<not> bw_cancelled b i) ics)"

fun run_mutating ::
    "batch_world \<Rightarrow> tool_def list \<Rightarrow> session_rule list \<Rightarrow> (nat \<times> tool_call) list \<Rightarrow>
     (batch_results \<times> session_rule list) option" where
  "run_mutating b defs rules [] = Some ([], rules)"
| "run_mutating b defs rules ((i, c) # ics) =
     (if bw_cancelled b i then Some ([(c, plain_result ''Cancelled'' ''cancelled'')], rules)
      else case tool_def_for (tc_name c) defs of
        None \<Rightarrow>
          (case record_all [(c, plain_result (''Unknown tool: '' @ tc_name c) ''failed'')] of
             None \<Rightarrow> None
           | Some rs \<Rightarrow> map_option (\<lambda>(out, rules'). (rs @ out, rules')) (run_mutating b defs rules ics))
      | Some def \<Rightarrow>
          (case execute_with_gateway (bw_gateway b) def c rules of
             None \<Rightarrow> None
           | Some (r, rules') \<Rightarrow>
               (case record_all [(c, r)] of
                  None \<Rightarrow> None
                | Some rs \<Rightarrow> map_option (\<lambda>(out, rules''). (rs @ out, rules'')) (run_mutating b defs rules' ics))))"

definition process_tool_calls ::
    "batch_world \<Rightarrow> tool_def list \<Rightarrow> session_rule list \<Rightarrow> tool_call list \<Rightarrow>
     (batch_results \<times> session_rule list) option" where
  "process_tool_calls b defs rules calls =
     (let remaining = filter (\<lambda>(i, c). \<not> is_intercepted (tc_name c) defs) (enumerate 0 calls);
          readers = filter (\<lambda>(i, c). has_kind [ReadOnly, Network] defs c) remaining;
          writers = filter (\<lambda>(i, c). has_kind [Mutating] defs c) remaining
      in case record_all (concat (map (\<lambda>name. intercepted_results b defs name calls)
                 [''propose_ideas'', ''ask_user'', ''todo_write'', ''task'']) @ read_results b defs rules readers) of
           None \<Rightarrow> None
         | Some first \<Rightarrow>
             map_option (\<lambda>(out, rules'). (first @ out, rules')) (run_mutating b defs rules writers))"

end
