(* ===== verification/ApprovalProps.thy ===== *)
theory ApprovalProps
  imports Approval LifecycleProps "HOL-Library.Multiset"
begin

text \<open>
  What the approval gateway guarantees: its decision as one priority list, plan mode over a whole
  batch of calls, which calls of a batch are answered, and where the code does not do what its
  comments say (session rules, unknown tools, summaries cut inside a character).
\<close>

subsection \<open>The verdict\<close>

text \<open>The first rule that matches, session rules before stored ones, oldest stored rule first.\<close>

definition first_rule :: "gateway_world \<Rightarrow> session_rule list \<Rightarrow> tool_call \<Rightarrow> permission_decision option" where
  "first_rule w rules c =
     (let cmd = gw_command w (tc_arguments c)
      in map_option snd (find (\<lambda>(m, d). m)
           (map (\<lambda>r. (sr_matches (tc_name c) cmd r, sr_decision r)) rules @
            map (\<lambda>r. (ap_matches (tc_name c) cmd r, ap_decision r)) (list_approval_rules (gw_project w) (gw_settings w)))))"

definition asks_user :: "gateway_world \<Rightarrow> session_rule list \<Rightarrow> tool_call \<Rightarrow> bool" where
  "asks_user w rules c \<longleftrightarrow>
     (if tc_name c = ''get_execution_advice'' \<and> gw_external_provider w \<and>
         pr_external_context (get_permission_rules (gw_settings w)) \<noteq> Allow
      then pr_external_context (get_permission_rules (gw_settings w)) = Ask_user
      else \<not> (gw_plan_mode w \<and> \<not> allowed_in_plan_mode (tc_name c)) \<and> first_rule w rules c = None \<and>
        (case get_approval_mode (gw_project w) (gw_settings w) of
           Safe_mode \<Rightarrow> True | Balanced \<Rightarrow> tc_name c \<notin> set read_only_names | Auto \<Rightarrow> False))"

definition verdict :: "gateway_world \<Rightarrow> session_rule list \<Rightarrow> tool_call \<Rightarrow> permission_decision" where
  "verdict w rules c =
     (if gw_plan_mode w \<and> \<not> allowed_in_plan_mode (tc_name c) then Deny
      else if asks_user w rules c then aw_decision (gw_approval w c)
      else if tc_name c = ''get_execution_advice'' \<and> gw_external_provider w \<and>
        pr_external_context (get_permission_rules (gw_settings w)) = Deny then Deny
      else case first_rule w rules c of Some d \<Rightarrow> d | None \<Rightarrow> Allow)"

lemma find_marked: "find (\<lambda>(m, d). m) (map (\<lambda>r. (P r, f r)) xs) = map_option (\<lambda>r. (True, f r)) (find P xs)"
  by (induction xs) auto

lemma find_append: "find P (xs @ ys) = (case find P xs of None \<Rightarrow> find P ys | Some x \<Rightarrow> Some x)"
  by (induction xs) auto

lemma first_rule_cases:
  "first_rule w rules c =
     (case find (sr_matches (tc_name c) (gw_command w (tc_arguments c))) rules of
        Some r \<Rightarrow> Some (sr_decision r)
      | None \<Rightarrow> map_option ap_decision
          (find (ap_matches (tc_name c) (gw_command w (tc_arguments c)))
             (list_approval_rules (gw_project w) (gw_settings w))))"
  by (auto simp: first_rule_def Let_def find_append find_marked option.map_comp comp_def split: option.splits)

lemma plan_mode_advice: "allowed_in_plan_mode ''get_execution_advice''"
  by (simp add: allowed_in_plan_mode_def tool_kind_of_def registry_def)

lemma decided_simps [simp]:
  "gd_decision (decided d p r s) = d" "gd_requires_prompt (decided d p r s) = p"
  "gd_rule_source (decided d p r s) = Some s"
  by (simp_all add: decided_def)

definition base_decision :: "gateway_world \<Rightarrow> session_rule list \<Rightarrow> tool_call \<Rightarrow> gateway_decision" where
  "base_decision w rules c = resolve_tool_call (gw_settings w) (gw_project w) (tc_name c) (gw_command w (tc_arguments c)) rules (gw_plan_mode w)"

lemmas final_decision_base = final_decision_def [folded base_decision_def]

lemma resolve_decision:
  "gd_decision (base_decision w rules c) =
     (if gw_plan_mode w \<and> \<not> allowed_in_plan_mode (tc_name c) then Deny
      else case first_rule w rules c of Some d \<Rightarrow> d
         | None \<Rightarrow> gd_decision (mode_decision (get_approval_mode (gw_project w) (gw_settings w)) (tc_name c)))"
  "gd_requires_prompt (base_decision w rules c) \<longleftrightarrow>
     \<not> (gw_plan_mode w \<and> \<not> allowed_in_plan_mode (tc_name c)) \<and> first_rule w rules c = None \<and>
       gd_requires_prompt (mode_decision (get_approval_mode (gw_project w) (gw_settings w)) (tc_name c))"
  by (auto simp: base_decision_def resolve_tool_call_def first_rule_cases split: option.splits)

lemma mode_decision_simps:
  "gd_requires_prompt (mode_decision m tool) \<longleftrightarrow>
     (case m of Safe_mode \<Rightarrow> True | Balanced \<Rightarrow> tool \<notin> set read_only_names | Auto \<Rightarrow> False)"
  "gd_decision (mode_decision m tool) = (if gd_requires_prompt (mode_decision m tool) then Ask_user else Allow)"
  by (cases m; simp add: mode_decision_def)+

lemma external_context_simps:
  "gd_decision (external_context w c d) =
     (if tc_name c = ''get_execution_advice'' \<and> gw_external_provider w \<and>
        pr_external_context (get_permission_rules (gw_settings w)) \<noteq> Allow
      then pr_external_context (get_permission_rules (gw_settings w)) else gd_decision d)"
  "gd_requires_prompt (external_context w c d) =
     (if tc_name c = ''get_execution_advice'' \<and> gw_external_provider w \<and>
        pr_external_context (get_permission_rules (gw_settings w)) \<noteq> Allow
      then pr_external_context (get_permission_rules (gw_settings w)) = Ask_user else gd_requires_prompt d)"
  by (auto simp: external_context_def split: permission_decision.splits)

lemma prompt_iff:
  "gd_requires_prompt (external_context w c (base_decision w rules c)) \<longleftrightarrow> asks_user w rules c"
  by (simp add: external_context_simps resolve_decision mode_decision_simps(1) asks_user_def)

lemma final_decision_verdict: "gd_decision (fst (final_decision w rules c)) = verdict w rules c"
proof (cases "asks_user w rules c")
  case True
  moreover have "\<not> (gw_plan_mode w \<and> \<not> allowed_in_plan_mode (tc_name c))"
    using True plan_mode_advice by (auto simp: asks_user_def split: if_splits)
  ultimately show ?thesis by (auto simp: final_decision_base Let_def prompt_iff verdict_def)
next
  case False
  let ?m = "mode_decision (get_approval_mode (gw_project w) (gw_settings w)) (tc_name c)"
  from False have "gd_decision ?m = Allow"
    if "first_rule w rules c = None" "\<not> (gw_plan_mode w \<and> \<not> allowed_in_plan_mode (tc_name c))"
      "\<not> (tc_name c = ''get_execution_advice'' \<and> gw_external_provider w \<and>
          pr_external_context (get_permission_rules (gw_settings w)) \<noteq> Allow)"
    using that by (auto simp: asks_user_def mode_decision_simps)
  moreover have "pr_external_context (get_permission_rules (gw_settings w)) = Deny"
    if "tc_name c = ''get_execution_advice'' \<and> gw_external_provider w \<and>
          pr_external_context (get_permission_rules (gw_settings w)) \<noteq> Allow"
    using False that by (cases "pr_external_context (get_permission_rules (gw_settings w))") (auto simp: asks_user_def)
  moreover have "fst (final_decision w rules c) = external_context w c (base_decision w rules c)"
    using False by (simp add: final_decision_base Let_def prompt_iff)
  ultimately show ?thesis
    using False plan_mode_advice
    by (auto simp: verdict_def external_context_simps resolve_decision split: option.splits)
qed

lemma final_rules:
  "snd (final_decision w rules c) = rules @
     (if asks_user w rules c then (case aw_session_rule (gw_approval w c) of None \<Rightarrow> [] | Some r \<Rightarrow> [r]) else [])"
  by (simp add: final_decision_base Let_def prompt_iff)

text \<open>
  C20: a call runs exactly when the verdict allows it; a denied or unresolved call gives a result with
  the status \<open>denied\<close> whatever the tool would do. The verdict is the first that applies of: plan mode
  denies tools that are not read-only; the user's answer when the privacy setting or the mode asks; the
  privacy setting's denial; the first matching rule; and the mode, which allows. A rule that says ask
  refuses without asking.
\<close>

theorem gateway_verdict:
  "execute_with_gateway w def c rules =
     (case verdict w rules c of
        Allow \<Rightarrow>
          (if 200 < length (tr_content (td_execute def (tc_arguments c))) \<and>
              \<not> is_lead (tr_content (td_execute def (tc_arguments c)) ! 200) then None
           else Some ((td_execute def (tc_arguments c))
                   \<lparr>tr_decision := Some ''approved'', tr_rule_source := gd_rule_source (fst (final_decision w rules c))\<rparr>,
                 snd (final_decision w rules c)))
      | Deny \<Rightarrow>
          Some ((plain_result (''Denied: '' @ gd_reason (fst (final_decision w rules c))) ''denied'')
                  \<lparr>tr_decision := Some ''denied'', tr_rule_source := gd_rule_source (fst (final_decision w rules c))\<rparr>,
                snd (final_decision w rules c))
      | Ask_user \<Rightarrow>
          Some (plain_result ''Approval required but not handled.'' ''denied'', snd (final_decision w rules c)))"
  using final_decision_verdict [of w rules c]
  by (cases "final_decision w rules c")
    (auto simp: execute_with_gateway_def Let_def summary_of_def split: permission_decision.splits option.splits)

subsection \<open>Plan mode over a batch\<close>

definition registered :: "tool_def list \<Rightarrow> bool" where
  "registered defs \<longleftrightarrow> (\<forall>d \<in> set defs. tool_kind_of (td_name d) = Some (td_kind d))"

text \<open>The same tools, with other code behind the mutating ones.\<close>

definition replace_mutating :: "(string \<Rightarrow> string \<Rightarrow> tool_result) \<Rightarrow> tool_def list \<Rightarrow> tool_def list" where
  "replace_mutating f defs = map (\<lambda>d. if td_kind d = Mutating then d\<lparr>td_execute := f (td_name d)\<rparr> else d) defs"

lemma find_map_keyed: "(\<And>x. k (f x) = k x) \<Longrightarrow> find (\<lambda>x. k x = i) (map f xs) = map_option f (find (\<lambda>x. k x = i) xs)"
  by (induction xs) auto

lemma tool_def_replaced:
  "tool_def_for n (replace_mutating f defs) =
     map_option (\<lambda>d. if td_kind d = Mutating then d\<lparr>td_execute := f (td_name d)\<rparr> else d) (tool_def_for n defs)"
  unfolding tool_def_for_def replace_mutating_def by (rule find_map_keyed) simp

lemma tool_def_forD: "tool_def_for n defs = Some d \<Longrightarrow> d \<in> set defs \<and> td_name d = n"
  using lookup_by_SomeD [of td_name n defs d] by (simp add: tool_def_for_def lookup_by_def)

lemma has_kind_replaced [simp]: "has_kind ks (replace_mutating f defs) c = has_kind ks defs c"
  by (auto simp: has_kind_def tool_def_replaced split: option.splits)

lemma is_intercepted_replaced [simp]: "is_intercepted n (replace_mutating f defs) = is_intercepted n defs"
  by (simp add: is_intercepted_def tool_def_replaced)

lemma plan_mode_execute:
  assumes "gw_plan_mode w" and "registered defs" and "tool_def_for (tc_name c) defs = Some d" and "td_kind d = Mutating"
  shows "execute_with_gateway w d' c rules = execute_with_gateway w d c rules"
proof -
  have "tool_kind_of (tc_name c) = Some Mutating"
    using assms(2-4) by (auto simp: registered_def dest!: tool_def_forD)
  then have "verdict w rules c = Deny" using assms(1) by (simp add: verdict_def allowed_in_plan_mode_def)
  then show ?thesis using final_decision_verdict [of w rules c]
    by (auto simp: execute_with_gateway_def split: prod.splits)
qed

lemma map_filter_cong': "(\<And>x. x \<in> set xs \<Longrightarrow> f x = g x) \<Longrightarrow> List.map_filter f xs = List.map_filter g xs"
  by (induction xs) (auto simp: List.map_filter_simps split: option.split)

lemma read_results_replaced:
  "\<forall>x \<in> set ics. has_kind [ReadOnly, Network] defs (snd x) \<Longrightarrow>
     read_results b (replace_mutating f defs) rules ics = read_results b defs rules ics"
  unfolding read_results_def
proof (rule map_filter_cong')
  fix x assume "\<forall>x \<in> set ics. has_kind [ReadOnly, Network] defs (snd x)"
    and "x \<in> set (takeWhile (\<lambda>(i, c). \<not> bw_cancelled b i) ics)"
  then have "has_kind [ReadOnly, Network] defs (snd x)" by (auto dest: set_takeWhileD)
  then obtain d where "tool_def_for (tc_name (snd x)) defs = Some d" "td_kind d \<noteq> Mutating"
    by (auto simp: has_kind_def split: option.splits)
  then show "(case x of (i, c) \<Rightarrow> if bw_caught b i then Some (c, plain_result ''Cancelled'' ''cancelled'') else case tool_def_for (tc_name c) (replace_mutating f defs) of
          None \<Rightarrow> Some (c, plain_result (''Unknown tool: '' @ tc_name c) ''failed'')
        | Some def \<Rightarrow> map_option (\<lambda>(r, _). (c, r)) (execute_with_gateway (bw_gateway b) def c rules)) =
      (case x of (i, c) \<Rightarrow> if bw_caught b i then Some (c, plain_result ''Cancelled'' ''cancelled'') else case tool_def_for (tc_name c) defs of
          None \<Rightarrow> Some (c, plain_result (''Unknown tool: '' @ tc_name c) ''failed'')
        | Some def \<Rightarrow> map_option (\<lambda>(r, _). (c, r)) (execute_with_gateway (bw_gateway b) def c rules))"
    by (cases x) (simp add: tool_def_replaced)
qed

lemma run_mutating_replaced:
  assumes "gw_plan_mode (bw_gateway b)" and "registered defs"
  shows "run_mutating b (replace_mutating f defs) rules ics = run_mutating b defs rules ics"
proof (induction ics arbitrary: rules)
  case (Cons x ics)
  obtain i c where x: "x = (i, c)" by (cases x)
  show ?case
  proof (cases "tool_def_for (tc_name c) defs")
    case None
    moreover have "run_mutating b (replace_mutating f defs) rs ics = run_mutating b defs rs ics" for rs
      by (rule Cons)
    moreover have "tool_def_for (tc_name c) (replace_mutating f defs) = None" by (simp add: tool_def_replaced None)
    ultimately show ?thesis by (simp only: x run_mutating.simps option.case)
  next
    case (Some d)
    define d' where "d' = (if td_kind d = Mutating then d\<lparr>td_execute := f (td_name d)\<rparr> else d)"
    have d': "tool_def_for (tc_name c) (replace_mutating f defs) = Some d'"
      by (simp add: tool_def_replaced Some d'_def)
    have "execute_with_gateway (bw_gateway b) d' c rules = execute_with_gateway (bw_gateway b) d c rules"
    proof (cases "td_kind d = Mutating")
      case True
      show ?thesis by (rule plan_mode_execute [OF assms Some True])
    qed (simp add: d'_def)
    moreover have "run_mutating b (replace_mutating f defs) rs ics = run_mutating b defs rs ics" for rs
      by (rule Cons)
    ultimately show ?thesis using Some d' by (simp only: x run_mutating.simps option.case)
  qed
qed simp

text \<open>
  C7: in plan mode no call of a batch runs a mutating tool: replacing the code of every mutating tool
  changes neither the results nor the rules nor whether the batch panics, whatever rules are
  remembered and whatever the user answers.
\<close>

theorem plan_mode_runs_no_mutation:
  assumes "gw_plan_mode (bw_gateway b)" and "registered defs"
  shows "process_tool_calls b (replace_mutating f defs) rules calls = process_tool_calls b defs rules calls"
proof -
  let ?rd = "filter (\<lambda>(i, c). has_kind [ReadOnly, Network] defs c)
    (filter (\<lambda>(i, c). \<not> is_intercepted (tc_name c) defs) (enumerate 0 calls))"
  have "read_results b (replace_mutating f defs) rules ?rd = read_results b defs rules ?rd"
    by (rule read_results_replaced) auto
  then show ?thesis
    by (simp add: process_tool_calls_def Let_def intercepted_results_def run_mutating_replaced [OF assms]
        del: record_all.simps split: option.split)
qed

subsection \<open>Which calls are answered\<close>

definition known_call :: "tool_def list \<Rightarrow> tool_call \<Rightarrow> bool" where
  "known_call defs c \<longleftrightarrow> tool_def_for (tc_name c) defs \<noteq> None"

text \<open>The thread of a read-only call that dies while it cuts its summary.\<close>

definition thread_dies :: "batch_world \<Rightarrow> tool_def list \<Rightarrow> session_rule list \<Rightarrow> tool_call \<Rightarrow> bool" where
  "thread_dies b defs rules c \<longleftrightarrow> \<not> is_intercepted (tc_name c) defs \<and> has_kind [ReadOnly, Network] defs c \<and>
     (case tool_def_for (tc_name c) defs of
        None \<Rightarrow> False | Some d \<Rightarrow> Option.is_none (execute_with_gateway (bw_gateway b) d c rules))"

lemma record_all_Some: "record_all rs = Some out \<Longrightarrow> out = rs"
  by (induction rs arbitrary: out) (auto split: option.splits)

lemma run_mutating_calls:
  "run_mutating b defs rules ics = Some (out, rules') \<Longrightarrow> (\<And>i. \<not> bw_cancelled b i) \<Longrightarrow> map fst out = map snd ics"
proof (induction ics arbitrary: rules out rules')
  case (Cons x ics)
  obtain i c where x: "x = (i, c)" by (cases x)
  with Cons.prems show ?case
    by (auto split: option.splits dest!: record_all_Some Cons.IH simp del: record_all.simps)
qed simp

lemma read_results_calls:
  assumes "\<And>i. \<not> bw_cancelled b i \<and> \<not> bw_caught b i" and "\<forall>x \<in> set ics. has_kind [ReadOnly, Network] defs (snd x)"
    and "\<forall>x \<in> set ics. \<not> is_intercepted (tc_name (snd x)) defs"
  shows "map fst (read_results b defs rules ics) = filter (\<lambda>c. \<not> thread_dies b defs rules c) (map snd ics)"
proof -
  have "takeWhile (\<lambda>(i, c). \<not> bw_cancelled b i) ics = ics" using assms(1) by (simp add: takeWhile_eq_all_conv)
  with assms(2,3) show ?thesis
    unfolding read_results_def
  proof (induction ics)
    case (Cons x ics)
    obtain i c where x: "x = (i, c)" by (cases x)
    from Cons.prems x obtain d where d: "tool_def_for (tc_name c) defs = Some d"
      by (auto simp: has_kind_def split: option.splits)
    with Cons x show ?case
      by (auto simp: List.map_filter_simps thread_dies_def assms(1) split: option.splits)
  qed (simp add: List.map_filter_simps)
qed

lemma call_classes:
  "is_intercepted (tc_name c) defs \<or> \<not> is_intercepted (tc_name c) defs \<and> has_kind [ReadOnly, Network] defs c \<or>
     \<not> is_intercepted (tc_name c) defs \<and> has_kind [Mutating] defs c \<longleftrightarrow> known_call defs c"
  "\<not> (has_kind [ReadOnly, Network] defs c \<and> has_kind [Mutating] defs c)"
proof -
  have "k \<in> {ReadOnly, Network} \<or> k = Mutating" for k by (cases k) auto
  then show "is_intercepted (tc_name c) defs \<or> \<not> is_intercepted (tc_name c) defs \<and> has_kind [ReadOnly, Network] defs c \<or>
     \<not> is_intercepted (tc_name c) defs \<and> has_kind [Mutating] defs c \<longleftrightarrow> known_call defs c"
    by (auto simp: is_intercepted_def has_kind_def known_call_def split: option.splits)
qed (auto simp: has_kind_def split: option.splits)

lemma thread_diesD: "thread_dies b defs rules c \<Longrightarrow> \<not> is_intercepted (tc_name c) defs \<and> has_kind [ReadOnly, Network] defs c"
  by (simp add: thread_dies_def)

lemma intercepted_calls:
  "mset (map fst (concat (map (\<lambda>name. intercepted_results b defs name calls)
     [''propose_ideas'', ''ask_user'', ''todo_write'', ''task'']))) =
   mset (filter (\<lambda>c. is_intercepted (tc_name c) defs) calls)"
proof -
  have "mset (map fst (intercepted_results b defs name calls)) =
      filter_mset (\<lambda>c. tc_name c = name \<and> is_intercepted name defs) (mset calls)" for name
    by (auto simp: intercepted_results_def comp_def simp flip: mset_filter intro!: arg_cong [of _ _ mset] filter_cong)
  moreover have "filter_mset (\<lambda>c. tc_name c = ''propose_ideas'' \<and> is_intercepted ''propose_ideas'' defs) (mset calls) +
     (filter_mset (\<lambda>c. tc_name c = ''ask_user'' \<and> is_intercepted ''ask_user'' defs) (mset calls) +
     (filter_mset (\<lambda>c. tc_name c = ''todo_write'' \<and> is_intercepted ''todo_write'' defs) (mset calls) +
      filter_mset (\<lambda>c. tc_name c = ''task'' \<and> is_intercepted ''task'' defs) (mset calls))) =
     filter_mset (\<lambda>c. is_intercepted (tc_name c) defs) (mset calls)"
    by (induction calls) (auto simp: is_intercepted_def)
  ultimately show ?thesis by (simp add: mset_filter)
qed

lemma mset_three:
  assumes "\<And>x. I x \<or> \<not> I x \<and> R x \<or> \<not> I x \<and> M x \<longleftrightarrow> K x" and "\<And>x. \<not> (R x \<and> M x)" and "\<And>x. T x \<Longrightarrow> \<not> I x \<and> R x"
  shows "filter_mset I A + filter_mset (\<lambda>x. (\<not> I x \<and> R x) \<and> \<not> T x) A + filter_mset (\<lambda>x. \<not> I x \<and> M x) A =
    filter_mset (\<lambda>x. K x \<and> \<not> T x) A"
proof (induction A)
  case (add x A)
  from assms(1) [of x] assms(2) [of x] assms(3) [of x] add show ?case
    by (cases "I x"; cases "R x"; cases "M x"; cases "T x") simp_all
qed simp

lemma enumerate_calls: "map snd (filter (\<lambda>(i, c). P c) (filter (\<lambda>(i, c). Q c) (enumerate n calls))) =
    filter (\<lambda>c. Q c \<and> P c) calls"
  by (induction calls arbitrary: n) auto

text \<open>
  C39: when a batch finishes uncancelled, exactly the calls of offered tools whose thread survived have a
  result, one each; a call of a tool that is not offered has none.
\<close>

theorem batch_answers_offered_calls:
  assumes "process_tool_calls b defs rules calls = Some (out, rules')" and "\<And>i. \<not> bw_cancelled b i \<and> \<not> bw_caught b i"
  shows "mset (map fst out) = mset (filter (\<lambda>c. known_call defs c \<and> \<not> thread_dies b defs rules c) calls)"
proof -
  let ?rem = "filter (\<lambda>(i, c). \<not> is_intercepted (tc_name c) defs) (enumerate 0 calls)"
  let ?rd = "filter (\<lambda>(i, c). has_kind [ReadOnly, Network] defs c) ?rem"
  let ?wr = "filter (\<lambda>(i, c). has_kind [Mutating] defs c) ?rem"
  let ?int = "concat (map (\<lambda>name. intercepted_results b defs name calls)
                 [''propose_ideas'', ''ask_user'', ''todo_write'', ''task''])"
  from assms(1) obtain first rest where f: "record_all (?int @ read_results b defs rules ?rd) = Some first"
    and r: "run_mutating b defs rules ?wr = Some (rest, rules')" and out: "out = first @ rest"
    unfolding process_tool_calls_def Let_def by (auto split: option.splits)
  have "mset (map fst out) = mset (map fst ?int) + mset (map fst (read_results b defs rules ?rd)) + mset (map fst rest)"
    using record_all_Some [OF f] out by simp
  also have "map fst (read_results b defs rules ?rd) = filter (\<lambda>c. \<not> thread_dies b defs rules c) (map snd ?rd)"
    by (rule read_results_calls) (use assms(2) in auto)
  also have "map fst rest = map snd ?wr" by (rule run_mutating_calls [OF r]) (use assms(2) in simp)
  finally have "mset (map fst out) = filter_mset (\<lambda>c. is_intercepted (tc_name c) defs) (mset calls) +
      filter_mset (\<lambda>c. (\<not> is_intercepted (tc_name c) defs \<and> has_kind [ReadOnly, Network] defs c) \<and>
        \<not> thread_dies b defs rules c) (mset calls) +
      filter_mset (\<lambda>c. \<not> is_intercepted (tc_name c) defs \<and> has_kind [Mutating] defs c) (mset calls)"
    unfolding intercepted_calls enumerate_calls by (simp add: filter_filter_mset conj_ac)
  also have "\<dots> = filter_mset (\<lambda>c. known_call defs c \<and> \<not> thread_dies b defs rules c) (mset calls)"
    by (rule mset_three) (use call_classes thread_diesD in blast)+
  finally show ?thesis by (simp add: mset_filter)
qed

text \<open>A batch of calls, one of them of a tool nobody offers.\<close>

definition sample_settings :: "approval_mode \<Rightarrow> settings" where
  "sample_settings m = set_approval_mode ''/p'' m \<lparr>app_defaults = [], stored_rules = None, approval_rules = []\<rparr>"

definition sample_gateway :: "approval_mode \<Rightarrow> bool \<Rightarrow> approval \<Rightarrow> gateway_world" where
  "sample_gateway m plan_mode a = \<lparr>gw_settings = sample_settings m, gw_project = ''/p'', gw_plan_mode = plan_mode,
     gw_command = (\<lambda>s. Some s), gw_external_provider = False, gw_approval = (\<lambda>c. a)\<rparr>"

definition sample_tools :: "tool_def list" where
  "sample_tools =
     [\<lparr>td_name = ''read_file'', td_kind = ReadOnly, td_execute = (\<lambda>a. plain_result a ''succeeded'')\<rparr>,
      \<lparr>td_name = ''run_command'', td_kind = Mutating, td_execute = (\<lambda>a. plain_result a ''succeeded'')\<rparr>]"

definition sample_call :: "string \<Rightarrow> tool_call" where
  "sample_call n = \<lparr>tc_id = n, tc_name = n, tc_arguments = ''x''\<rparr>"

definition sample_batch :: "gateway_world \<Rightarrow> batch_world" where
  "sample_batch w = \<lparr>bw_gateway = w, bw_intercept = (\<lambda>c. plain_result [] ''succeeded''), bw_cancelled = (\<lambda>i. False),
     bw_caught = (\<lambda>i. False)\<rparr>"

abbreviation auto_world :: gateway_world where
  "auto_world \<equiv> sample_gateway Auto False (approval_of_answer ''deny'' None)"

theorem batch_answers_offered_calls_witness:
  "\<exists>out rules'. process_tool_calls (sample_batch auto_world) sample_tools [] (map sample_call [''rm_rf'', ''run_command'', ''read_file'']) =
       Some (out, rules') \<and>
     mset (map fst out) = mset (map sample_call [''run_command'', ''read_file''])"
proof -
  let ?calls = "map sample_call [''rm_rf'', ''run_command'', ''read_file'']"
  have "\<not> Option.is_none (process_tool_calls (sample_batch auto_world) sample_tools [] ?calls)" by code_simp
  then obtain out rules' where p: "process_tool_calls (sample_batch auto_world) sample_tools [] ?calls = Some (out, rules')"
    by (auto simp: Option.is_none_def)
  have "mset (map fst out) = mset (filter (\<lambda>c. known_call sample_tools c \<and>
      \<not> thread_dies (sample_batch auto_world) sample_tools [] c) ?calls)"
    by (rule batch_answers_offered_calls [OF p]) (simp add: sample_batch_def)
  also have "map (\<lambda>c. known_call sample_tools c \<and> \<not> thread_dies (sample_batch auto_world) sample_tools [] c) ?calls =
      [False, True, True]" by code_simp
  then have "filter (\<lambda>c. known_call sample_tools c \<and> \<not> thread_dies (sample_batch auto_world) sample_tools [] c) ?calls =
      map sample_call [''run_command'', ''read_file'']" by simp
  finally show ?thesis using p by blast
qed

theorem plan_mode_runs_no_mutation_witness:
  "process_tool_calls (sample_batch (sample_gateway Auto True (approval_of_answer ''allow'' None)))
     (replace_mutating (\<lambda>n a. plain_result (n @ a) ''failed'') sample_tools) [] [sample_call ''run_command''] =
   process_tool_calls (sample_batch (sample_gateway Auto True (approval_of_answer ''allow'' None)))
     sample_tools [] [sample_call ''run_command'']"
  by (rule plan_mode_runs_no_mutation)
    (simp_all add: sample_batch_def sample_gateway_def registered_def sample_tools_def tool_kind_of_def registry_def)

subsection \<open>Allowing a tool for the session\<close>

text \<open>
  The rule that \<open>allow_session\<close> adds changes no decision: it is stored for the tool \<open>*\<close>, and no
  offered tool has that name. The next call of the tool is asked about again.
\<close>

theorem allow_for_session_has_no_effect:
  assumes "tool \<in> fst ` set registry" and "aw_session_rule (approval_of_answer ''allow_session'' command_prefix) = Some r"
  shows "resolve_tool_call s project tool command (rules @ [r]) plan_mode =
    resolve_tool_call s project tool command rules plan_mode"
proof -
  have "tool \<noteq> ''*''" using assms(1) by (auto simp: registry_def)
  moreover have "sr_tool_name r = ''*''" using assms(2) by (auto simp: approval_of_answer_def)
  ultimately have "\<not> sr_matches tool command r" by (simp add: sr_matches_def rule_matches_def)
  then show ?thesis by (simp add: resolve_tool_call_def find_append split: option.split)
qed

text \<open>Safe mode: the user allows \<open>run_command\<close> for the session, and is asked again.\<close>

theorem allow_for_session_has_no_effect_witness:
  "gd_requires_prompt (resolve_tool_call (sample_settings Safe_mode) ''/p'' ''run_command'' (Some ''ls'')
     ([] @ [\<lparr>sr_tool_name = ''*'', sr_command_prefix = None, sr_decision = Allow\<rparr>]) False)"
proof -
  have "''run_command'' \<in> fst ` set registry" by (simp add: registry_def)
  from allow_for_session_has_no_effect [OF this, of None "\<lparr>sr_tool_name = ''*'', sr_command_prefix = None, sr_decision = Allow\<rparr>"
      "sample_settings Safe_mode" "''/p''" "Some ''ls''" "[]" False]
  have "resolve_tool_call (sample_settings Safe_mode) ''/p'' ''run_command'' (Some ''ls'')
      ([] @ [\<lparr>sr_tool_name = ''*'', sr_command_prefix = None, sr_decision = Allow\<rparr>]) False =
    resolve_tool_call (sample_settings Safe_mode) ''/p'' ''run_command'' (Some ''ls'') [] False"
    by (simp add: approval_of_answer_def)
  moreover have "gd_requires_prompt (resolve_tool_call (sample_settings Safe_mode) ''/p'' ''run_command'' (Some ''ls'') [] False)"
    by code_simp
  ultimately show ?thesis by simp
qed

end
