(* ===== verification/Accounts.thy ===== *)
theory Accounts
  imports Approval TextOps PlanDependency
begin

text \<open>
  Provider accounts: \<open>services/provider_account_service\<close> (\<open>mod.rs\<close>, \<open>storage.rs\<close>, \<open>selection.rs\<close>,
  \<open>health.rs\<close>). The state holds the tables and the process-wide maps: rotation cursors, sticky sessions
  and the health of the virtual accounts of Oh My Pi. What Oh My Pi, the hash function, the identity of
  an OAuth token and a network probe answer is the record \<open>account_world\<close>. Refreshing the model catalog
  after a log-out is outside the model.
\<close>

subsection \<open>Data\<close>

definition AUTH_OAUTH :: string where "AUTH_OAUTH = ''oauth''"
definition AUTH_API :: string where "AUTH_API = ''api''"
definition AUTH_OMP :: string where "AUTH_OMP = ''omp''"
definition HEALTH_HEALTHY :: string where "HEALTH_HEALTHY = ''healthy''"
definition HEALTH_RATE_LIMITED :: string where "HEALTH_RATE_LIMITED = ''rate_limited''"
definition HEALTH_AUTH_EXPIRED :: string where "HEALTH_AUTH_EXPIRED = ''auth_expired''"
definition HEALTH_ERROR :: string where "HEALTH_ERROR = ''error''"
definition DEFAULT_COOLDOWN :: int where "DEFAULT_COOLDOWN = 60"

lemmas account_texts = AUTH_OAUTH_def AUTH_API_def AUTH_OMP_def HEALTH_HEALTHY_def HEALTH_RATE_LIMITED_def
  HEALTH_AUTH_EXPIRED_def HEALTH_ERROR_def

record account_record =
  ac_id :: string
  ac_provider_id :: string
  ac_label :: string
  ac_auth_method :: string
  ac_api_key :: string
  ac_base_url :: "string option"
  ac_identity_key :: "string option"
  ac_health :: string
  ac_cooldown_until :: "int option"
  ac_last_error :: "string option"
  ac_last_used_at :: "int option"
  ac_created_at :: int
  ac_updated_at :: int

text \<open>A row also has a status; a row without a key is not listed.\<close>

record account_row = account_record +
  ac_status :: string
  ac_key_set :: bool

datatype selection_strategy = RoundRobin | StickySession | FillFirst

fun strategy_str :: "selection_strategy \<Rightarrow> string" where
  "strategy_str RoundRobin = ''round_robin''"
| "strategy_str StickySession = ''sticky_session''"
| "strategy_str FillFirst = ''fill_first''"

definition strategy_parse :: "string \<Rightarrow> selection_strategy option" where
  "strategy_parse s =
     (if s = ''round_robin'' then Some RoundRobin else if s = ''sticky_session'' then Some StickySession
      else if s = ''fill_first'' then Some FillFirst else None)"

lemma strategy_parse_str [simp]: "strategy_parse (strategy_str s) = Some s"
  by (cases s) (simp_all add: strategy_parse_def)

datatype account_outcome =
  Success | RateLimited "int option" | AuthExpired string | TransportError string

record public_account =
  pa_id :: string
  pa_provider_id :: string
  pa_label :: string
  pa_auth_method :: string
  pa_health :: string
  pa_cooldown_until :: "int option"
  pa_last_error :: "string option"
  pa_last_used_at :: "int option"
  pa_created_at :: int
  pa_updated_at :: int

record legacy_credential =
  lc_provider_id :: string
  lc_label :: string
  lc_api_key :: string
  lc_base_url :: "string option"
  lc_updated_at :: int

record omp_credential =
  oc_label :: string
  oc_api_key :: string
  oc_base_url :: "string option"
  oc_updated_at :: int

record account_world =
  aw_omp :: "string \<Rightarrow> omp_credential option"
  aw_sha256 :: "string \<Rightarrow> string"
  aw_codex_identity :: "string \<Rightarrow> string option"
  aw_codex_base_url :: string
  aw_probe :: "account_record \<Rightarrow> unit result"

record accounts =
  acct_rows :: "account_row list"
  acct_legacy :: "legacy_credential list"
  acct_blocked :: "(string \<times> int) list"
  acct_defaults :: "(string \<times> string) list"
  acct_cursors :: "string \<Rightarrow> u64"
  acct_sticky :: "(string \<times> string) list"
  acct_omp_health :: "(string \<times> string \<times> int option \<times> string option) list"
  acct_migrated :: bool

subsection \<open>Names and classes\<close>

definition api_key_identity :: "account_world \<Rightarrow> string \<Rightarrow> string" where
  "api_key_identity w key = ''sk256:'' @ aw_sha256 w key"

definition is_omp_account_id :: "string \<Rightarrow> bool" where
  "is_omp_account_id i \<longleftrightarrow> prefix ''omp:'' i"

definition omp_account_id :: "string \<Rightarrow> string" where
  "omp_account_id provider = ''omp:'' @ provider"

definition omp_provider_of :: "string \<Rightarrow> string option" where
  "omp_provider_of i = (if prefix ''omp:'' i then Some (drop 4 i) else None)"

definition classify_auth :: "account_world \<Rightarrow> string option \<Rightarrow> string" where
  "classify_auth w url =
     (case url of
        None \<Rightarrow> AUTH_API
      | Some u \<Rightarrow> if u = aw_codex_base_url w then AUTH_OAUTH else if prefix ''omp://'' u then AUTH_OMP else AUTH_API)"

definition to_public :: "account_record \<Rightarrow> public_account" where
  "to_public r = \<lparr>pa_id = ac_id r, pa_provider_id = ac_provider_id r, pa_label = ac_label r,
     pa_auth_method = ac_auth_method r, pa_health = ac_health r, pa_cooldown_until = ac_cooldown_until r,
     pa_last_error = ac_last_error r, pa_last_used_at = ac_last_used_at r, pa_created_at = ac_created_at r,
     pa_updated_at = ac_updated_at r\<rparr>"

definition classify_provider_error :: "string \<Rightarrow> account_outcome" where
  "classify_provider_error m =
     (if has_infix ''Rate limited (429'' m \<or> has_infix ''(429)'' m then RateLimited None
      else if has_infix ''Authentication failed (401'' m \<or> has_infix ''Authentication failed (403'' m then AuthExpired m
      else TransportError m)"

definition provider_error_class :: "string \<Rightarrow> string" where
  "provider_error_class m =
     (case classify_provider_error m of RateLimited _ \<Rightarrow> ''rate_limited'' | AuthExpired _ \<Rightarrow> ''auth''
      | _ \<Rightarrow> ''provider_error'')"

subsection \<open>Rows\<close>

definition row_record :: "account_row \<Rightarrow> account_record" where
  "row_record r = account_record.truncate r"

definition list_records :: "string option \<Rightarrow> accounts \<Rightarrow> account_record list" where
  "list_records provider s =
     map row_record (order_asc ac_created_at (filter (\<lambda>r. ac_status r = ''active'' \<and> ac_key_set r \<and>
       (case provider of None \<Rightarrow> True | Some p \<Rightarrow> ac_provider_id r = p)) (acct_rows s)))"

text \<open>Reading a row whose key is NULL is an error of the database library.\<close>

definition null_key_error :: string where
  "null_key_error = ''Invalid column type Null at index: 4, name: api_key''"

definition get_record :: "string \<Rightarrow> accounts \<Rightarrow> account_record option result" where
  "get_record i s =
     (case lookup_by ac_id i (acct_rows s) of
        None \<Rightarrow> Ok None
      | Some r \<Rightarrow> if ac_key_set r then Ok (Some (row_record r)) else Err null_key_error)"

definition is_provider_blocked :: "string \<Rightarrow> accounts \<Rightarrow> bool" where
  "is_provider_blocked p s \<longleftrightarrow> map_of (acct_blocked s) p \<noteq> None"

definition new_row ::
    "string \<Rightarrow> string \<Rightarrow> string \<Rightarrow> string \<Rightarrow> string \<Rightarrow> string option \<Rightarrow> string \<Rightarrow> int \<Rightarrow> account_row" where
  "new_row i provider label auth key url identity at =
     \<lparr>ac_id = i, ac_provider_id = provider, ac_label = label, ac_auth_method = auth, ac_api_key = key,
      ac_base_url = url, ac_identity_key = Some identity, ac_health = HEALTH_HEALTHY, ac_cooldown_until = None,
      ac_last_error = None, ac_last_used_at = None, ac_created_at = at, ac_updated_at = at,
      ac_status = ''active'', ac_key_set = True\<rparr>"

definition pacct_id :: "nat \<Rightarrow> string" where
  "pacct_id nanos = ''pacct_'' @ gen_id nanos"

text \<open>The primary key and the unique index on provider and identity; NULL identities never clash.\<close>

definition clashes :: "account_row \<Rightarrow> account_row \<Rightarrow> bool" where
  "clashes r q \<longleftrightarrow> ac_id r = ac_id q \<or>
     ac_provider_id r = ac_provider_id q \<and> ac_identity_key r \<noteq> None \<and> ac_identity_key r = ac_identity_key q"

definition insert_account :: "account_row \<Rightarrow> accounts \<Rightarrow> accounts option" where
  "insert_account r s =
     (if \<exists>q \<in> set (acct_rows s). clashes r q then None else Some (s\<lparr>acct_rows := acct_rows s @ [r]\<rparr>))"

subsection \<open>Migration of the single-account table\<close>

definition oauth_key :: "string \<Rightarrow> string \<Rightarrow> string" where
  "oauth_key provider identity = ''provider_oauth:'' @ provider @ '':'' @ identity"

definition migrate_one :: "account_world \<Rightarrow> env \<Rightarrow> nat \<Rightarrow> legacy_credential \<Rightarrow> accounts \<Rightarrow> accounts" where
  "migrate_one w e k c s =
     (if \<exists>r \<in> set (acct_rows s). ac_provider_id r = lc_provider_id c then s
      else
        (let auth = classify_auth w (lc_base_url c);
             identity = (if auth = AUTH_OAUTH then coalesce (aw_codex_identity w (lc_api_key c)) (''legacy:'' @ lc_provider_id c)
                         else api_key_identity w (lc_api_key c));
             at = (if lc_updated_at c > 0 then lc_updated_at c else e_secs e k);
             row = new_row (pacct_id (e_nanos e k)) (lc_provider_id c) (lc_label c) auth (lc_api_key c) (lc_base_url c) identity at;
             s' = coalesce (insert_account row s) s
         in if auth = AUTH_OAUTH \<and> lc_provider_id c = ''openai-codex''
            then (case map_of (acct_defaults s') ''provider_oauth:openai-codex'' of
                    None \<Rightarrow> s'
                  | Some token \<Rightarrow>
                      (if map_of (acct_defaults s') (oauth_key ''openai-codex'' identity) = None
                       then s'\<lparr>acct_defaults := acct_defaults s' @ [(oauth_key ''openai-codex'' identity, token)]\<rparr> else s'))
            else s'))"

fun migrate_all :: "account_world \<Rightarrow> env \<Rightarrow> nat \<Rightarrow> legacy_credential list \<Rightarrow> accounts \<Rightarrow> accounts" where
  "migrate_all w e k [] s = s"
| "migrate_all w e k (c # cs) s = migrate_all w e (Suc k) cs (migrate_one w e k c s)"

definition ensure_migrated :: "account_world \<Rightarrow> env \<Rightarrow> accounts \<Rightarrow> accounts" where
  "ensure_migrated w e s =
     (if acct_migrated s then s else (migrate_all w e 0 (acct_legacy s) s)\<lparr>acct_migrated := True\<rparr>)"

text \<open>
  \<open>list_records\<close>, \<open>upsert_account\<close>, \<open>remove_account\<close> and what lists records begin with
  \<open>ensure_migrated\<close>. Their definitions here start after it; \<open>with_migration\<close> is the whole call, which
  reads the clock later than the migration does.
\<close>

definition with_migration :: "(env \<Rightarrow> accounts \<Rightarrow> 'a) \<Rightarrow> account_world \<Rightarrow> env \<Rightarrow> accounts \<Rightarrow> 'a" where
  "with_migration f w e s = f (later (length (acct_legacy s)) e) (ensure_migrated w e s)"

subsection \<open>Storage\<close>

definition upsert_account ::
    "env \<Rightarrow> string \<Rightarrow> string \<Rightarrow> string \<Rightarrow> string \<Rightarrow> string option \<Rightarrow> string \<Rightarrow> accounts \<Rightarrow>
     (account_record \<times> bool) result \<times> accounts" where
  "upsert_account e provider label auth key url identity s =
     (let found = (\<lambda>r. ac_provider_id r = provider \<and> ac_identity_key r = Some identity);
          now = e_secs e 0
      in case find found (acct_rows s) of
           Some q \<Rightarrow>
             (let s' = s\<lparr>acct_rows := upd_where (\<lambda>r. ac_id r = ac_id q)
                    (\<lambda>r. r\<lparr>ac_label := label, ac_api_key := key, ac_key_set := True, ac_base_url := url,
                           ac_health := HEALTH_HEALTHY, ac_status := ''active'', ac_cooldown_until := None,
                           ac_last_error := None, ac_updated_at := now\<rparr>) (acct_rows s)\<rparr>
              in (case get_record (ac_id q) s' of
                    Inl m \<Rightarrow> Err m
                  | Inr None \<Rightarrow> Err ''Account row disappeared during upsert.''
                  | Inr (Some r) \<Rightarrow> Ok (r, True), s'))
         | None \<Rightarrow>
             (let row = new_row (pacct_id (e_nanos e 0)) provider label auth key url identity now
              in case insert_account row s of
                   None \<Rightarrow> (Err (unique_error ''native_provider_accounts''), s)
                 | Some s' \<Rightarrow>
                     (case get_record (ac_id row) s' of
                        Inl m \<Rightarrow> Err m
                      | Inr None \<Rightarrow> Err ''Account row disappeared during upsert.''
                      | Inr (Some r) \<Rightarrow> Ok (r, False), s')))"

definition unknown_account :: "string \<Rightarrow> string" where
  "unknown_account i = ''Unknown account '' @ [CHR 0x27] @ i @ [CHR 0x27] @ ''.''"

definition set_label :: "env \<Rightarrow> string \<Rightarrow> string \<Rightarrow> accounts \<Rightarrow> unit result \<times> accounts" where
  "set_label e i label s =
     (let l = trim label
      in if l = [] then (Err ''Account label is required.'', s)
         else if is_omp_account_id i then (Err ''Oh My Pi accounts are labeled by Oh My Pi.'', s)
         else if \<not> (\<exists>r \<in> set (acct_rows s). ac_id r = i) then (Err (unknown_account i), s)
         else (Ok (), s\<lparr>acct_rows := upd_where (\<lambda>r. ac_id r = i)
                  (\<lambda>r. r\<lparr>ac_label := l, ac_updated_at := e_secs e 0\<rparr>) (acct_rows s)\<rparr>))"

text \<open>\<open>max_by_key\<close> gives the last of the greatest elements.\<close>

fun newest :: "account_record list \<Rightarrow> account_record option" where
  "newest [] = None"
| "newest (r # rs) =
     (case newest rs of None \<Rightarrow> Some r | Some q \<Rightarrow> if ac_updated_at q < ac_updated_at r then Some r else Some q)"

definition sync_legacy_row :: "string \<Rightarrow> accounts \<Rightarrow> accounts" where
  "sync_legacy_row p s =
     (case newest (list_records (Some p) s) of
        Some r \<Rightarrow>
          (let c = \<lparr>lc_provider_id = p, lc_label = ac_label r, lc_api_key = ac_api_key r, lc_base_url = ac_base_url r,
                    lc_updated_at = ac_updated_at r\<rparr>
           in s\<lparr>acct_legacy := (if \<exists>q \<in> set (acct_legacy s). lc_provider_id q = p
                 then upd_where (\<lambda>q. lc_provider_id q = p) (\<lambda>_. c) (acct_legacy s) else acct_legacy s @ [c])\<rparr>)
      | None \<Rightarrow> s\<lparr>acct_legacy := filter (\<lambda>q. lc_provider_id q \<noteq> p) (acct_legacy s)\<rparr>)"

definition release_sticky :: "string \<Rightarrow> accounts \<Rightarrow> accounts" where
  "release_sticky i s = s\<lparr>acct_sticky := filter (\<lambda>p. snd p \<noteq> i) (acct_sticky s)\<rparr>"

definition remove_account :: "env \<Rightarrow> string \<Rightarrow> accounts \<Rightarrow> unit result \<times> accounts" where
  "remove_account e i s =
     (case omp_provider_of i of
        Some p \<Rightarrow>
          (Ok (), s\<lparr>acct_blocked := (if is_provider_blocked p s then acct_blocked s else acct_blocked s @ [(p, e_secs e 0)]),
                    acct_omp_health := filter (\<lambda>h. fst h \<noteq> i) (acct_omp_health s)\<rparr>)
      | None \<Rightarrow>
          (case get_record i s of
             Inl m \<Rightarrow> (Err m, s)
           | Inr None \<Rightarrow> (Err (unknown_account i), s)
           | Inr (Some r) \<Rightarrow>
               (let s1 = s\<lparr>acct_rows := filter (\<lambda>q. ac_id q \<noteq> i) (acct_rows s)\<rparr>;
                    s2 = (case ac_identity_key r of
                            Some identity \<Rightarrow>
                              (if ac_auth_method r = AUTH_OAUTH
                               then s1\<lparr>acct_defaults := filter (\<lambda>d. fst d \<noteq> oauth_key (ac_provider_id r) identity) (acct_defaults s1)\<rparr>
                               else s1)
                          | None \<Rightarrow> s1)
                in (Ok (), sync_legacy_row (ac_provider_id r) (release_sticky i s2)))))"

subsection \<open>Health\<close>

definition cooled :: "int \<Rightarrow> int option \<Rightarrow> bool" where
  "cooled now until \<longleftrightarrow> (case until of None \<Rightarrow> True | Some t \<Rightarrow> t \<le> now)"

definition omp_health_snapshot :: "string \<Rightarrow> accounts \<Rightarrow> string \<times> int option \<times> string option" where
  "omp_health_snapshot i s = coalesce (map_of (acct_omp_health s) i) (HEALTH_HEALTHY, None, None)"

definition omp_account_usable :: "string \<Rightarrow> int \<Rightarrow> accounts \<Rightarrow> bool" where
  "omp_account_usable i now s \<longleftrightarrow>
     (case map_of (acct_omp_health s) i of
        Some (state, cooldown, _) \<Rightarrow> state = HEALTH_HEALTHY \<or> state = HEALTH_RATE_LIMITED \<and> cooled now cooldown
      | None \<Rightarrow> True)"

definition health_of_outcome :: "int \<Rightarrow> account_outcome \<Rightarrow> string \<times> int option \<times> string option" where
  "health_of_outcome now out =
     (case out of
        Success \<Rightarrow> (HEALTH_HEALTHY, None, None)
      | RateLimited retry \<Rightarrow> (HEALTH_RATE_LIMITED, Some (now + max (coalesce retry DEFAULT_COOLDOWN) 1), None)
      | AuthExpired m \<Rightarrow> (HEALTH_AUTH_EXPIRED, None, Some m)
      | TransportError m \<Rightarrow> (HEALTH_ERROR, None, Some m))"

fun put_health ::
    "string \<Rightarrow> string \<times> int option \<times> string option \<Rightarrow> (string \<times> string \<times> int option \<times> string option) list \<Rightarrow>
     (string \<times> string \<times> int option \<times> string option) list" where
  "put_health i h [] = [(i, h)]"
| "put_health i h (p # ps) = (if fst p = i then (i, h) # ps else p # put_health i h ps)"

definition record_outcome :: "env \<Rightarrow> string \<Rightarrow> account_outcome \<Rightarrow> accounts \<Rightarrow> accounts" where
  "record_outcome e i out s =
     (let now = e_secs e 0; (health, cooldown, err) = health_of_outcome now out
      in if is_omp_account_id i then s\<lparr>acct_omp_health := put_health i (health, cooldown, err) (acct_omp_health s)\<rparr>
         else
           (let s' = s\<lparr>acct_rows := upd_where (\<lambda>r. ac_id r = i)
                  (\<lambda>r. r\<lparr>ac_health := health, ac_cooldown_until := cooldown, ac_last_error := err,
                         ac_last_used_at := Some now, ac_updated_at := now\<rparr>) (acct_rows s)\<rparr>
            in if health \<noteq> HEALTH_HEALTHY then release_sticky i s' else s'))"

definition usable_record :: "int \<Rightarrow> account_record \<Rightarrow> bool" where
  "usable_record now r \<longleftrightarrow> ac_health r = HEALTH_HEALTHY \<or>
     ac_health r = HEALTH_RATE_LIMITED \<and> cooled now (ac_cooldown_until r)"

definition aggregate_health :: "env \<Rightarrow> string \<Rightarrow> accounts \<Rightarrow> string" where
  "aggregate_health e p s =
     (let rs = list_records (Some p) s; n = length (filter (usable_record (e_secs e 0)) rs)
      in if rs = [] then HEALTH_HEALTHY
         else if n = length rs then HEALTH_HEALTHY else if 0 < n then ''degraded'' else ''broken'')"

subsection \<open>Selection\<close>

definition STRATEGY_KEY :: string where "STRATEGY_KEY = ''provider_account_strategy''"

definition parsed_default :: "string \<Rightarrow> accounts \<Rightarrow> selection_strategy option" where
  "parsed_default k s = Option.bind (map_of (acct_defaults s) k) strategy_parse"

definition strategy_for :: "string \<Rightarrow> accounts \<Rightarrow> selection_strategy" where
  "strategy_for p s =
     coalesce (coalesce_opt (parsed_default (STRATEGY_KEY @ '':'' @ p) s) (parsed_default STRATEGY_KEY s)) RoundRobin"

definition set_strategy :: "string option \<Rightarrow> string \<Rightarrow> accounts \<Rightarrow> unit result \<times> accounts" where
  "set_strategy provider strategy s =
     (case strategy_parse strategy of
        None \<Rightarrow> (Err (''Unknown strategy '' @ [CHR 0x27] @ strategy @ [CHR 0x27] @ ''.''), s)
      | Some st \<Rightarrow>
          (let k = (case provider of None \<Rightarrow> STRATEGY_KEY | Some p \<Rightarrow> STRATEGY_KEY @ '':'' @ p)
           in (Ok (), s\<lparr>acct_defaults := put_default k (strategy_str st) (acct_defaults s)\<rparr>)))"

text \<open>Rotate by the provider's cursor and advance it; one account needs no rotation.\<close>

definition rotate_next :: "string \<Rightarrow> account_record list \<Rightarrow> accounts \<Rightarrow> account_record list \<times> accounts" where
  "rotate_next p rs s =
     (if 1 < length rs
      then (rotate (unat (acct_cursors s p) mod length rs) rs,
            s\<lparr>acct_cursors := (acct_cursors s)(p := acct_cursors s p + 1)\<rparr>)
      else (rs, s))"

definition pin :: "string \<Rightarrow> string \<Rightarrow> accounts \<Rightarrow> accounts" where
  "pin session i s = s\<lparr>acct_sticky := put_default session i (acct_sticky s)\<rparr>"

definition order_healthy ::
    "string \<Rightarrow> string option \<Rightarrow> account_record list \<Rightarrow> accounts \<Rightarrow> account_record list \<times> accounts" where
  "order_healthy p session_key healthy s =
     (case strategy_for p s of
        RoundRobin \<Rightarrow> rotate_next p healthy s
      | StickySession \<Rightarrow>
          (case session_key of
             None \<Rightarrow> (healthy, s)
           | Some session \<Rightarrow>
               (case Option.bind (map_of (acct_sticky s) session) (\<lambda>i. position_of (\<lambda>r. ac_id r = i) healthy) of
                  Some k \<Rightarrow> (rotate k healthy, s)
                | None \<Rightarrow>
                    (let (rs, s') = rotate_next p healthy s
                     in (rs, case rs of [] \<Rightarrow> s' | r # _ \<Rightarrow> pin session (ac_id r) s'))))
      | FillFirst \<Rightarrow> (healthy, s))"

definition omp_record :: "string \<Rightarrow> omp_credential \<Rightarrow> account_record" where
  "omp_record p c = \<lparr>ac_id = omp_account_id p, ac_provider_id = p, ac_label = oc_label c, ac_auth_method = AUTH_OMP,
     ac_api_key = oc_api_key c, ac_base_url = oc_base_url c, ac_identity_key = None, ac_health = HEALTH_HEALTHY,
     ac_cooldown_until = None, ac_last_error = None, ac_last_used_at = None, ac_created_at = oc_updated_at c,
     ac_updated_at = oc_updated_at c\<rparr>"

definition omp_candidates :: "account_world \<Rightarrow> int \<Rightarrow> string \<Rightarrow> accounts \<Rightarrow> account_record list" where
  "omp_candidates w now p s =
     (case aw_omp w p of
        None \<Rightarrow> []
      | Some c \<Rightarrow>
          (if \<not> is_provider_blocked p s \<and> omp_account_usable (omp_account_id p) now s then [omp_record p c] else []))"

definition candidates ::
    "account_world \<Rightarrow> env \<Rightarrow> string \<Rightarrow> string option \<Rightarrow> accounts \<Rightarrow> account_record list \<times> accounts" where
  "candidates w e p session_key s =
     (let rs = list_records (Some p) s;
          now = e_secs e 0;
          healthy = filter (usable_record now) rs;
          errored = filter (\<lambda>r. ac_health r = HEALTH_ERROR) rs;
          (ordered, s') = order_healthy p session_key healthy s
      in (ordered @ omp_candidates w now p s' @ errored, s'))"

definition exhaustion_state :: "int \<Rightarrow> account_record \<Rightarrow> string" where
  "exhaustion_state now r =
     (if ac_health r = HEALTH_RATE_LIMITED then
        (case ac_cooldown_until r of
           Some t \<Rightarrow> ''rate limited ('' @ show_int (max (t - now) 0) @ ''s left)''
         | None \<Rightarrow> ''rate limited'')
      else if ac_health r = HEALTH_AUTH_EXPIRED
        then ''login expired '' @ [CHR 0xE2, CHR 0x80, CHR 0x94] @ '' log in again''
      else if ac_health r = HEALTH_ERROR then coalesce (ac_last_error r) ''error''
      else ac_health r)"

definition soonest_cooldown :: "account_record list \<Rightarrow> int option" where
  "soonest_cooldown rs =
     fold (\<lambda>r m. if ac_health r = HEALTH_RATE_LIMITED then
                   (case ac_cooldown_until r of
                      None \<Rightarrow> m | Some t \<Rightarrow> Some (case m of None \<Rightarrow> t | Some u \<Rightarrow> min u t))
                 else m) rs None"

definition exhaustion_message :: "env \<Rightarrow> string \<Rightarrow> string \<Rightarrow> accounts \<Rightarrow> string" where
  "exhaustion_message e p provider_label s =
     (let rs = list_records (Some p) s; now = e_secs e 0
      in if rs = [] then ''No '' @ provider_label @ '' account is available.''
         else ''Every '' @ provider_label @ '' account is unavailable '' @ [CHR 0xE2, CHR 0x80, CHR 0x94] @ '' '' @
           join_with ''; '' (map (\<lambda>r. ac_label r @ '': '' @ exhaustion_state now r) rs) @ ''.'' @
           (case soonest_cooldown rs of
              None \<Rightarrow> []
            | Some t \<Rightarrow> '' The next account frees up in '' @ show_int (max (t - now) 0) @ ''s.''))"

subsection \<open>Public views\<close>

definition omp_virtual_account :: "string \<Rightarrow> string \<Rightarrow> int \<Rightarrow> accounts \<Rightarrow> public_account" where
  "omp_virtual_account p label at s =
     (let (health, cooldown, err) = omp_health_snapshot (omp_account_id p) s
      in \<lparr>pa_id = omp_account_id p, pa_provider_id = p,
          pa_label = ''Oh My Pi '' @ [CHR 0xC2, CHR 0xB7] @ '' '' @ label, pa_auth_method = AUTH_OMP,
          pa_health = health, pa_cooldown_until = cooldown, pa_last_error = err, pa_last_used_at = None,
          pa_created_at = at, pa_updated_at = at\<rparr>)"

definition list_accounts :: "account_world \<Rightarrow> string \<Rightarrow> accounts \<Rightarrow> public_account list" where
  "list_accounts w p s =
     map to_public (list_records (Some p) s) @
     (case aw_omp w p of
        None \<Rightarrow> []
      | Some c \<Rightarrow> if is_provider_blocked p s then [] else [omp_virtual_account p (oc_label c) (oc_updated_at c) s])"

definition test_account :: "account_world \<Rightarrow> env \<Rightarrow> string \<Rightarrow> accounts \<Rightarrow> public_account result \<times> accounts" where
  "test_account w e i s =
     (case omp_provider_of i of
        Some p \<Rightarrow>
          (let s' = record_outcome e i (if aw_omp w p \<noteq> None then Success
                 else AuthExpired ''Oh My Pi no longer holds a credential for this provider. Run /login in Oh My Pi.'') s
           in (Ok (case aw_omp w p of
                     None \<Rightarrow> omp_virtual_account p ''unavailable'' 0 s'
                   | Some c \<Rightarrow> omp_virtual_account p (oc_label c) (oc_updated_at c) s'), s'))
      | None \<Rightarrow>
          (case get_record i s of
             Inl m \<Rightarrow> (Err m, s)
           | Inr None \<Rightarrow> (Err (unknown_account i), s)
           | Inr (Some r) \<Rightarrow>
               (let s' = record_outcome e i (case aw_probe w r of Inr _ \<Rightarrow> Success | Inl m \<Rightarrow> classify_provider_error m) s
                in (case get_record i s' of
                      Inl m \<Rightarrow> Err m | Inr None \<Rightarrow> Err (unknown_account i)
                    | Inr (Some r') \<Rightarrow> Ok (to_public r'), s'))))"

end
