(* ===== verification/AccountsProps.thy ===== *)
theory AccountsProps
  imports Accounts LifecycleProps
begin

text \<open>
  What account selection guarantees: which accounts a request may use and in which order, fairness of
  the rotation, cool-downs, the invariant of rows and sticky sessions over all operations, and that the
  migration of the old table can be repeated.
\<close>

subsection \<open>The candidates of a request\<close>

abbreviation usable_now :: "env \<Rightarrow> string \<Rightarrow> accounts \<Rightarrow> account_record list" where
  "usable_now e p s \<equiv> filter (usable_record (e_secs e 0)) (list_records (Some p) s)"

lemma rotate_next_fst: "\<exists>k. fst (rotate_next p rs s) = rotate k rs"
  by (auto simp: rotate_next_def intro: exI [of _ 0])

text \<open>Selection touches cursors and pins only.\<close>

definition same_tables :: "accounts \<Rightarrow> accounts \<Rightarrow> bool" where
  "same_tables s t \<longleftrightarrow> acct_rows t = acct_rows s \<and> acct_legacy t = acct_legacy s \<and> acct_blocked t = acct_blocked s \<and>
     acct_defaults t = acct_defaults s \<and> acct_omp_health t = acct_omp_health s \<and> acct_migrated t = acct_migrated s"

lemma same_tables_refl [simp]: "same_tables s s"
  by (simp add: same_tables_def)

lemma same_tables_reads:
  assumes "same_tables s t"
  shows "list_records p t = list_records p s" "strategy_for q t = strategy_for q s"
    "omp_candidates w now q t = omp_candidates w now q s"
  using assms by (auto simp: same_tables_def list_records_def strategy_for_def parsed_default_def omp_candidates_def
      is_provider_blocked_def omp_account_usable_def split: option.splits)

lemma rotate_next_tables: "same_tables s (snd (rotate_next p rs s))"
  by (simp add: rotate_next_def same_tables_def)

lemma order_healthy_tables: "same_tables s (snd (order_healthy p sk rs s))"
  using rotate_next_tables [of s p rs]
  by (auto simp: order_healthy_def pin_def same_tables_def Let_def
      split: selection_strategy.splits option.splits prod.splits list.splits)

lemma order_healthy_fst: "\<exists>k. fst (order_healthy p sk rs s) = rotate k rs"
proof (cases "strategy_for p s")
  case RoundRobin
  then show ?thesis using rotate_next_fst by (simp add: order_healthy_def)
next
  case StickySession
  obtain k where k: "fst (rotate_next p rs s) = rotate k rs" using rotate_next_fst by blast
  show ?thesis
  proof (cases sk)
    case None
    with StickySession show ?thesis by (auto simp: order_healthy_def intro: exI [of _ 0])
  next
    case (Some session)
    with StickySession k show ?thesis
      by (cases "Option.bind (map_of (acct_sticky s) session) (\<lambda>i. position_of (\<lambda>r. ac_id r = i) rs)")
        (auto simp: order_healthy_def split: prod.splits)
  qed
next
  case FillFirst
  then show ?thesis by (auto simp: order_healthy_def intro: exI [of _ 0])
qed

lemma candidates_split:
  "candidates w e p sk s =
     (fst (order_healthy p sk (usable_now e p s) s) @ omp_candidates w (e_secs e 0) p s @
        filter (\<lambda>r. ac_health r = HEALTH_ERROR) (list_records (Some p) s),
      snd (order_healthy p sk (usable_now e p s) s))"
proof -
  obtain rs t where o: "order_healthy p sk (usable_now e p s) s = (rs, t)" by fastforce
  then have "omp_candidates w (e_secs e 0) p t = omp_candidates w (e_secs e 0) p s"
    using same_tables_reads(3) [OF order_healthy_tables [of s p sk "usable_now e p s"]] by simp
  with o show ?thesis by (simp add: candidates_def Let_def)
qed

text \<open>
  A request is offered the healthy accounts of its provider and those whose cool-down is over, in a
  rotation of their order of creation, then the usable virtual account, then the accounts in error; an
  account that needs a new login or still cools down is not offered. Choosing changes no table.
\<close>

theorem candidates_are_usable:
  "(\<exists>k. fst (candidates w e p session_key s) =
      rotate k (usable_now e p s) @ omp_candidates w (e_secs e 0) p s @
      filter (\<lambda>r. ac_health r = HEALTH_ERROR) (list_records (Some p) s)) \<and>
   same_tables s (snd (candidates w e p session_key s))"
  using order_healthy_fst order_healthy_tables by (simp add: candidates_split)

subsection \<open>Fairness of the rotation\<close>

definition select_next :: "account_world \<Rightarrow> env \<Rightarrow> string \<Rightarrow> accounts \<Rightarrow> accounts" where
  "select_next w e p s = snd (candidates w e p None s)"

definition first_choice :: "account_world \<Rightarrow> env \<Rightarrow> string \<Rightarrow> accounts \<Rightarrow> account_record" where
  "first_choice w e p s = hd (fst (candidates w e p None s))"

lemma rotation_state:
  assumes "strategy_for p s = RoundRobin" and "1 < length (usable_now e p s)"
  shows "same_tables s ((select_next w e p ^^ j) s) \<and> acct_cursors ((select_next w e p ^^ j) s) p = acct_cursors s p + of_nat j"
proof (induction j)
  case (Suc j)
  let ?t = "(select_next w e p ^^ j) s"
  from Suc have t: "same_tables s ?t" and c: "acct_cursors ?t p = acct_cursors s p + of_nat j" by auto
  have "usable_now e p ?t = usable_now e p s" "strategy_for p ?t = RoundRobin"
    using same_tables_reads(1,2) [OF t] assms(1) by auto
  with assms(2) have "snd (candidates w e p None ?t) = ?t\<lparr>acct_cursors := (acct_cursors ?t)(p := acct_cursors ?t p + 1)\<rparr>"
    by (simp add: candidates_split order_healthy_def rotate_next_def)
  then have "(select_next w e p ^^ Suc j) s = ?t\<lparr>acct_cursors := (acct_cursors ?t)(p := acct_cursors ?t p + 1)\<rparr>"
    by (simp add: select_next_def)
  with t c show ?case by (simp add: same_tables_def del: funpow.simps)
qed simp

lemma hd_rotate:
  assumes "xs \<noteq> []"
  shows "hd (rotate k xs) = xs ! (k mod length xs)"
proof -
  have "\<not> length xs \<le> k mod length xs" using assms by (simp add: not_le)
  then show ?thesis by (simp add: rotate_drop_take hd_append hd_drop_conv_nth)
qed

lemma rotated_heads: "xs \<noteq> [] \<Longrightarrow> map (\<lambda>j. xs ! ((c + j) mod length xs)) [0..<length xs] = rotate c xs"
  by (rule nth_equalityI) (simp_all add: nth_rotate add.commute)

text \<open>
  Under round robin, as long as health does not change and the cursor does not wrap, as many requests
  in a row as there are usable accounts start with each of them once.
\<close>

theorem round_robin_fair:
  assumes "strategy_for p s = RoundRobin" and "1 < length (usable_now e p s)"
    and "unat (acct_cursors s p) + length (usable_now e p s) \<le> 2 ^ 64"
  shows "map (\<lambda>j. first_choice w e p ((select_next w e p ^^ j) s)) [0..<length (usable_now e p s)] =
    rotate (unat (acct_cursors s p)) (usable_now e p s)"
proof -
  let ?xs = "usable_now e p s"
  have "first_choice w e p ((select_next w e p ^^ j) s) = ?xs ! ((unat (acct_cursors s p) + j) mod length ?xs)"
    if "j < length ?xs" for j
  proof -
    let ?t = "(select_next w e p ^^ j) s"
    from rotation_state [OF assms(1,2)] have t: "same_tables s ?t" and c: "acct_cursors ?t p = acct_cursors s p + of_nat j"
      by auto
    have u: "usable_now e p ?t = ?xs" and rr: "strategy_for p ?t = RoundRobin"
      using same_tables_reads(1,2) [OF t] assms(1) by auto
    have small: "unat (acct_cursors s p) + j < 2 ^ 64" using that assms(3) by linarith
    then have "unat (acct_cursors s p + of_nat j) = unat (acct_cursors s p) + j"
      by (simp add: unat_word_ariths unat_of_nat)
    with c have k: "unat (acct_cursors ?t p) = unat (acct_cursors s p) + j" by simp
    have "first_choice w e p ?t = hd (rotate ((unat (acct_cursors s p) + j) mod length ?xs) ?xs @
        omp_candidates w (e_secs e 0) p ?t @ filter (\<lambda>r. ac_health r = HEALTH_ERROR) (list_records (Some p) ?t))"
      using assms(2) by (simp add: first_choice_def candidates_split order_healthy_def rr rotate_next_def u k)
    also have "\<dots> = hd (rotate ((unat (acct_cursors s p) + j) mod length ?xs) ?xs)"
      using assms(2) by (subst hd_append2) (auto simp: length_0_conv [symmetric] simp del: length_0_conv)
    also have "\<dots> = ?xs ! ((unat (acct_cursors s p) + j) mod length ?xs)"
      using assms(2) by (subst hd_rotate) auto
    finally show ?thesis .
  qed
  then have "map (\<lambda>j. first_choice w e p ((select_next w e p ^^ j) s)) [0..<length ?xs] =
      map (\<lambda>j. ?xs ! ((unat (acct_cursors s p) + j) mod length ?xs)) [0..<length ?xs]"
    by simp
  also have "\<dots> = rotate (unat (acct_cursors s p)) ?xs" using assms(2) by (intro rotated_heads) auto
  finally show ?thesis .
qed

subsection \<open>The invariant of rows and pins\<close>

text \<open>
  Ids and identities are unique, and a pinned account exists and is one that may be selected at the time \<open>T\<close>:
  it is healthy, or its cool-down is over.
\<close>

definition usable_row :: "int \<Rightarrow> account_row \<Rightarrow> bool" where
  "usable_row T r \<longleftrightarrow> ac_health r = HEALTH_HEALTHY \<or> ac_health r = HEALTH_RATE_LIMITED \<and> cooled T (ac_cooldown_until r)"

definition pinnable :: "int \<Rightarrow> string \<Rightarrow> account_row list \<Rightarrow> bool" where
  "pinnable T i rs \<longleftrightarrow> (\<exists>r \<in> set rs. ac_id r = i \<and> usable_row T r)"

definition pins :: "accounts \<Rightarrow> string set" where
  "pins s = snd ` set (acct_sticky s)"

definition unique_rows :: "account_row list \<Rightarrow> bool" where
  "unique_rows rs \<longleftrightarrow> distinct (map ac_id rs) \<and> sorted_wrt (\<lambda>r q. \<not> clashes r q) rs"

definition accounts_ok :: "int \<Rightarrow> accounts \<Rightarrow> bool" where
  "accounts_ok T s \<longleftrightarrow> unique_rows (acct_rows s) \<and> (\<forall>i \<in> pins s. pinnable T i (acct_rows s))"

datatype account_op =
    Select string "string option"
  | Outcome string account_outcome
  | Upsert string string string string "string option" string
  | Relabel string string
  | Remove string
  | Choose "string option" string
  | Test string
  | Migrate

fun account_step :: "account_world \<Rightarrow> env \<times> account_op \<Rightarrow> accounts \<Rightarrow> accounts" where
  "account_step w (e, Select p sk) s = with_migration (\<lambda>e s. snd (candidates w e p sk s)) w e s"
| "account_step w (e, Outcome i out) s = record_outcome e i out s"
| "account_step w (e, Upsert p l a k u identity) s = with_migration (\<lambda>e s. snd (upsert_account e p l a k u identity s)) w e s"
| "account_step w (e, Relabel i l) s = snd (set_label e i l s)"
| "account_step w (e, Remove i) s = with_migration (\<lambda>e s. snd (remove_account e i s)) w e s"
| "account_step w (e, Choose p st) s = snd (set_strategy p st s)"
| "account_step w (e, Test i) s = snd (test_account w e i s)"
| "account_step w (e, Migrate) s = ensure_migrated w e s"

lemma clashes_sym: "clashes r q = clashes q r"
  by (metis clashes_def)

lemma unique_rows_upd:
  assumes "\<And>r. ac_id (f r) = ac_id r" "\<And>r. ac_provider_id (f r) = ac_provider_id r"
    "\<And>r. ac_identity_key (f r) = ac_identity_key r" and "unique_rows rs"
  shows "unique_rows (upd_where P f rs)"
proof -
  have "clashes (if P r then f r else r) (if P q then f q else q) = clashes r q" for r q
    by (simp add: clashes_def assms(1-3))
  moreover have "map ac_id (upd_where P f rs) = map ac_id rs" by (rule map_key_upd_where) (rule assms(1))
  ultimately show ?thesis using assms(4)
    by (simp add: unique_rows_def) (simp add: upd_where_def sorted_wrt_map)
qed

lemma unique_rows_filter: "unique_rows rs \<Longrightarrow> unique_rows (filter P rs)"
  by (simp add: unique_rows_def distinct_map_filter sorted_wrt_filter)

lemma unique_rows_insert:
  "insert_account r s = Some t \<Longrightarrow> unique_rows (acct_rows s) \<Longrightarrow>
     unique_rows (acct_rows t) \<and> acct_rows t = acct_rows s @ [r] \<and> acct_sticky t = acct_sticky s"
  using clashes_sym [of _ r]
  by (auto simp: insert_account_def unique_rows_def sorted_wrt_append clashes_def [of r] split: if_splits)

lemma accounts_ok_tables: "accounts_ok T s \<Longrightarrow> acct_rows t = acct_rows s \<Longrightarrow> pins t \<subseteq> pins s \<Longrightarrow> accounts_ok T t"
  by (auto simp: accounts_ok_def)

lemma pins_simps [simp]:
  "pins (s\<lparr>acct_rows := rs\<rparr>) = pins s" "pins (s\<lparr>acct_defaults := ds\<rparr>) = pins s"
  "pins (s\<lparr>acct_legacy := ls\<rparr>) = pins s" "pins (s\<lparr>acct_blocked := bs\<rparr>) = pins s"
  "pins (s\<lparr>acct_omp_health := hs\<rparr>) = pins s" "pins (s\<lparr>acct_migrated := m\<rparr>) = pins s"
  "pins (release_sticky i s) = pins s - {i}"
  by (auto simp: pins_def release_sticky_def)

lemma set_put_default: "snd ` set (put_default k v ps) \<subseteq> insert v (snd ` set ps)"
  by (induction k v ps rule: put_default.induct) auto

lemma listed_row: "r \<in> set (list_records p s) \<Longrightarrow> \<exists>q \<in> set (acct_rows s). r = row_record q"
  by (auto simp: list_records_def)

lemma row_record_simps [simp]: "ac_id (row_record r) = ac_id r" "ac_health (row_record r) = ac_health r"
  "ac_cooldown_until (row_record r) = ac_cooldown_until r" "ac_api_key (row_record r) = ac_api_key r"
  "ac_auth_method (row_record r) = ac_auth_method r" "ac_label (row_record r) = ac_label r"
  by (simp_all add: row_record_def account_record.truncate_def)

lemma cooled_later: "cooled now until \<Longrightarrow> now \<le> T \<Longrightarrow> cooled T until"
  by (auto simp: cooled_def split: option.splits)

lemma usable_pinnable: "r \<in> set (usable_now e p s) \<Longrightarrow> e_secs e 0 \<le> T \<Longrightarrow> pinnable T (ac_id r) (acct_rows s)"
proof -
  assume r: "r \<in> set (usable_now e p s)" and now: "e_secs e 0 \<le> T"
  then obtain q where "q \<in> set (acct_rows s)" "r = row_record q" using listed_row by fastforce
  moreover have "usable_record (e_secs e 0) r" using r by simp
  ultimately show ?thesis using cooled_later [OF _ now] by (auto simp: pinnable_def usable_row_def usable_record_def)
qed

lemma rotate_next_keeps: "acct_sticky (snd (rotate_next p xs s)) = acct_sticky s" "set (fst (rotate_next p xs s)) = set xs"
  by (simp_all add: rotate_next_def)

lemma order_healthy_sticky:
  "pins (snd (order_healthy p sk xs s)) \<subseteq> pins s \<union> ac_id ` set xs"
proof -
  obtain rs t where r: "rotate_next p xs s = (rs, t)" by fastforce
  with rotate_next_keeps [of p xs s] have t: "acct_sticky t = acct_sticky s" "set rs = set xs" by auto
  then have "pins t = pins s" by (simp add: pins_def)
  have "pins (case rs of [] \<Rightarrow> t | q # _ \<Rightarrow> pin session (ac_id q) t) \<subseteq> pins s \<union> ac_id ` set xs" for session
  proof (cases rs)
    case Nil
    with \<open>pins t = pins s\<close> show ?thesis by simp
  next
    case (Cons q qs)
    then have "q \<in> set xs" using t(2) by auto
    with Cons t(1) set_put_default [of session "ac_id q" "acct_sticky s"] show ?thesis by (auto simp: pin_def pins_def)
  qed
  with r t \<open>pins t = pins s\<close> show ?thesis
    by (simp add: order_healthy_def split: selection_strategy.split option.split)
qed

lemma ok_select: "accounts_ok T s \<Longrightarrow> e_secs e 0 \<le> T \<Longrightarrow> accounts_ok T (snd (candidates w e p sk s))"
proof -
  assume ok: "accounts_ok T s" and now: "e_secs e 0 \<le> T"
  let ?o = "order_healthy p sk (usable_now e p s) s"
  have rows: "acct_rows (snd ?o) = acct_rows s"
    using order_healthy_tables [of s p sk "usable_now e p s"] by (simp add: same_tables_def)
  have "pinnable T i (acct_rows s)" if "i \<in> pins (snd ?o)" for i
  proof -
    from that order_healthy_sticky [of p sk "usable_now e p s" s] have "i \<in> pins s \<or> i \<in> ac_id ` set (usable_now e p s)"
      by blast
    with ok now show ?thesis using usable_pinnable by (auto simp: accounts_ok_def)
  qed
  with ok rows show ?thesis by (simp add: candidates_split accounts_ok_def)
qed

text \<open>Updating one row keeps the pins when it stays healthy, and else when its pins are released.\<close>

lemma pinnable_upd:
  assumes "pinnable T i rs" and "\<And>r. ac_id (f r) = ac_id r"
    and "\<And>r. P r \<Longrightarrow> ac_id r = i \<Longrightarrow> usable_row T r \<Longrightarrow>
      usable_row T (f r)"
  shows "pinnable T i (upd_where P f rs)"
proof -
  from assms(1) obtain r where r: "r \<in> set rs" "ac_id r = i" "usable_row T r"
    by (auto simp: pinnable_def)
  define q where "q = (if P r then f r else r)"
  have "q \<in> set (upd_where P f rs)" "ac_id q = i" "usable_row T q"
    using r assms(2) assms(3) [of r] by (auto simp: q_def set_upd_where)
  then show ?thesis unfolding pinnable_def by blast
qed

lemma ok_update:
  assumes "accounts_ok T s" and "\<And>r. ac_id (f r) = ac_id r" "\<And>r. ac_provider_id (f r) = ac_provider_id r"
    "\<And>r. ac_identity_key (f r) = ac_identity_key r"
    and "acct_rows t = upd_where P f (acct_rows s)" and "pins t \<subseteq> pins s"
    and "\<And>r. P r \<Longrightarrow> ac_id r \<in> pins t \<Longrightarrow> usable_row T r \<Longrightarrow>
      usable_row T (f r)"
  shows "accounts_ok T t"
proof -
  have "pinnable T i (acct_rows t)" if "i \<in> pins t" for i
    unfolding assms(5) by (rule pinnable_upd) (use assms(1,2,6,7) that in \<open>auto simp: accounts_ok_def\<close>)
  with assms(1,5) unique_rows_upd [OF assms(2-4)] show ?thesis by (simp add: accounts_ok_def)
qed

lemma ok_grow:
  assumes "accounts_ok T s" and "unique_rows (acct_rows t)" and "set (acct_rows s) \<subseteq> set (acct_rows t)" and "pins t \<subseteq> pins s"
  shows "accounts_ok T t"
  using assms unfolding accounts_ok_def pinnable_def by blast

lemma ok_insert: "accounts_ok T s \<Longrightarrow> insert_account r s = Some t \<Longrightarrow> accounts_ok T t"
proof -
  assume ok: "accounts_ok T s" and "insert_account r s = Some t"
  with unique_rows_insert [of r s t]
  have "unique_rows (acct_rows t)" "acct_rows t = acct_rows s @ [r]" "pins t = pins s"
    by (auto simp: accounts_ok_def pins_def)
  with ok show ?thesis by (intro ok_grow [of T s t]) auto
qed

lemma accounts_ok_simps [simp]:
  "accounts_ok T (s\<lparr>acct_defaults := ds\<rparr>) = accounts_ok T s" "accounts_ok T (s\<lparr>acct_migrated := m\<rparr>) = accounts_ok T s"
  by (simp_all add: accounts_ok_def)

lemma pin_free: "accounts_ok T s \<Longrightarrow> acct_rows t = acct_rows s \<Longrightarrow> pins t = pins s \<Longrightarrow> accounts_ok T t"
  by (rule accounts_ok_tables) auto

lemma ok_outcome: "accounts_ok T s \<Longrightarrow> accounts_ok T (record_outcome e i out s)"
proof -
  assume ok: "accounts_ok T s"
  obtain health cooldown err where h: "health_of_outcome (e_secs e 0) out = (health, cooldown, err)"
    by (cases "health_of_outcome (e_secs e 0) out") auto
  let ?f = "\<lambda>r::account_row. r\<lparr>ac_health := health, ac_cooldown_until := cooldown, ac_last_error := err,
    ac_last_used_at := Some (e_secs e 0), ac_updated_at := e_secs e 0\<rparr>"
  show ?thesis
  proof (cases "is_omp_account_id i")
    case True
    with h ok show ?thesis by (auto simp: record_outcome_def Let_def intro: pin_free)
  next
    case False
    with h have rows: "acct_rows (record_outcome e i out s) = upd_where (\<lambda>r. ac_id r = i) ?f (acct_rows s)"
      and pins: "pins (record_outcome e i out s) = (if health \<noteq> HEALTH_HEALTHY then pins s - {i} else pins s)"
      by (auto simp: record_outcome_def Let_def release_sticky_def pins_def)
    show ?thesis
      by (rule ok_update [OF ok _ _ _ rows]) (auto simp: pins usable_row_def split: if_splits)
  qed
qed

lemma ok_upsert: "accounts_ok T s \<Longrightarrow> accounts_ok T (snd (upsert_account e p l a k u identity s))"
proof -
  assume ok: "accounts_ok T s"
  show ?thesis
  proof (cases "find (\<lambda>r. ac_provider_id r = p \<and> ac_identity_key r = Some identity) (acct_rows s)")
    case None
    with ok show ?thesis
      by (auto simp: upsert_account_def Let_def intro: ok_insert split: option.splits)
  next
    case (Some q)
    let ?f = "\<lambda>r::account_row. r\<lparr>ac_label := l, ac_api_key := k, ac_key_set := True, ac_base_url := u,
      ac_health := HEALTH_HEALTHY, ac_status := ''active'', ac_cooldown_until := None,
      ac_last_error := None, ac_updated_at := e_secs e 0\<rparr>"
    from Some have rows: "acct_rows (snd (upsert_account e p l a k u identity s)) =
        upd_where (\<lambda>r. ac_id r = ac_id q) ?f (acct_rows s)"
      and pins: "pins (snd (upsert_account e p l a k u identity s)) = pins s"
      by (simp_all add: upsert_account_def Let_def)
    show ?thesis by (rule ok_update [OF ok _ _ _ rows]) (simp_all add: pins usable_row_def)
  qed
qed

lemma ok_label: "accounts_ok T s \<Longrightarrow> accounts_ok T (snd (set_label e i l s))"
proof -
  assume ok: "accounts_ok T s"
  let ?t = "s\<lparr>acct_rows := upd_where (\<lambda>r. ac_id r = i) (\<lambda>r. r\<lparr>ac_label := trim l, ac_updated_at := e_secs e 0\<rparr>) (acct_rows s)\<rparr>"
  have "accounts_ok T ?t" by (rule ok_update [OF ok, of "\<lambda>r. r\<lparr>ac_label := trim l, ac_updated_at := e_secs e 0\<rparr>" _ "\<lambda>r. ac_id r = i"]) (simp_all add: usable_row_def)
  with ok show ?thesis by (simp add: set_label_def Let_def)
qed

lemma sync_legacy_keeps: "acct_rows (sync_legacy_row p s) = acct_rows s" "pins (sync_legacy_row p s) = pins s"
  by (simp_all add: sync_legacy_row_def Let_def split: option.split)

lemma release_rows: "acct_rows (release_sticky i s) = acct_rows s"
  by (simp add: release_sticky_def)

lemma pinnable_filter: "pinnable T j rs \<Longrightarrow> j \<noteq> i \<Longrightarrow> pinnable T j (filter (\<lambda>q. ac_id q \<noteq> i) rs)"
  unfolding pinnable_def by auto

lemma ok_remove: "accounts_ok T s \<Longrightarrow> accounts_ok T (snd (remove_account e i s))"
proof -
  assume ok: "accounts_ok T s"
  let ?t = "snd (remove_account e i s)"
  have "?t = s \<or> acct_rows ?t = acct_rows s \<and> pins ?t = pins s \<or>
      acct_rows ?t = filter (\<lambda>q. ac_id q \<noteq> i) (acct_rows s) \<and> pins ?t = pins s - {i}"
    by (simp add: remove_account_def Let_def sync_legacy_keeps release_rows split: option.split sum.split)
  then show ?thesis
  proof (elim disjE conjE)
    assume rows: "acct_rows ?t = filter (\<lambda>q. ac_id q \<noteq> i) (acct_rows s)" and "pins ?t = pins s - {i}"
    with ok have "\<forall>j \<in> pins ?t. pinnable T j (acct_rows ?t)" by (auto simp: accounts_ok_def intro: pinnable_filter)
    with ok rows show ?thesis by (simp add: accounts_ok_def unique_rows_filter)
  qed (use ok in \<open>auto intro: pin_free\<close>)
qed

lemma ok_strategy: "accounts_ok T s \<Longrightarrow> accounts_ok T (snd (set_strategy p st s))"
  by (auto simp: set_strategy_def Let_def intro: pin_free split: option.split)

lemma ok_test: "accounts_ok T s \<Longrightarrow> accounts_ok T (snd (test_account w e i s))"
  by (auto simp: test_account_def Let_def intro: ok_outcome split: option.split sum.split)

lemma ok_migrate_one: "accounts_ok T s \<Longrightarrow> accounts_ok T (migrate_one w e k c s)"
proof -
  assume ok: "accounts_ok T s"
  have new: "accounts_ok T (coalesce (insert_account r s) s)" for r
    using ok by (cases "insert_account r s") (auto intro: ok_insert)
  show ?thesis
    unfolding migrate_one_def Let_def by (simp add: ok new split: option.split)
qed

lemma ok_migrate_all: "accounts_ok T s \<Longrightarrow> accounts_ok T (migrate_all w e k cs s)"
  by (induction w e k cs s rule: migrate_all.induct) (auto intro: ok_migrate_one)

lemma ok_migrate: "accounts_ok T s \<Longrightarrow> accounts_ok T (ensure_migrated w e s)"
  by (simp add: ensure_migrated_def ok_migrate_all)

lemma ok_account_step: "accounts_ok T s \<Longrightarrow> \<forall>k. e_secs (fst eo) k \<le> T \<Longrightarrow> accounts_ok T (account_step w eo s)"
  by (induction w eo s rule: account_step.induct)
    (simp_all add: ok_select ok_outcome ok_upsert ok_label ok_remove ok_strategy ok_test ok_migrate
      with_migration_def later_def)

text \<open>
  C15: whatever is selected, reported, logged in, renamed, removed, tested, reconfigured or migrated, in
  any order, no two accounts share an id or an identity; and at any time \<open>T\<close> that the clock has not passed
  yet, a session is pinned only to an existing account that may be selected then: a healthy one, or one whose
  cool-down is over.
\<close>

theorem accounts_invariant:
  assumes "accounts_ok T s" and "\<forall>(e, op) \<in> set ops. \<forall>k. e_secs e k \<le> T"
  shows "accounts_ok T (fold (account_step w) ops s)"
  using assms
proof (induction ops arbitrary: s)
  case (Cons x ops)
  from Cons.prems have "accounts_ok T (account_step w x s)" by (intro ok_account_step) auto
  with Cons show ?case by simp
qed simp

subsection \<open>Sticky sessions\<close>

lemma map_of_put_default_sticky: "map_of (acct_sticky (pin session i s)) = (map_of (acct_sticky s))(session \<mapsto> i)"
  by (simp add: pin_def map_of_put_default)

text \<open>The place of the pinned account among the usable ones.\<close>

definition pinned_at :: "string \<Rightarrow> account_record list \<Rightarrow> accounts \<Rightarrow> nat option" where
  "pinned_at session xs s = Option.bind (map_of (acct_sticky s) session) (\<lambda>i. position_of (\<lambda>r. ac_id r = i) xs)"

lemma sticky_hit:
  "strategy_for p s = StickySession \<Longrightarrow> pinned_at session xs s = Some k \<Longrightarrow>
     order_healthy p (Some session) xs s = (rotate k xs, s)"
  by (simp add: order_healthy_def pinned_at_def)

lemma sticky_ordered:
  assumes "strategy_for p s = StickySession" and "distinct (map ac_id xs)" and "xs \<noteq> []"
  shows "\<exists>k. fst (order_healthy p (Some session) xs s) = rotate k xs \<and>
    pinned_at session xs (snd (order_healthy p (Some session) xs s)) = Some k"
proof (cases "pinned_at session xs s")
  case (Some k)
  with assms(1) show ?thesis by (auto simp: sticky_hit)
next
  case None
  define k where "k = (if 1 < length xs then unat (acct_cursors s p) mod length xs else 0)"
  have k: "k < length xs" using assms(3) by (simp add: k_def)
  have "fst (rotate_next p xs s) = rotate k xs" by (simp add: rotate_next_def k_def)
  then obtain t where rot: "rotate_next p xs s = (rotate k xs, t)" by (cases "rotate_next p xs s") auto
  have "rotate k xs \<noteq> []" using assms(3) by simp
  then obtain q qs where q: "rotate k xs = q # qs" by (cases "rotate k xs") auto
  then have "q = xs ! k" using hd_rotate [OF assms(3), of k] k by simp
  with None q rot assms(1) have "order_healthy p (Some session) xs s = (rotate k xs, pin session (ac_id (xs ! k)) t)"
    by (simp add: order_healthy_def pinned_at_def)
  with position_of_nth [OF assms(2) k] show ?thesis
    by (auto simp: pinned_at_def map_of_put_default_sticky)
qed

lemma order_healthy_other_pin:
  "sk \<noteq> Some session \<Longrightarrow> map_of (acct_sticky (snd (order_healthy p sk xs s))) session = map_of (acct_sticky s) session"
  using rotate_next_keeps(1) [of p xs s]
  by (auto simp: order_healthy_def map_of_put_default_sticky split: selection_strategy.splits option.splits prod.splits list.splits)

lemma other_selections:
  "\<forall>(e, p, sk) \<in> set sels. sk \<noteq> Some session \<Longrightarrow>
     same_tables s (fold (\<lambda>(e, p, sk) s. snd (candidates w e p sk s)) sels s) \<and>
     map_of (acct_sticky (fold (\<lambda>(e, p, sk) s. snd (candidates w e p sk s)) sels s)) session = map_of (acct_sticky s) session"
proof (induction sels arbitrary: s)
  case (Cons x xs)
  obtain e p sk where x: "x = (e, p, sk)" by (cases x)
  let ?t = "snd (candidates w e p sk s)"
  have "same_tables s ?t" "map_of (acct_sticky ?t) session = map_of (acct_sticky s) session"
    using order_healthy_tables order_healthy_other_pin Cons.prems x by (simp_all add: candidates_split)
  with Cons.IH [of ?t] Cons.prems x show ?case by (simp add: same_tables_def)
qed simp

lemma list_records_distinct: "unique_rows (acct_rows s) \<Longrightarrow> distinct (map ac_id (list_records p s))"
  by (auto simp: unique_rows_def list_records_def order_asc_def distinct_map inj_on_def intro: distinct_filter)

text \<open>
  Under sticky sessions a session keeps its account: whatever the other sessions select meanwhile,
  its next request, while the same accounts are usable, is offered the same accounts in the same order.
\<close>

theorem sticky_session_keeps_account:
  assumes "accounts_ok T s" and "strategy_for p s = StickySession" and "usable_now e p s \<noteq> []"
    and "\<forall>(e', q, sk) \<in> set others. sk \<noteq> Some session"
  shows "fst (candidates w e p (Some session)
      (fold (\<lambda>(e', q, sk) t. snd (candidates w e' q sk t)) others (snd (candidates w e p (Some session) s)))) =
    fst (candidates w e p (Some session) s)"
proof -
  let ?xs = "usable_now e p s"
  let ?s1 = "snd (order_healthy p (Some session) ?xs s)"
  let ?s2 = "fold (\<lambda>(e', q, sk) t. snd (candidates w e' q sk t)) others ?s1"
  have "distinct (map ac_id ?xs)"
    using assms(1) by (simp add: accounts_ok_def list_records_distinct distinct_map_filter)
  with sticky_ordered [OF assms(2) _ assms(3)] obtain k where
    k: "fst (order_healthy p (Some session) ?xs s) = rotate k ?xs" "pinned_at session ?xs ?s1 = Some k" by blast
  have s1: "same_tables s ?s1" by (rule order_healthy_tables)
  from other_selections [OF assms(4), of ?s1 w] have s2: "same_tables ?s1 ?s2" "pinned_at session ?xs ?s2 = Some k"
    using k(2) by (auto simp: pinned_at_def)
  with s1 have tables: "same_tables s ?s2" by (simp add: same_tables_def)
  from same_tables_reads(2) [OF tables] assms(2) have "strategy_for p ?s2 = StickySession" by simp
  with s2(2) have "fst (order_healthy p (Some session) ?xs ?s2) = rotate k ?xs" by (simp add: sticky_hit)
  moreover have "snd (candidates w e p (Some session) s) = ?s1" by (simp add: candidates_split)
  ultimately show ?thesis using k(1)
    by (simp only: candidates_split [of w e p "Some session"] fst_conv same_tables_reads [OF tables])
qed

subsection \<open>Cool-downs\<close>

lemma unique_at_id:
  assumes "unique_rows rs" and "r \<in> set rs" "q \<in> set rs" and "ac_id r = ac_id q"
  shows "r = q"
  using assms by (auto simp: unique_rows_def distinct_map inj_on_def)

lemma omp_candidate_id: "r \<in> set (omp_candidates w now p s) \<Longrightarrow> is_omp_account_id (ac_id r)"
  by (auto simp: omp_candidates_def omp_record_def is_omp_account_id_def omp_account_id_def split: option.splits if_splits)

definition offered :: "account_world \<Rightarrow> env \<Rightarrow> string \<Rightarrow> string option \<Rightarrow> string \<Rightarrow> accounts \<Rightarrow> bool" where
  "offered w e p sk i s \<longleftrightarrow> i \<in> ac_id ` set (fst (candidates w e p sk s))"

lemma offered_row:
  assumes "unique_rows (acct_rows s)" and "r \<in> set (acct_rows s)" and "\<not> is_omp_account_id (ac_id r)"
    and "ac_status r = ''active''" "ac_key_set r" "ac_provider_id r = p"
  shows "offered w e p sk (ac_id r) s \<longleftrightarrow> usable_record (e_secs e 0) (row_record r) \<or> ac_health r = HEALTH_ERROR"
proof -
  from assms have listed: "row_record r \<in> set (list_records (Some p) s)" by (auto simp: list_records_def)
  have only: "q = row_record r" if "q \<in> set (list_records (Some p) s)" "ac_id q = ac_id r" for q
  proof -
    from listed_row [OF that(1)] obtain x where x: "x \<in> set (acct_rows s)" "q = row_record x" by blast
    with that(2) have "x = r" using unique_at_id [OF assms(1) x(1) assms(2)] by simp
    with x show ?thesis by simp
  qed
  have "ac_id r \<notin> ac_id ` set (omp_candidates w (e_secs e 0) p s)"
    using assms(3) omp_candidate_id by force
  moreover obtain k where "fst (order_healthy p sk (usable_now e p s) s) = rotate k (usable_now e p s)"
    using order_healthy_fst by blast
  ultimately have "offered w e p sk (ac_id r) s \<longleftrightarrow>
      ac_id r \<in> ac_id ` set (usable_now e p s) \<or>
      ac_id r \<in> ac_id ` set (filter (\<lambda>q. ac_health q = HEALTH_ERROR) (list_records (Some p) s))"
    by (simp add: offered_def candidates_split image_Un)
  moreover have "ac_id r \<in> ac_id ` set (filter P (list_records (Some p) s)) \<longleftrightarrow> P (row_record r)" for P
  proof
    assume "ac_id r \<in> ac_id ` set (filter P (list_records (Some p) s))"
    then obtain q where "q \<in> set (list_records (Some p) s)" "P q" "ac_id q = ac_id r" by auto
    with only show "P (row_record r)" by metis
  next
    assume "P (row_record r)"
    with listed have "row_record r \<in> set (filter P (list_records (Some p) s))" by simp
    then have "ac_id (row_record r) \<in> ac_id ` set (filter P (list_records (Some p) s))" by (rule imageI)
    then show "ac_id r \<in> ac_id ` set (filter P (list_records (Some p) s))" by simp
  qed
  ultimately show ?thesis by (simp del: set_filter)
qed

text \<open>
  After a provider answers with a rate limit, the account is offered to no request until the time the
  provider asked for, 60 seconds when it asked for none and never less than one, and to every later one.
\<close>

theorem cooldown_is_kept:
  assumes "unique_rows (acct_rows s)" and "r \<in> set (acct_rows s)" and "\<not> is_omp_account_id (ac_id r)"
    and "ac_status r = ''active''" "ac_key_set r" "ac_provider_id r = p"
  shows "offered w then_env p sk (ac_id r) (record_outcome now (ac_id r) (RateLimited retry) s) \<longleftrightarrow>
    e_secs now 0 + max (case retry of None \<Rightarrow> 60 | Some n \<Rightarrow> n) 1 \<le> e_secs then_env 0"
proof -
  let ?until = "e_secs now 0 + max (case retry of None \<Rightarrow> 60 | Some n \<Rightarrow> n) 1"
  let ?f = "\<lambda>r::account_row. r\<lparr>ac_health := HEALTH_RATE_LIMITED, ac_cooldown_until := Some ?until, ac_last_error := None,
    ac_last_used_at := Some (e_secs now 0), ac_updated_at := e_secs now 0\<rparr>"
  let ?t = "record_outcome now (ac_id r) (RateLimited retry) s"
  have rows: "acct_rows ?t = upd_where (\<lambda>q. ac_id q = ac_id r) ?f (acct_rows s)"
    using assms(3) by (auto simp: record_outcome_def health_of_outcome_def Let_def release_rows DEFAULT_COOLDOWN_def split: option.split)
  have "?f r \<in> set (acct_rows ?t)" using assms(2) by (auto simp: rows set_upd_where)
  moreover have "unique_rows (acct_rows ?t)" unfolding rows by (rule unique_rows_upd) (use assms(1) in simp_all)
  ultimately have "offered w then_env p sk (ac_id (?f r)) ?t \<longleftrightarrow>
      usable_record (e_secs then_env 0) (row_record (?f r)) \<or> ac_health (?f r) = HEALTH_ERROR"
    using assms(3-6) by (intro offered_row) simp_all
  then show ?thesis by (simp add: usable_record_def cooled_def account_texts)
qed

subsection \<open>Logging in\<close>

definition has_identity :: "string \<Rightarrow> string \<Rightarrow> account_row \<Rightarrow> bool" where
  "has_identity p identity r \<longleftrightarrow> ac_provider_id r = p \<and> ac_identity_key r = Some identity"

lemma identity_unique:
  "unique_rows rs \<Longrightarrow> q \<in> set rs \<Longrightarrow> has_identity p identity q \<Longrightarrow> filter (has_identity p identity) rs = [q]"
proof (induction rs)
  case (Cons r rs)
  from Cons.prems(1) have u: "unique_rows rs" and no: "\<forall>x \<in> set rs. \<not> clashes r x" by (auto simp: unique_rows_def)
  show ?case
  proof (cases "has_identity p identity r")
    case True
    with no have none: "\<forall>x \<in> set rs. \<not> has_identity p identity x" by (auto simp: has_identity_def clashes_def)
    with True Cons.prems(2,3) show ?thesis by (auto simp: filter_empty_conv)
  next
    case False
    with Cons.IH [OF u] Cons.prems(2,3) show ?thesis by auto
  qed
qed simp

lemma filter_upd_where: "(\<And>r. P (f r) = P r) \<Longrightarrow> filter P (upd_where Q f xs) = upd_where Q f (filter P xs)"
  by (induction xs) auto

lemma upsert_outcome:
  assumes "unique_rows (acct_rows s)"
    and "upsert_account e p label auth key url identity s = (res, t)"
  shows "case res of
    Inr (r, updated) \<Rightarrow>
      updated = (\<exists>q \<in> set (acct_rows s). has_identity p identity q) \<and>
      filter (\<lambda>q. \<not> has_identity p identity q) (acct_rows t) = filter (\<lambda>q. \<not> has_identity p identity q) (acct_rows s) \<and>
      (\<exists>q. filter (has_identity p identity) (acct_rows t) = [q] \<and> row_record q = r \<and> ac_status q = ''active'' \<and> ac_key_set q) \<and>
      ac_api_key r = key \<and> ac_label r = label \<and> ac_health r = HEALTH_HEALTHY \<and> ac_base_url r = url
  | Inl _ \<Rightarrow> t = s \<and> pacct_id (e_nanos e 0) \<in> ac_id ` set (acct_rows s)"
proof (cases "find (has_identity p identity) (acct_rows s)")
  case None
  let ?row = "new_row (pacct_id (e_nanos e 0)) p label auth key url identity (e_secs e 0)"
  from None have none: "\<forall>q \<in> set (acct_rows s). \<not> has_identity p identity q" by (simp add: find_None_iff)
  then have clash: "clashes ?row q \<longleftrightarrow> ac_id q = pacct_id (e_nanos e 0)" if "q \<in> set (acct_rows s)" for q
    using that by (auto simp: clashes_def new_row_def has_identity_def)
  show ?thesis
  proof (cases "pacct_id (e_nanos e 0) \<in> ac_id ` set (acct_rows s)")
    case True
    with clash have "insert_account ?row s = None" by (auto simp: insert_account_def)
    with None True assms(2) show ?thesis
      by (auto simp: upsert_account_def has_identity_def [abs_def])
  next
    case False
    with clash have ins: "insert_account ?row s = Some (s\<lparr>acct_rows := acct_rows s @ [?row]\<rparr>)"
      by (simp add: insert_account_def) (metis imageI)
    have "lookup_by ac_id (ac_id ?row) (acct_rows s @ [?row]) = Some ?row"
      using False by (simp add: lookup_by_append new_row_def) (simp add: lookup_by_None option.case_eq_if)
    moreover have key: "ac_key_set ?row" "ac_status ?row = ''active''" by (simp_all add: new_row_def)
    ultimately have "get_record (ac_id ?row) (s\<lparr>acct_rows := acct_rows s @ [?row]\<rparr>) = Ok (Some (row_record ?row))"
      by (simp add: get_record_def)
    with None ins have "upsert_account e p label auth key url identity s =
        (Ok (row_record ?row, False), s\<lparr>acct_rows := acct_rows s @ [?row]\<rparr>)"
      by (simp add: upsert_account_def has_identity_def [abs_def] Let_def)
    with assms(2) have res: "res = Ok (row_record ?row, False)" "t = s\<lparr>acct_rows := acct_rows s @ [?row]\<rparr>" by simp_all
    have "has_identity p identity ?row" by (simp add: has_identity_def new_row_def)
    moreover have "filter (has_identity p identity) (acct_rows s) = []"
      "filter (\<lambda>q. \<not> has_identity p identity q) (acct_rows s) = acct_rows s"
      using none by (simp_all add: filter_empty_conv filter_id_conv)
    moreover have "ac_api_key (row_record ?row) = key" "ac_label (row_record ?row) = label"
      "ac_health (row_record ?row) = HEALTH_HEALTHY" "ac_base_url (row_record ?row) = url"
      by (simp_all add: new_row_def row_record_def account_record.truncate_def)
    ultimately show ?thesis using none res key by auto
  qed
next
  case (Some q)
  let ?f = "\<lambda>r::account_row. r\<lparr>ac_label := label, ac_api_key := key, ac_key_set := True, ac_base_url := url,
    ac_health := HEALTH_HEALTHY, ac_status := ''active'', ac_cooldown_until := None,
    ac_last_error := None, ac_updated_at := e_secs e 0\<rparr>"
  from Some have q: "q \<in> set (acct_rows s)" "has_identity p identity q" by (auto simp: find_Some_iff)
  let ?rows = "upd_where (\<lambda>r. ac_id r = ac_id q) ?f (acct_rows s)"
  have same: "ac_id r = ac_id q \<longleftrightarrow> r = q" if "r \<in> set (acct_rows s)" for r
    using that unique_at_id [OF assms(1) _ q(1)] by auto
  have "lookup_by ac_id (ac_id q) (acct_rows s) = Some q"
    using assms(1) q(1) by (intro lookup_by_distinct) (simp_all add: unique_rows_def)
  then have "lookup_by ac_id (ac_id q) ?rows = Some (?f q)" by (simp add: lookup_by_upd_where)
  then have "get_record (ac_id q) (s\<lparr>acct_rows := ?rows\<rparr>) = Ok (Some (row_record (?f q)))" by (simp add: get_record_def)
  with Some have "upsert_account e p label auth key url identity s = (Ok (row_record (?f q), True), s\<lparr>acct_rows := ?rows\<rparr>)"
    by (simp add: upsert_account_def has_identity_def [abs_def] Let_def)
  with assms(2) have res: "res = Ok (row_record (?f q), True)" "t = s\<lparr>acct_rows := ?rows\<rparr>" by simp_all
  have keep: "has_identity p identity (?f r) = has_identity p identity r" for r by (simp add: has_identity_def)
  have "filter (has_identity p identity) ?rows = [?f q]"
    using identity_unique [OF assms(1) q] by (subst filter_upd_where) (simp_all add: keep)
  moreover have "filter (\<lambda>q. \<not> has_identity p identity q) ?rows = filter (\<lambda>q. \<not> has_identity p identity q) (acct_rows s)"
    using same q(2) by (subst filter_upd_where) (auto simp: keep intro!: upd_where_none)
  moreover have "ac_base_url (row_record (?f q)) = url" by (simp add: row_record_def account_record.truncate_def)
  ultimately show ?thesis using res q by auto
qed

text \<open>
  Logging in with a key whose identity the provider already knows refreshes that account in place,
  else it adds one at the end; afterwards exactly one account has the identity, it is healthy with the new
  key and label, and every other account is what it was. A failed login, whose new id is taken, changes
  nothing.
\<close>

theorem login_is_one_account:
  assumes "unique_rows (acct_rows s)"
    and "upsert_account e p label auth key url identity s = (res, t)"
  shows "case res of
    Inr (r, updated) \<Rightarrow>
      updated = (\<exists>q \<in> set (acct_rows s). has_identity p identity q) \<and>
      filter (\<lambda>q. \<not> has_identity p identity q) (acct_rows t) = filter (\<lambda>q. \<not> has_identity p identity q) (acct_rows s) \<and>
      (\<exists>q. filter (has_identity p identity) (acct_rows t) = [q] \<and> row_record q = r \<and> ac_status q = ''active'' \<and> ac_key_set q) \<and>
      ac_api_key r = key \<and> ac_label r = label \<and> ac_health r = HEALTH_HEALTHY \<and> ac_base_url r = url
  | Inl _ \<Rightarrow> t = s \<and> pacct_id (e_nanos e 0) \<in> ac_id ` set (acct_rows s)"
  using upsert_outcome [OF assms] .

subsection \<open>The migration\<close>

definition provider_known :: "string \<Rightarrow> accounts \<Rightarrow> bool" where
  "provider_known p s \<longleftrightarrow> (\<exists>r \<in> set (acct_rows s). ac_provider_id r = p)"

lemma migrate_one_known: "provider_known (lc_provider_id c) s \<Longrightarrow> migrate_one w e k c s = s"
  by (simp add: migrate_one_def provider_known_def)

lemma migrate_one_new:
  assumes "\<not> provider_known (lc_provider_id c) s" and "pacct_id (e_nanos e k) \<notin> ac_id ` set (acct_rows s)"
  shows "\<exists>r. acct_rows (migrate_one w e k c s) = acct_rows s @ [r] \<and> ac_provider_id r = lc_provider_id c \<and>
    ac_id r = pacct_id (e_nanos e k) \<and> ac_api_key r = lc_api_key c \<and> ac_health r = HEALTH_HEALTHY"
proof -
  have "insert_account (new_row (pacct_id (e_nanos e k)) (lc_provider_id c) l a key u identity at) s =
      Some (s\<lparr>acct_rows := acct_rows s @ [new_row (pacct_id (e_nanos e k)) (lc_provider_id c) l a key u identity at]\<rparr>)"
    for l a key u identity at
    using assms by (auto simp: insert_account_def clashes_def new_row_def provider_known_def image_iff)
  with assms(1) show ?thesis
    unfolding migrate_one_def Let_def provider_known_def
    by (simp split: option.split) (auto simp: new_row_def)
qed

lemma migrate_all_known: "\<forall>c \<in> set cs. provider_known (lc_provider_id c) s \<Longrightarrow> migrate_all w e k cs s = s"
  by (induction cs arbitrary: k) (simp_all add: migrate_one_known)

lemma migrate_all_rows:
  assumes "distinct (map (\<lambda>j. pacct_id (e_nanos e j)) [k..<k + length cs])"
    and "\<forall>j \<in> {k..<k + length cs}. pacct_id (e_nanos e j) \<notin> ac_id ` set (acct_rows s)"
  shows "\<exists>rs. acct_rows (migrate_all w e k cs s) = acct_rows s @ rs \<and>
    (\<forall>c \<in> set cs. provider_known (lc_provider_id c) (migrate_all w e k cs s)) \<and>
    (\<forall>r \<in> set rs. ac_health r = HEALTH_HEALTHY \<and> (\<exists>c \<in> set cs. ac_provider_id r = lc_provider_id c \<and> ac_api_key r = lc_api_key c))"
  using assms
proof (induction cs arbitrary: k s)
  case (Cons c cs)
  let ?t = "migrate_one w e k c s"
  have split: "[k..<k + length (c # cs)] = k # [Suc k..<Suc k + length cs]" by (simp add: upt_rec)
  from Cons.prems(2) have fresh: "pacct_id (e_nanos e k) \<notin> ac_id ` set (acct_rows s)" by simp
  have "\<exists>qs. acct_rows ?t = acct_rows s @ qs \<and> provider_known (lc_provider_id c) ?t \<and>
      (\<forall>r \<in> set qs. ac_id r = pacct_id (e_nanos e k) \<and> ac_health r = HEALTH_HEALTHY \<and>
        ac_provider_id r = lc_provider_id c \<and> ac_api_key r = lc_api_key c)"
  proof (cases "provider_known (lc_provider_id c) s")
    case True
    then show ?thesis by (auto simp: migrate_one_known)
  next
    case False
    from migrate_one_new [OF this fresh, of w] obtain r where "acct_rows ?t = acct_rows s @ [r]"
      "ac_provider_id r = lc_provider_id c" "ac_id r = pacct_id (e_nanos e k)" "ac_api_key r = lc_api_key c"
      "ac_health r = HEALTH_HEALTHY" by blast
    then show ?thesis by (intro exI [of _ "[r]"]) (simp add: provider_known_def)
  qed
  then obtain qs where qs: "acct_rows ?t = acct_rows s @ qs" "provider_known (lc_provider_id c) ?t"
    "\<forall>r \<in> set qs. ac_id r = pacct_id (e_nanos e k) \<and> ac_health r = HEALTH_HEALTHY \<and>
        ac_provider_id r = lc_provider_id c \<and> ac_api_key r = lc_api_key c" by blast
  have "distinct (map (\<lambda>j. pacct_id (e_nanos e j)) [Suc k..<Suc k + length cs])"
    using Cons.prems(1) unfolding split by simp
  moreover have "\<forall>j \<in> {Suc k..<Suc k + length cs}. pacct_id (e_nanos e j) \<notin> ac_id ` set (acct_rows ?t)"
  proof
    fix j assume j: "j \<in> {Suc k..<Suc k + length cs}"
    from j have "pacct_id (e_nanos e j) \<in> set (map (\<lambda>j. pacct_id (e_nanos e j)) [Suc k..<Suc k + length cs])"
      unfolding set_map set_upt by (rule imageI)
    moreover from Cons.prems(1) have "pacct_id (e_nanos e k) \<notin> set (map (\<lambda>j. pacct_id (e_nanos e j)) [Suc k..<Suc k + length cs])"
      unfolding split by (simp only: list.map distinct.simps) blast
    ultimately have "pacct_id (e_nanos e j) \<noteq> pacct_id (e_nanos e k)" by metis
    moreover from j Cons.prems(2) have "pacct_id (e_nanos e j) \<notin> ac_id ` set (acct_rows s)" by simp
    ultimately show "pacct_id (e_nanos e j) \<notin> ac_id ` set (acct_rows ?t)" using qs(1,3) by auto
  qed
  ultimately obtain rs where rs: "acct_rows (migrate_all w e (Suc k) cs ?t) = acct_rows ?t @ rs"
    "\<forall>d \<in> set cs. provider_known (lc_provider_id d) (migrate_all w e (Suc k) cs ?t)"
    "\<forall>r \<in> set rs. ac_health r = HEALTH_HEALTHY \<and> (\<exists>d \<in> set cs. ac_provider_id r = lc_provider_id d \<and> ac_api_key r = lc_api_key d)"
    using Cons.IH [of "Suc k" ?t] by blast
  moreover from rs(1) qs(2) have "provider_known (lc_provider_id c) (migrate_all w e (Suc k) cs ?t)"
    by (auto simp: provider_known_def)
  ultimately show ?case using qs by (intro exI [of _ "qs @ rs"]) auto
qed simp

lemma migrate_one_legacy: "acct_legacy (migrate_one w e k c s) = acct_legacy s"
proof -
  have "acct_legacy (coalesce (insert_account r s) s) = acct_legacy s" for r by (simp add: insert_account_def)
  then show ?thesis by (simp add: migrate_one_def Let_def split: option.split)
qed

lemma migrate_all_legacy: "acct_legacy (migrate_all w e k cs s) = acct_legacy s"
  by (induction w e k cs s rule: migrate_all.induct) (auto simp: migrate_one_legacy)

text \<open>
  The first use of the accounts gives every provider of the old table an account, adding only healthy
  accounts with the old keys and leaving the accounts there were as they are; the old table is kept, and
  after a restart the migration finds nothing to do. The new ids must be fresh.
\<close>

theorem migration_is_complete_and_idempotent:
  assumes "\<not> acct_migrated s"
    and "distinct (map (\<lambda>j. pacct_id (e_nanos e j)) [0..<length (acct_legacy s)])"
    and "\<forall>j \<in> {0..<length (acct_legacy s)}. pacct_id (e_nanos e j) \<notin> ac_id ` set (acct_rows s)"
  shows "let t = ensure_migrated w e s in
    (\<exists>rs. acct_rows t = acct_rows s @ rs \<and>
      (\<forall>r \<in> set rs. ac_health r = HEALTH_HEALTHY \<and>
         (\<exists>c \<in> set (acct_legacy s). ac_provider_id r = lc_provider_id c \<and> ac_api_key r = lc_api_key c))) \<and>
    (\<forall>c \<in> set (acct_legacy s). provider_known (lc_provider_id c) t) \<and>
    acct_legacy t = acct_legacy s \<and> ensure_migrated w e' (t\<lparr>acct_migrated := False\<rparr>) = t"
proof -
  let ?u = "migrate_all w e 0 (acct_legacy s) s"
  obtain rs where rs: "acct_rows ?u = acct_rows s @ rs" "\<forall>c \<in> set (acct_legacy s). provider_known (lc_provider_id c) ?u"
    "\<forall>r \<in> set rs. ac_health r = HEALTH_HEALTHY \<and> (\<exists>c \<in> set (acct_legacy s). ac_provider_id r = lc_provider_id c \<and> ac_api_key r = lc_api_key c)"
    using migrate_all_rows [of e 0 "acct_legacy s" s w] assms(2,3) by auto
  have known: "\<forall>c \<in> set (acct_legacy s). provider_known (lc_provider_id c) (?u\<lparr>acct_migrated := m\<rparr>)" for m
    using rs(2) by (simp add: provider_known_def)
  then have again: "migrate_all w e' 0 (acct_legacy s) (?u\<lparr>acct_migrated := False\<rparr>) = ?u\<lparr>acct_migrated := False\<rparr>"
    by (intro migrate_all_known) simp
  from assms(1) rs known again show ?thesis by (auto simp: ensure_migrated_def Let_def migrate_all_legacy)
qed

subsection \<open>A provider with two accounts\<close>

definition sample_world :: account_world where
  "sample_world = \<lparr>aw_omp = (\<lambda>_. None), aw_sha256 = id, aw_codex_identity = (\<lambda>_. None), aw_codex_base_url = ''codex'',
     aw_probe = (\<lambda>_. Ok ())\<rparr>"

definition sample_clock :: "int \<Rightarrow> env" where
  "sample_clock t = \<lparr>e_secs = (\<lambda>_. t), e_millis = (\<lambda>_. t), e_nanos = (\<lambda>k. nat t + k)\<rparr>"

abbreviation sample_later :: env where
  "sample_later \<equiv> sample_clock 7"

definition sample_row :: "string \<Rightarrow> string \<Rightarrow> int \<Rightarrow> account_row" where
  "sample_row i key at = new_row i ''acme'' key AUTH_API key None (''sk256:'' @ key) at"

definition sample_accounts :: "selection_strategy \<Rightarrow> accounts" where
  "sample_accounts st = \<lparr>acct_rows = [sample_row ''a'' ''k1'' 1, sample_row ''b'' ''k2'' 2],
     acct_legacy = [\<lparr>lc_provider_id = ''old'', lc_label = ''Old'', lc_api_key = ''k0'', lc_base_url = None, lc_updated_at = 3\<rparr>],
     acct_blocked = [(''acme'', 0)], acct_defaults = [(STRATEGY_KEY, strategy_str st)],
     acct_cursors = (\<lambda>_. 0), acct_sticky = [], acct_omp_health = [], acct_migrated = False\<rparr>"

theorem round_robin_fair_witness:
  "map (\<lambda>j. first_choice sample_world sample_later ''acme''
      ((select_next sample_world sample_later ''acme'' ^^ j) (sample_accounts RoundRobin))) [0..<2] =
    map row_record [sample_row ''a'' ''k1'' 1, sample_row ''b'' ''k2'' 2]"
proof -
  have u: "usable_now sample_later ''acme'' (sample_accounts RoundRobin) =
      map row_record [sample_row ''a'' ''k1'' 1, sample_row ''b'' ''k2'' 2]" by code_simp
  have c: "acct_cursors (sample_accounts RoundRobin) p = 0" for p by (simp add: sample_accounts_def)
  have "strategy_for ''acme'' (sample_accounts RoundRobin) = RoundRobin" by code_simp
  moreover have "length (map row_record [sample_row ''a'' ''k1'' 1, sample_row ''b'' ''k2'' 2]) = 2" by simp
  ultimately show ?thesis
    using round_robin_fair [of "''acme''" "sample_accounts RoundRobin" sample_later sample_world]
    unfolding u c by (simp add: upt_rec)
qed

theorem accounts_invariant_witness:
  "accounts_ok 8 (fold (account_step sample_world)
     [(sample_later, Upsert ''acme'' ''x'' AUTH_API ''k3'' None ''sk256:k3''), (sample_later, Select ''acme'' (Some ''s1'')),
      (sample_later, Outcome ''a'' (RateLimited None))] (sample_accounts StickySession))"
  by (rule accounts_invariant) (code_simp, simp add: sample_clock_def)

theorem sticky_session_keeps_account_witness:
  "fst (candidates sample_world sample_later ''acme'' (Some ''s1'')
      (fold (\<lambda>(e', q, sk) t. snd (candidates sample_world e' q sk t)) [(sample_later, ''acme'', Some ''s2'')]
        (snd (candidates sample_world sample_later ''acme'' (Some ''s1'') (sample_accounts StickySession))))) =
    fst (candidates sample_world sample_later ''acme'' (Some ''s1'') (sample_accounts StickySession))"
proof (rule sticky_session_keeps_account)
  show "accounts_ok 8 (sample_accounts StickySession)" by code_simp
  show "strategy_for ''acme'' (sample_accounts StickySession) = StickySession" by code_simp
  show "usable_now sample_later ''acme'' (sample_accounts StickySession) \<noteq> []" by code_simp
qed simp

theorem cooldown_is_kept_witness:
  "\<not> offered sample_world (sample_clock 66) ''acme'' None ''a''
       (record_outcome sample_later ''a'' (RateLimited None) (sample_accounts FillFirst)) \<and>
   offered sample_world (sample_clock 67) ''acme'' None ''a''
       (record_outcome sample_later ''a'' (RateLimited None) (sample_accounts FillFirst))"
proof -
  let ?r = "sample_row ''a'' ''k1'' 1"
  have "unique_rows (acct_rows (sample_accounts FillFirst))" by code_simp
  moreover have "?r \<in> set (acct_rows (sample_accounts FillFirst))" by (simp add: sample_accounts_def)
  moreover have "\<not> is_omp_account_id (ac_id ?r)" "ac_status ?r = ''active''" "ac_key_set ?r" "ac_provider_id ?r = ''acme''"
    by code_simp+
  moreover have "ac_id ?r = ''a''" by code_simp
  ultimately show ?thesis
    using cooldown_is_kept [of "sample_accounts FillFirst" ?r "''acme''" sample_world "sample_clock 66" None sample_later None]
      cooldown_is_kept [of "sample_accounts FillFirst" ?r "''acme''" sample_world "sample_clock 67" None sample_later None]
    by (simp add: sample_clock_def)
qed

theorem login_is_one_account_witness:
  "\<exists>r t. upsert_account sample_later ''acme'' ''new'' AUTH_API ''k1'' None ''sk256:k1'' (sample_accounts FillFirst) = (Inr (r, True), t) \<and>
     ac_label r = ''new''"
proof -
  let ?up = "upsert_account sample_later ''acme'' ''new'' AUTH_API ''k1'' None ''sk256:k1'' (sample_accounts FillFirst)"
  have "\<not> isl (fst ?up)" by code_simp
  then obtain r updated t where up: "?up = (Inr (r, updated), t)" by (cases ?up; cases "fst ?up") auto
  have "unique_rows (acct_rows (sample_accounts FillFirst))"
    "\<exists>q \<in> set (acct_rows (sample_accounts FillFirst)). has_identity ''acme'' ''sk256:k1'' q" by code_simp+
  with login_is_one_account [OF this(1) up] up show ?thesis by auto
qed

theorem migration_is_complete_and_idempotent_witness:
  "provider_known ''old'' (ensure_migrated sample_world sample_later (sample_accounts FillFirst))"
proof -
  have "\<not> acct_migrated (sample_accounts FillFirst)"
    "distinct (map (\<lambda>j. pacct_id (e_nanos sample_later j)) [0..<length (acct_legacy (sample_accounts FillFirst))])"
    "\<forall>j \<in> {0..<length (acct_legacy (sample_accounts FillFirst))}.
       pacct_id (e_nanos sample_later j) \<notin> ac_id ` set (acct_rows (sample_accounts FillFirst))"
    by (simp_all add: sample_accounts_def sample_row_def new_row_def pacct_id_def)
  from migration_is_complete_and_idempotent [OF this, of sample_world sample_later] show ?thesis
    by (simp add: Let_def sample_accounts_def)
qed

end
