(* ===== verification/Credentials.thy ===== *)
theory Credentials
  imports AccountsProps
begin

text \<open>
  The credentials the chat works with, as \<open>services/native_chat_service.rs\<close> composes them from the account
  service: saving a key, the one credential per provider, logging a provider out and the account of the
  local model servers. The list of Oh My Pi credentials is a parameter. Refreshing the model catalog is
  outside the model.
\<close>

subsection \<open>Operations\<close>

definition masked_key_label :: "string \<Rightarrow> string" where
  "masked_key_label key = ''key '' @ [CHR 0xE2, CHR 0x80, CHR 0xA6] @ concat (rev (take 4 (rev (chars key))))"

record credential_input =
  ci_provider_id :: string
  ci_label :: string
  ci_api_key :: string
  ci_base_url :: "string option"

definition unblock_provider :: "string \<Rightarrow> accounts \<Rightarrow> accounts" where
  "unblock_provider p s = s\<lparr>acct_blocked := filter (\<lambda>b. fst b \<noteq> p) (acct_blocked s)\<rparr>"

definition block_provider :: "env \<Rightarrow> string \<Rightarrow> accounts \<Rightarrow> accounts" where
  "block_provider e p s =
     (if is_provider_blocked p s then s else s\<lparr>acct_blocked := acct_blocked s @ [(p, e_secs e 0)]\<rparr>)"

definition save_migrated ::
    "account_world \<Rightarrow> credential_input \<Rightarrow> env \<Rightarrow> accounts \<Rightarrow> legacy_credential result \<times> accounts" where
  "save_migrated w inp e s =
     (let p = ci_provider_id inp;
          auth = (if ci_base_url inp = Some (aw_codex_base_url w) then AUTH_OAUTH else AUTH_API);
          identity = (if auth = AUTH_OAUTH then coalesce (aw_codex_identity w (ci_api_key inp)) (''legacy:'' @ p)
                      else api_key_identity w (ci_api_key inp));
          label = (if auth = AUTH_OAUTH then ci_label inp else masked_key_label (ci_api_key inp))
      in case upsert_account e p label auth (ci_api_key inp) (ci_base_url inp) identity s of
           (Inl m, t) \<Rightarrow> (Err m, t)
         | (Inr (r, _), t) \<Rightarrow>
             (Ok \<lparr>lc_provider_id = ac_provider_id r, lc_label = ci_label inp, lc_api_key = ac_api_key r,
                  lc_base_url = ac_base_url r, lc_updated_at = ac_updated_at r\<rparr>,
              unblock_provider p (sync_legacy_row p t)))"

definition save_credential ::
    "account_world \<Rightarrow> credential_input \<Rightarrow> env \<Rightarrow> accounts \<Rightarrow> legacy_credential result \<times> accounts" where
  "save_credential w inp e s = with_migration (save_migrated w inp) w e s"

definition record_credential :: "account_record \<Rightarrow> legacy_credential" where
  "record_credential r = \<lparr>lc_provider_id = ac_provider_id r, lc_label = ac_label r, lc_api_key = ac_api_key r,
     lc_base_url = ac_base_url r, lc_updated_at = ac_updated_at r\<rparr>"

fun merge_record :: "account_record \<Rightarrow> legacy_credential list \<Rightarrow> legacy_credential list" where
  "merge_record r [] = [record_credential r]"
| "merge_record r (c # cs) =
     (if lc_provider_id c = ac_provider_id r
      then (if ac_updated_at r \<le> lc_updated_at c then c # cs else record_credential r # cs)
      else c # merge_record r cs)"

definition push_unless_known :: "legacy_credential \<Rightarrow> legacy_credential list \<Rightarrow> legacy_credential list" where
  "push_unless_known c cs = (if \<exists>d \<in> set cs. lc_provider_id d = lc_provider_id c then cs else cs @ [c])"

text \<open>
  Of the Oh My Pi credentials only the first of a provider counts; as the list keeps what is pushed first,
  the set of providers already seen changes nothing.
\<close>

definition credentials_migrated :: "legacy_credential list \<Rightarrow> accounts \<Rightarrow> legacy_credential list" where
  "credentials_migrated omps s =
     (let own = fold merge_record (list_records None s) [];
          free = filter (\<lambda>c. \<not> is_provider_blocked (lc_provider_id c) s);
          kept = fold push_unless_known (free (order_desc lc_updated_at (acct_legacy s))) own
      in fold push_unless_known (free omps) kept)"

definition list_credentials ::
    "account_world \<Rightarrow> legacy_credential list \<Rightarrow> env \<Rightarrow> accounts \<Rightarrow> legacy_credential list \<times> accounts" where
  "list_credentials w omps e s = with_migration (\<lambda>_ t. (credentials_migrated omps t, t)) w e s"

definition configured_provider_ids ::
    "account_world \<Rightarrow> legacy_credential list \<Rightarrow> env \<Rightarrow> accounts \<Rightarrow> string set" where
  "configured_provider_ids w omps e s = lc_provider_id ` set (fst (list_credentials w omps e s))"

text \<open>
  SQL's \<open>LIKE\<close>: \<open>%\<close> is any text, \<open>_\<close> one character, and ASCII letters match in either case.
\<close>

definition ascii_fold :: "string \<Rightarrow> string" where
  "ascii_fold s = map (\<lambda>c. if 65 \<le> (of_char c :: nat) \<and> (of_char c :: nat) \<le> 90 then char_of (of_char c + (32::nat)) else c) s"

fun sql_like_chars :: "string list \<Rightarrow> string list \<Rightarrow> bool" where
  "sql_like_chars [] xs \<longleftrightarrow> xs = []"
| "sql_like_chars (p # ps) [] \<longleftrightarrow> p = ''%'' \<and> sql_like_chars ps []"
| "sql_like_chars (p # ps) (x # xs) \<longleftrightarrow>
     (if p = ''%'' then sql_like_chars ps (x # xs) \<or> sql_like_chars (p # ps) xs
      else (p = ''_'' \<or> ascii_fold p = ascii_fold x) \<and> sql_like_chars ps xs)"

definition sql_like :: "string \<Rightarrow> string \<Rightarrow> bool" where
  "sql_like pattern s = sql_like_chars (chars pattern) (chars s)"

definition OPENAI_CODEX :: string where "OPENAI_CODEX = ''openai-codex''"

definition clear_native_token :: "string \<Rightarrow> accounts \<Rightarrow> accounts" where
  "clear_native_token p s =
     (if p \<noteq> OPENAI_CODEX then s
      else s\<lparr>acct_defaults := filter (\<lambda>d. fst d \<noteq> ''provider_oauth:openai-codex'') (acct_defaults s)\<rparr>)"

definition delete_migrated :: "string \<Rightarrow> env \<Rightarrow> accounts \<Rightarrow> accounts" where
  "delete_migrated p e s =
     (let s1 = s\<lparr>acct_rows := filter (\<lambda>r. ac_provider_id r \<noteq> p) (acct_rows s),
                acct_legacy := filter (\<lambda>c. lc_provider_id c \<noteq> p) (acct_legacy s),
                acct_defaults := filter (\<lambda>d. fst d \<noteq> ''provider_oauth:'' @ p \<and>
                   \<not> sql_like (''provider_oauth:'' @ p @ '':%'') (fst d)) (acct_defaults s)\<rparr>
      in block_provider e p (clear_native_token p s1))"

definition delete_credential :: "account_world \<Rightarrow> string \<Rightarrow> env \<Rightarrow> accounts \<Rightarrow> accounts" where
  "delete_credential w p e s = with_migration (delete_migrated p) w e s"

fun remove_records :: "env \<Rightarrow> (account_record \<Rightarrow> bool) \<Rightarrow> account_record list \<Rightarrow> accounts \<Rightarrow> unit result \<times> accounts" where
  "remove_records e doomed [] s = (Ok (), s)"
| "remove_records e doomed (r # rs) s =
     (if doomed r then
        (case remove_account e (ac_id r) s of
           (Inl m, t) \<Rightarrow> (Err m, t) | (Inr _, t) \<Rightarrow> remove_records e doomed rs t)
      else remove_records e doomed rs s)"

definition stale_local :: "bool \<Rightarrow> account_record \<Rightarrow> bool" where
  "stale_local reachable r \<longleftrightarrow> prefix ''local-'' (ac_provider_id r) \<and> \<not> (ac_provider_id r = ''local-models'' \<and> reachable)"

text \<open>The scan enters as whether any of the servers it found is reachable.\<close>

definition local_migrated :: "bool \<Rightarrow> env \<Rightarrow> accounts \<Rightarrow> unit result \<times> accounts" where
  "local_migrated reachable e s =
     (let (added, t) =
            (if reachable then
               (case upsert_account e ''local-models'' ''Local Models'' AUTH_API ''local'' None ''local'' s of
                  (Inl m, t) \<Rightarrow> (Err m, t) | (Inr _, t) \<Rightarrow> (Ok (), t))
             else (Ok (), s))
      in case added of
           Inl m \<Rightarrow> (Err m, t)
         | Inr _ \<Rightarrow> remove_records e (stale_local reachable) (list_records None t) t)"

definition sync_local_accounts :: "account_world \<Rightarrow> bool \<Rightarrow> env \<Rightarrow> accounts \<Rightarrow> unit result \<times> accounts" where
  "sync_local_accounts w reachable e s = with_migration (local_migrated reachable) w e s"

definition sample_login :: "string \<Rightarrow> credential_input" where
  "sample_login key = \<lparr>ci_provider_id = ''acme'', ci_label = ''Acme'', ci_api_key = key, ci_base_url = None\<rparr>"

definition sample_local :: accounts where
  "sample_local = snd (upsert_account sample_later ''local-models'' ''Local Models'' AUTH_API ''local'' None ''local''
     (sample_accounts FillFirst))"

subsection \<open>One credential per provider\<close>

definition providers :: "legacy_credential list \<Rightarrow> string set" where
  "providers cs = lc_provider_id ` set cs"

abbreviation one_each :: "legacy_credential list \<Rightarrow> bool" where
  "one_each cs \<equiv> distinct (map lc_provider_id cs)"

lemma merge_record_providers: "providers (merge_record r cs) = insert (ac_provider_id r) (providers cs)"
  by (induction r cs rule: merge_record.induct) (auto simp: providers_def record_credential_def)

lemma merge_record_one_each: "one_each cs \<Longrightarrow> one_each (merge_record r cs)"
proof (induction r cs rule: merge_record.induct)
  case (2 r c cs)
  have "lc_provider_id ` set (merge_record r cs) = insert (ac_provider_id r) (lc_provider_id ` set cs)"
    using merge_record_providers by (simp add: providers_def)
  with 2 show ?case by (auto simp: record_credential_def)
qed simp

lemma merge_all: "one_each cs \<Longrightarrow> one_each (fold merge_record rs cs) \<and>
    providers (fold merge_record rs cs) = providers cs \<union> ac_provider_id ` set rs"
  by (induction rs arbitrary: cs) (auto simp: merge_record_one_each merge_record_providers)

lemma push_all: "one_each cs \<Longrightarrow> one_each (fold push_unless_known ds cs) \<and>
    providers (fold push_unless_known ds cs) = providers cs \<union> providers ds"
proof (induction ds arbitrary: cs)
  case (Cons d ds)
  have "one_each (push_unless_known d cs)" "providers (push_unless_known d cs) = insert (lc_provider_id d) (providers cs)"
    using Cons.prems by (auto simp: push_unless_known_def providers_def image_iff) (metis+)?
  with Cons.IH show ?case by (auto simp: providers_def)
qed (simp add: providers_def)

definition listed_provider :: "string \<Rightarrow> accounts \<Rightarrow> bool" where
  "listed_provider p s \<longleftrightarrow> (\<exists>r \<in> set (list_records None s). ac_provider_id r = p)"

lemma credentials_of:
  "one_each (credentials_migrated omps s) \<and>
   (p \<in> providers (credentials_migrated omps s) \<longleftrightarrow>
      listed_provider p s \<or> \<not> is_provider_blocked p s \<and> (p \<in> providers (acct_legacy s) \<or> p \<in> providers omps))"
proof -
  have "one_each (fold merge_record (list_records None s) [])"
    "providers (fold merge_record (list_records None s) []) = ac_provider_id ` set (list_records None s)"
    using merge_all [of "[]" "list_records None s"] by (simp_all add: providers_def)
  then show ?thesis
    using push_all [THEN conjunct1] push_all [THEN conjunct2]
    by (simp add: credentials_migrated_def Let_def) (auto simp: providers_def listed_provider_def)
qed

text \<open>
  Every provider has at most one credential, and it has one exactly when it has an account with a key,
  or when it is not blocked and the old table or Oh My Pi knows it.
\<close>

theorem configured_provider_iff:
  "distinct (map lc_provider_id (fst (list_credentials w omps e s))) \<and>
   (p \<in> configured_provider_ids w omps e s \<longleftrightarrow>
      (let t = ensure_migrated w e s
       in listed_provider p t \<or>
          \<not> is_provider_blocked p t \<and> (\<exists>c \<in> set (acct_legacy t) \<union> set omps. lc_provider_id c = p)))"
  using credentials_of [of omps "ensure_migrated w e s" p]
  by (auto simp: configured_provider_ids_def list_credentials_def with_migration_def providers_def Let_def)

subsection \<open>Logging a provider out and in\<close>

lemma migrated_migrates: "acct_migrated (ensure_migrated w e s)"
  by (simp add: ensure_migrated_def)

lemma configured_migrated:
  "acct_migrated s \<Longrightarrow> configured_provider_ids w omps e s = providers (credentials_migrated omps s)"
  by (simp add: configured_provider_ids_def list_credentials_def with_migration_def ensure_migrated_def providers_def)

lemma configured_ensure:
  "configured_provider_ids w omps e s = providers (credentials_migrated omps (ensure_migrated w e s))"
  by (simp add: configured_provider_ids_def list_credentials_def with_migration_def providers_def)

lemma listed_provider_iff:
  "listed_provider p s \<longleftrightarrow> (\<exists>r \<in> set (acct_rows s). ac_provider_id r = p \<and> ac_status r = ''active'' \<and> ac_key_set r)"
  by (auto simp: listed_provider_def list_records_def row_record_def account_record.truncate_def)

lemma delete_migrated_reads:
  "acct_migrated (delete_migrated p e s) = acct_migrated s"
  "listed_provider q (delete_migrated p e s) \<longleftrightarrow> q \<noteq> p \<and> listed_provider q s"
  "is_provider_blocked q (delete_migrated p e s) \<longleftrightarrow> q = p \<or> is_provider_blocked q s"
  "q \<in> providers (acct_legacy (delete_migrated p e s)) \<longleftrightarrow> q \<noteq> p \<and> q \<in> providers (acct_legacy s)"
  by (auto simp: delete_migrated_def Let_def block_provider_def clear_native_token_def listed_provider_iff
      is_provider_blocked_def providers_def map_of_eq_None_iff split: if_splits)

text \<open>
  Logging a provider out leaves it without a credential, whatever Oh My Pi offers, and takes no other
  provider's away.
\<close>

theorem logout_is_complete:
  "configured_provider_ids w omps e' (delete_credential w p e s) = configured_provider_ids w omps e s - {p}"
proof -
  let ?t = "ensure_migrated w e s"
  let ?d = "delete_credential w p e s"
  obtain e1 where d: "?d = delete_migrated p e1 ?t" by (simp add: delete_credential_def with_migration_def)
  then have "acct_migrated ?d" by (simp add: delete_migrated_reads migrated_migrates)
  then show ?thesis
    using configured_migrated [of ?d w omps e'] configured_ensure [of w omps e s] credentials_of [of omps] delete_migrated_reads [where p = p and e = e1 and s = ?t]
    by (auto simp: d)
qed

text \<open>The pins of the accounts it removes stay; a pin without an account has no effect.\<close>

lemma logout_keeps_pins: "acct_sticky (delete_migrated p e s) = acct_sticky s"
  by (simp add: delete_migrated_def block_provider_def clear_native_token_def Let_def)

text \<open>
  The slots of another provider can go too: an underscore of the id is a wildcard of the pattern.
\<close>

lemma logout_sweeps_sibling_slots:
  "sql_like (''provider_oauth:a_b:%'') ''provider_oauth:a-b:token''"
  by code_simp

lemma sync_legacy_providers:
  "q \<noteq> p \<Longrightarrow> q \<in> providers (acct_legacy (sync_legacy_row p s)) \<longleftrightarrow> q \<in> providers (acct_legacy s)"
  by (auto simp: sync_legacy_row_def Let_def providers_def set_upd_where image_iff split: option.split)

lemma upsert_frame:
  assumes "upsert_account e p l a k u identity s = (res, t)"
  shows "acct_legacy t = acct_legacy s" "acct_blocked t = acct_blocked s" "acct_migrated t = acct_migrated s"
  using assms
  by (auto simp: upsert_account_def Let_def insert_account_def split: option.splits if_splits)

lemma upsert_ids:
  assumes "upsert_account e p l a k u identity s = (res, t)" and "r \<in> set (acct_rows t)"
  shows "ac_id r \<in> ac_id ` set (acct_rows s) \<or> ac_id r = pacct_id (e_nanos e 0)"
proof -
  have "set (map ac_id (acct_rows t)) \<subseteq> insert (pacct_id (e_nanos e 0)) (set (map ac_id (acct_rows s)))"
    using assms(1)
    by (auto simp: upsert_account_def Let_def insert_account_def map_key_upd_where new_row_def simp del: set_map
        split: option.splits if_splits)
  with assms(2) show ?thesis by auto
qed

lemma pacct_not_omp: "\<not> is_omp_account_id (pacct_id n)"
  by (simp add: is_omp_account_id_def pacct_id_def)

lemma upsert_listed:
  assumes "unique_rows (acct_rows s)" and "upsert_account e p l a k u identity s = (Inr x, t)"
  shows "listed_provider q t \<longleftrightarrow> q = p \<or> listed_provider q s"
proof -
  obtain r updated where x: "x = (r, updated)" by (cases x)
  from upsert_outcome [OF assms, unfolded x] have
    keep: "filter (\<lambda>q. \<not> has_identity p identity q) (acct_rows t) = filter (\<lambda>q. \<not> has_identity p identity q) (acct_rows s)" and
    "\<exists>row. filter (has_identity p identity) (acct_rows t) = [row] \<and> ac_status row = ''active'' \<and> ac_key_set row"
    by auto
  then obtain row where row: "filter (has_identity p identity) (acct_rows t) = [row]" "ac_status row = ''active''" "ac_key_set row"
    by blast
  then have "row \<in> {q \<in> set (acct_rows t). has_identity p identity q}" by (simp flip: set_filter)
  then have mine: "listed_provider p t" using row(2,3) by (auto simp: listed_provider_iff has_identity_def)
  have "set (filter (\<lambda>q. \<not> has_identity p identity q) (acct_rows t)) = set (filter (\<lambda>q. \<not> has_identity p identity q) (acct_rows s))"
    unfolding keep ..
  then have "r \<in> set (acct_rows t) \<longleftrightarrow> r \<in> set (acct_rows s)" if "ac_provider_id r \<noteq> p" for r
    using that by (auto simp: has_identity_def set_eq_iff)
  then have "listed_provider q t \<longleftrightarrow> listed_provider q s" if "q \<noteq> p" using that by (auto simp: listed_provider_iff)
  with mine show ?thesis by blast
qed

text \<open>
  A saved key gives its provider a credential and takes no other provider's away; a blocked provider is
  free again.
\<close>

theorem login_configures:
  assumes "unique_rows (acct_rows (ensure_migrated w e s))" and "save_credential w inp e s = (Inr c, t)"
  shows "configured_provider_ids w omps e' t = insert (ci_provider_id inp) (configured_provider_ids w omps e s)"
proof -
  let ?s = "ensure_migrated w e s" and ?p = "ci_provider_id inp"
  obtain e1 :: env and l a k u identity x v where up: "upsert_account e1 ?p l a k u identity ?s = (Inr x, v)"
    and t: "t = unblock_provider ?p (sync_legacy_row ?p v)"
    using assms(2) by (auto simp: save_credential_def with_migration_def save_migrated_def Let_def split: sum.splits prod.splits)
  note v = upsert_frame [OF up]
  have rows: "acct_rows t = acct_rows v" by (simp add: t unblock_provider_def sync_legacy_keeps)
  have listed: "listed_provider q t \<longleftrightarrow> q = ?p \<or> listed_provider q ?s" for q
    using upsert_listed [OF assms(1) up, of q] rows by (simp add: listed_provider_iff)
  have "acct_blocked (sync_legacy_row ?p v) = acct_blocked ?s" "acct_migrated (sync_legacy_row ?p v) = acct_migrated ?s"
    by (simp_all add: v sync_legacy_row_def Let_def split: option.split)
  then have blocked: "q \<noteq> ?p \<Longrightarrow> is_provider_blocked q t \<longleftrightarrow> is_provider_blocked q ?s"
    and m: "acct_migrated t" for q
    by (auto simp: t unblock_provider_def is_provider_blocked_def map_of_eq_None_iff migrated_migrates)
  have legacy: "q \<noteq> ?p \<Longrightarrow> q \<in> providers (acct_legacy t) \<longleftrightarrow> q \<in> providers (acct_legacy ?s)" for q
    using sync_legacy_providers [of q ?p v] by (simp add: t unblock_provider_def v)
  have "q \<in> configured_provider_ids w omps e' t \<longleftrightarrow> q = ?p \<or> q \<in> configured_provider_ids w omps e s" for q
    unfolding configured_migrated [OF m] configured_ensure [of w omps e s]
    using credentials_of [of omps] listed [of q] blocked [of q] legacy [of q] by (cases "q = ?p") auto
  then show ?thesis by auto
qed

subsection \<open>Local model servers\<close>

lemma remove_listed:
  assumes "remove_account e i s = (Inr x, t)" and "\<not> is_omp_account_id i"
  shows "list_records None t = filter (\<lambda>r. ac_id r \<noteq> i) (list_records None s)"
proof -
  have "acct_rows t = filter (\<lambda>r. ac_id r \<noteq> i) (acct_rows s)"
    using assms
    by (auto simp: remove_account_def omp_provider_of_def is_omp_account_id_def Let_def sync_legacy_keeps release_rows
        split: sum.splits option.splits if_splits)
  then show ?thesis
    by (simp add: list_records_def order_asc_def filter_map filter_sort o_def conj_commute conj_left_commute)
qed

lemma remove_records_listed:
  "remove_records e doomed rs s = (Inr x, t) \<Longrightarrow> \<forall>r \<in> set rs. \<not> is_omp_account_id (ac_id r) \<Longrightarrow>
     list_records None t = filter (\<lambda>r. \<not> (\<exists>q \<in> set rs. doomed q \<and> ac_id q = ac_id r)) (list_records None s)"
proof (induction rs arbitrary: s)
  case (Cons q rs)
  show ?case
  proof (cases "doomed q")
    case True
    with Cons.prems(1) obtain y u where q: "remove_account e (ac_id q) s = (Inr y, u)"
      and rest: "remove_records e doomed rs u = (Inr x, t)"
      by (auto split: sum.splits prod.splits)
    with Cons.prems(2) True Cons.IH [OF rest] remove_listed [OF q] show ?thesis
      by (auto intro!: filter_cong)
  next
    case False
    with Cons show ?thesis by (auto intro!: filter_cong)
  qed
qed simp

text \<open>
  After a scan the only account of a local server is the shared one, present exactly when a server
  answers; accounts of other providers are neither added nor removed.
\<close>

theorem local_scan_reconciles:
  assumes "accounts_ok T (ensure_migrated w e s)"
    and "\<forall>r \<in> set (acct_rows (ensure_migrated w e s)). \<not> is_omp_account_id (ac_id r)"
    and "sync_local_accounts w reachable e s = (Inr x, t)"
  shows "listed_provider p t \<longleftrightarrow>
    (if prefix ''local-'' p then p = ''local-models'' \<and> reachable else listed_provider p (ensure_migrated w e s))"
proof -
  let ?s = "ensure_migrated w e s"
  let ?e = "later (length (acct_legacy s)) e"
  let ?up = "upsert_account ?e ''local-models'' ''Local Models'' AUTH_API ''local'' None ''local'' ?s"
  obtain v where run: "remove_records ?e (stale_local reachable) (list_records None v) v = (Inr x, t)"
    and v: "if reachable then \<exists>y. ?up = (Inr y, v) else v = ?s"
    using assms(3)
    by (auto simp: sync_local_accounts_def with_migration_def local_migrated_def split: if_splits sum.splits prod.splits)
  have "accounts_ok T v"
  proof (cases reachable)
    case True
    with v ok_upsert [OF assms(1), of ?e "''local-models''" "''Local Models''" AUTH_API "''local''" None "''local''"]
    show ?thesis by auto
  qed (use v assms(1) in simp)
  then have unique: "unique_rows (acct_rows v)" by (simp add: accounts_ok_def)
  have ids: "\<not> is_omp_account_id (ac_id r)" if "r \<in> set (acct_rows v)" for r
  proof (cases reachable)
    case True
    with v obtain y where "?up = (Inr y, v)" by auto
    from upsert_ids [OF this that] assms(2) pacct_not_omp show ?thesis by auto
  qed (use v assms(2) that in simp)
  have "\<forall>r \<in> set (list_records None v). \<not> is_omp_account_id (ac_id r)"
    using ids by (auto dest!: listed_row)
  from remove_records_listed [OF run this]
  have "list_records None t = filter (\<lambda>r. \<not> stale_local reachable r) (list_records None v)"
    using list_records_distinct [OF unique, of None]
    by (auto intro!: filter_cong simp: distinct_map inj_on_def)
  then have "listed_provider p t \<longleftrightarrow> listed_provider p v \<and> \<not> (prefix ''local-'' p \<and> \<not> (p = ''local-models'' \<and> reachable))"
    by (auto simp: listed_provider_def stale_local_def)
  moreover have "listed_provider p v \<longleftrightarrow> listed_provider p ?s \<or> reachable \<and> p = ''local-models''"
  proof (cases reachable)
    case True
    with v obtain y where "?up = (Inr y, v)" by auto
    from upsert_listed [OF _ this, of p] assms(1) True show ?thesis by (auto simp: accounts_ok_def)
  qed (use v in simp)
  ultimately show ?thesis by auto
qed

theorem login_configures_witness:
  "configured_provider_ids sample_world [] sample_later
     (snd (save_credential sample_world (sample_login ''k9'') sample_later (sample_accounts FillFirst))) =
   insert ''acme'' (configured_provider_ids sample_world [] sample_later (sample_accounts FillFirst))"
proof -
  let ?r = "save_credential sample_world (sample_login ''k9'') sample_later (sample_accounts FillFirst)"
  have "\<not> isl (fst ?r)" by code_simp
  then obtain c t where r: "?r = (Inr c, t)" by (cases ?r; cases "fst ?r") auto
  have "unique_rows (acct_rows (ensure_migrated sample_world sample_later (sample_accounts FillFirst)))" by code_simp
  from login_configures [OF this r, of "[]" sample_later] r show ?thesis by (simp add: sample_login_def)
qed

theorem local_scan_reconciles_witness:
  "\<not> listed_provider ''local-models'' (snd (sync_local_accounts sample_world False sample_later sample_local)) \<and>
   listed_provider ''local-models'' sample_local"
proof
  let ?r = "sync_local_accounts sample_world False sample_later sample_local"
  have "\<not> isl (fst ?r)" by code_simp
  then obtain x t where r: "?r = (Inr x, t)" by (cases ?r; cases "fst ?r") auto
  have "accounts_ok 8 (ensure_migrated sample_world sample_later sample_local)"
    "\<forall>r \<in> set (acct_rows (ensure_migrated sample_world sample_later sample_local)). \<not> is_omp_account_id (ac_id r)"
    by code_simp+
  from local_scan_reconciles [OF this r, of "''local-models''"] r
  show "\<not> listed_provider ''local-models'' (snd ?r)" by simp
  show "listed_provider ''local-models'' sample_local" by code_simp
qed

end
