(* ===== verification/Context.thy ===== *)
theory Context
  imports TextOps
begin

text \<open>
  What goes into a model's context window: \<open>services/context_service.rs\<close>. Token estimates, the
  instruction files of a project, the cut of a compaction and the transcript sent to the summarizer. The
  file system is a parameter; the comparison with 0.8 of the budget is exact on integers, as it is in
  double precision below \<open>2 ^ 50\<close>.
\<close>

subsection \<open>Token estimates\<close>

definition MAX_CONTEXT_FILE_BYTES :: nat where "MAX_CONTEXT_FILE_BYTES = 32 * 1024"
definition MAX_CONTEXT_TOTAL_BYTES :: nat where "MAX_CONTEXT_TOTAL_BYTES = 96 * 1024"
definition MAX_COMPACTION_TRANSCRIPT_CHARS :: nat where "MAX_COMPACTION_TRANSCRIPT_CHARS = 60000"
definition MAX_COMPACTION_MESSAGE_CHARS :: nat where "MAX_COMPACTION_MESSAGE_CHARS = 4000"

text \<open>The code point of one character, given as its UTF-8 bytes.\<close>

definition code_point :: "string \<Rightarrow> nat" where
  "code_point ch =
     (case map of_char ch of
        [a] \<Rightarrow> a
      | [a, b] \<Rightarrow> (a mod 32) * 64 + b mod 64
      | [a, b, c] \<Rightarrow> (a mod 16) * 4096 + (b mod 64) * 64 + c mod 64
      | [a, b, c, d] \<Rightarrow> (a mod 8) * 262144 + (b mod 64) * 4096 + (c mod 64) * 64 + d mod 64
      | _ \<Rightarrow> 0)"

definition in_range :: "nat \<Rightarrow> nat \<Rightarrow> nat \<Rightarrow> bool" where
  "in_range lo hi n \<longleftrightarrow> lo \<le> n \<and> n \<le> hi"

definition is_cjk :: "string \<Rightarrow> bool" where
  "is_cjk ch \<longleftrightarrow>
     (let n = code_point ch
      in in_range 0x1100 0x11FF n \<or> in_range 0x2E80 0x2FFF n \<or> in_range 0x3000 0x303F n \<or> in_range 0x3040 0x30FF n \<or>
         in_range 0x3130 0x318F n \<or> in_range 0x3400 0x4DBF n \<or> in_range 0x4E00 0x9FFF n \<or> in_range 0xAC00 0xD7AF n \<or>
         in_range 0xF900 0xFAFF n \<or> in_range 0xFF00 0xFFEF n \<or> in_range 0x20000 0x2FA1F n)"

definition is_ascii :: "string \<Rightarrow> bool" where
  "is_ascii ch \<longleftrightarrow> code_point ch < 128"

definition estimate_tokens :: "string \<Rightarrow> int" where
  "estimate_tokens s =
     (let cs = chars (trim s);
          ascii = length (filter is_ascii cs);
          cjk = length (filter (\<lambda>ch. \<not> is_ascii ch \<and> is_cjk ch) cs);
          other = length (filter (\<lambda>ch. \<not> is_ascii ch \<and> \<not> is_cjk ch) cs)
      in if trim s = [] then 0 else int ((ascii + 3) div 4 + cjk + (other + 1) div 2))"

lemma three_kinds:
  "length xs = length (filter P xs) + length (filter (\<lambda>x. \<not> P x \<and> Q x) xs) + length (filter (\<lambda>x. \<not> P x \<and> \<not> Q x) xs)"
  by (induction xs) auto

lemma chars_Nil [simp]: "chars s = [] \<longleftrightarrow> s = []"
  by (cases s) (auto split: list.splits)

text \<open>
  An estimate is between a quarter of the number of characters and that number, so it is zero for
  blank texts only.
\<close>

theorem estimate_tokens_bounds:
  "int (length (chars (trim s))) \<le> 4 * estimate_tokens s \<and> estimate_tokens s \<le> int (length (chars (trim s))) \<and>
   (estimate_tokens s = 0 \<longleftrightarrow> trim s = [])"
proof -
  define a where "a = length (filter is_ascii (chars (trim s)))"
  define c where "c = length (filter (\<lambda>ch. \<not> is_ascii ch \<and> is_cjk ch) (chars (trim s)))"
  define k where "k = length (filter (\<lambda>ch. \<not> is_ascii ch \<and> \<not> is_cjk ch) (chars (trim s)))"
  have n: "length (chars (trim s)) = a + c + k" unfolding a_def c_def k_def by (rule three_kinds)
  have e: "trim s \<noteq> [] \<Longrightarrow> estimate_tokens s = int ((a + 3) div 4 + c + (k + 1) div 2)"
    by (simp add: estimate_tokens_def Let_def a_def c_def k_def)
  have "a \<le> 4 * ((a + 3) div 4)" "(a + 3) div 4 \<le> a" "k \<le> 2 * ((k + 1) div 2)" "(k + 1) div 2 \<le> k" by linarith+
  with n e show ?thesis
    by (cases "trim s = []") (auto simp: estimate_tokens_def)
qed

lemma estimate_tokens_nonneg [simp]: "0 \<le> estimate_tokens s"
  using estimate_tokens_def by (simp add: Let_def)

subsection \<open>Context files\<close>

record context_file =
  cf_label :: string
  cf_scope :: string
  cf_bytes :: nat
  cf_truncated :: bool
  cf_content :: string

text \<open>The continuation bytes a lead byte asks for, after checking the first of them.\<close>

definition is_cont :: "char \<Rightarrow> bool" where
  "is_cont c \<longleftrightarrow> in_range 0x80 0xBF (of_char c)"

definition utf8_tail :: "nat \<Rightarrow> nat option \<Rightarrow> nat option" where
  "utf8_tail a second =
     (if a < 128 then Some 0
      else case second of
        None \<Rightarrow> None
      | Some b \<Rightarrow>
          (if in_range 0xC2 0xDF a \<and> in_range 0x80 0xBF b then Some 1
           else if a = 0xE0 \<and> in_range 0xA0 0xBF b then Some 2
           else if (in_range 0xE1 0xEC a \<or> in_range 0xEE 0xEF a) \<and> in_range 0x80 0xBF b then Some 2
           else if a = 0xED \<and> in_range 0x80 0x9F b then Some 2
           else if a = 0xF0 \<and> in_range 0x90 0xBF b then Some 3
           else if in_range 0xF1 0xF3 a \<and> in_range 0x80 0xBF b then Some 3
           else if a = 0xF4 \<and> in_range 0x80 0x8F b then Some 3
           else None))"

fun valid_utf8 :: "string \<Rightarrow> bool" where
  "valid_utf8 [] \<longleftrightarrow> True"
| "valid_utf8 (c # s) \<longleftrightarrow>
     (case utf8_tail (of_char c) (case s of [] \<Rightarrow> None | b # _ \<Rightarrow> Some (of_char b)) of
        None \<Rightarrow> False
      | Some k \<Rightarrow> k \<le> length s \<and> list_all is_cont (take k s) \<and> valid_utf8 (drop k s))"

definition is_char_boundary :: "string \<Rightarrow> nat \<Rightarrow> bool" where
  "is_char_boundary s i \<longleftrightarrow> i = 0 \<or> i = length s \<or> i < length s \<and> \<not> is_cont (s ! i)"

fun boundary_below :: "string \<Rightarrow> nat \<Rightarrow> nat" where
  "boundary_below s 0 = 0"
| "boundary_below s (Suc n) = (if is_char_boundary s (Suc n) then Suc n else boundary_below s n)"

definition truncate_at_char_boundary :: "string \<Rightarrow> nat \<Rightarrow> string \<times> bool" where
  "truncate_at_char_boundary text max_bytes =
     (if length text \<le> max_bytes then (text, False) else (take (boundary_below text max_bytes) text, True))"

text \<open>What the file system says of a path: its bytes and its canonical form, the path itself if that fails.\<close>

record context_world =
  cw_read :: "string \<Rightarrow> string option"
  cw_canonical :: "string \<Rightarrow> string"

fun collect_from ::
    "context_world \<Rightarrow> string list \<Rightarrow> string list \<Rightarrow> nat \<Rightarrow> (string \<times> string \<times> string) list \<Rightarrow> context_file list" where
  "collect_from w paths texts remaining [] = []"
| "collect_from w paths texts remaining ((label, scope, path) # cs) =
     (if remaining = 0 then []
      else case cw_read w path of
        None \<Rightarrow> collect_from w paths texts remaining cs
      | Some raw \<Rightarrow>
          (if cw_canonical w path \<in> set paths then collect_from w paths texts remaining cs
           else
             (let paths' = cw_canonical w path # paths
              in if \<not> valid_utf8 raw then collect_from w paths' texts remaining cs
                 else
                   (let t = trim raw
                    in if t = [] \<or> t \<in> set texts then collect_from w paths' texts remaining cs
                       else
                         (let (content, truncated) = truncate_at_char_boundary t (min MAX_CONTEXT_FILE_BYTES remaining)
                          in \<lparr>cf_label = label, cf_scope = scope, cf_bytes = length content,
                              cf_truncated = truncated, cf_content = content\<rparr> #
                             collect_from w paths' (t # texts) (remaining - length content) cs)))))"

definition collect_context_files :: "context_world \<Rightarrow> (string \<times> string \<times> string) list \<Rightarrow> context_file list" where
  "collect_context_files w cs = collect_from w [] [] MAX_CONTEXT_TOTAL_BYTES cs"

definition load_context_files :: "context_world \<Rightarrow> string option \<Rightarrow> string \<Rightarrow> context_file list" where
  "load_context_files w home project =
     collect_context_files w
       ((case home of
           None \<Rightarrow> []
         | Some h \<Rightarrow> [(''~/.basebuild/AGENTS.md'', ''global'', h @ ''/.basebuild/AGENTS.md'')]) @
        map (\<lambda>n. (n, ''project'', project @ ''/'' @ n)) [''AGENTS.md'', ''CLAUDE.md''])"

definition file_entry :: "context_file \<Rightarrow> string" where
  "file_entry f = NL # ''## '' @ cf_label f @ '' ('' @ cf_scope f @ '')'' @ [NL] @ cf_content f @
     (if cf_truncated f then NL # ''[truncated]'' else []) @ [NL]"

definition render_context_block :: "context_file list \<Rightarrow> string" where
  "render_context_block fs =
     (if fs = [] then []
      else ''# Project context files'' @ [NL] @
        ''The following instruction files apply to this workspace. Follow them unless the user says otherwise.'' @ [NL] @
        concat (map file_entry fs))"

lemma boundary_below_le: "boundary_below s n \<le> n"
  by (induction s n rule: boundary_below.induct) auto

lemma boundary_below_boundary: "is_char_boundary s (boundary_below s n)"
  by (induction s n rule: boundary_below.induct) (auto simp: is_char_boundary_def)

lemma truncate_bounds:
  assumes "truncate_at_char_boundary t n = (content, truncated)"
  shows "length content \<le> n" "prefix content t" "truncated \<longleftrightarrow> length content < length t"
    "is_char_boundary t (length content)"
proof -
  have "boundary_below t n \<le> n" by (rule boundary_below_le)
  with assms boundary_below_boundary [of t n] show "length content \<le> n" "prefix content t"
    "truncated \<longleftrightarrow> length content < length t" "is_char_boundary t (length content)"
    by (auto simp: truncate_at_char_boundary_def take_is_prefix is_char_boundary_def split: if_splits)
qed

text \<open>Each collected file against the text of the path it came from.\<close>

definition file_of :: "context_world \<Rightarrow> context_file \<Rightarrow> string \<times> string \<times> string \<Rightarrow> bool" where
  "file_of w f c \<longleftrightarrow>
     (case c of (label, scope, path) \<Rightarrow>
        cf_label f = label \<and> cf_scope f = scope \<and>
        (\<exists>raw. cw_read w path = Some raw \<and> valid_utf8 raw \<and> prefix (cf_content f) (trim raw) \<and>
           is_char_boundary (trim raw) (length (cf_content f)) \<and>
           (cf_truncated f \<longleftrightarrow> length (cf_content f) < length (trim raw))))"

type_synonym candidate = "string \<times> string \<times> string"

definition path_of :: "context_world \<Rightarrow> candidate \<Rightarrow> string" where
  "path_of w c = cw_canonical w (snd (snd c))"

definition text_of :: "context_world \<Rightarrow> candidate \<Rightarrow> string" where
  "text_of w c = trim (the (cw_read w (snd (snd c))))"

definition fresh_keys :: "('c \<Rightarrow> string) \<Rightarrow> string list \<Rightarrow> 'c list \<Rightarrow> bool" where
  "fresh_keys k used ds \<longleftrightarrow> distinct (map k ds) \<and> set (map k ds) \<inter> set used = {}"

lemma fresh_keys_simps [simp]: "fresh_keys k used []"
  "fresh_keys k used (d # ds) \<longleftrightarrow> k d \<notin> set used \<and> fresh_keys k (k d # used) ds"
  by (auto simp: fresh_keys_def)

lemma fresh_keys_mono: "fresh_keys k used' ds \<Longrightarrow> set used \<subseteq> set used' \<Longrightarrow> fresh_keys k used ds"
  by (auto simp: fresh_keys_def)

definition collected_ok ::
    "context_world \<Rightarrow> string list \<Rightarrow> string list \<Rightarrow> nat \<Rightarrow> candidate list \<Rightarrow> context_file list \<Rightarrow> bool" where
  "collected_ok w paths texts remaining cs fs \<longleftrightarrow>
     sum_list (map cf_bytes fs) \<le> remaining \<and>
     list_all (\<lambda>f. cf_bytes f = length (cf_content f) \<and> cf_bytes f \<le> MAX_CONTEXT_FILE_BYTES) fs \<and>
     (\<exists>ds. subseq ds cs \<and> list_all2 (file_of w) fs ds \<and>
        fresh_keys (path_of w) paths ds \<and> fresh_keys (text_of w) texts ds)"

lemma collected_skip:
  assumes "collected_ok w paths' texts remaining cs fs" and "set paths \<subseteq> set paths'"
  shows "collected_ok w paths texts remaining (c # cs) fs"
proof -
  from assms(1) obtain ds where "subseq ds cs" "list_all2 (file_of w) fs ds" "fresh_keys (path_of w) paths' ds"
    "fresh_keys (text_of w) texts ds" by (auto simp: collected_ok_def)
  with assms(2) have "subseq ds (c # cs)" "fresh_keys (path_of w) paths ds" by (auto intro: fresh_keys_mono)
  with assms(1) \<open>list_all2 (file_of w) fs ds\<close> \<open>fresh_keys (text_of w) texts ds\<close> show ?thesis
    unfolding collected_ok_def by blast
qed

lemma collected_keep:
  assumes "collected_ok w (path_of w c # paths) (text_of w c # texts) (remaining - cf_bytes f) cs fs" and "file_of w f c"
    and "path_of w c \<notin> set paths" "text_of w c \<notin> set texts"
    and "cf_bytes f = length (cf_content f)" "cf_bytes f \<le> min MAX_CONTEXT_FILE_BYTES remaining"
  shows "collected_ok w paths texts remaining (c # cs) (f # fs)"
proof -
  from assms(1) obtain ds where ds: "subseq ds cs" "list_all2 (file_of w) fs ds" "fresh_keys (path_of w) (path_of w c # paths) ds"
    "fresh_keys (text_of w) (text_of w c # texts) ds" by (auto simp: collected_ok_def)
  with assms(2-4) have "subseq (c # ds) (c # cs)" "list_all2 (file_of w) (f # fs) (c # ds)"
    "fresh_keys (path_of w) paths (c # ds)" "fresh_keys (text_of w) texts (c # ds)" by auto
  moreover have "sum_list (map cf_bytes (f # fs)) \<le> remaining"
  proof -
    from assms(1,6) have "sum_list (map cf_bytes fs) \<le> remaining - cf_bytes f" "cf_bytes f \<le> remaining"
      by (simp_all add: collected_ok_def)
    then show ?thesis by simp
  qed
  ultimately show ?thesis using assms(1,5,6) unfolding collected_ok_def list.pred_inject(2) by auto
qed

lemma collect_from_ok: "collected_ok w paths texts remaining cs (collect_from w paths texts remaining cs)"
proof (induction w paths texts remaining cs rule: collect_from.induct)
  case (1 w paths texts remaining)
  show ?case by (simp add: collected_ok_def)
next
  case (2 w paths texts remaining label scope path cs)
  show ?case
  proof (cases "remaining = 0")
    case True
    then show ?thesis by (auto simp: collected_ok_def intro!: exI [of _ "[]"])
  next
    case False
    show ?thesis
    proof (cases "cw_read w path")
      case None
      with 2(1) [OF False None] False show ?thesis by (simp add: collected_skip [OF _ subset_refl])
    next
      case (Some raw)
      let ?t = "trim raw" and ?cap = "min MAX_CONTEXT_FILE_BYTES remaining" and ?paths = "cw_canonical w path # paths"
      show ?thesis
      proof (cases "cw_canonical w path \<in> set paths")
        case True
        with 2(2) [OF False Some True] False Some show ?thesis by (simp add: collected_skip [OF _ subset_refl])
      next
        case new: False
        show ?thesis
        proof (cases "valid_utf8 raw \<and> ?t \<noteq> [] \<and> ?t \<notin> set texts")
          case False
          have "collected_ok w ?paths texts remaining cs (collect_from w ?paths texts remaining cs)"
            using 2(3) [OF \<open>remaining \<noteq> 0\<close> Some new refl] 2(4) [OF \<open>remaining \<noteq> 0\<close> Some new refl _ refl] False by blast
          from collected_skip [OF this, of paths "(label, scope, path)"] False \<open>remaining \<noteq> 0\<close> Some new show ?thesis
            by (auto simp: Let_def)
        next
          case keep: True
          obtain content truncated where tr: "truncate_at_char_boundary ?t ?cap = (content, truncated)" by fastforce
          let ?f = "\<lparr>cf_label = label, cf_scope = scope, cf_bytes = length content, cf_truncated = truncated, cf_content = content\<rparr>"
          let ?c = "(label, scope, path)"
          let ?rest = "collect_from w ?paths (?t # texts) (remaining - length content) cs"
          have eq: "collect_from w paths texts remaining (?c # cs) = ?f # ?rest"
            using False Some new keep tr by (simp add: Let_def)
          have key: "path_of w ?c = cw_canonical w path" "text_of w ?c = ?t" using Some by (simp_all add: path_of_def text_of_def)
          have "collected_ok w ?paths (?t # texts) (remaining - length content) cs ?rest"
            using 2(5) [OF False Some new refl _ refl _ tr [symmetric] refl] keep by simp
          moreover have "file_of w ?f ?c" using truncate_bounds [OF tr] Some keep by (simp add: file_of_def)
          ultimately show ?thesis
            unfolding eq using truncate_bounds(1) [OF tr] new keep by (intro collected_keep) (simp_all add: key)
        qed
      qed
    qed
  qed
qed

text \<open>
  C37: the instruction files take at most 96 KiB together and 32 KiB each; they come in the order of the
  candidate paths, no two from the same file or with the same text, each holding the start of its file's
  trimmed text, cut between two characters and marked as truncated exactly when something was cut.
\<close>

theorem context_files_are_capped:
  "sum_list (map cf_bytes (collect_context_files w cs)) \<le> 98304 \<and>
   list_all (\<lambda>f. cf_bytes f = length (cf_content f) \<and> cf_bytes f \<le> 32768) (collect_context_files w cs) \<and>
   (\<exists>ds. subseq ds cs \<and> list_all2 (file_of w) (collect_context_files w cs) ds \<and>
      distinct (map (path_of w) ds) \<and> distinct (map (text_of w) ds))"
proof -
  have limits: "MAX_CONTEXT_TOTAL_BYTES = 98304" "MAX_CONTEXT_FILE_BYTES = 32768"
    by (simp_all add: MAX_CONTEXT_TOTAL_BYTES_def MAX_CONTEXT_FILE_BYTES_def)
  show ?thesis
    using collect_from_ok [of w "[]" "[]" MAX_CONTEXT_TOTAL_BYTES cs]
    unfolding collected_ok_def collect_context_files_def fresh_keys_def limits by blast
qed

subsection \<open>The cut of a compaction\<close>

definition compaction_boundary :: "string list \<Rightarrow> nat \<Rightarrow> nat option" where
  "compaction_boundary roles keep =
     (let users = filter (\<lambda>i. roles ! i = ''user'') [0..<length roles]
      in if keep = 0 \<or> length users \<le> keep then None
         else (let b = users ! (length users - keep) in if b > 0 then Some b else None))"

lemma sorted_from_nth:
  fixes xs :: "nat list"
  assumes "sorted_wrt (<) xs" and "j < length xs"
  shows "{i \<in> set xs. xs ! j \<le> i} = set (drop j xs)"
proof (rule set_eqI)
  fix i
  have "xs ! j \<le> xs ! k \<longleftrightarrow> j \<le> k" if "k < length xs" for k
    using assms that by (metis linorder_not_less nat_less_le sorted_wrt_nth_less)
  then have "i \<in> {i \<in> set xs. xs ! j \<le> i} \<longleftrightarrow> (\<exists>k < length xs. j \<le> k \<and> xs ! k = i)"
    by (auto simp: in_set_conv_nth)
  also have "\<dots> \<longleftrightarrow> (\<exists>k < length xs - j. xs ! (j + k) = i)"
    by (metis add_diff_inverse_nat le_add1 less_diff_conv2 add.commute linorder_not_less less_diff_conv assms(2) less_imp_le)
  also have "\<dots> \<longleftrightarrow> i \<in> set (drop j xs)" using assms(2) by (auto simp: in_set_conv_nth)
  finally show "i \<in> {i \<in> set xs. xs ! j \<le> i} \<longleftrightarrow> i \<in> set (drop j xs)" .
qed

lemma user_turns_from:
  "length (filter (\<lambda>r. r = ''user'') (drop b roles)) =
     card {i \<in> set (filter (\<lambda>i. roles ! i = ''user'') [0..<length roles]). b \<le> i}"
proof -
  let ?A = "{i. b + i < length roles \<and> roles ! (b + i) = ''user''}"
  have A: "{i. i < length (drop b roles) \<and> drop b roles ! i = ''user''} = ?A" by auto
  have "(\<lambda>i. b + i) ` ?A = {i. i < length roles \<and> roles ! i = ''user'' \<and> b \<le> i}"
  proof (intro set_eqI iffI)
    fix i assume "i \<in> {i. i < length roles \<and> roles ! i = ''user'' \<and> b \<le> i}"
    then have "i = b + (i - b)" "i - b \<in> ?A" by auto
    then show "i \<in> (\<lambda>i. b + i) ` ?A" by blast
  qed auto
  also have "\<dots> = {i \<in> set (filter (\<lambda>i. roles ! i = ''user'') [0..<length roles]). b \<le> i}" by auto
  finally have B: "(\<lambda>i. b + i) ` ?A = {i \<in> set (filter (\<lambda>i. roles ! i = ''user'') [0..<length roles]). b \<le> i}" .
  have "card ((\<lambda>i. b + i) ` ?A) = card ?A" by (rule card_image) (simp add: inj_on_def)
  then show ?thesis unfolding length_filter_conv_card A B by simp
qed

lemma cut_iff:
  "compaction_boundary roles keep = Some b \<longleftrightarrow>
     0 < keep \<and> b < length roles \<and> roles ! b = ''user'' \<and>
     length (filter (\<lambda>r. r = ''user'') (drop b roles)) = keep \<and> ''user'' \<in> set (take b roles)"
proof -
  define us where "us = filter (\<lambda>i. roles ! i = ''user'') [0..<length roles]"
  have sorted: "sorted_wrt (<) us" unfolding us_def by (rule sorted_wrt_filter) simp
  then have distinct: "distinct us" by (simp add: strict_sorted_iff)
  have us: "i \<in> set us \<longleftrightarrow> i < length roles \<and> roles ! i = ''user''" for i by (auto simp: us_def)
  have from_nth: "length (filter (\<lambda>r. r = ''user'') (drop (us ! j) roles)) = length us - j" if "j < length us" for j
    using that distinct
    by (simp add: user_turns_from us_def [symmetric] sorted_from_nth [OF sorted that] distinct_card)
  have early: "''user'' \<in> set (take (us ! j) roles) \<longleftrightarrow> 0 < j" if "j < length us" for j
  proof
    assume "0 < j"
    with that sorted have "us ! 0 < us ! j" by (simp add: sorted_wrt_nth_less)
    moreover have "us ! 0 \<in> set us" using that by (intro nth_mem) linarith
    ultimately have "us ! 0 < length (take (us ! j) roles)" "take (us ! j) roles ! (us ! 0) = ''user''"
      unfolding us by auto
    then show "''user'' \<in> set (take (us ! j) roles)" using nth_mem by metis
  next
    assume "''user'' \<in> set (take (us ! j) roles)"
    then obtain i where i: "i < us ! j" "i < length roles" "roles ! i = ''user''" by (auto simp: in_set_conv_nth)
    then have "i \<in> set us" by (simp add: us)
    then obtain k where "k < length us" "us ! k = i" by (auto simp: in_set_conv_nth)
    with i(1) sorted_wrt_nth_less [OF sorted, of 0 k] show "0 < j" by (cases k; cases j) auto
  qed
  show ?thesis
  proof (cases "keep = 0 \<or> length us \<le> keep")
    case True
    have "''user'' \<notin> set (take b roles)"
      if "b \<in> set us" "length us \<le> keep" "length (filter (\<lambda>r. r = ''user'') (drop b roles)) = keep"
    proof -
      from that(1) obtain k where k: "k < length us" "us ! k = b" by (auto simp: in_set_conv_nth)
      with from_nth [OF k(1)] that(2,3) have "k = 0" by simp
      with early [OF k(1)] k(2) show ?thesis by simp
    qed
    with True show ?thesis by (auto simp: compaction_boundary_def us_def [symmetric] us)
  next
    case False
    let ?j = "length us - keep"
    have j: "?j < length us" "0 < ?j" using False by auto
    have b: "us ! ?j > 0" using early [OF j(1)] j(2) by (cases "us ! ?j") auto
    have "us ! ?j \<in> set us" using j(1) by simp
    moreover have "length (filter (\<lambda>r. r = ''user'') (drop (us ! ?j) roles)) = keep" using from_nth [OF j(1)] False by simp
    moreover have "b = us ! ?j" if "b \<in> set us" "length (filter (\<lambda>r. r = ''user'') (drop b roles)) = keep"
    proof -
      from that(1) obtain k where k: "k < length us" "us ! k = b" by (auto simp: in_set_conv_nth)
      with from_nth [OF k(1)] that(2) have "k = ?j" by simp
      with k show ?thesis by simp
    qed
    ultimately show ?thesis
      using False b early [OF j(1)] j by (auto simp: compaction_boundary_def us_def [symmetric] us Let_def)
  qed
qed

text \<open>
  A compaction cuts at a user turn, exactly where the kept part has the wanted number of user turns and
  an earlier one is folded away; there is no cut when no turn is to be kept or none is left to fold.
\<close>

theorem compaction_boundary_iff:
  "compaction_boundary roles keep = Some b \<longleftrightarrow>
     0 < keep \<and> b < length roles \<and> roles ! b = ''user'' \<and>
     length (filter (\<lambda>r. r = ''user'') (drop b roles)) = keep \<and> ''user'' \<in> set (take b roles)"
  by (rule cut_iff)

definition should_auto_compact :: "int \<Rightarrow> int \<Rightarrow> bool \<Rightarrow> bool" where
  "should_auto_compact estimate budget has_boundary \<longleftrightarrow> has_boundary \<and> budget > 0 \<and> 5 * estimate > 4 * budget"

subsection \<open>The transcript of a compaction\<close>

definition omission_marker :: string where
  "omission_marker = ''[earlier messages omitted to fit the summarizer]'' @ [NL]"

definition role_label :: "string \<Rightarrow> string" where
  "role_label role = (if role = ''user'' then ''User'' else if role = ''assistant'' then ''Assistant'' else role)"

definition transcript_body :: "string \<Rightarrow> string" where
  "transcript_body content = take_chars MAX_COMPACTION_MESSAGE_CHARS (trim content)"

definition transcript_entry :: "string \<times> string \<Rightarrow> string" where
  "transcript_entry row = role_label (fst row) @ '': '' @ transcript_body (snd row) @ [NL, NL]"

fun render_from :: "string \<Rightarrow> (string \<times> string) list \<Rightarrow> string" where
  "render_from out [] = out"
| "render_from out (row # rows) =
     (if transcript_body (snd row) = [] then render_from out rows
      else if char_count out + char_count (transcript_entry row) > MAX_COMPACTION_TRANSCRIPT_CHARS then out @ omission_marker
      else render_from (out @ transcript_entry row) rows)"

definition render_compaction_transcript :: "(string \<times> string) list \<Rightarrow> string" where
  "render_compaction_transcript rows = render_from [] rows"

definition transcript_entries :: "(string \<times> string) list \<Rightarrow> string list" where
  "transcript_entries rows = map transcript_entry (filter (\<lambda>row. transcript_body (snd row) \<noteq> []) rows)"

lemma char_count_append [simp]: "char_count (s @ t) = char_count s + char_count t"
  by (simp add: char_count_def)

lemma render_from_spec:
  "char_count out \<le> MAX_COMPACTION_TRANSCRIPT_CHARS \<Longrightarrow>
     \<exists>kept. prefix kept (transcript_entries rows) \<and>
       render_from out rows = out @ concat kept @ (if kept = transcript_entries rows then [] else omission_marker) \<and>
       char_count out + char_count (concat kept) \<le> MAX_COMPACTION_TRANSCRIPT_CHARS \<and>
       (kept = transcript_entries rows \<or>
        MAX_COMPACTION_TRANSCRIPT_CHARS <
          char_count out + char_count (concat (take (Suc (length kept)) (transcript_entries rows))))"
proof (induction rows arbitrary: out)
  case Nil
  then show ?case by (simp add: transcript_entries_def char_count_def [of "[]"])
next
  case (Cons row rows)
  let ?e = "transcript_entry row"
  consider "transcript_body (snd row) = []"
    | "transcript_body (snd row) \<noteq> []" "MAX_COMPACTION_TRANSCRIPT_CHARS < char_count out + char_count ?e"
    | "transcript_body (snd row) \<noteq> []" "char_count (out @ ?e) \<le> MAX_COMPACTION_TRANSCRIPT_CHARS"
    by fastforce
  then show ?case
  proof cases
    case 1
    with Cons.IH [OF Cons.prems] show ?thesis by (simp add: transcript_entries_def)
  next
    case 2
    with Cons.prems show ?thesis by (intro exI [of _ "[]"]) (simp add: transcript_entries_def char_count_def [of "[]"])
  next
    case 3
    have es: "transcript_entries (row # rows) = ?e # transcript_entries rows" using 3 by (simp add: transcript_entries_def)
    from Cons.IH [OF 3(2)] obtain kept where
      "prefix kept (transcript_entries rows)"
      "render_from (out @ ?e) rows = (out @ ?e) @ concat kept @ (if kept = transcript_entries rows then [] else omission_marker)"
      "char_count (out @ ?e) + char_count (concat kept) \<le> MAX_COMPACTION_TRANSCRIPT_CHARS"
      "kept = transcript_entries rows \<or>
        MAX_COMPACTION_TRANSCRIPT_CHARS < char_count (out @ ?e) + char_count (concat (take (Suc (length kept)) (transcript_entries rows)))"
      by blast
    with 3 show ?thesis
      unfolding es by (intro exI [of _ "?e # kept"]) (auto simp: not_less add.assoc)
  qed
qed

text \<open>
  The summarizer sees the entries of the oldest rows, as many as fit into 60000 characters, with the
  marker at the end when one is left out: what a long transcript loses is its newest part.
\<close>

theorem transcript_keeps_the_oldest:
  "\<exists>kept. prefix kept (transcript_entries rows) \<and>
     render_compaction_transcript rows = concat kept @ (if kept = transcript_entries rows then [] else omission_marker) \<and>
     char_count (concat kept) \<le> 60000 \<and>
     (kept = transcript_entries rows \<or>
      60000 < char_count (concat (take (Suc (length kept)) (transcript_entries rows))))"
  using render_from_spec [of "[]" rows]
  by (simp add: render_compaction_transcript_def MAX_COMPACTION_TRANSCRIPT_CHARS_def char_count_def [of "[]"])

end
