(* ===== verification/ChatStore.thy ===== *)
theory ChatStore
  imports Approval Context
begin

text \<open>
  The transcript of the native chat: sessions, messages, tool events, compactions and the input history, as
  \<open>services/native_chat_service.rs\<close> keeps them, and what of it a provider is sent. A deleted message is
  set to NULL in the tool events that name it, and an event may name existing messages only, as the
  foreign keys of the tables ask. The summarizer is a parameter.
\<close>

subsection \<open>Tables\<close>

record chat_session =
  sx_id :: string
  sx_project_path :: string
  sx_title :: string
  sx_provider_id :: string
  sx_model_id :: string
  sx_effort_level :: string
  sx_run_state :: string
  sx_plan_mode :: bool
  sx_parent :: "string option"
  sx_created_at :: int
  sx_updated_at :: int
  sx_call_id :: "string option"
  sx_subagent_name :: "string option"
  sx_subagent_status :: "string option"
  sx_subagent_index :: "int option"

record chat_message =
  nm_id :: string
  nm_session_id :: string
  nm_role :: string
  nm_content :: string
  nm_reasoning :: "string option"
  nm_sort_order :: int
  nm_provider_id :: "string option"
  nm_model_id :: "string option"
  nm_effort_level :: "string option"
  nm_created_at :: int

record tool_event =
  nt_id :: string
  nt_session_id :: string
  nt_message_id :: "string option"
  nt_kind :: string
  nt_status :: string
  nt_summary :: string
  nt_arguments :: "string option"
  nt_diff :: "string option"
  nt_decision :: "string option"
  nt_rule_source :: "string option"
  nt_sequence :: int
  nt_created_at :: int

record compaction_row =
  nc_id :: string
  nc_session_id :: string
  nc_summary :: string
  nc_through :: string
  nc_created_at :: int

text \<open>The input history is kept oldest first, in the order of its automatic ids.\<close>

record chat_store =
  st_sessions :: "chat_session list"
  st_messages :: "chat_message list"
  st_events :: "tool_event list"
  st_compactions :: "compaction_row list"
  st_todos :: "(string \<times> string) list"
  st_inputs :: "string list"

definition prefixed_id :: "string \<Rightarrow> nat \<Rightarrow> string" where
  "prefixed_id p nanos = p @ ''_'' @ gen_id nanos"

definition chat_exists :: "string \<Rightarrow> chat_store \<Rightarrow> bool" where
  "chat_exists sid s \<longleftrightarrow> (\<exists>x \<in> set (st_sessions s). sx_id x = sid)"

definition message_exists :: "string option \<Rightarrow> chat_store \<Rightarrow> bool" where
  "message_exists mid s \<longleftrightarrow> (case mid of None \<Rightarrow> True | Some i \<Rightarrow> \<exists>m \<in> set (st_messages s). nm_id m = i)"

subsection \<open>Sessions\<close>

definition get_session :: "string \<Rightarrow> chat_store \<Rightarrow> chat_session option" where
  "get_session sid s = lookup_by sx_id sid (st_sessions s)"

definition upd_session :: "string \<Rightarrow> (chat_session \<Rightarrow> chat_session) \<Rightarrow> chat_store \<Rightarrow> chat_store" where
  "upd_session sid f s = s\<lparr>st_sessions := upd_where (\<lambda>x. sx_id x = sid) f (st_sessions s)\<rparr>"

definition touch_session :: "env \<Rightarrow> string \<Rightarrow> chat_store \<Rightarrow> chat_store" where
  "touch_session e sid s = upd_session sid (\<lambda>x. x\<lparr>sx_updated_at := e_secs e 0\<rparr>) s"

definition rename_session :: "env \<Rightarrow> string \<Rightarrow> string \<Rightarrow> chat_store \<Rightarrow> chat_store" where
  "rename_session e sid title s = upd_session sid (\<lambda>x. x\<lparr>sx_title := title, sx_updated_at := e_secs e 0\<rparr>) s"

definition set_session_run_state :: "env \<Rightarrow> string \<Rightarrow> string \<Rightarrow> chat_store \<Rightarrow> chat_store" where
  "set_session_run_state e sid st s = upd_session sid (\<lambda>x. x\<lparr>sx_run_state := st, sx_updated_at := e_secs e 0\<rparr>) s"

definition no_rows :: string where "no_rows = ''Query returned no rows''"

definition is_plan_mode :: "string \<Rightarrow> chat_store \<Rightarrow> bool result" where
  "is_plan_mode sid s = (case get_session sid s of None \<Rightarrow> Err no_rows | Some x \<Rightarrow> Ok (sx_plan_mode x))"

definition found_after :: "string \<Rightarrow> chat_store \<Rightarrow> chat_session result" where
  "found_after sid s = (case get_session sid s of None \<Rightarrow> Err ''Session not found after update.'' | Some x \<Rightarrow> Ok x)"

definition set_plan_mode :: "string \<Rightarrow> bool \<Rightarrow> chat_store \<Rightarrow> chat_session result \<times> chat_store" where
  "set_plan_mode sid enabled s =
     (let t = upd_session sid (\<lambda>x. x\<lparr>sx_plan_mode := enabled\<rparr>) s
      in if \<not> chat_exists sid s then (Err ''Session not found.'', t) else (found_after sid t, t))"

definition update_session_model ::
    "env \<Rightarrow> unit result \<Rightarrow> string \<Rightarrow> string \<Rightarrow> string \<Rightarrow> string \<Rightarrow> chat_store \<Rightarrow> chat_session result \<times> chat_store" where
  "update_session_model e valid sid provider model level s =
     (case valid of
        Inl m \<Rightarrow> (Err m, s)
      | Inr _ \<Rightarrow>
          (let t = upd_session sid (\<lambda>x. x\<lparr>sx_provider_id := provider, sx_model_id := model, sx_effort_level := level,
                     sx_updated_at := e_secs e 0\<rparr>) s
           in if \<not> chat_exists sid s then (Err ''Session not found.'', t) else (found_after sid t, t)))"

definition list_chats :: "string \<Rightarrow> chat_store \<Rightarrow> chat_session list" where
  "list_chats project s =
     order_desc sx_updated_at (filter (\<lambda>x. sx_project_path x = project \<and> sx_parent x = None) (st_sessions s))"

subsection \<open>Messages\<close>

definition of_session :: "string \<Rightarrow> chat_store \<Rightarrow> chat_message list" where
  "of_session sid s = filter (\<lambda>m. nm_session_id m = sid) (st_messages s)"

definition list_messages :: "string \<Rightarrow> chat_store \<Rightarrow> chat_message list" where
  "list_messages sid s = order_asc nm_sort_order (of_session sid s)"

definition next_number :: "int list \<Rightarrow> int" where
  "next_number ks = (if ks = [] then 0 else Max (set ks)) + 1"

record message_input =
  mi_role :: string
  mi_content :: string
  mi_reasoning :: "string option"
  mi_provider :: "string option"
  mi_model :: "string option"
  mi_effort :: "string option"

definition insert_message :: "env \<Rightarrow> string \<Rightarrow> message_input \<Rightarrow> chat_store \<Rightarrow> chat_message result \<times> chat_store" where
  "insert_message e sid inp s =
     (let m = \<lparr>nm_id = prefixed_id ''nmsg'' (e_nanos e 0), nm_session_id = sid, nm_role = mi_role inp,
               nm_content = mi_content inp, nm_reasoning = mi_reasoning inp,
               nm_sort_order = next_number (map nm_sort_order (of_session sid s)),
               nm_provider_id = mi_provider inp, nm_model_id = mi_model inp, nm_effort_level = mi_effort inp,
               nm_created_at = e_secs e 0\<rparr>
      in case insert_checked nm_id ''native_chat_messages'' (chat_exists sid s) m (st_messages s) of
           Inl err \<Rightarrow> (Err (''Failed to save native chat message: '' @ err), s)
         | Inr ms \<Rightarrow> (Ok m, s\<lparr>st_messages := ms\<rparr>))"

text \<open>The chat of a subagent: it inherits the model of its parent and starts with its assignment.\<close>

definition create_subagent_session ::
    "env \<Rightarrow> chat_session \<Rightarrow> string \<Rightarrow> int \<Rightarrow> string \<Rightarrow> string \<Rightarrow> chat_store \<Rightarrow> chat_session result \<times> chat_store" where
  "create_subagent_session e parent call index name assignment s =
     (let x = \<lparr>sx_id = prefixed_id ''nchat'' (e_nanos e 0), sx_project_path = sx_project_path parent,
               sx_title = ''Subagent: '' @ name, sx_provider_id = sx_provider_id parent,
               sx_model_id = sx_model_id parent, sx_effort_level = sx_effort_level parent, sx_run_state = ''idle'',
               sx_plan_mode = sx_plan_mode parent, sx_parent = Some (sx_id parent), sx_created_at = e_secs e 0,
               sx_updated_at = e_secs e 0, sx_call_id = Some call, sx_subagent_name = Some name,
               sx_subagent_status = Some ''queued'', sx_subagent_index = Some index\<rparr>
      in if chat_exists (sx_id x) s
         then (Err (''Failed to create subagent session: '' @ unique_error ''native_chat_sessions''), s)
         else (case insert_message (later 1 e) (sx_id x)
                 \<lparr>mi_role = ''user'', mi_content = assignment, mi_reasoning = None, mi_provider = None,
                  mi_model = None, mi_effort = None\<rparr> (s\<lparr>st_sessions := st_sessions s @ [x]\<rparr>) of
                 (Inl m, t) \<Rightarrow> (Err m, t)
               | (Inr _, t) \<Rightarrow> (Ok x, t)))"

definition set_subagent_status :: "string \<Rightarrow> string \<Rightarrow> chat_store \<Rightarrow> chat_store" where
  "set_subagent_status sid st s = upd_session sid (\<lambda>x. x\<lparr>sx_subagent_status := Some st\<rparr>) s"

text \<open>
  What the launch sweep does to the transcript: the calls of the chats that still seem to run are interrupted,
  then these chats, then the subagents that are not over have failed.
\<close>

definition in_flight_chats :: "chat_store \<Rightarrow> string set" where
  "in_flight_chats s = sx_id ` set (filter (\<lambda>x. sx_run_state x \<in> {''running'', ''needs_input''}) (st_sessions s))"

definition sweep_transcript :: "chat_store \<Rightarrow> chat_store" where
  "sweep_transcript s =
     s\<lparr>st_events := upd_where (\<lambda>v. nt_status v \<in> {''running'', ''pending''} \<and> nt_session_id v \<in> in_flight_chats s)
          (\<lambda>v. v\<lparr>nt_status := ''interrupted''\<rparr>) (st_events s),
        st_sessions :=
          upd_where (\<lambda>x. sx_parent x \<noteq> None \<and> sx_subagent_status x \<in> Some ` {''queued'', ''running'', ''awaiting_approval''})
            (\<lambda>x. x\<lparr>sx_subagent_status := Some ''failed''\<rparr>)
          (upd_where (\<lambda>x. sx_run_state x \<in> {''running'', ''needs_input''})
            (\<lambda>x. x\<lparr>sx_run_state := ''interrupted''\<rparr>) (st_sessions s))\<rparr>"

definition update_message_progress ::
    "string \<Rightarrow> string \<Rightarrow> string option \<Rightarrow> chat_store \<Rightarrow> chat_message result \<times> chat_store" where
  "update_message_progress mid content reasoning s =
     (let t = s\<lparr>st_messages := upd_where (\<lambda>m. nm_id m = mid)
                (\<lambda>m. m\<lparr>nm_content := content, nm_reasoning := reasoning\<rparr>) (st_messages s)\<rparr>
      in (case lookup_by nm_id mid (st_messages t) of
            None \<Rightarrow> Err (''Failed to reload native chat checkpoint: '' @ no_rows) | Some m \<Rightarrow> Ok m, t))"

text \<open>Deleting rows of one role; the events that name them forget it.\<close>

definition delete_by_role :: "string \<Rightarrow> string \<Rightarrow> chat_store \<Rightarrow> chat_store" where
  "delete_by_role role mid s =
     (if \<exists>m \<in> set (st_messages s). nm_id m = mid \<and> nm_role m = role
      then s\<lparr>st_messages := filter (\<lambda>m. \<not> (nm_id m = mid \<and> nm_role m = role)) (st_messages s),
             st_events := upd_where (\<lambda>v. nt_message_id v = Some mid) (\<lambda>v. v\<lparr>nt_message_id := None\<rparr>) (st_events s)\<rparr>
      else s)"

definition delete_message :: "string \<Rightarrow> chat_store \<Rightarrow> chat_store" where
  "delete_message mid s = delete_by_role ''assistant'' mid s"

definition delete_steer_message :: "string \<Rightarrow> chat_store \<Rightarrow> chat_store" where
  "delete_steer_message mid s = delete_by_role ''user'' mid s"

subsection \<open>Tool events\<close>

record event_input =
  ei_id :: string
  ei_message_id :: "string option"
  ei_kind :: string
  ei_status :: string
  ei_summary :: string
  ei_arguments :: "string option"
  ei_diff :: "string option"
  ei_decision :: "string option"
  ei_rule_source :: "string option"

definition session_events :: "string \<Rightarrow> chat_store \<Rightarrow> tool_event list" where
  "session_events sid s = filter (\<lambda>v. nt_session_id v = sid) (st_events s)"

definition event_key :: "string \<Rightarrow> string \<Rightarrow> string" where
  "event_key sid eid = sid @ '':'' @ eid"

definition merge_event :: "event_input \<Rightarrow> tool_event \<Rightarrow> tool_event" where
  "merge_event inp v = v\<lparr>nt_message_id := coalesce_opt (ei_message_id inp) (nt_message_id v),
     nt_kind := ei_kind inp, nt_status := ei_status inp, nt_summary := ei_summary inp,
     nt_arguments := coalesce_opt (ei_arguments inp) (nt_arguments v), nt_diff := coalesce_opt (ei_diff inp) (nt_diff v),
     nt_decision := coalesce_opt (ei_decision inp) (nt_decision v),
     nt_rule_source := coalesce_opt (ei_rule_source inp) (nt_rule_source v)\<rparr>"

definition upsert_tool_event :: "env \<Rightarrow> string \<Rightarrow> event_input \<Rightarrow> chat_store \<Rightarrow> tool_event result \<times> chat_store" where
  "upsert_tool_event e sid inp s =
     (let key = event_key sid (ei_id inp);
          row = \<lparr>nt_id = key, nt_session_id = sid, nt_message_id = ei_message_id inp, nt_kind = ei_kind inp,
                 nt_status = ei_status inp, nt_summary = ei_summary inp, nt_arguments = ei_arguments inp,
                 nt_diff = ei_diff inp, nt_decision = ei_decision inp, nt_rule_source = ei_rule_source inp,
                 nt_sequence = next_number (map nt_sequence (session_events sid s)), nt_created_at = e_secs e 0\<rparr>
      in if \<not> message_exists (ei_message_id inp) s \<or> \<not> chat_exists sid s
         then (Err (''Failed to checkpoint native tool event: '' @ fk_error), s)
         else
           (let t = (case lookup_by nt_id key (st_events s) of
                       None \<Rightarrow> s\<lparr>st_events := st_events s @ [row]\<rparr>
                     | Some _ \<Rightarrow> s\<lparr>st_events := upd_where (\<lambda>v. nt_id v = key) (merge_event inp) (st_events s)\<rparr>)
            in (case lookup_by nt_id key (st_events t) of
                  None \<Rightarrow> Err (''Failed to reload native tool checkpoint: '' @ no_rows) | Some v \<Rightarrow> Ok v, t)))"

text \<open>The child runs of a \<open>task\<close> event are not part of its row.\<close>

definition list_tool_events :: "string \<Rightarrow> chat_store \<Rightarrow> tool_event list" where
  "list_tool_events sid s = order_asc nt_sequence (order_asc nt_created_at (session_events sid s))"

subsection \<open>What the provider is sent\<close>

definition latest_compaction :: "string \<Rightarrow> chat_store \<Rightarrow> (string \<times> string) option" where
  "latest_compaction sid s =
     (case order_asc nc_created_at (filter (\<lambda>c. nc_session_id c = sid) (st_compactions s)) of
        [] \<Rightarrow> None
      | cs \<Rightarrow> Some (nc_summary (last cs), nc_through (last cs)))"

definition active_history :: "string \<Rightarrow> chat_store \<Rightarrow> chat_message list" where
  "active_history sid s =
     (let h = list_messages sid s
      in case latest_compaction sid s of
           None \<Rightarrow> h
         | Some (_, through) \<Rightarrow>
             (case position_of (\<lambda>m. nm_id m = through) h of Some i \<Rightarrow> drop (i + 1) h | None \<Rightarrow> h))"

definition with_compaction_summary :: "string \<Rightarrow> string \<Rightarrow> chat_store \<Rightarrow> string" where
  "with_compaction_summary system sid s =
     (case latest_compaction sid s of
        None \<Rightarrow> system
      | Some (summary, _) \<Rightarrow> system @ [NL, NL] @ ''## Earlier conversation (compacted)'' @ [NL, NL] @ summary)"

record chat_msg =
  cm_role :: string
  cm_content :: string
  cm_tool_calls :: "tool_call list"
  cm_tool_call_id :: "string option"
  cm_name :: "string option"

definition text_msg :: "string \<Rightarrow> string \<Rightarrow> chat_msg" where
  "text_msg role content = \<lparr>cm_role = role, cm_content = content, cm_tool_calls = [], cm_tool_call_id = None, cm_name = None\<rparr>"

definition push_history :: "chat_msg list \<Rightarrow> chat_message \<Rightarrow> chat_msg list" where
  "push_history msgs m =
     (if nm_role m = ''assistant'' \<and> msgs \<noteq> [] \<and> cm_role (last msgs) = ''assistant''
      then butlast msgs @ [(last msgs)\<lparr>cm_content := cm_content (last msgs) @
             (if cm_content (last msgs) \<noteq> [] \<and> nm_content m \<noteq> [] then [NL, NL] else []) @ nm_content m\<rparr>]
      else msgs @ [text_msg (nm_role m) (nm_content m)])"

definition history_to_provider_messages :: "chat_message list \<Rightarrow> chat_msg list" where
  "history_to_provider_messages h =
     foldl push_history [] (filter (\<lambda>m. nm_role m = ''user'' \<or> nm_role m = ''assistant'') h)"

subsection \<open>Persisting a turn\<close>

record turn_segment =
  tg_content :: string
  tg_reasoning :: "string option"
  tg_iteration :: nat
  tg_message_id :: "string option"

record tool_event_record =
  er_tool_name :: string
  er_status :: string
  er_summary :: string
  er_arguments :: "string option"
  er_decision :: string
  er_rule_source :: "string option"
  er_diff :: "string option"
  er_iteration :: nat
  er_tool_call_id :: string

record route =
  ro_provider :: string
  ro_model :: string
  ro_effort :: string

definition record_input :: "tool_event_record \<Rightarrow> string \<Rightarrow> event_input" where
  "record_input r mid = \<lparr>ei_id = er_tool_call_id r, ei_message_id = Some mid, ei_kind = er_tool_name r,
     ei_status = er_status r, ei_summary = er_summary r, ei_arguments = er_arguments r, ei_diff = er_diff r,
     ei_decision = Some (er_decision r), ei_rule_source = er_rule_source r\<rparr>"

fun persist_events ::
    "env \<Rightarrow> string \<Rightarrow> string \<Rightarrow> tool_event_record list \<Rightarrow> chat_store \<Rightarrow> tool_event list result \<times> chat_store" where
  "persist_events e sid mid [] s = (Ok [], s)"
| "persist_events e sid mid (r # rs) s =
     (case upsert_tool_event e sid (record_input r mid) s of
        (Inl m, t) \<Rightarrow> (Err m, t)
      | (Inr v, t) \<Rightarrow>
          (case persist_events (later 1 e) sid mid rs t of
             (Inl m, u) \<Rightarrow> (Err m, u) | (Inr vs, u) \<Rightarrow> (Ok (v # vs), u)))"

definition has_segment_text :: "turn_segment \<Rightarrow> bool" where
  "has_segment_text g \<longleftrightarrow> trim (tg_content g) \<noteq> [] \<or> (case tg_reasoning g of None \<Rightarrow> False | Some r \<Rightarrow> trim r \<noteq> [])"

definition persist_segment ::
    "env \<Rightarrow> string \<Rightarrow> route \<Rightarrow> turn_segment \<Rightarrow> chat_store \<Rightarrow> chat_message result \<times> chat_store" where
  "persist_segment e sid ro g s =
     (case tg_message_id g of
        Some mid \<Rightarrow> update_message_progress mid (tg_content g) (tg_reasoning g) s
      | None \<Rightarrow> insert_message e sid \<lparr>mi_role = ''assistant'', mi_content = tg_content g, mi_reasoning = tg_reasoning g,
          mi_provider = Some (ro_provider ro), mi_model = Some (ro_model ro), mi_effort = Some (ro_effort ro)\<rparr> s)"

text \<open>
  The events still pending, the message they bind to and the last message written go along; the clock
  moves past the readings of a segment and its events.
\<close>

fun persist_from ::
    "env \<Rightarrow> string \<Rightarrow> route \<Rightarrow> string \<Rightarrow> chat_message option \<Rightarrow> tool_event_record list \<Rightarrow> turn_segment list \<Rightarrow>
     chat_store \<Rightarrow> (chat_message option \<times> tool_event list) result \<times> chat_store" where
  "persist_from e sid ro bind written pending [] s =
     (case persist_events e sid bind pending s of
        (Inl m, t) \<Rightarrow> (Err m, t) | (Inr vs, t) \<Rightarrow> (Ok (written, vs), t))"
| "persist_from e sid ro bind written pending (g # gs) s =
     (let earlier = takeWhile (\<lambda>r. er_iteration r < tg_iteration g) pending;
          pending' = dropWhile (\<lambda>r. er_iteration r < tg_iteration g) pending;
          e' = later (length earlier) e
      in case persist_events e sid bind earlier s of
           (Inl m, t) \<Rightarrow> (Err m, t)
         | (Inr vs, t) \<Rightarrow>
             (if \<not> has_segment_text g
              then (case persist_from e' sid ro bind written pending' gs t of
                      (Inl m, u) \<Rightarrow> (Err m, u) | (Inr (msg, ws), u) \<Rightarrow> (Ok (msg, vs @ ws), u))
              else (case persist_segment e' sid ro g t of
                      (Inl m, u) \<Rightarrow> (Err m, u)
                    | (Inr msg, u) \<Rightarrow>
                        (case persist_from (later 1 e') sid ro (nm_id msg) (Some msg) pending' gs u of
                           (Inl m, v) \<Rightarrow> (Err m, v) | (Inr (final, ws), v) \<Rightarrow> (Ok (final, vs @ ws), v)))))"

definition persist_turn_segments ::
    "env \<Rightarrow> string \<Rightarrow> string \<Rightarrow> turn_segment list \<Rightarrow> tool_event_record list \<Rightarrow> route \<Rightarrow> chat_store \<Rightarrow>
     (chat_message option \<times> tool_event list) result \<times> chat_store" where
  "persist_turn_segments e sid user_message_id segments records ro s =
     persist_from e sid ro user_message_id None records segments s"

subsection \<open>Compaction\<close>

definition KEEP_USER_TURNS :: nat where "KEEP_USER_TURNS = 2"
definition LOCAL_PROVIDER :: string where "LOCAL_PROVIDER = ''basebuild-local''"

record compaction_result =
  cr_session_id :: string
  cr_summary :: string
  cr_compacted :: nat
  cr_kept :: nat
  cr_tokens_before :: int
  cr_tokens_after :: int
  cr_created_at :: int

definition total_tokens :: "chat_message list \<Rightarrow> int" where
  "total_tokens ms = sum_list (map (\<lambda>m. estimate_tokens (nm_content m)) ms)"

definition summary_tokens :: "string \<Rightarrow> chat_store \<Rightarrow> int" where
  "summary_tokens sid s = (case latest_compaction sid s of None \<Rightarrow> 0 | Some (summary, _) \<Rightarrow> estimate_tokens summary)"

definition cut_of :: "string \<Rightarrow> chat_store \<Rightarrow> nat option" where
  "cut_of sid s = compaction_boundary (map nm_role (active_history sid s)) KEEP_USER_TURNS"

definition compaction_rows :: "string \<Rightarrow> nat \<Rightarrow> chat_store \<Rightarrow> (string \<times> string) list" where
  "compaction_rows sid b s =
     (case latest_compaction sid s of None \<Rightarrow> [] | Some (summary, _) \<Rightarrow> [(''summary'', summary)]) @
     map (\<lambda>m. (nm_role m, nm_content m)) (take b (active_history sid s))"

definition quoted :: "string \<Rightarrow> string" where
  "quoted k = [CHR 0x22] @ k @ [CHR 0x22]"

definition compaction_arguments :: "nat \<Rightarrow> nat \<Rightarrow> int \<Rightarrow> int \<Rightarrow> string" where
  "compaction_arguments compacted kept before after =
     ''{'' @ quoted ''compactedMessages'' @ '':'' @ show_nat compacted @ '','' @
     quoted ''keptMessages'' @ '':'' @ show_nat kept @ '','' @
     quoted ''tokensAfter'' @ '':'' @ show_int after @ '','' @
     quoted ''tokensBefore'' @ '':'' @ show_int before @ ''}''"

text \<open>
  \<open>ask\<close> is the request to the summarizer, with the choice of an account: an error or the content of the
  answer.
\<close>

definition run_compaction ::
    "env \<Rightarrow> (string \<Rightarrow> string result) \<Rightarrow> string \<Rightarrow> chat_store \<Rightarrow> compaction_result result \<times> chat_store" where
  "run_compaction e ask sid s =
     (let h = active_history sid s
      in case cut_of sid s of
           None \<Rightarrow> (Err ''Not enough conversation to compact yet.'', s)
         | Some b \<Rightarrow>
             (case ask (render_compaction_transcript (compaction_rows sid b s)) of
                Inl m \<Rightarrow> (Err m, s)
              | Inr content \<Rightarrow>
                  (let summary = trim content;
                       before = summary_tokens sid s + total_tokens h;
                       after = estimate_tokens summary + total_tokens (drop b h);
                       through = nm_id (h ! (b - 1));
                       kept = length h - b;
                       at = e_secs e 0;
                       c = \<lparr>nc_id = prefixed_id ''ncmp'' (e_nanos e 0), nc_session_id = sid, nc_summary = summary,
                            nc_through = through, nc_created_at = at\<rparr>;
                       v = \<lparr>nt_id = prefixed_id ''nevt'' (e_nanos e 1), nt_session_id = sid, nt_message_id = Some through,
                            nt_kind = ''compaction'', nt_status = ''compacted'',
                            nt_summary = ''Compacted '' @ show_nat b @ '' earlier messages; kept '' @ show_nat kept @ ''.'',
                            nt_arguments = Some (compaction_arguments b kept before after), nt_diff = None,
                            nt_decision = None, nt_rule_source = None,
                            nt_sequence = next_number (map nt_sequence (session_events sid s)), nt_created_at = at\<rparr>
                   in if summary = []
                      then (Err ''The provider returned an empty summary, so the conversation was not compacted.'', s)
                      else case insert_checked nc_id ''native_chat_compactions'' (chat_exists sid s) c (st_compactions s) of
                        Inl m \<Rightarrow> (Err (''Failed to save compaction: '' @ m), s)
                      | Inr cs \<Rightarrow>
                          (let t = s\<lparr>st_compactions := cs\<rparr>
                           in case insert_checked nt_id ''native_tool_events''
                                    (chat_exists sid t \<and> message_exists (Some through) t) v (st_events t) of
                                Inl m \<Rightarrow> (Err (''Failed to record compaction: '' @ m), t)
                              | Inr vs \<Rightarrow>
                                  (Ok \<lparr>cr_session_id = sid, cr_summary = summary, cr_compacted = b, cr_kept = kept,
                                       cr_tokens_before = before, cr_tokens_after = after, cr_created_at = at\<rparr>,
                                   touch_session (later 1 e) sid (t\<lparr>st_events := vs\<rparr>))))))"

definition compact_session ::
    "env \<Rightarrow> (string \<Rightarrow> string result) \<Rightarrow> string \<Rightarrow> chat_store \<Rightarrow> compaction_result result \<times> chat_store" where
  "compact_session e ask sid s =
     (case get_session sid s of
        None \<Rightarrow> (Err ''Session not found.'', s)
      | Some x \<Rightarrow>
          (if sx_provider_id x = LOCAL_PROVIDER
           then (Err ''Compaction needs a connected provider. The local provider cannot summarize the conversation.'', s)
           else run_compaction e ask sid s))"

definition compaction_due :: "int \<Rightarrow> string \<Rightarrow> string \<Rightarrow> chat_store \<Rightarrow> bool" where
  "compaction_due budget system sid s =
     should_auto_compact (estimate_tokens system + summary_tokens sid s + total_tokens (active_history sid s)) budget
       (cut_of sid s \<noteq> None)"

definition auto_compact_if_needed ::
    "env \<Rightarrow> (string \<Rightarrow> string result) \<Rightarrow> int \<Rightarrow> string \<Rightarrow> string \<Rightarrow> string \<Rightarrow> chat_store \<Rightarrow> chat_store" where
  "auto_compact_if_needed e ask budget provider system sid s =
     (if provider = LOCAL_PROVIDER then s
      else if compaction_due budget system sid s then snd (run_compaction e ask sid s) else s)"

definition clear_session_messages :: "string \<Rightarrow> chat_store \<Rightarrow> nat \<times> chat_store" where
  "clear_session_messages sid s =
     (length (of_session sid s),
      s\<lparr>st_messages := filter (\<lambda>m. nm_session_id m \<noteq> sid) (st_messages s),
        st_events := map (\<lambda>v. if \<exists>m \<in> set (of_session sid s). nt_message_id v = Some (nm_id m) then v\<lparr>nt_message_id := None\<rparr> else v)
          (filter (\<lambda>v. nt_session_id v \<noteq> sid) (st_events s)),
        st_compactions := filter (\<lambda>c. nc_session_id c \<noteq> sid) (st_compactions s),
        st_todos := filter (\<lambda>t. fst t \<noteq> sid) (st_todos s)\<rparr>)"

subsection \<open>Input history\<close>

definition add_input_history :: "string \<Rightarrow> chat_store \<Rightarrow> chat_store" where
  "add_input_history content s =
     (let xs = filter (\<lambda>x. x \<noteq> content) (st_inputs s) @ [content]
      in s\<lparr>st_inputs := drop (length xs - 100) xs\<rparr>)"

definition list_input_history :: "chat_store \<Rightarrow> string list" where
  "list_input_history s = take 100 (rev (st_inputs s))"

subsection \<open>Steering\<close>

record steer_result =
  sr_delivered :: bool
  sr_message :: "chat_message option"

text \<open>
  \<open>running\<close> is what \<open>is_running\<close> says, \<open>accepted\<close> what \<open>push_steer\<close> says after the row is written.
\<close>

definition steer ::
    "env \<Rightarrow> bool \<Rightarrow> bool \<Rightarrow> string \<Rightarrow> string \<Rightarrow> chat_store \<Rightarrow> steer_result result \<times> chat_store" where
  "steer e running accepted sid content s =
     (let text = trim content
      in if text = [] then (Err ''Steering message is required.'', s)
         else case get_session sid s of
           None \<Rightarrow> (Err (''Native chat session '' @ [CHR 0x27] @ sid @ [CHR 0x27] @ '' not found''), s)
         | Some x \<Rightarrow>
             (if \<not> running then (Ok \<lparr>sr_delivered = False, sr_message = None\<rparr>, s)
              else case insert_message e sid \<lparr>mi_role = ''user'', mi_content = text, mi_reasoning = None,
                          mi_provider = Some (sx_provider_id x), mi_model = Some (sx_model_id x),
                          mi_effort = Some (sx_effort_level x)\<rparr> s of
                     (Inl m, t) \<Rightarrow> (Err m, t)
                   | (Inr msg, t) \<Rightarrow>
                       (if \<not> accepted
                        then (Ok \<lparr>sr_delivered = False, sr_message = None\<rparr>, delete_steer_message (nm_id msg) t)
                        else (Ok \<lparr>sr_delivered = True, sr_message = Some msg\<rparr>, touch_session (later 1 e) sid t))))"

end
