(* ===== verification/AgentLoop.thy ===== *)
theory AgentLoop
  imports ChatStore PlanDependency
begin

text \<open>
  The loop of one agent turn, \<open>run_loop_inner\<close> of \<open>services/agent_loop_service.rs\<close>: a provider request,
  the calls of its answer, the next request, with the context budget, the retries of an empty answer, the
  iteration cap, cancellation and the steering messages that arrive meanwhile. The provider, the tools, the
  cancellation token and the user are the world, read turn by turn. A tool result whose summary cuts a
  character ends the thread.
\<close>

subsection \<open>Constants, requests and answers\<close>

definition MAX_ITERATIONS :: nat where "MAX_ITERATIONS = 100"
definition MAX_EMPTY_RETRIES :: nat where "MAX_EMPTY_RETRIES = 2"
definition DEFAULT_CONTEXT_WINDOW :: int where "DEFAULT_CONTEXT_WINDOW = 32000"
definition OUTPUT_MARGIN_MIN :: int where "OUTPUT_MARGIN_MIN = 8000"

definition PLAN_MODE_NOTICE :: string where
  "PLAN_MODE_NOTICE = ''# Plan mode'' @ [NL] @
     ''This session is in plan mode. Investigate with read-only tools (read_file, list_files, search_files, read_skill, list_skills, project_status, get_execution_advice, web_fetch, todo_write) and do NOT change the project. File writes and shell commands are refused by the harness until the user approves the plan. Produce a concrete, numbered plan with the files and steps you would change, state open questions, and stop. The user will approve the plan to start implementation.''"

text \<open>\<open>sc_parameters\<close> is the JSON text of the parameters.\<close>

record tool_schema =
  sc_name :: string
  sc_description :: string
  sc_parameters :: string

record provider_request =
  rq_model :: string
  rq_effort :: string
  rq_system :: string
  rq_messages :: "chat_msg list"
  rq_tools :: "tool_schema list"

record provider_response =
  rp_content :: string
  rp_reasoning :: "string option"
  rp_calls :: "tool_call list"
  rp_input :: "int option"
  rp_output :: "int option"
  rp_cache_read :: "int option"
  rp_cache_write :: "int option"

text \<open>An error comes with the text and the reasoning streamed before it.\<close>

datatype provider_answer = Answered provider_response | Broken string string string

record run_usage =
  us_input :: int
  us_output :: int
  us_cache_read :: int
  us_cache_write :: int
  us_last_context :: int

definition no_usage :: run_usage where
  "no_usage = \<lparr>us_input = 0, us_output = 0, us_cache_read = 0, us_cache_write = 0, us_last_context = 0\<rparr>"

definition estimate_request_tokens :: "provider_request \<Rightarrow> int" where
  "estimate_request_tokens q =
     estimate_tokens (rq_system q) +
     sum_list (map (\<lambda>t. estimate_tokens (sc_name t) + estimate_tokens (sc_description t) + estimate_tokens (sc_parameters t)) (rq_tools q)) +
     sum_list (map (\<lambda>m. estimate_tokens (cm_content m) +
       sum_list (map (\<lambda>c. estimate_tokens (tc_arguments c)) (cm_tool_calls m))) (rq_messages q))"

definition or_zero :: "int option \<Rightarrow> int" where
  "or_zero x = (case x of None \<Rightarrow> 0 | Some n \<Rightarrow> n)"

definition record_usage :: "provider_request \<Rightarrow> provider_response \<Rightarrow> run_usage \<Rightarrow> run_usage" where
  "record_usage q r u =
     (let i = (case rp_input r of Some n \<Rightarrow> n | None \<Rightarrow> estimate_request_tokens q);
          out = (case rp_output r of Some n \<Rightarrow> n
            | None \<Rightarrow> estimate_tokens (rp_content r) + (case rp_reasoning r of None \<Rightarrow> 0 | Some t \<Rightarrow> estimate_tokens t))
      in \<lparr>us_input = us_input u + i, us_output = us_output u + out,
          us_cache_read = us_cache_read u + or_zero (rp_cache_read r),
          us_cache_write = us_cache_write u + or_zero (rp_cache_write r), us_last_context = i + out\<rparr>)"

subsection \<open>Tools of a turn\<close>

datatype tool_scope = Scope_none | Scope_chat | Scope_subagent

definition TASK_TOOL_NAME :: string where "TASK_TOOL_NAME = ''task''"

definition SUBAGENT_EXCLUDED_TOOLS :: "string list" where
  "SUBAGENT_EXCLUDED_TOOLS = [''task'', ''ask_user'', ''propose_ideas'']"

definition offered_tools :: "tool_scope \<Rightarrow> bool \<Rightarrow> tool_def list \<Rightarrow> tool_def list" where
  "offered_tools scope subagents defs =
     (case scope of
        Scope_none \<Rightarrow> []
      | Scope_chat \<Rightarrow> filter (\<lambda>d. td_name d \<noteq> TASK_TOOL_NAME \<or> subagents) defs
      | Scope_subagent \<Rightarrow> filter (\<lambda>d. td_name d \<notin> set SUBAGENT_EXCLUDED_TOOLS) defs)"

definition tools_for_turn :: "tool_schema list \<Rightarrow> bool \<Rightarrow> tool_schema list" where
  "tools_for_turn tools plan_mode = filter (\<lambda>t. \<not> plan_mode \<or> allowed_in_plan_mode (sc_name t)) tools"

definition system_for_turn :: "string \<Rightarrow> bool \<Rightarrow> string" where
  "system_for_turn system plan_mode = (if plan_mode then system @ [NL, NL] @ PLAN_MODE_NOTICE else system)"

subsection \<open>The context budget\<close>

text \<open>\<open>window\<close> is the context window of the model in the cache.\<close>

definition context_budget :: "int option \<Rightarrow> int" where
  "context_budget window = (case window of Some c \<Rightarrow> if c > 0 then c else DEFAULT_CONTEXT_WINDOW | None \<Rightarrow> DEFAULT_CONTEXT_WINDOW)"

definition has_calls :: "chat_msg \<Rightarrow> bool" where
  "has_calls m \<longleftrightarrow> cm_role m = ''assistant'' \<and> cm_tool_calls m \<noteq> []"

definition is_tool :: "chat_msg \<Rightarrow> bool" where
  "is_tool m \<longleftrightarrow> cm_role m = ''tool''"

text \<open>The fifth of the budget is computed with doubles, which on these values agree with the integers.\<close>

definition available_tokens :: "int \<Rightarrow> int" where
  "available_tokens budget = max (budget - max (min (budget div 5) OUTPUT_MARGIN_MIN) 0) 1"

text \<open>The messages come newest first; \<open>skipping\<close> says that a tool result waits for its assistant message.\<close>

fun trim_walk :: "int \<Rightarrow> int \<Rightarrow> bool \<Rightarrow> chat_msg list \<Rightarrow> chat_msg list \<Rightarrow> chat_msg list \<times> bool" where
  "trim_walk available used skipping kept [] = (kept, skipping)"
| "trim_walk available used skipping kept (m # ms) =
     (if skipping \<and> \<not> has_calls m then trim_walk available used True kept ms
      else if used + estimate_tokens (cm_content m) > available then (kept, is_tool m)
      else trim_walk available (used + estimate_tokens (cm_content m)) (is_tool m) (m # kept) ms)"

definition messages_tokens :: "chat_msg list \<Rightarrow> int" where
  "messages_tokens ms = sum_list (map (\<lambda>m. estimate_tokens (cm_content m)) ms)"

definition trim_to_budget :: "chat_msg list \<Rightarrow> string \<Rightarrow> int \<Rightarrow> chat_msg list \<times> bool" where
  "trim_to_budget ms system budget =
     (let available = available_tokens budget
      in if estimate_tokens system + messages_tokens ms \<le> available then (ms, False)
         else (let (kept, skipping) = trim_walk available (estimate_tokens system) False [] (rev ms)
               in (if skipping then dropWhile is_tool kept else kept, True)))"

subsection \<open>The state of the loop\<close>

record loop_state =
  lp_turn :: nat
  lp_messages :: "chat_msg list"
  lp_iteration :: nat
  lp_retries :: nat
  lp_segments :: "turn_segment list"
  lp_events :: "tool_event_record list"
  lp_truncated :: bool
  lp_usage :: run_usage
  lp_rules :: "session_rule list"
  lp_queue :: "string list"
  lp_store :: chat_store

record loop_config =
  lc_session :: string
  lc_provider :: string
  lc_model :: string
  lc_wire_model :: string
  lc_effort :: string
  lc_system :: string
  lc_tools :: "tool_def list"
  lc_schema :: "tool_def \<Rightarrow> tool_schema"

text \<open>
  Turn by turn: the clock, the token, the model cache, the steering messages that reach the store before
  and after the draft of the turn is written, the answer, and what the batch of calls meets. Redaction of
  sensitive arguments belongs to the tools.
\<close>

record loop_world =
  lw_clock :: "nat \<Rightarrow> env"
  lw_cancelled :: "nat \<Rightarrow> bool"
  lw_window :: "nat \<Rightarrow> int option"
  lw_steers_before :: "nat \<Rightarrow> string list"
  lw_steers_during :: "nat \<Rightarrow> string list"
  lw_answer :: "nat \<Rightarrow> provider_request \<Rightarrow> provider_answer"
  lw_batch :: "nat \<Rightarrow> batch_world"
  lw_redact :: "string \<Rightarrow> string"

record run_result =
  rr_content :: string
  rr_reasoning :: "string option"
  rr_segments :: "turn_segment list"
  rr_completed :: bool
  rr_cancelled :: bool
  rr_hit_cap :: bool
  rr_truncated :: bool
  rr_events :: "tool_event_record list"
  rr_usage :: run_usage

datatype loop_step = Continue loop_state | Finished run_result chat_store | Panicked

definition result_of :: "string \<Rightarrow> string option \<Rightarrow> bool \<Rightarrow> bool \<Rightarrow> bool \<Rightarrow> loop_state \<Rightarrow> run_result" where
  "result_of content reasoning completed cancelled hit_cap s =
     \<lparr>rr_content = content, rr_reasoning = reasoning, rr_segments = lp_segments s, rr_completed = completed,
      rr_cancelled = cancelled, rr_hit_cap = hit_cap, rr_truncated = lp_truncated s, rr_events = lp_events s,
      rr_usage = lp_usage s\<rparr>"

definition ends :: "string \<Rightarrow> string option \<Rightarrow> bool \<Rightarrow> bool \<Rightarrow> bool \<Rightarrow> loop_state \<Rightarrow> loop_step" where
  "ends content reasoning completed cancelled hit_cap s =
     Finished (result_of content reasoning completed cancelled hit_cap s) (lp_store s)"

definition cancelled_run :: run_result where
  "cancelled_run = \<lparr>rr_content = [], rr_reasoning = None, rr_segments = [], rr_completed = False, rr_cancelled = True,
     rr_hit_cap = False, rr_truncated = False, rr_events = [], rr_usage = no_usage\<rparr>"

text \<open>A steering message is written to the store by \<open>steer\<close>, while the run is live, and queued.\<close>

fun arrivals :: "env \<Rightarrow> string \<Rightarrow> string list \<Rightarrow> loop_state \<Rightarrow> loop_state" where
  "arrivals e sid [] s = s"
| "arrivals e sid (c # cs) s =
     (case steer e True True sid c (lp_store s) of
        (Inl m, t) \<Rightarrow> arrivals (later 2 e) sid cs (s\<lparr>lp_store := t\<rparr>)
      | (Inr r, t) \<Rightarrow> arrivals (later 2 e) sid cs (s\<lparr>lp_store := t, lp_queue := lp_queue s @ [trim c]\<rparr>))"

text \<open>Draining the queue and applying what was in it.\<close>

definition apply_steers :: "loop_state \<Rightarrow> loop_state" where
  "apply_steers s =
     (if lp_queue s = [] then s
      else s\<lparr>lp_messages := lp_messages s @ map (text_msg ''user'') (lp_queue s), lp_iteration := 0, lp_retries := 0,
             lp_queue := []\<rparr>)"

definition nudge :: "loop_state \<Rightarrow> loop_state" where
  "nudge s = s\<lparr>lp_retries := lp_retries s + 1,
     lp_messages := lp_messages s @ [text_msg ''user'' (''Please continue '' @ em_dash @ '' provide a response or use a tool.'')]\<rparr>"

text \<open>What the loop does with the row of its draft; a draft that could not be written has none.\<close>

definition progress_draft :: "string option \<Rightarrow> string \<Rightarrow> string option \<Rightarrow> chat_store \<Rightarrow> chat_store" where
  "progress_draft draft content reasoning s =
     (case draft of None \<Rightarrow> s | Some mid \<Rightarrow> snd (update_message_progress mid content reasoning s))"

definition drop_draft :: "string option \<Rightarrow> chat_store \<Rightarrow> chat_store" where
  "drop_draft draft s = (case draft of None \<Rightarrow> s | Some mid \<Rightarrow> delete_message mid s)"

definition segment_of :: "nat \<Rightarrow> string option \<Rightarrow> string \<Rightarrow> string option \<Rightarrow> turn_segment" where
  "segment_of n draft content reasoning =
     \<lparr>tg_content = content, tg_reasoning = reasoning, tg_iteration = n, tg_message_id = draft\<rparr>"

subsection \<open>Recording the calls of an answer\<close>

definition call_summary :: "tool_call \<Rightarrow> string" where
  "call_summary c = ''Running '' @ map (\<lambda>ch. if ch = CHR 0x5F then CHR 0x20 else ch) (tc_name c)"

fun checkpoint_calls :: "env \<Rightarrow> string \<Rightarrow> string option \<Rightarrow> tool_call list \<Rightarrow> chat_store \<Rightarrow> chat_store" where
  "checkpoint_calls e sid mid [] s = s"
| "checkpoint_calls e sid mid (c # cs) s =
     checkpoint_calls (later 1 e) sid mid cs
       (snd (upsert_tool_event e sid \<lparr>ei_id = tc_id c, ei_message_id = mid, ei_kind = tc_name c, ei_status = ''running'',
          ei_summary = call_summary c, ei_arguments = None, ei_diff = None, ei_decision = None, ei_rule_source = None\<rparr> s))"

definition event_record :: "(string \<Rightarrow> string) \<Rightarrow> nat \<Rightarrow> tool_call \<times> tool_result \<Rightarrow> tool_event_record" where
  "event_record redact n cr =
     (case cr of (c, r) \<Rightarrow>
        \<lparr>er_tool_name = tc_name c, er_status = tr_status r, er_summary = take 200 (tr_content r),
         er_arguments = Some (if tr_sensitive r then redact (tc_arguments c) else tc_arguments c),
         er_decision = (case tr_decision r of None \<Rightarrow> ''approved'' | Some d \<Rightarrow> d), er_rule_source = tr_rule_source r,
         er_diff = tr_diff r, er_iteration = n, er_tool_call_id = tc_id c\<rparr>)"

text \<open>The row is written with the decision of the result, which may be none.\<close>

definition result_input :: "(string \<Rightarrow> string) \<Rightarrow> string option \<Rightarrow> tool_call \<times> tool_result \<Rightarrow> event_input" where
  "result_input redact mid cr =
     (let v = event_record redact 0 cr
      in \<lparr>ei_id = er_tool_call_id v, ei_message_id = mid, ei_kind = er_tool_name v, ei_status = er_status v,
          ei_summary = er_summary v, ei_arguments = er_arguments v, ei_diff = er_diff v,
          ei_decision = tr_decision (snd cr), ei_rule_source = er_rule_source v\<rparr>)"

fun record_results ::
    "env \<Rightarrow> (string \<Rightarrow> string) \<Rightarrow> string \<Rightarrow> string option \<Rightarrow> batch_results \<Rightarrow> chat_store \<Rightarrow> chat_store" where
  "record_results e redact sid mid [] s = s"
| "record_results e redact sid mid (cr # crs) s =
     record_results (later 1 e) redact sid mid crs (snd (upsert_tool_event e sid (result_input redact mid cr) s))"

text \<open>The result of the mutating call at which the cancellation was seen is returned but not recorded.\<close>

definition recorded :: "batch_world \<Rightarrow> tool_def list \<Rightarrow> tool_call list \<Rightarrow> batch_results \<Rightarrow> batch_results" where
  "recorded b defs calls results =
     (if \<exists>(i, c) \<in> set (enumerate 0 calls). \<not> is_intercepted (tc_name c) defs \<and> has_kind [Mutating] defs c \<and> bw_cancelled b i
      then butlast results else results)"

definition tool_msg :: "tool_call \<times> tool_result \<Rightarrow> chat_msg" where
  "tool_msg cr = \<lparr>cm_role = ''tool'', cm_content = tr_content (snd cr), cm_tool_calls = [],
     cm_tool_call_id = Some (tc_id (fst cr)), cm_name = Some (tc_name (fst cr))\<rparr>"

subsection \<open>One turn\<close>

definition EMPTY_RESPONSE :: string where "EMPTY_RESPONSE = ''returned an empty response''"

definition broken_turn :: "string \<Rightarrow> string \<Rightarrow> string \<Rightarrow> string option \<Rightarrow> loop_state \<Rightarrow> loop_step" where
  "broken_turn err content reasoning draft s =
     (if sublist EMPTY_RESPONSE err \<and> lp_retries s < MAX_EMPTY_RETRIES
      then Continue (nudge (s\<lparr>lp_store := drop_draft draft (lp_store s)\<rparr>))
      else
        (let text = (if trim content = [] then ''Error: '' @ err else content @ [NL, NL] @ ''Error: '' @ err);
             why = (if trim reasoning = [] then None else Some reasoning)
         in ends text why False False False
              (s\<lparr>lp_store := progress_draft draft text why (lp_store s),
                 lp_segments := lp_segments s @ [segment_of (lp_iteration s) draft text why]\<rparr>)))"

definition turn_batch :: "loop_world \<Rightarrow> nat \<Rightarrow> bool \<Rightarrow> batch_world" where
  "turn_batch w n plan_mode =
     (let b = lw_batch w n in b\<lparr>bw_gateway := (bw_gateway b)\<lparr>gw_plan_mode := plan_mode\<rparr>\<rparr>)"

text \<open>The calls of an answer, from the checkpoints to the drained queue.\<close>

definition run_calls ::
    "loop_world \<Rightarrow> loop_config \<Rightarrow> env \<Rightarrow> bool \<Rightarrow> string option \<Rightarrow> provider_response \<Rightarrow> loop_state \<Rightarrow> loop_step" where
  "run_calls w c e plan_mode draft r s =
     (let b = turn_batch w (lp_turn s) plan_mode;
          e' = later (length (rp_calls r)) e
      in case process_tool_calls b (lc_tools c) (lp_rules s) (rp_calls r) of
           None \<Rightarrow> Panicked
         | Some (results, rules) \<Rightarrow>
             (let rec = recorded b (lc_tools c) (rp_calls r) results;
                  t = record_results e' (lw_redact w) (lc_session c) draft rec
                        (checkpoint_calls e (lc_session c) draft (rp_calls r) (lp_store s));
                  s' = s\<lparr>lp_store := t, lp_rules := rules, lp_messages := lp_messages s @ map tool_msg results,
                         lp_events := lp_events s @ map (event_record (lw_redact w) (lp_iteration s)) rec\<rparr>
              in Continue (apply_steers
                   (arrivals (later (length rec) e') (lc_session c) (lw_steers_during w (lp_turn s)) s'))))"

definition answered_turn ::
    "loop_world \<Rightarrow> loop_config \<Rightarrow> env \<Rightarrow> bool \<Rightarrow> provider_request \<Rightarrow> string option \<Rightarrow> provider_response \<Rightarrow> loop_state \<Rightarrow> loop_step" where
  "answered_turn w c e plan_mode q draft r s =
     (let seg = segment_of (lp_iteration s) draft (rp_content r) (rp_reasoning r);
          t = progress_draft draft (rp_content r) (rp_reasoning r) (lp_store s);
          s' = s\<lparr>lp_usage := record_usage q r (lp_usage s),
                 lp_store := (if has_segment_text seg then t else drop_draft draft t),
                 lp_segments := lp_segments s @ (if has_segment_text seg then [seg] else []),
                 lp_messages := lp_messages s @ [(text_msg ''assistant'' (rp_content r))\<lparr>cm_tool_calls := rp_calls r\<rparr>]\<rparr>
      in if rp_calls r \<noteq> [] then run_calls w c e plan_mode draft r s'
         else if \<not> has_segment_text seg \<and> lp_retries s < MAX_EMPTY_RETRIES
         then Continue (nudge (arrivals e (lc_session c) (lw_steers_during w (lp_turn s)) s'))
         else
           (let s'' = arrivals e (lc_session c) (lw_steers_during w (lp_turn s)) s'
            in if lp_queue s'' \<noteq> [] then Continue (apply_steers s'')
               else ends (rp_content r) (rp_reasoning r) True False False s''))"

text \<open>
  A turn after the checks of the token and the cap. Cancelling and the cap leave the queue to
  \<open>run_agent_turn\<close>.
\<close>

definition plan_mode_of :: "loop_config \<Rightarrow> loop_state \<Rightarrow> bool" where
  "plan_mode_of c s = (case is_plan_mode (lc_session c) (lp_store s) of Inr b \<Rightarrow> b | Inl _ \<Rightarrow> True)"

definition draft_of :: "chat_message result \<Rightarrow> string option" where
  "draft_of row = (case row of Inl _ \<Rightarrow> None | Inr m \<Rightarrow> Some (nm_id m))"

definition draft_input :: "loop_config \<Rightarrow> message_input" where
  "draft_input c = \<lparr>mi_role = ''assistant'', mi_content = [], mi_reasoning = None, mi_provider = Some (lc_provider c),
     mi_model = Some (lc_model c), mi_effort = Some (lc_effort c)\<rparr>"

definition request_of :: "loop_config \<Rightarrow> bool \<Rightarrow> chat_msg list \<Rightarrow> provider_request" where
  "request_of c plan_mode msgs =
     \<lparr>rq_model = lc_wire_model c, rq_effort = lc_effort c, rq_system = system_for_turn (lc_system c) plan_mode,
      rq_messages = msgs, rq_tools = tools_for_turn (map (lc_schema c) (lc_tools c)) plan_mode\<rparr>"

definition ask_provider :: "loop_world \<Rightarrow> loop_config \<Rightarrow> env \<Rightarrow> loop_state \<Rightarrow> loop_step" where
  "ask_provider w c e s =
     (let plan_mode = plan_mode_of c s;
          trimmed = trim_to_budget (lp_messages s) (system_for_turn (lc_system c) plan_mode)
            (context_budget (lw_window w (lp_turn s)));
          inserted = insert_message e (lc_session c) (draft_input c) (lp_store s);
          draft = draft_of (fst inserted);
          q = request_of c plan_mode (fst trimmed);
          s' = s\<lparr>lp_messages := fst trimmed, lp_truncated := lp_truncated s \<or> snd trimmed, lp_store := snd inserted\<rparr>
      in case lw_answer w (lp_turn s) q of
           Broken err content reasoning \<Rightarrow>
             broken_turn err content reasoning draft
               (arrivals (later 1 e) (lc_session c) (lw_steers_during w (lp_turn s)) s')
         | Answered r \<Rightarrow> answered_turn w c (later 1 e) plan_mode q draft r s')"

definition loop_turn :: "loop_world \<Rightarrow> loop_config \<Rightarrow> loop_state \<Rightarrow> loop_step" where
  "loop_turn w c s =
     (let n = lp_turn s;
          e = lw_clock w n;
          early = lw_steers_before w n;
          s' = (arrivals e (lc_session c) early s)\<lparr>lp_iteration := lp_iteration s + 1\<rparr>
      in if lw_cancelled w n then ends [] None False True False s'
         else if lp_iteration s' > MAX_ITERATIONS then ends [] None False False True s'
         else case ask_provider w c (later (2 * length early) e) s' of
                Continue t \<Rightarrow> Continue (t\<lparr>lp_turn := n + 1\<rparr>)
              | r \<Rightarrow> r)"

fun run_loop :: "loop_world \<Rightarrow> loop_config \<Rightarrow> nat \<Rightarrow> loop_state \<Rightarrow> loop_step option" where
  "run_loop w c 0 s = None"
| "run_loop w c (Suc fuel) s = (case loop_turn w c s of Continue t \<Rightarrow> run_loop w c fuel t | r \<Rightarrow> Some r)"

definition initial_state :: "chat_msg list \<Rightarrow> chat_store \<Rightarrow> loop_state" where
  "initial_state msgs s =
     \<lparr>lp_turn = 0, lp_messages = msgs, lp_iteration = 0, lp_retries = 0, lp_segments = [], lp_events = [],
      lp_truncated = False, lp_usage = no_usage, lp_rules = [], lp_queue = [], lp_store = s\<rparr>"

end
