(* ===== verification/ChatTurn.thy ===== *)
theory ChatTurn
  imports AgentLoop PlanCompletion Accounts
begin

text \<open>
  A turn of the chat around the loop: \<open>run_agent_turn\<close> of \<open>services/agent_loop_service.rs\<close> with what it
  tells the plan lifecycle, and the part of \<open>send_message\<close> of \<open>services/native_chat_service.rs\<close> that tries
  the accounts of the provider one after the other and stores the turn. The desk holds the tables of the
  plans, of the transcript and of the accounts; the fuel bounds the turns of one run.
\<close>

record desk =
  dk_app :: app
  dk_chat :: chat_store
  dk_accounts :: accounts

text \<open>The launch sweep over all of it: the transcript first, then chats, runs and plans.\<close>

definition sweep_desk :: "env \<Rightarrow> desk \<Rightarrow> desk" where
  "sweep_desk e d = d\<lparr>dk_chat := sweep_transcript (dk_chat d),
     dk_app := (dk_app d)\<lparr>store := sweep_interrupted_runs e (store (dk_app d))\<rparr>\<rparr>"

definition terminal_of :: "run_result \<Rightarrow> chat_terminal_state" where
  "terminal_of r = (if rr_cancelled r then TCancelled else if rr_completed r \<or> rr_hit_cap r then TIdle else TFailed)"

text \<open>
  What one attempt meets: the clock and the project of the lifecycle, the loop's world, and for a subagent
  whether its parent admits it. The value is None when the thread panics or the fuel runs out.
\<close>

record turn_world =
  tw_clock :: "nat \<Rightarrow> env"
  tw_project :: world
  tw_loop :: "nat \<Rightarrow> account_record option \<Rightarrow> loop_world"
  tw_admitted :: bool
  tw_fuel :: nat

definition run_agent_turn ::
    "turn_world \<Rightarrow> nat \<Rightarrow> account_record option \<Rightarrow> tool_scope \<Rightarrow> loop_config \<Rightarrow> chat_msg list \<Rightarrow> desk \<Rightarrow>
     (run_result \<times> desk) option" where
  "run_agent_turn w k account scope c msgs d =
     (if scope = Scope_subagent \<and> \<not> tw_admitted w then Some (cancelled_run, d)
      else
        (let lifecycle = (scope \<noteq> Scope_subagent);
             app = (if lifecycle
                    then (dk_app d)\<lparr>store := snd (chat_running (tw_clock w (3 * k)) (lc_session c) (store (dk_app d)))\<rparr>
                    else dk_app d)
         in case run_loop (tw_loop w k account) c (tw_fuel w) (initial_state msgs (dk_chat d)) of
              Some (Finished r t) \<Rightarrow>
                Some (r, d\<lparr>dk_chat := t,
                  dk_app := (if lifecycle
                    then snd (chat_terminal (tw_project w) (tw_clock w (3 * k + 1)) (lc_session c) (terminal_of r) app)
                    else app)\<rparr>)
            | _ \<Rightarrow> None))"

subsection \<open>Trying the accounts\<close>

definition pre_stream_failure :: "run_result \<Rightarrow> string option" where
  "pre_stream_failure r =
     (if rr_completed r \<or> rr_cancelled r \<or> rr_hit_cap r \<or> rr_events r \<noteq> [] then None
      else case rr_segments r of
        [g] \<Rightarrow> (if tg_iteration g \<noteq> 1 \<or> tg_reasoning g \<noteq> None then None else strip_prefix ''Error: '' (tg_content g))
      | _ \<Rightarrow> None)"

definition drop_rows :: "turn_segment list \<Rightarrow> chat_store \<Rightarrow> chat_store" where
  "drop_rows gs s = fold (\<lambda>g. drop_draft (tg_message_id g)) gs s"

definition note_outcome :: "turn_world \<Rightarrow> nat \<Rightarrow> account_record \<Rightarrow> account_outcome \<Rightarrow> desk \<Rightarrow> desk" where
  "note_outcome w k a out d = d\<lparr>dk_accounts := record_outcome (tw_clock w (3 * k + 2)) (ac_id a) out (dk_accounts d)\<rparr>"

abbreviation discard :: "turn_segment list \<Rightarrow> desk \<Rightarrow> desk" where
  "discard gs d \<equiv> d\<lparr>dk_chat := drop_rows gs (dk_chat d)\<rparr>"

text \<open>The candidates still to try are those whose key the loop can use; without any it runs once, without an account.\<close>

fun attempts ::
    "turn_world \<Rightarrow> loop_config \<Rightarrow> chat_msg list \<Rightarrow> nat \<Rightarrow> account_record list \<Rightarrow> desk \<Rightarrow>
     (run_result \<times> string option \<times> desk) option" where
  "attempts w c msgs k [] d = map_option (\<lambda>(r, d'). (r, None, d')) (run_agent_turn w k None Scope_chat c msgs d)"
| "attempts w c msgs k (a # as) d =
     (case run_agent_turn w k (Some a) Scope_chat c msgs d of
        None \<Rightarrow> None
      | Some (r, d') \<Rightarrow>
          (case pre_stream_failure r of
             None \<Rightarrow> Some (r, Some (ac_id a), note_outcome w k a Success d')
           | Some err \<Rightarrow>
               (if as = [] then Some (r, Some (ac_id a), note_outcome w k a (classify_provider_error err) d')
                else attempts w c msgs (k + 1) as
                  (discard (rr_segments r) (note_outcome w k a (classify_provider_error err) d')))))"

definition native_candidates :: "account_record list \<Rightarrow> account_record list" where
  "native_candidates rs = filter (\<lambda>r. ac_auth_method r \<noteq> AUTH_OMP) rs"

definition turn_outcome :: "run_result \<Rightarrow> string" where
  "turn_outcome r = (if rr_cancelled r then ''cancelled'' else ''success'')"

text \<open>
  The agent path of \<open>send_message\<close> from the choice of an account on: the turn is stored, its metric has the
  outcome and the account, and the chat is touched.
\<close>

record turn_metric =
  tm_outcome :: string
  tm_account :: "string option"
  tm_usage :: run_usage

record sent_turn =
  sn_message :: "chat_message option"
  sn_events :: "tool_event list"
  sn_metric :: turn_metric

definition send_with_tools ::
    "turn_world \<Rightarrow> env \<Rightarrow> loop_config \<Rightarrow> string \<Rightarrow> chat_msg list \<Rightarrow> account_record list \<Rightarrow> desk \<Rightarrow> (sent_turn result \<times> desk) option" where
  "send_with_tools w e c user msgs accounts d =
     (case attempts w c msgs 0 (native_candidates accounts) d of
        None \<Rightarrow> None
      | Some (r, account, d') \<Rightarrow>
          (case persist_turn_segments e (lc_session c) user (rr_segments r) (rr_events r)
              \<lparr>ro_provider = lc_provider c, ro_model = lc_model c, ro_effort = lc_effort c\<rparr> (dk_chat d') of
             (Inl m, t) \<Rightarrow> Some (Err m, d'\<lparr>dk_chat := t\<rparr>)
           | (Inr (final, vs), t) \<Rightarrow>
               Some (Ok \<lparr>sn_message = final, sn_events = vs,
                         sn_metric = \<lparr>tm_outcome = turn_outcome r, tm_account = account, tm_usage = rr_usage r\<rparr>\<rparr>,
                     d'\<lparr>dk_chat := touch_session e (lc_session c) t\<rparr>)))"

end
