(* ===== verification/ChatStoreProps.thy ===== *)
theory ChatStoreProps
  imports ChatStore AccountsProps
begin

text \<open>
  What the transcript of a chat guarantees: the keys and references of its tables under any sequence of
  operations, that a compaction moves the start of the history and nothing else, what of a conversation the
  provider is sent, which message a tool event is shown under, and steering and the input history.
\<close>

subsection \<open>Appending in order\<close>

lemma insort_key_snoc: "k a \<le> k x \<Longrightarrow> insort_key k a (ys @ [x]) = insort_key k a ys @ [x]"
  by (induction ys) auto

lemma order_asc_snoc: "\<forall>y \<in> set xs. k y \<le> k x \<Longrightarrow> order_asc k (xs @ [x]) = order_asc k xs @ [x]"
  unfolding order_asc_def by (induction xs) (simp_all add: insort_key_snoc)

lemma next_number_greater: "k \<in> set ks \<Longrightarrow> k < next_number ks"
  by (auto simp: next_number_def intro!: le_imp_less_Suc Max_ge zle_add1_eq_le [THEN iffD2])

lemma distinct_order_asc [simp]: "distinct (map f (order_asc k xs)) = distinct (map f xs)"
  by (simp add: distinct_map order_asc_def)

subsection \<open>The invariant of the tables\<close>

definition message_slot :: "chat_message \<Rightarrow> string \<times> int" where
  "message_slot m = (nm_session_id m, nm_sort_order m)"

definition event_slot :: "tool_event \<Rightarrow> string \<times> int" where
  "event_slot v = (nt_session_id v, nt_sequence v)"

definition chat_ok :: "chat_store \<Rightarrow> bool" where
  "chat_ok s \<longleftrightarrow>
     distinct (map nm_id (st_messages s)) \<and> distinct (map message_slot (st_messages s)) \<and>
     list_all (\<lambda>m. chat_exists (nm_session_id m) s) (st_messages s) \<and>
     distinct (map nt_id (st_events s)) \<and> distinct (map event_slot (st_events s)) \<and>
     list_all (\<lambda>v. chat_exists (nt_session_id v) s \<and> message_exists (nt_message_id v) s) (st_events s)"

lemma image_upd_where [simp]: "(\<And>r. k (f r) = k r) \<Longrightarrow> k ` set (upd_where P f xs) = k ` set xs"
  using arg_cong [OF map_key_upd_where, of k f set P xs] by simp

lemma exists_image:
  "chat_exists sid s \<longleftrightarrow> sid \<in> sx_id ` set (st_sessions s)"
  "message_exists None s \<longleftrightarrow> True"
  "message_exists (Some i) s \<longleftrightarrow> i \<in> nm_id ` set (st_messages s)"
  by (auto simp: chat_exists_def message_exists_def)

lemma new_slot:
  assumes "k x = next_number (map k (filter (\<lambda>y. g y = g x) xs))"
  shows "(g x, k x) \<notin> (\<lambda>y. (g y, k y)) ` set xs"
proof
  assume "(g x, k x) \<in> (\<lambda>y. (g y, k y)) ` set xs"
  then obtain y where y: "y \<in> set xs" "g y = g x" "k y = k x" by auto
  from y(1,2) have "k y \<in> set (map k (filter (\<lambda>y. g y = g x) xs))" by (simp add: imageI)
  from next_number_greater [OF this] assms y(3) show False by simp
qed

lemma insert_message_Ok:
  "insert_message e sid inp s = (Inr m, t) \<Longrightarrow>
     t = s\<lparr>st_messages := st_messages s @ [m]\<rparr> \<and> nm_id m \<notin> nm_id ` set (st_messages s) \<and> chat_exists sid s \<and>
     nm_session_id m = sid \<and> nm_role m = mi_role inp \<and> nm_content m = mi_content inp \<and>
     nm_id m = prefixed_id ''nmsg'' (e_nanos e 0) \<and>
     nm_sort_order m = next_number (map nm_sort_order (of_session sid s))"
  by (auto simp: insert_message_def Let_def insert_checked_Ok split: sum.splits)

lemma insert_message_Err: "insert_message e sid inp s = (Inl m, t) \<Longrightarrow> t = s"
  by (auto simp: insert_message_def Let_def split: sum.splits)

lemma ok_insert_message: "chat_ok s \<Longrightarrow> chat_ok (snd (insert_message e sid inp s))"
proof -
  assume ok: "chat_ok s"
  show ?thesis
  proof (cases "fst (insert_message e sid inp s)")
    case (Inl a)
    then have "insert_message e sid inp s = (Inl a, snd (insert_message e sid inp s))" by (simp add: prod_eq_iff)
    from insert_message_Err [OF this] ok show ?thesis by simp
  next
    case (Inr m)
    then have "insert_message e sid inp s = (Inr m, snd (insert_message e sid inp s))" by (simp add: prod_eq_iff)
    from insert_message_Ok [OF this] have
      t: "snd (insert_message e sid inp s) = s\<lparr>st_messages := st_messages s @ [m]\<rparr>" and
      m: "nm_id m \<notin> nm_id ` set (st_messages s)" "chat_exists (nm_session_id m) s"
        "nm_sort_order m = next_number (map nm_sort_order (filter (\<lambda>y. nm_session_id y = nm_session_id m) (st_messages s)))"
      by (auto simp: of_session_def)
    have "message_slot m \<notin> message_slot ` set (st_messages s)"
      using new_slot [where k = nm_sort_order and g = nm_session_id, OF m(3)] by (simp add: message_slot_def [abs_def])
    then show ?thesis using ok m unfolding t
      by (auto simp: chat_ok_def chat_exists_def message_exists_def list_all_iff split: option.splits)
  qed
qed

lemma chat_exists_upd [simp]: "chat_exists sid (upd_session i f s) = chat_exists sid s"
  if "\<And>x. sx_id (f x) = sx_id x"
  using that by (simp add: exists_image upd_session_def)

lemma ok_sessions:
  assumes "chat_ok s" and "st_messages t = st_messages s" "st_events t = st_events s" and "\<And>sid. chat_exists sid t = chat_exists sid s"
  shows "chat_ok t"
  using assms by (simp add: chat_ok_def message_exists_def cong: option.case_cong)

lemma ok_upd_session: "chat_ok s \<Longrightarrow> (\<And>x. sx_id (f x) = sx_id x) \<Longrightarrow> chat_ok (upd_session sid f s)"
  by (rule ok_sessions [of s]) (simp_all, simp_all add: upd_session_def)

lemma update_progress_store:
  "snd (update_message_progress mid content reasoning s) =
     s\<lparr>st_messages := upd_where (\<lambda>m. nm_id m = mid) (\<lambda>m. m\<lparr>nm_content := content, nm_reasoning := reasoning\<rparr>) (st_messages s)\<rparr>"
  by (simp add: update_message_progress_def Let_def)

lemma ok_messages_upd:
  assumes ok: "chat_ok s" and keep: "\<And>m. nm_id (f m) = nm_id m" "\<And>m. nm_session_id (f m) = nm_session_id m"
      "\<And>m. nm_sort_order (f m) = nm_sort_order m"
  shows "chat_ok (s\<lparr>st_messages := upd_where P f (st_messages s)\<rparr>)"
proof -
  have "map nm_id (upd_where P f (st_messages s)) = map nm_id (st_messages s)"
    "map message_slot (upd_where P f (st_messages s)) = map message_slot (st_messages s)"
    by (rule map_key_upd_where, simp add: keep message_slot_def)+
  moreover have "chat_exists i (s\<lparr>st_messages := ms\<rparr>) = chat_exists i s" for i ms by (simp add: chat_exists_def)
  moreover have "message_exists i (s\<lparr>st_messages := upd_where P f (st_messages s)\<rparr>) = message_exists i s" for i
    by (cases i) (simp_all add: exists_image keep)
  ultimately show ?thesis using ok keep by (auto simp: chat_ok_def list_all_iff set_upd_where)
qed

lemma ok_progress: "chat_ok s \<Longrightarrow> chat_ok (snd (update_message_progress mid content reasoning s))"
  unfolding update_progress_store by (rule ok_messages_upd) simp_all

text \<open>Deleting messages keeps the invariant when the events that name them forget them.\<close>

lemma ok_delete:
  assumes ok: "chat_ok s"
    and ms: "st_messages t = filter P (st_messages s)"
    and vs: "st_events t = map f (filter Q (st_events s))"
    and f: "\<And>v. nt_id (f v) = nt_id v" "\<And>v. event_slot (f v) = event_slot v" "\<And>v. nt_session_id (f v) = nt_session_id v"
      "\<And>v. nt_message_id (f v) = None \<or> nt_message_id (f v) = nt_message_id v \<and>
         (\<forall>m \<in> set (st_messages s). nt_message_id v = Some (nm_id m) \<longrightarrow> P m)"
    and sx: "st_sessions t = st_sessions s"
  shows "chat_ok t"
proof -
  have ex: "chat_exists sid t = chat_exists sid s" for sid by (simp add: chat_exists_def sx)
  have keys: "nt_id \<circ> f = nt_id" "event_slot \<circ> f = event_slot" by (simp_all add: fun_eq_iff f(1,2))
  moreover have "message_exists (nt_message_id (f v)) t" if "v \<in> set (st_events s)" for v
  proof (cases "nt_message_id (f v)")
    case (Some i)
    with f(4) [of v] have v: "nt_message_id v = Some i" "\<forall>m \<in> set (st_messages s). i = nm_id m \<longrightarrow> P m" by auto
    from that ok v(1) have "message_exists (Some i) s" by (fastforce simp: chat_ok_def list_all_iff)
    then obtain m where "m \<in> set (st_messages s)" "nm_id m = i" by (auto simp: message_exists_def)
    with v(2) ms have "m \<in> set (st_messages t)" "nm_id m = i" by auto
    with Some show ?thesis by (auto simp: message_exists_def)
  qed (simp add: message_exists_def)
  ultimately show ?thesis using ok f(3)
    unfolding chat_ok_def ms vs ex map_map keys by (auto simp: list_all_iff distinct_map_filter)
qed

lemma ok_delete_by_role:
  assumes ok: "chat_ok s"
  shows "chat_ok (delete_by_role role mid s)"
proof (cases "\<exists>m \<in> set (st_messages s). nm_id m = mid \<and> nm_role m = role")
  case True
  let ?f = "\<lambda>v::tool_event. if nt_message_id v = Some mid then v\<lparr>nt_message_id := None\<rparr> else v"
  let ?P = "\<lambda>m. \<not> (nm_id m = mid \<and> nm_role m = role)"
  show ?thesis
    by (rule ok_delete [OF ok, of _ ?P ?f "\<lambda>_. True"])
      (use True in \<open>auto simp: delete_by_role_def upd_where_def event_slot_def\<close>)
next
  case False
  with ok show ?thesis by (simp only: delete_by_role_def if_False)
qed

lemma ok_clear: "chat_ok s \<Longrightarrow> chat_ok (snd (clear_session_messages sid s))"
  by (rule ok_delete [of s _ "\<lambda>m. nm_session_id m \<noteq> sid"
        "\<lambda>v. if \<exists>m \<in> set (of_session sid s). nt_message_id v = Some (nm_id m) then v\<lparr>nt_message_id := None\<rparr> else v"
        "\<lambda>v. nt_session_id v \<noteq> sid"])
    (auto simp: clear_session_messages_def event_slot_def of_session_def)

lemma upsert_cases:
  assumes "upsert_tool_event e sid inp s = (res, t)"
  obtains (err) m where "res = Inl m" "t = s"
  | (new) v where "res = Inr v" "t = s\<lparr>st_events := st_events s @ [v]\<rparr>" "message_exists (ei_message_id inp) s" "chat_exists sid s"
      "lookup_by nt_id (event_key sid (ei_id inp)) (st_events s) = None"
      "nt_id v = event_key sid (ei_id inp)" "nt_session_id v = sid" "nt_message_id v = ei_message_id inp"
      "nt_sequence v = next_number (map nt_sequence (session_events sid s))"
  | (old) v w where "res = Inr v" "v = merge_event inp w"
      "lookup_by nt_id (event_key sid (ei_id inp)) (st_events s) = Some w"
      "t = s\<lparr>st_events := upd_where (\<lambda>v. nt_id v = event_key sid (ei_id inp)) (merge_event inp) (st_events s)\<rparr>"
      "message_exists (ei_message_id inp) s" "chat_exists sid s"
proof (cases "message_exists (ei_message_id inp) s \<and> chat_exists sid s")
  case False
  with assms err show thesis by (auto simp: upsert_tool_event_def Let_def)
next
  case True
  let ?key = "event_key sid (ei_id inp)"
  show thesis
  proof (cases "lookup_by nt_id ?key (st_events s)")
    case None
    with assms True show thesis
      by (intro new) (auto simp: upsert_tool_event_def Let_def lookup_by_append)
  next
    case (Some w)
    then have "lookup_by nt_id ?key (upd_where (\<lambda>v. nt_id v = ?key) (merge_event inp) (st_events s)) = Some (merge_event inp w)"
      using lookup_by_SomeD [OF Some] by (simp add: lookup_by_upd_where merge_event_def)
    with Some assms True show thesis
      by (intro old) (auto simp: upsert_tool_event_def Let_def)
  qed
qed

lemma ok_upsert_event: "chat_ok s \<Longrightarrow> chat_ok (snd (upsert_tool_event e sid inp s))"
proof -
  assume ok: "chat_ok s"
  obtain res t where u: "upsert_tool_event e sid inp s = (res, t)" by fastforce
  have ex: "chat_exists i (s\<lparr>st_events := vs\<rparr>) = chat_exists i s" "message_exists j (s\<lparr>st_events := vs\<rparr>) = message_exists j s"
    for i j vs by (simp_all add: chat_exists_def message_exists_def cong: option.case_cong)
  from u have "chat_ok t"
  proof (cases rule: upsert_cases)
    case (err m)
    with ok show ?thesis by simp
  next
    case (new v)
    have "nt_id v \<notin> nt_id ` set (st_events s)" using new(5,6) by (simp add: lookup_by_None)
    moreover have "event_slot v \<notin> event_slot ` set (st_events s)"
      using new_slot [where k = nt_sequence and g = nt_session_id and x = v and xs = "st_events s"] new(7,9)
      by (simp add: event_slot_def [abs_def] session_events_def)
    ultimately show ?thesis using ok new by (simp add: chat_ok_def ex)
  next
    case (old v w)
    have keep: "nt_id (merge_event inp v) = nt_id v" "nt_session_id (merge_event inp v) = nt_session_id v"
      "event_slot (merge_event inp v) = event_slot v" for v by (simp_all add: merge_event_def event_slot_def)
    have "message_exists (nt_message_id (merge_event inp v)) s" if "message_exists (nt_message_id v) s" for v
      using that old(5) by (cases "ei_message_id inp") (simp_all add: merge_event_def coalesce_opt_def)
    with ok show ?thesis unfolding old(4)
      by (auto simp: chat_ok_def ex keep map_key_upd_where list_all_iff set_upd_where)
  qed
  with u show ?thesis by simp
qed

lemma ok_persist_events: "chat_ok s \<Longrightarrow> chat_ok (snd (persist_events e sid mid rs s))"
proof (induction rs arbitrary: e s)
  case (Cons r rs)
  obtain res t where u: "upsert_tool_event e sid (record_input r mid) s = (res, t)" by fastforce
  have "chat_ok t" using ok_upsert_event [OF Cons.prems, of e sid "record_input r mid"] u by simp
  with Cons.IH [of t "later 1 e"] u show ?case by (auto split: sum.split prod.split)
qed simp

lemma ok_persist_segment: "chat_ok s \<Longrightarrow> chat_ok (snd (persist_segment e sid ro g s))"
  by (simp add: persist_segment_def ok_progress ok_insert_message split: option.split)

lemma ok_persist_from: "chat_ok s \<Longrightarrow> chat_ok (snd (persist_from e sid ro bind written pending gs s))"
proof (induction gs arbitrary: e bind written pending s)
  case Nil
  then show ?case using ok_persist_events [OF Nil, of e sid bind pending] by (auto split: sum.split prod.split)
next
  case (Cons g gs)
  let ?early = "takeWhile (\<lambda>r. er_iteration r < tg_iteration g) pending"
  let ?e = "later (length ?early) e"
  obtain res t where p: "persist_events e sid bind ?early s = (res, t)" by fastforce
  then have t: "chat_ok t" using ok_persist_events [OF Cons.prems, of e sid bind ?early] by simp
  obtain seg u where q: "persist_segment ?e sid ro g t = (seg, u)" by fastforce
  then have u: "chat_ok u" using ok_persist_segment [OF t, of ?e sid ro g] by simp
  have skip: "chat_ok (snd (persist_from ?e sid ro bind written rest gs t))" for rest by (rule Cons.IH [OF t])
  have go: "chat_ok (snd (persist_from (later 1 ?e) sid ro mid (Some m) rest gs u))" for mid m rest by (rule Cons.IH [OF u])
  show ?case
    unfolding persist_from.simps Let_def p using t u skip go
    by (auto simp: q split: sum.split prod.split) (metis snd_conv)+
qed

lemma chat_ok_simps [simp]:
  "chat_ok (s\<lparr>st_compactions := cs\<rparr>) = chat_ok s" "chat_ok (s\<lparr>st_inputs := xs\<rparr>) = chat_ok s"
  "chat_ok (s\<lparr>st_todos := ts\<rparr>) = chat_ok s"
  by (simp_all add: chat_ok_def chat_exists_def message_exists_def cong: option.case_cong)

lemma ok_touch [simp]: "chat_ok s \<Longrightarrow> chat_ok (touch_session e sid s)"
  by (simp add: touch_session_def ok_upd_session)

lemma ok_new_event:
  assumes "chat_ok s" and "nt_id v \<notin> nt_id ` set (st_events s)" "chat_exists (nt_session_id v) s" "message_exists (nt_message_id v) s"
    and "nt_sequence v = next_number (map nt_sequence (session_events (nt_session_id v) s))"
  shows "chat_ok (s\<lparr>st_events := st_events s @ [v]\<rparr>)"
proof -
  have "event_slot v \<notin> event_slot ` set (st_events s)"
    using new_slot [where k = nt_sequence and g = nt_session_id and x = v and xs = "st_events s"] assms(5)
    by (simp add: event_slot_def [abs_def] session_events_def)
  with assms show ?thesis
    by (auto simp: chat_ok_def chat_exists_def message_exists_def list_all_iff cong: option.case_cong)
qed

text \<open>A compaction that succeeds adds one row to each of two tables.\<close>

lemma run_compaction_Ok:
  assumes "run_compaction e ask sid s = (Inr r, t)"
  obtains b content c v where
    "cut_of sid s = Some b" "ask (render_compaction_transcript (compaction_rows sid b s)) = Inr content"
    "cr_summary r = trim content" "trim content \<noteq> []" "cr_compacted r = b" "cr_kept r = length (active_history sid s) - b"
    "cr_tokens_after r = estimate_tokens (trim content) + total_tokens (drop b (active_history sid s))"
    "cr_tokens_before r = summary_tokens sid s + total_tokens (active_history sid s)"
    "nc_session_id c = sid" "nc_summary c = trim content" "nc_through c = nm_id (active_history sid s ! (b - 1))"
    "nc_created_at c = e_secs e 0" "nt_id v \<notin> nt_id ` set (st_events s)" "nt_session_id v = sid"
    "nt_message_id v = Some (nc_through c)" "chat_exists sid s" "message_exists (Some (nc_through c)) s"
    "nt_sequence v = next_number (map nt_sequence (session_events sid s))"
    "t = touch_session (later 1 e) sid (s\<lparr>st_compactions := st_compactions s @ [c], st_events := st_events s @ [v]\<rparr>)"
proof -
  from assms obtain b where b: "cut_of sid s = Some b" by (auto simp: run_compaction_def Let_def split: option.splits)
  from assms b obtain content where a: "ask (render_compaction_transcript (compaction_rows sid b s)) = Inr content"
    by (auto simp: run_compaction_def Let_def split: sum.splits)
  from assms b a have ne: "trim content \<noteq> []" by (auto simp: run_compaction_def Let_def)
  have ex: "chat_exists sid (s\<lparr>st_compactions := cs\<rparr>) = chat_exists sid s"
    "message_exists (Some i) (s\<lparr>st_compactions := cs\<rparr>) = message_exists (Some i) s"
    "session_events sid (s\<lparr>st_compactions := cs\<rparr>) = session_events sid s" for cs i
    by (simp_all add: chat_exists_def message_exists_def session_events_def)
  from assms b a ne show thesis
    by (auto simp: run_compaction_def Let_def insert_checked_Ok ex split: sum.splits intro!: that)
qed

lemma run_compaction_Err:
  "run_compaction e ask sid s = (Inl m, t) \<Longrightarrow> t = s \<or> (\<exists>cs. t = s\<lparr>st_compactions := cs\<rparr>)"
  by (auto simp: run_compaction_def Let_def split: option.splits sum.splits if_splits)

lemma ok_compaction: "chat_ok s \<Longrightarrow> chat_ok (snd (run_compaction e ask sid s))"
proof -
  assume ok: "chat_ok s"
  obtain res t where u: "run_compaction e ask sid s = (res, t)" by fastforce
  show ?thesis
  proof (cases res)
    case (Inl m)
    with run_compaction_Err [of e ask sid s m t] u ok show ?thesis by auto
  next
    case (Inr r)
    with u have "run_compaction e ask sid s = (Inr r, t)" by simp
    then show ?thesis
    proof (rule run_compaction_Ok)
      fix b content c v
      assume v: "nt_id v \<notin> nt_id ` set (st_events s)" "nt_session_id v = sid" "nt_message_id v = Some (nc_through c)"
        "chat_exists sid s" "message_exists (Some (nc_through c)) s"
        "nt_sequence v = next_number (map nt_sequence (session_events sid s))"
        and t: "t = touch_session (later 1 e) sid (s\<lparr>st_compactions := st_compactions s @ [c], st_events := st_events s @ [v]\<rparr>)"
      let ?s = "s\<lparr>st_compactions := st_compactions s @ [c]\<rparr>"
      have "chat_ok (?s\<lparr>st_events := st_events ?s @ [v]\<rparr>)"
        by (rule ok_new_event) (use ok v in \<open>simp_all add: chat_exists_def message_exists_def session_events_def\<close>)
      with t u show ?thesis by simp
    qed
  qed
qed

lemma ok_steer: "chat_ok s \<Longrightarrow> chat_ok (snd (steer e running accepted sid content s))"
proof -
  assume ok: "chat_ok s"
  have ins: "chat_ok t" if "insert_message e sid inp s = (res, t)" for inp res t
    using ok_insert_message [OF ok, of e sid inp] that by simp
  show ?thesis
    using ok by (auto simp: steer_def Let_def delete_steer_message_def ok_delete_by_role ins dest: ins
        split: option.split sum.split prod.split)
qed

datatype chat_op =
    Say string message_input
  | Checkpoint string string "string option"
  | Drop_message string
  | Tool string event_input
  | Persist string string "turn_segment list" "tool_event_record list" route
  | Compact "string \<Rightarrow> string result" string
  | Clear string
  | Remember string
  | Steer bool bool string string
  | Rename string string
  | Run_state string string
  | Plan_mode string bool
  | Set_model "unit result" string string string string
  | Hire chat_session string int string string
  | Subagent_status string string
  | Sweep

fun chat_step :: "env \<times> chat_op \<Rightarrow> chat_store \<Rightarrow> chat_store" where
  "chat_step (e, Say sid inp) s = snd (insert_message e sid inp s)"
| "chat_step (e, Checkpoint mid c r) s = snd (update_message_progress mid c r s)"
| "chat_step (e, Drop_message mid) s = delete_message mid s"
| "chat_step (e, Tool sid inp) s = snd (upsert_tool_event e sid inp s)"
| "chat_step (e, Persist sid uid gs rs ro) s = snd (persist_turn_segments e sid uid gs rs ro s)"
| "chat_step (e, Compact ask sid) s = snd (compact_session e ask sid s)"
| "chat_step (e, Clear sid) s = snd (clear_session_messages sid s)"
| "chat_step (e, Remember c) s = add_input_history c s"
| "chat_step (e, Steer running accepted sid c) s = snd (steer e running accepted sid c s)"
| "chat_step (e, Rename sid t) s = rename_session e sid t s"
| "chat_step (e, Run_state sid st) s = set_session_run_state e sid st s"
| "chat_step (e, Plan_mode sid b) s = snd (set_plan_mode sid b s)"
| "chat_step (e, Set_model v sid p m l) s = snd (update_session_model e v sid p m l s)"
| "chat_step (e, Hire parent call i name assignment) s = snd (create_subagent_session e parent call i name assignment s)"
| "chat_step (e, Subagent_status sid st) s = set_subagent_status sid st s"
| "chat_step (e, Sweep) s = sweep_transcript s"

lemma ok_new_session:
  assumes "chat_ok s"
  shows "chat_ok (s\<lparr>st_sessions := st_sessions s @ xs\<rparr>)"
proof -
  have "chat_exists sid s \<Longrightarrow> chat_exists sid (s\<lparr>st_sessions := st_sessions s @ xs\<rparr>)"
    "message_exists mid (s\<lparr>st_sessions := st_sessions s @ xs\<rparr>) = message_exists mid s" for sid mid
    by (auto simp: chat_exists_def message_exists_def cong: option.case_cong)
  with assms show ?thesis by (simp add: chat_ok_def list_all_iff)
qed

lemma ok_create_subagent: "chat_ok s \<Longrightarrow> chat_ok (snd (create_subagent_session e parent call i name assignment s))"
proof -
  assume "chat_ok s"
  then have "chat_ok (snd (insert_message f sid inp (s\<lparr>st_sessions := st_sessions s @ xs\<rparr>)))" for f sid inp xs
    by (intro ok_insert_message ok_new_session)
  with \<open>chat_ok s\<close> show ?thesis
    by (simp add: create_subagent_session_def Let_def split: prod.split sum.split) (metis snd_conv)
qed

lemma ok_sweep_transcript:
  assumes "chat_ok s"
  shows "chat_ok (sweep_transcript s)"
proof -
  have exists: "chat_exists sid (sweep_transcript s) = chat_exists sid s"
    "message_exists mid (sweep_transcript s) = message_exists mid s" for sid mid
    by (simp_all add: exists_image sweep_transcript_def message_exists_def cong: option.case_cong)
  have "map nt_id (st_events (sweep_transcript s)) = map nt_id (st_events s)"
    "map event_slot (st_events (sweep_transcript s)) = map event_slot (st_events s)"
    by (simp_all add: sweep_transcript_def map_key_upd_where event_slot_def)
  moreover have "\<exists>v' \<in> set (st_events s). nt_session_id v = nt_session_id v' \<and> nt_message_id v = nt_message_id v'"
    if "v \<in> set (st_events (sweep_transcript s))" for v
    using that by (fastforce simp: sweep_transcript_def set_upd_where split: if_splits)
  moreover have "st_messages (sweep_transcript s) = st_messages s" by (simp add: sweep_transcript_def)
  ultimately show ?thesis using assms unfolding chat_ok_def list_all_iff exists by metis
qed

text \<open>After the sweep no chat seems to run, and no call of a chat that ran seems to be under way.\<close>

lemma swept_transcript_is_still:
  "in_flight_chats (sweep_transcript s) = {} \<and>
   (\<forall>v \<in> set (st_events (sweep_transcript s)). nt_session_id v \<in> in_flight_chats s \<longrightarrow> nt_status v \<notin> {''running'', ''pending''})"
  by (auto simp: sweep_transcript_def in_flight_chats_def set_upd_where filter_empty_conv)

lemma ok_chat_step: "chat_ok s \<Longrightarrow> chat_ok (chat_step eo s)"
  by (induction eo s rule: chat_step.induct)
    (auto simp: ok_insert_message ok_progress delete_message_def ok_delete_by_role ok_upsert_event persist_turn_segments_def
      ok_persist_from compact_session_def ok_compaction ok_clear ok_steer rename_session_def set_session_run_state_def
      set_plan_mode_def update_session_model_def Let_def add_input_history_def ok_upd_session
      ok_create_subagent set_subagent_status_def ok_sweep_transcript
      intro: ok_sessions split: option.split sum.split)

interpretation chat_machine: machine chat_step chat_ok
  by unfold_locales (rule ok_chat_step)

text \<open>
  C16: whatever is said, checkpointed, deleted, persisted, compacted, cleared, steered, delegated to a
  subagent, reconfigured or swept at the launch, and whatever fails, ids stay unique, the messages of a session and its tool events keep distinct places, and
  every event belongs to a session and names an existing message or none.
\<close>

theorem chat_invariant: "chat_ok s \<Longrightarrow> chat_ok (fold chat_step ops s)"
  by (rule chat_machine.run_inv)

subsection \<open>The order of a conversation\<close>

lemma said_last:
  assumes "insert_message e sid inp s = (Inr m, t)"
  shows "list_messages sid t = list_messages sid s @ [m]"
proof -
  note i = insert_message_Ok [OF assms]
  then have "of_session sid t = of_session sid s @ [m]" by (auto simp: of_session_def)
  moreover have "\<forall>y \<in> set (of_session sid s). nm_sort_order y \<le> nm_sort_order m"
    using i next_number_greater [of _ "map nm_sort_order (of_session sid s)"] by (auto simp: less_imp_le)
  ultimately show ?thesis by (simp add: list_messages_def order_asc_snoc)
qed

subsection \<open>Compaction\<close>

lemma position_of_after:
  assumes "distinct (map f xs)" and "k < length xs"
  shows "position_of (\<lambda>x. f x = f (xs ! k)) xs = Some k"
  using assms by (rule position_of_nth)

text \<open>The active history is the list of messages without its first ones.\<close>

lemma active_history_drop: "\<exists>i. active_history sid s = drop i (list_messages sid s)"
  by (auto simp: active_history_def Let_def intro: exI [of _ 0] split: option.split)

lemma latest_of_snoc:
  assumes "\<forall>d \<in> set (st_compactions s). nc_session_id d = sid \<longrightarrow> nc_created_at d \<le> nc_created_at c" "nc_session_id c = sid"
    and "st_compactions t = st_compactions s @ [c]"
  shows "latest_compaction sid t = Some (nc_summary c, nc_through c)"
proof -
  let ?ds = "filter (\<lambda>d. nc_session_id d = sid) (st_compactions s)"
  have "order_asc nc_created_at (?ds @ [c]) = order_asc nc_created_at ?ds @ [c]"
    by (rule order_asc_snoc) (use assms(1) in auto)
  with assms(2,3) show ?thesis by (cases "order_asc nc_created_at ?ds") (simp_all add: latest_compaction_def)
qed

text \<open>
  C17: a successful compaction, on a clock that did not go back, keeps of what the provider is sent exactly
  the messages from the cut on, no fewer and no more; the request carries the new summary, made from the
  transcript of the messages before the cut, and the counts reported are those of the two parts.
\<close>

theorem compaction_moves_the_start:
  assumes "chat_ok s" and "run_compaction e ask sid s = (Inr r, t)"
    and "\<forall>d \<in> set (st_compactions s). nc_session_id d = sid \<longrightarrow> nc_created_at d \<le> e_secs e 0"
  shows "\<exists>b. cut_of sid s = Some b \<and> active_history sid t = drop b (active_history sid s) \<and>
    list_messages sid t = list_messages sid s \<and>
    with_compaction_summary system sid t =
      system @ [NL, NL] @ ''## Earlier conversation (compacted)'' @ [NL, NL] @ cr_summary r \<and>
    map_sum id trim (ask (render_compaction_transcript (compaction_rows sid b s))) = Inr (cr_summary r) \<and>
    cr_compacted r + cr_kept r = length (active_history sid s) \<and> cr_kept r = length (active_history sid t)"
  using assms(2)
proof (rule run_compaction_Ok)
  fix b content c v
  assume b: "cut_of sid s = Some b" and a: "ask (render_compaction_transcript (compaction_rows sid b s)) = Inr content"
    "cr_summary r = trim content" and cr: "cr_compacted r = b" "cr_kept r = length (active_history sid s) - b"
    and c: "nc_session_id c = sid" "nc_summary c = trim content" "nc_through c = nm_id (active_history sid s ! (b - 1))"
      "nc_created_at c = e_secs e 0"
    and t: "t = touch_session (later 1 e) sid (s\<lparr>st_compactions := st_compactions s @ [c], st_events := st_events s @ [v]\<rparr>)"
  let ?h = "list_messages sid s"
  from b have lt: "0 < b" "b < length (active_history sid s)"
    using cut_iff [of "map nm_role (active_history sid s)" KEEP_USER_TURNS b] by (cases b; simp add: cut_of_def)+
  have h: "list_messages sid t = ?h"
    by (simp add: t touch_session_def upd_session_def list_messages_def of_session_def)
  obtain i where i: "active_history sid s = drop i ?h" using active_history_drop by blast
  with lt have k: "i + (b - 1) < length ?h" "active_history sid s ! (b - 1) = ?h ! (i + (b - 1))" by auto
  have distinct: "distinct (map nm_id ?h)"
    using assms(1) by (simp add: chat_ok_def list_messages_def of_session_def distinct_map_filter)
  have "latest_compaction sid t = Some (trim content, nc_through c)"
    by (subst latest_of_snoc [of s sid c]) (use assms(3) c in \<open>simp_all add: t touch_session_def upd_session_def\<close>)
  moreover have "position_of (\<lambda>m. nm_id m = nc_through c) ?h = Some (i + (b - 1))"
    using position_of_after [OF distinct k(1)] k(2) c(3) by simp
  ultimately have "active_history sid t = drop (i + b) ?h" "with_compaction_summary system sid t =
      system @ [NL, NL] @ ''## Earlier conversation (compacted)'' @ [NL, NL] @ cr_summary r"
    using lt(1) a by (simp_all add: active_history_def with_compaction_summary_def h)
  moreover have "drop (i + b) ?h = drop b (active_history sid s)" by (simp add: i add.commute)
  ultimately show ?thesis using b a h cr lt by (intro exI [of _ b]) simp
qed

text \<open>
  When the messages up to some turn already overflow the transcript, the summarizer learns nothing of the
  later turns before the cut, which the compaction nevertheless takes out of what the provider is sent.
\<close>

theorem compaction_forgets_newest:
  assumes "MAX_COMPACTION_TRANSCRIPT_CHARS < char_count (concat (transcript_entries rows))"
  shows "render_compaction_transcript (rows @ newer) = render_compaction_transcript rows"
proof -
  have "render_from out (rows @ newer) = render_from out rows"
    if "MAX_COMPACTION_TRANSCRIPT_CHARS < char_count out + char_count (concat (transcript_entries rows))"
      "char_count out \<le> MAX_COMPACTION_TRANSCRIPT_CHARS" for out
    using that
  proof (induction rows arbitrary: out)
    case Nil
    then show ?case by (simp add: transcript_entries_def char_count_def [of "[]"])
  next
    case (Cons r rows)
    then show ?case
      using Cons.IH [of out] Cons.IH [of "out @ transcript_entry r"]
      by (cases "transcript_body (snd r) = []") (auto simp: transcript_entries_def add.assoc not_less)
  qed
  from this [of "[]"] assms show ?thesis
    by (simp add: render_compaction_transcript_def char_count_def [of "[]"] MAX_COMPACTION_TRANSCRIPT_CHARS_def)
qed

text \<open>
  Clearing a chat leaves nothing to send: no message, no tool event and no summary of earlier turns, and
  it does not touch the messages of other chats.
\<close>

theorem clear_forgets_everything:
  "let t = snd (clear_session_messages sid s) in
     active_history sid t = [] \<and> latest_compaction sid t = None \<and> list_tool_events sid t = [] \<and>
     get_session sid t = get_session sid s \<and> fst (clear_session_messages sid s) = length (list_messages sid s) \<and>
     (other = sid \<or> list_messages other t = list_messages other s)"
proof -
  let ?t = "snd (clear_session_messages sid s)"
  have events: "session_events sid ?t = []" and messages: "of_session sid ?t = []"
    by (auto simp: clear_session_messages_def filter_empty_conv session_events_def of_session_def)
  have compactions: "filter (\<lambda>c. nc_session_id c = sid) (st_compactions ?t) = []"
    by (auto simp: clear_session_messages_def filter_empty_conv)
  have others: "other \<noteq> sid \<Longrightarrow> of_session other ?t = of_session other s"
    by (auto simp: clear_session_messages_def of_session_def intro: filter_cong)
  have sessions: "get_session sid ?t = get_session sid s" by (simp add: clear_session_messages_def get_session_def)
  have count: "fst (clear_session_messages sid s) = length (list_messages sid s)"
    by (simp add: clear_session_messages_def list_messages_def order_asc_def)
  show ?thesis
    using others unfolding Let_def sessions count
    by (cases "other = sid") (simp_all add: active_history_def latest_compaction_def list_messages_def list_tool_events_def
        events messages compactions)
qed

subsection \<open>What the provider is sent\<close>

text \<open>A history cut into user turns and the runs of assistant rows between them.\<close>

definition joined_text :: "chat_message list \<Rightarrow> string" where
  "joined_text ms = join_with [NL, NL] (filter (\<lambda>c. c \<noteq> []) (map nm_content ms))"

definition by_assistant :: "chat_message \<Rightarrow> bool" where
  "by_assistant m \<longleftrightarrow> nm_role m = ''assistant''"

function provider_runs :: "chat_message list \<Rightarrow> chat_msg list" where
  "provider_runs [] = []"
| "provider_runs (m # ms) =
     (if by_assistant m
      then text_msg ''assistant'' (joined_text (m # takeWhile by_assistant ms)) # provider_runs (dropWhile by_assistant ms)
      else text_msg (nm_role m) (nm_content m) # provider_runs ms)"
  by pat_completeness auto
termination
  by (relation "measure length") (auto intro: le_imp_less_Suc length_dropWhile_le)

definition add_text :: "string \<Rightarrow> string \<Rightarrow> string" where
  "add_text c d = c @ (if c \<noteq> [] \<and> d \<noteq> [] then [NL, NL] else []) @ d"

lemma join_add: "join_with [NL, NL] (filter (\<lambda>c. c \<noteq> []) (add_text c d # cs)) = join_with [NL, NL] (filter (\<lambda>c. c \<noteq> []) (c # d # cs))"
proof -
  have "join_with sep ((a @ sep @ b) # xs) = join_with sep (a # b # xs)" for sep a b and xs :: "string list"
    by (cases xs) simp_all
  from this [of "[NL, NL]"] show ?thesis by (simp add: add_text_def)
qed

lemma push_run:
  "\<forall>m \<in> set ms. by_assistant m \<Longrightarrow>
     foldl push_history (acc @ [text_msg ''assistant'' c]) ms =
       acc @ [text_msg ''assistant'' (join_with [NL, NL] (filter (\<lambda>c. c \<noteq> []) (c # map nm_content ms)))]"
proof (induction ms arbitrary: c)
  case (Cons m ms)
  have "push_history (acc @ [text_msg ''assistant'' c]) m = acc @ [text_msg ''assistant'' (add_text c (nm_content m))]"
    using Cons.prems by (simp add: push_history_def by_assistant_def text_msg_def add_text_def)
  with Cons.IH [of "add_text c (nm_content m)"] Cons.prems show ?case by (simp only: foldl_Cons join_add list.map) simp
qed simp

definition ends_open :: "chat_msg list \<Rightarrow> bool" where
  "ends_open acc \<longleftrightarrow> acc = [] \<or> cm_role (last acc) \<noteq> ''assistant''"

lemma push_all_runs:
  "\<forall>m \<in> set ms. nm_role m = ''user'' \<or> by_assistant m \<Longrightarrow> ends_open acc \<Longrightarrow>
     foldl push_history acc ms = acc @ provider_runs ms"
proof (induction ms arbitrary: acc rule: length_induct)
  case (1 ms)
  have user_turn: "foldl push_history acc' (u # us) = acc' @ provider_runs (u # us)"
    if "length us < length ms" "set us \<subseteq> set ms" "nm_role u = ''user''" for u us acc'
  proof -
    have "push_history acc' u = acc' @ [text_msg ''user'' (nm_content u)]" using that(3) by (simp add: push_history_def)
    moreover have "ends_open (acc' @ [text_msg ''user'' (nm_content u)])" by (simp add: ends_open_def text_msg_def)
    moreover from this have "foldl push_history (acc' @ [text_msg ''user'' (nm_content u)]) us =
        (acc' @ [text_msg ''user'' (nm_content u)]) @ provider_runs us"
      using 1(1) 1(2) that(1,2) by blast
    ultimately show ?thesis using that(3) by (simp add: by_assistant_def)
  qed
  show ?case
  proof (cases ms)
    case (Cons m ms')
    show ?thesis
    proof (cases "by_assistant m")
      case False
      with 1(2) Cons have "nm_role m = ''user''" by auto
      with Cons user_turn [of ms' m acc] show ?thesis by (simp add: subset_insertI)
    next
      case True
      let ?run = "takeWhile by_assistant ms'" and ?rest = "dropWhile by_assistant ms'"
      let ?head = "text_msg ''assistant'' (joined_text (m # ?run))"
      have "push_history acc m = acc @ [text_msg ''assistant'' (nm_content m)]"
        using True 1(3) by (auto simp: push_history_def by_assistant_def ends_open_def)
      then have "foldl push_history acc ms = foldl push_history (foldl push_history (acc @ [text_msg ''assistant'' (nm_content m)]) ?run) ?rest"
        unfolding Cons foldl_Cons using foldl_append [of push_history _ ?run ?rest] by (simp only: takeWhile_dropWhile_id)
      also have "foldl push_history (acc @ [text_msg ''assistant'' (nm_content m)]) ?run = acc @ [?head]"
      proof -
        have "\<forall>m \<in> set ?run. by_assistant m" by (meson set_takeWhileD)
        from push_run [OF this, of acc "nm_content m"] show ?thesis by (simp only: joined_text_def list.map)
      qed
      also have "foldl push_history (acc @ [?head]) ?rest = (acc @ [?head]) @ provider_runs ?rest"
      proof (cases ?rest)
        case (Cons u us)
        then have "set (u # us) \<subseteq> set ms'" "length (u # us) \<le> length ms'" "\<not> by_assistant u"
          by (metis set_dropWhileD subsetI, metis length_dropWhile_le, metis dropWhile_eq_Cons_conv)
        moreover from this have "nm_role u = ''user''" using 1(2) \<open>ms = m # ms'\<close> by auto
        ultimately show ?thesis using user_turn [of us u "acc @ [?head]"] Cons \<open>ms = m # ms'\<close>
          by (simp add: subset_insertI2)
      next
        case Nil
        show ?thesis unfolding Nil by simp
      qed
      finally show ?thesis using True Cons by simp
    qed
  qed simp
qed

lemma provider_runs_role: "provider_runs ms \<noteq> [] \<Longrightarrow> cm_role (hd (provider_runs ms)) = nm_role (hd ms)"
  by (cases ms) (auto simp: by_assistant_def text_msg_def)

lemma provider_runs_alternate:
  "successively (\<lambda>a b. \<not> (cm_role a = ''assistant'' \<and> cm_role b = ''assistant'')) (provider_runs ms)"
proof (induction ms rule: provider_runs.induct)
  case (2 m ms)
  show ?case
  proof (cases "by_assistant m")
    case True
    have "cm_role (hd (provider_runs (dropWhile by_assistant ms))) \<noteq> ''assistant''" if "provider_runs (dropWhile by_assistant ms) \<noteq> []"
    proof -
      from that have "dropWhile by_assistant ms \<noteq> []" by (metis provider_runs.simps(1))
      with hd_dropWhile [OF this] provider_runs_role [OF that] show ?thesis by (simp add: by_assistant_def)
    qed
    with True 2(1) [OF True] show ?thesis by (auto simp: successively_Cons)
  next
    case False
    with 2(2) [OF False] show ?thesis by (auto simp: successively_Cons text_msg_def by_assistant_def)
  qed
qed simp

text \<open>
  C23: the provider gets the user turns unchanged and in order and, between two of them, one assistant
  message that joins the non-empty assistant rows by blank lines; it never gets two assistant messages in a
  row, and no row of another role.
\<close>

theorem provider_messages_by_turns:
  "history_to_provider_messages h = provider_runs (filter (\<lambda>m. nm_role m = ''user'' \<or> nm_role m = ''assistant'') h) \<and>
   successively (\<lambda>a b. \<not> (cm_role a = ''assistant'' \<and> cm_role b = ''assistant'')) (history_to_provider_messages h)"
proof -
  have "history_to_provider_messages h = [] @ provider_runs (filter (\<lambda>m. nm_role m = ''user'' \<or> nm_role m = ''assistant'') h)"
    unfolding history_to_provider_messages_def
    by (rule push_all_runs) (auto simp: by_assistant_def ends_open_def)
  with provider_runs_alternate show ?thesis by simp
qed

subsection \<open>Tool events and the messages they are shown under\<close>

text \<open>The message of the last segment with text that a loop iteration has seen.\<close>

definition binding :: "string \<Rightarrow> turn_segment list \<Rightarrow> nat \<Rightarrow> string" where
  "binding user gs n =
     (case filter (\<lambda>g. has_segment_text g \<and> tg_iteration g \<le> n) gs of [] \<Rightarrow> user | hs \<Rightarrow> the (tg_message_id (last hs)))"

lemma binding_Cons:
  "binding user (g # gs) n = (if has_segment_text g \<and> tg_iteration g \<le> n then binding (the (tg_message_id g)) gs n else binding user gs n)"
  by (simp add: binding_def split: list.split)

lemma binding_early: "\<forall>g \<in> set gs. n < tg_iteration g \<Longrightarrow> binding user gs n = user"
  by (simp add: binding_def filter_False not_le split: list.split)

lemma persist_events_bound:
  "persist_events e sid mid rs s = (Inr vs, t) \<Longrightarrow>
     map nt_message_id vs = map (\<lambda>_. Some mid) rs \<and> map nt_id vs = map (\<lambda>r. event_key sid (er_tool_call_id r)) rs"
proof (induction rs arbitrary: e s vs)
  case (Cons r rs)
  then obtain v ws u where v: "upsert_tool_event e sid (record_input r mid) s = (Inr v, u)"
    and ws: "persist_events (later 1 e) sid mid rs u = (Inr ws, t)" "vs = v # ws"
    by (auto split: sum.splits prod.splits)
  from v have "nt_message_id v = Some mid" "nt_id v = event_key sid (er_tool_call_id r)"
    by (cases rule: upsert_cases; auto simp: record_input_def merge_event_def dest: lookup_by_SomeD)+
  with Cons.IH [OF ws(1)] ws(2) show ?case by simp
qed simp

lemma progress_id: "update_message_progress mid c r s = (Inr m, t) \<Longrightarrow> nm_id m = mid"
  by (auto simp: update_message_progress_def Let_def split: option.splits dest: lookup_by_SomeD)

text \<open>One step of the walk over the segments.\<close>

lemma persist_from_step:
  assumes "persist_from e sid ro bind written pending (g # gs) s = (Inr (final, vs), t)" and "has_segment_text g \<longrightarrow> tg_message_id g \<noteq> None"
  obtains e' bind' written' us ws u where
    "vs = us @ ws" "persist_from e' sid ro bind' written' (dropWhile (\<lambda>r. er_iteration r < tg_iteration g) pending) gs u = (Inr (final, ws), t)"
    "bind' = (if has_segment_text g then the (tg_message_id g) else bind)"
    "map nt_message_id us = map (\<lambda>_. Some bind) (takeWhile (\<lambda>r. er_iteration r < tg_iteration g) pending)"
    "map nt_id us = map (\<lambda>r. event_key sid (er_tool_call_id r)) (takeWhile (\<lambda>r. er_iteration r < tg_iteration g) pending)"
proof -
  let ?early = "takeWhile (\<lambda>r. er_iteration r < tg_iteration g) pending"
  let ?e = "later (length ?early) e"
  from assms(1) obtain us u where us: "persist_events e sid bind ?early s = (Inr us, u)"
    by (auto simp: Let_def split: sum.splits prod.splits)
  note bound = persist_events_bound [OF us]
  show thesis
  proof (cases "has_segment_text g")
    case False
    with assms(1) us obtain ws where
      "persist_from ?e sid ro bind written (dropWhile (\<lambda>r. er_iteration r < tg_iteration g) pending) gs u = (Inr (final, ws), t)"
      "vs = us @ ws"
      by (auto simp: Let_def split: sum.splits prod.splits)
    with False bound show thesis by (intro that) auto
  next
    case True
    with assms(2) obtain mid where mid: "tg_message_id g = Some mid" by auto
    from assms(1) us True obtain m v where m: "persist_segment ?e sid ro g u = (Inr m, v)"
      by (auto simp: Let_def split: sum.splits prod.splits)
    then have "nm_id m = mid" using mid progress_id by (auto simp: persist_segment_def)
    with assms(1) us True m obtain ws where
      "persist_from (later 1 ?e) sid ro mid (Some m) (dropWhile (\<lambda>r. er_iteration r < tg_iteration g) pending) gs v = (Inr (final, ws), t)"
      "vs = us @ ws"
      by (auto simp: Let_def split: sum.splits prod.splits)
    with True mid bound show thesis by (intro that) auto
  qed
qed

lemma persist_from_ids:
  "persist_from e sid ro bind written pending gs s = (Inr (final, vs), t) \<Longrightarrow> \<forall>g \<in> set gs. has_segment_text g \<longrightarrow> tg_message_id g \<noteq> None \<Longrightarrow>
     map nt_id vs = map (\<lambda>r. event_key sid (er_tool_call_id r)) pending"
proof (induction gs arbitrary: e bind written pending s vs)
  case Nil
  then show ?case using persist_events_bound by (fastforce split: sum.splits prod.splits)
next
  case (Cons g gs)
  from Cons.prems(2) have "has_segment_text g \<longrightarrow> tg_message_id g \<noteq> None" by simp
  with Cons.prems(1) obtain e' bind' written' us ws u where
    "vs = us @ ws" and rest: "persist_from e' sid ro bind' written' (dropWhile (\<lambda>r. er_iteration r < tg_iteration g) pending) gs u = (Inr (final, ws), t)"
    and "map nt_id us = map (\<lambda>r. event_key sid (er_tool_call_id r)) (takeWhile (\<lambda>r. er_iteration r < tg_iteration g) pending)"
    by (rule persist_from_step)
  moreover from Cons.IH [OF rest] Cons.prems(2)
  have "map nt_id ws = map (\<lambda>r. event_key sid (er_tool_call_id r)) (dropWhile (\<lambda>r. er_iteration r < tg_iteration g) pending)" by simp
  ultimately show ?case by (metis map_append takeWhile_dropWhile_id)
qed

lemma persist_from_bound:
  "persist_from e sid ro bind written pending gs s = (Inr (final, vs), t) \<Longrightarrow> \<forall>g \<in> set gs. has_segment_text g \<longrightarrow> tg_message_id g \<noteq> None \<Longrightarrow>
     sorted (map er_iteration pending) \<Longrightarrow> sorted_wrt (<) (map tg_iteration gs) \<Longrightarrow>
     map nt_message_id vs = map (\<lambda>r. Some (binding bind gs (er_iteration r))) pending"
proof (induction gs arbitrary: e bind written pending s vs)
  case Nil
  then show ?case using persist_events_bound by (fastforce simp: binding_def split: sum.splits prod.splits)
next
  case (Cons g gs)
  let ?P = "\<lambda>r. er_iteration r < tg_iteration g"
  from Cons.prems(2) have "has_segment_text g \<longrightarrow> tg_message_id g \<noteq> None" by simp
  with Cons.prems(1) obtain e' bind' written' us ws u where
    vs: "vs = us @ ws" and rest: "persist_from e' sid ro bind' written' (dropWhile ?P pending) gs u = (Inr (final, ws), t)"
    and bind': "bind' = (if has_segment_text g then the (tg_message_id g) else bind)"
    and us: "map nt_message_id us = map (\<lambda>_. Some bind) (takeWhile ?P pending)"
    by (rule persist_from_step)
  have "sorted (map er_iteration (dropWhile ?P pending))"
    using Cons.prems(3) by (metis map_append sorted_append takeWhile_dropWhile_id)
  with Cons.IH [OF rest] Cons.prems(2,4)
  have ws: "map nt_message_id ws = map (\<lambda>r. Some (binding bind' gs (er_iteration r))) (dropWhile ?P pending)" by simp
  have later: "tg_iteration g \<le> er_iteration r" if "r \<in> set (dropWhile ?P pending)" for r
    using that Cons.prems(3)
  proof (induction pending)
    case (Cons a as)
    then show ?case by (cases "?P a") auto
  qed simp
  have "binding bind (g # gs) (er_iteration r) = bind" if "r \<in> set (takeWhile ?P pending)" for r
    using set_takeWhileD [OF that] Cons.prems(4) by (intro binding_early) auto
  then have "map nt_message_id us = map (\<lambda>r. Some (binding bind (g # gs) (er_iteration r))) (takeWhile ?P pending)"
    unfolding us by (simp cong: map_cong)
  moreover have "map nt_message_id ws = map (\<lambda>r. Some (binding bind (g # gs) (er_iteration r))) (dropWhile ?P pending)"
    unfolding ws using later by (auto simp: binding_Cons bind' intro: map_cong)
  ultimately have "map nt_message_id vs =
      map (\<lambda>r. Some (binding bind (g # gs) (er_iteration r))) (takeWhile ?P pending @ dropWhile ?P pending)"
    by (simp add: vs del: takeWhile_dropWhile_id)
  then show ?case by simp
qed

text \<open>
  When the iterations of a turn's segments increase and those of its tool events do not decrease, every
  event is stored, in order, under the message of the last segment with text that came before it, and under
  the user's message when there is none.
\<close>

theorem events_follow_their_text:
  assumes "persist_turn_segments e sid user segments records ro s = (Inr (final, vs), t)"
    and "\<forall>g \<in> set segments. has_segment_text g \<longrightarrow> tg_message_id g \<noteq> None"
    and "sorted (map er_iteration records)" and "sorted_wrt (<) (map tg_iteration segments)"
  shows "map nt_message_id vs = map (\<lambda>r. Some (binding user segments (er_iteration r))) records \<and>
    map nt_id vs = map (\<lambda>r. event_key sid (er_tool_call_id r)) records"
  using persist_from_bound [OF _ assms(2-4)] persist_from_ids [OF _ assms(2)] assms(1)
  by (simp add: persist_turn_segments_def)

text \<open>
  The condition on the iterations is needed. After a steering message the loop counts from 0 again: an event
  of the first stretch, at an iteration after the segments of the second one, is then stored under the
  answer to the steering message.
\<close>

lemma restarted_count_moves_events:
  assumes "persist_turn_segments e sid user segments (r # records) ro s = (Inr (final, vs), t)"
    and "\<forall>g \<in> set segments. has_segment_text g \<longrightarrow> tg_message_id g \<noteq> None"
    and "\<forall>g \<in> set segments. tg_iteration g \<le> er_iteration r" and "filter has_segment_text segments \<noteq> []"
  shows "map nt_message_id vs = map (\<lambda>_. tg_message_id (last (filter has_segment_text segments))) (r # records)"
proof -
  have "map nt_message_id vs = map (\<lambda>_. Some (binding user gs (er_iteration r))) (r # records)"
    if "persist_from e sid ro user w (r # records) gs s = (Inr (final, vs), t)"
      "\<forall>g \<in> set gs. (has_segment_text g \<longrightarrow> tg_message_id g \<noteq> None) \<and> tg_iteration g \<le> er_iteration r" for gs user w e s vs
    using that
  proof (induction gs arbitrary: e user w s vs)
    case Nil
    then obtain ws where "persist_events e sid user (r # records) s = (Inr ws, t)" "vs = ws"
      by (auto split: sum.splits prod.splits simp del: persist_events.simps)
    with persist_events_bound [OF this(1)] show ?case by (simp add: binding_def)
  next
    case (Cons g gs)
    from Cons.prems(2) have g: "has_segment_text g \<longrightarrow> tg_message_id g \<noteq> None" "tg_iteration g \<le> er_iteration r" by simp_all
    from Cons.prems(1) g(1) obtain e' bind' written' us ws u where vs: "vs = us @ ws"
      and rest: "persist_from e' sid ro bind' written' (dropWhile (\<lambda>q. er_iteration q < tg_iteration g) (r # records)) gs u = (Inr (final, ws), t)"
      and bind': "bind' = (if has_segment_text g then the (tg_message_id g) else user)"
      and us: "map nt_message_id us = map (\<lambda>_. Some user) (takeWhile (\<lambda>q. er_iteration q < tg_iteration g) (r # records))"
      by (rule persist_from_step)
    from us g(2) have "us = []" by simp
    moreover have "map nt_message_id ws = map (\<lambda>_. Some (binding bind' gs (er_iteration r))) (r # records)"
      using rest g(2) Cons.prems(2) by (intro Cons.IH [of e' bind' written' u ws]) simp_all
    ultimately show ?case using vs bind' g(2) by (simp add: binding_Cons)
  qed
  note this [where user = user and gs = segments and w = None and e = e and s = s and vs = vs]
  with assms(1-3)
  have "map nt_message_id vs = map (\<lambda>_. Some (binding user segments (er_iteration r))) (r # records)"
    by (simp add: persist_turn_segments_def)
  moreover have "Some (binding user segments (er_iteration r)) = tg_message_id (last (filter has_segment_text segments))"
  proof -
    have hs: "filter (\<lambda>g. has_segment_text g \<and> tg_iteration g \<le> er_iteration r) segments = filter has_segment_text segments"
      using assms(3) by (intro filter_cong) auto
    have "last (filter has_segment_text segments) \<in> set (filter has_segment_text segments)" using assms(4) by (rule last_in_set)
    then have "tg_message_id (last (filter has_segment_text segments)) \<noteq> None" using assms(2) by simp
    with assms(4) show ?thesis by (auto simp: binding_def hs split: list.split)
  qed
  ultimately show ?thesis by simp
qed

subsection \<open>Steering and the input history\<close>

text \<open>
  C38: a steering message that the running turn took is the last message of the chat; one that no turn took
  is not kept, and the store is as before.
\<close>

theorem steering_is_kept_iff_delivered:
  assumes "chat_ok s" and "steer e running accepted sid content s = (Inr r, t)"
  shows "sr_delivered r = (running \<and> accepted) \<and>
    (if sr_delivered r
     then \<exists>m. sr_message r = Some m \<and> nm_role m = ''user'' \<and> nm_content m = trim content \<and>
       list_messages sid t = list_messages sid s @ [m] \<and> st_events t = st_events s
     else sr_message r = None \<and> t = s)"
proof -
  let ?inp = "\<lambda>x. \<lparr>mi_role = ''user'', mi_content = trim content, mi_reasoning = None, mi_provider = Some (sx_provider_id x),
    mi_model = Some (sx_model_id x), mi_effort = Some (sx_effort_level x)\<rparr>"
  from assms(2) obtain x where x: "get_session sid s = Some x" and "trim content \<noteq> []"
    by (auto simp: steer_def Let_def split: if_splits option.splits)
  show ?thesis
  proof (cases "running \<and> (\<exists>m u. insert_message e sid (?inp x) s = (Inr m, u))")
    case False
    then have "\<not> running"
      using assms(2) x \<open>trim content \<noteq> []\<close> by (auto simp: steer_def Let_def split: if_splits sum.splits prod.splits)
    with assms(2) x \<open>trim content \<noteq> []\<close> show ?thesis by (auto simp: steer_def Let_def)
  next
    case True
    then obtain m u where m: "insert_message e sid (?inp x) s = (Inr m, u)" by auto
    note ins = insert_message_Ok [OF m]
    then have i: "nm_role m = ''user''" "nm_content m = trim content"
      "u = s\<lparr>st_messages := st_messages s @ [m]\<rparr>" "nm_id m \<notin> nm_id ` set (st_messages s)" unfolding message_input.simps by blast+
    have fresh: "\<forall>v \<in> set (st_events s). nt_message_id v \<noteq> Some (nm_id m)"
      using assms(1) i(4) by (auto simp: chat_ok_def list_all_iff exists_image)
    have "list_messages sid (touch_session (later 1 e) sid u) = list_messages sid u" for sid
      by (simp add: list_messages_def of_session_def touch_session_def upd_session_def)
    with said_last [OF m] have "list_messages sid (touch_session (later 1 e) sid u) = list_messages sid s @ [m]" by simp
    moreover have "st_events (touch_session (later 1 e) sid u) = st_events s"
      by (simp add: i(3) touch_session_def upd_session_def)
    moreover have "delete_steer_message (nm_id m) u = s"
    proof -
      have "filter (\<lambda>n. \<not> (nm_id n = nm_id m \<and> nm_role n = ''user'')) (st_messages s) = st_messages s"
        using i(4) by (intro filter_True) (metis imageI)
      moreover have "upd_where (\<lambda>v. nt_message_id v = Some (nm_id m)) f (st_events s) = st_events s" for f
        using fresh by (simp add: upd_where_def map_idI)
      ultimately show ?thesis using i by (simp add: delete_steer_message_def delete_by_role_def)
    qed
    ultimately show ?thesis using assms(2) x True m i \<open>trim content \<noteq> []\<close>
      by (auto simp: steer_def Let_def split: if_splits)
  qed
qed

text \<open>The input history holds each text once, the latest first, and at most a hundred.\<close>

lemma input_history_after:
  "list_input_history (add_input_history c s) = take 100 (c # filter (\<lambda>x. x \<noteq> c) (rev (st_inputs s)))"
proof -
  have "take 100 (rev (drop (length xs - 100) xs)) = take 100 (rev xs)" for xs :: "string list"
    by (cases "length xs \<le> 100") (simp_all add: rev_drop)
  note this [of "filter (\<lambda>x. x \<noteq> c) (st_inputs s) @ [c]"]
  then show ?thesis unfolding list_input_history_def add_input_history_def Let_def by (simp add: rev_filter)
qed

subsection \<open>A sample chat\<close>

definition sample_chat_session :: chat_session where
  "sample_chat_session = \<lparr>sx_id = ''s1'', sx_project_path = ''/p'', sx_title = ''New chat'', sx_provider_id = ''acme'',
     sx_model_id = ''m'', sx_effort_level = ''none'', sx_run_state = ''idle'', sx_plan_mode = False, sx_parent = None,
     sx_created_at = 1, sx_updated_at = 1, sx_call_id = None, sx_subagent_name = None, sx_subagent_status = None,
     sx_subagent_index = None\<rparr>"

definition sample_message :: "string \<Rightarrow> string \<Rightarrow> int \<Rightarrow> chat_message" where
  "sample_message i role n = \<lparr>nm_id = i, nm_session_id = ''s1'', nm_role = role, nm_content = i, nm_reasoning = None,
     nm_sort_order = n, nm_provider_id = None, nm_model_id = None, nm_effort_level = None, nm_created_at = n\<rparr>"

definition sample_chat :: chat_store where
  "sample_chat = \<lparr>st_sessions = [sample_chat_session],
     st_messages = [sample_message ''u1'' ''user'' 1, sample_message ''a1'' ''assistant'' 2, sample_message ''u2'' ''user'' 3,
       sample_message ''u3'' ''user'' 4],
     st_events = [], st_compactions = [], st_todos = [], st_inputs = []\<rparr>"

definition sample_segment :: "string \<Rightarrow> nat \<Rightarrow> turn_segment" where
  "sample_segment i n = \<lparr>tg_content = ''text'', tg_reasoning = None, tg_iteration = n, tg_message_id = Some i\<rparr>"

definition sample_record :: "string \<Rightarrow> nat \<Rightarrow> tool_event_record" where
  "sample_record i n = \<lparr>er_tool_name = ''read'', er_status = ''completed'', er_summary = ''ok'', er_arguments = None,
     er_decision = ''allow'', er_rule_source = None, er_diff = None, er_iteration = n, er_tool_call_id = i\<rparr>"

definition sample_route :: route where
  "sample_route = \<lparr>ro_provider = ''acme'', ro_model = ''m'', ro_effort = ''none''\<rparr>"

theorem chat_invariant_witness:
  "chat_ok (fold chat_step [(sample_later, Compact (\<lambda>_. Ok ''sum'') ''s1''), (sample_later, Clear ''s1'')] sample_chat)"
  by (rule chat_invariant) code_simp

theorem compaction_moves_the_start_witness:
  "\<exists>r t. run_compaction sample_later (\<lambda>_. Ok ''sum'') ''s1'' sample_chat = (Inr r, t) \<and>
     active_history ''s1'' t = [sample_message ''u2'' ''user'' 3, sample_message ''u3'' ''user'' 4]"
proof -
  let ?c = "run_compaction sample_later (\<lambda>_. Ok ''sum'') ''s1'' sample_chat"
  have facts: "cut_of ''s1'' sample_chat = Some 2" "chat_ok sample_chat" "trim ''sum'' \<noteq> []" by code_simp+
  have "insert_checked nc_id tab True c (st_compactions sample_chat) = Inr [c]"
    "insert_checked nt_id tab True v (st_events sample_chat) = Inr [v]" for tab c v
    by (simp_all add: insert_checked_Ok sample_chat_def)
  moreover have "chat_exists ''s1'' (sample_chat\<lparr>st_compactions := cs\<rparr>)" "chat_exists ''s1'' sample_chat"
    "message_exists (Some ''a1'') (sample_chat\<lparr>st_compactions := cs\<rparr>)" for cs
    by (simp_all add: exists_image sample_chat_def sample_message_def sample_chat_session_def)
  moreover have "nm_id (active_history ''s1'' sample_chat ! Suc 0) = ''a1''" by code_simp
  ultimately have "\<not> isl (fst ?c)" using facts by (simp add: run_compaction_def Let_def)
  then obtain r t where c: "?c = (Inr r, t)" by (cases ?c; cases "fst ?c") auto
  have "drop 2 (active_history ''s1'' sample_chat) = [sample_message ''u2'' ''user'' 3, sample_message ''u3'' ''user'' 4]"
    "st_compactions sample_chat = []" by code_simp+
  with compaction_moves_the_start [OF facts(2) c, of "[]"] facts(1) c show ?thesis by auto
qed

theorem events_follow_their_text_witness:
  "\<exists>final vs t. persist_turn_segments sample_later ''s1'' ''u3'' [sample_segment ''a1'' 1]
       [sample_record ''t0'' 0, sample_record ''t1'' 1] sample_route sample_chat = (Inr (final, vs), t) \<and>
     map nt_message_id vs = [Some ''u3'', Some ''a1'']"
proof -
  let ?p = "persist_turn_segments sample_later ''s1'' ''u3'' [sample_segment ''a1'' 1]
       [sample_record ''t0'' 0, sample_record ''t1'' 1] sample_route sample_chat"
  have "\<not> isl (fst ?p)" by code_simp
  then obtain final vs t where p: "?p = (Inr (final, vs), t)" by (cases ?p; cases "fst ?p") auto
  have "binding ''u3'' [sample_segment ''a1'' 1] 0 = ''u3''" "binding ''u3'' [sample_segment ''a1'' 1] 1 = ''a1''"
    "tg_message_id (sample_segment ''a1'' 1) \<noteq> None" "er_iteration (sample_record ''t0'' 0) = 0"
    "er_iteration (sample_record ''t1'' 1) = 1" by code_simp+
  with events_follow_their_text [OF p] p show ?thesis by simp
qed

theorem steering_is_kept_iff_delivered_witness:
  "\<exists>r t m. steer sample_later True True ''s1'' ''go'' sample_chat = (Inr r, t) \<and>
     list_messages ''s1'' t = list_messages ''s1'' sample_chat @ [m] \<and> nm_content m = ''go''"
proof -
  let ?p = "steer sample_later True True ''s1'' ''go'' sample_chat"
  have "\<not> isl (fst ?p)" by code_simp
  then obtain r t where p: "?p = (Inr r, t)" by (cases ?p; cases "fst ?p") auto
  have "chat_ok sample_chat" "trim ''go'' = ''go''" by code_simp+
  with steering_is_kept_iff_delivered [OF this(1) p] p show ?thesis by auto
qed

end
