(* ===== verification/AgentLoopProps.thy ===== *)
theory AgentLoopProps
  imports AgentLoop ChatStoreProps
begin

text \<open>
  The loop of an agent turn: the budget of the history it sends, that it ends, what it leaves in the
  transcript, and how its tool events meet the rules of the transcript.
\<close>

subsection \<open>Trimming\<close>

lemma estimate_nonneg [simp]: "0 \<le> estimate_tokens s"
  by (simp add: estimate_tokens_def Let_def)

lemma messages_tokens_simps [simp]:
  "messages_tokens [] = 0" "messages_tokens (m # ms) = estimate_tokens (cm_content m) + messages_tokens ms"
  "messages_tokens (ms @ ns) = messages_tokens ms + messages_tokens ns" "messages_tokens (rev ms) = messages_tokens ms"
  by (simp_all add: messages_tokens_def rev_map [symmetric])

lemma messages_tokens_nonneg [simp]: "0 \<le> messages_tokens ms"
  by (induction ms) simp_all

definition paired :: "chat_msg list \<Rightarrow> bool" where
  "paired ms \<longleftrightarrow> successively (\<lambda>a b. is_tool b \<longrightarrow> has_calls a) ms"

lemma is_tool_no_calls: "is_tool m \<Longrightarrow> \<not> has_calls m"
  by (simp add: is_tool_def has_calls_def)

lemma trim_walk_spec:
  assumes "trim_walk available used skipping kept ms = (out, sk)"
    and "skipping \<longleftrightarrow> kept \<noteq> [] \<and> is_tool (hd kept)" and "paired kept"
  shows "\<exists>ks. out = ks @ kept \<and> subseq ks (rev ms) \<and> paired out \<and> (ks = [] \<or> used + messages_tokens ks \<le> available)"
  using assms
proof (induction available used skipping kept ms rule: trim_walk.induct)
  case (2 available used skipping kept m ms)
  consider (skip) "skipping" "\<not> has_calls m"
    | (full) "\<not> (skipping \<and> \<not> has_calls m)" "used + estimate_tokens (cm_content m) > available"
    | (keep) "\<not> (skipping \<and> \<not> has_calls m)" "\<not> used + estimate_tokens (cm_content m) > available" by blast
  then show ?case
  proof cases
    case skip
    then have "trim_walk available used True kept ms = (out, sk)" "True \<longleftrightarrow> kept \<noteq> [] \<and> is_tool (hd kept)"
      using 2(3,4) by simp_all
    from 2(1) [OF _ this 2(5)] skip obtain ks where
      "out = ks @ kept" "subseq ks (rev ms)" "paired out" "ks = [] \<or> used + messages_tokens ks \<le> available" by blast
    then show ?thesis by (intro exI [of _ ks]) (simp add: list_emb_prefix)
  next
    case full
    then have "out = kept" using 2(3) by auto
    with 2(5) show ?thesis by simp
  next
    case keep
    have "paired (m # kept)" using 2(4,5) keep(1) by (cases kept) (auto simp: paired_def successively_Cons)
    moreover have "trim_walk available (used + estimate_tokens (cm_content m)) (is_tool m) (m # kept) ms = (out, sk)"
      using keep 2(3) by auto
    ultimately obtain ks where ks: "out = ks @ m # kept" "subseq ks (rev ms)" "paired out"
      "ks = [] \<or> used + estimate_tokens (cm_content m) + messages_tokens ks \<le> available"
      using 2(2) [OF keep] by (metis list.sel(1) list.distinct(1))
    moreover have "subseq (ks @ [m]) (rev (m # ms))" using ks(2) by simp
    ultimately show ?thesis using keep(2) by (intro exI [of _ "ks @ [m]"]) auto
  qed
qed simp

text \<open>
  C30: a history that fits the budget is sent as it is. Of one that does not fit, the provider gets some of the
  messages, in order, that fit together with the system prompt or none at all, and every tool result but a
  leading one stands right after an assistant message with calls; so of several results of one answer only
  the last is sent.
\<close>

theorem trimmed_history_fits:
  assumes "trim_to_budget ms system budget = (out, shorter)"
  shows "subseq out ms \<and>
    (if shorter then available_tokens budget < estimate_tokens system + messages_tokens ms \<and> paired out \<and>
       (out = [] \<or> estimate_tokens system + messages_tokens out \<le> available_tokens budget)
     else out = ms \<and> estimate_tokens system + messages_tokens ms \<le> available_tokens budget)"
proof (cases "estimate_tokens system + messages_tokens ms \<le> available_tokens budget")
  case True
  with assms show ?thesis by (auto simp: trim_to_budget_def Let_def)
next
  case False
  obtain kept sk where w: "trim_walk (available_tokens budget) (estimate_tokens system) False [] (rev ms) = (kept, sk)" by fastforce
  from trim_walk_spec [OF this] have kept: "subseq kept ms" "paired kept"
    "kept = [] \<or> estimate_tokens system + messages_tokens kept \<le> available_tokens budget" by (auto simp: paired_def)
  have out: "out = (if sk then dropWhile is_tool kept else kept)" "shorter"
    using assms False w by (auto simp: trim_to_budget_def Let_def)
  have split: "kept = takeWhile is_tool kept @ dropWhile is_tool kept" by simp
  have "subseq (dropWhile is_tool kept) kept" by (metis split list_emb_append2 subseq_order.order_refl)
  moreover have "paired (dropWhile is_tool kept)"
    using kept(2) by (metis split paired_def successively_append_iff)
  moreover have "messages_tokens (dropWhile is_tool kept) \<le> messages_tokens kept"
    by (metis split messages_tokens_simps(3) messages_tokens_nonneg add_increasing order_refl)
  ultimately show ?thesis using kept out False subseq_order.trans by (cases sk) force+
qed

lemma walk_plain:
  "\<forall>m \<in> set ms. \<not> is_tool m \<Longrightarrow> used + messages_tokens ms \<le> available \<Longrightarrow>
     trim_walk available used False kept (ms @ ns) = trim_walk available (used + messages_tokens ms) False (rev ms @ kept) ns"
proof (induction ms arbitrary: used kept)
  case (Cons m ms)
  moreover have "used + estimate_tokens (cm_content m) \<le> available"
    using Cons.prems(2) messages_tokens_nonneg [of ms] unfolding messages_tokens_simps by linarith
  ultimately show ?case by (simp add: add.assoc)
qed simp

text \<open>
  A tool result that fits is sent without the assistant message that called the tool when that message
  does not fit, though the rows are walked back to avoid just this.
\<close>

theorem orphan_result_is_sent:
  assumes "has_calls a" and "is_tool t" and "\<forall>m \<in> set post. \<not> is_tool m"
    and "estimate_tokens system + messages_tokens (t # post) \<le> available_tokens budget"
    and "available_tokens budget < estimate_tokens system + messages_tokens (a # t # post)"
  shows "trim_to_budget (pre @ a # t # post) system budget = (t # post, True)"
proof -
  have "estimate_tokens system + messages_tokens (rev post) \<le> available_tokens budget"
    using assms(4) estimate_nonneg [of "cm_content t"] unfolding messages_tokens_simps by linarith
  from walk_plain [OF _ this, of "[]" "t # a # rev pre"] assms
  have "trim_walk (available_tokens budget) (estimate_tokens system) False [] (rev (pre @ a # t # post)) = (t # post, False)"
    using is_tool_no_calls [OF assms(2)]
    by (auto simp: is_tool_def has_calls_def)
  moreover have "\<not> estimate_tokens system + messages_tokens (pre @ a # t # post) \<le> available_tokens budget"
    using assms(5) messages_tokens_nonneg [of pre] unfolding messages_tokens_simps by linarith
  ultimately show ?thesis by (simp add: trim_to_budget_def Let_def)
qed

subsection \<open>The end of the loop\<close>

lemma arrivals_fields [simp]:
  "lp_turn (arrivals e sid cs s) = lp_turn s" "lp_messages (arrivals e sid cs s) = lp_messages s"
  "lp_iteration (arrivals e sid cs s) = lp_iteration s" "lp_retries (arrivals e sid cs s) = lp_retries s"
  "lp_segments (arrivals e sid cs s) = lp_segments s" "lp_events (arrivals e sid cs s) = lp_events s"
  by (induction e sid cs s rule: arrivals.induct) (auto split: sum.split prod.split)

lemma apply_steers_fields [simp]:
  "lp_turn (apply_steers s) = lp_turn s" "lp_segments (apply_steers s) = lp_segments s" "lp_events (apply_steers s) = lp_events s"
  "lp_queue (apply_steers s) = []" "lp_store (apply_steers s) = lp_store s"
  by (simp_all add: apply_steers_def)

lemma nudge_fields [simp]:
  "lp_turn (nudge s) = lp_turn s" "lp_segments (nudge s) = lp_segments s" "lp_events (nudge s) = lp_events s"
  "lp_iteration (nudge s) = lp_iteration s" "lp_queue (nudge s) = lp_queue s" "lp_store (nudge s) = lp_store s"
  by (simp_all add: nudge_def)

lemma broken_continues:
  "broken_turn err content reasoning draft s = Continue t \<Longrightarrow> t = nudge (s\<lparr>lp_store := drop_draft draft (lp_store s)\<rparr>)"
  by (auto simp: broken_turn_def ends_def Let_def split: if_splits)

text \<open>After a turn that goes on, the count has moved by one, unless steering messages set it back.\<close>

definition moved_on :: "loop_state \<Rightarrow> loop_state \<Rightarrow> bool" where
  "moved_on s t \<longleftrightarrow> lp_turn t = lp_turn s \<and>
     (lp_iteration t = lp_iteration s \<and> lp_queue t = lp_queue s \<or> lp_queue s \<noteq> [] \<and> lp_queue t = [] \<and> lp_iteration t = 0)"

lemma moved_on_apply: "lp_queue s = q \<Longrightarrow> moved_on s (apply_steers s)"
  by (auto simp: moved_on_def apply_steers_def)

lemma calls_move_on:
  assumes "run_calls w c e plan_mode draft r s = Continue t"
  shows "lp_turn t = lp_turn s \<and> (lw_steers_during w (lp_turn s) = [] \<longrightarrow> moved_on s t)"
  using assms by (auto simp: run_calls_def Let_def moved_on_def apply_steers_def split: option.splits)

lemma answer_moves_on:
  assumes "answered_turn w c e plan_mode q draft r s = Continue t"
  shows "lp_turn t = lp_turn s \<and> (lw_steers_during w (lp_turn s) = [] \<longrightarrow> moved_on s t)"
proof (cases "rp_calls r = []")
  case False
  with assms calls_move_on show ?thesis by (fastforce simp: answered_turn_def Let_def moved_on_def)
next
  case True
  with assms show ?thesis
    by (auto simp: answered_turn_def Let_def moved_on_def ends_def apply_steers_def split: if_splits)
qed

lemma ask_moves_on:
  assumes "ask_provider w c e s = Continue t"
  shows "lp_turn t = lp_turn s \<and> (lw_steers_during w (lp_turn s) = [] \<longrightarrow> moved_on s t)"
proof (cases "lw_answer w (lp_turn s) (request_of c (plan_mode_of c s) (fst (trim_to_budget (lp_messages s)
    (system_for_turn (lc_system c) (plan_mode_of c s)) (context_budget (lw_window w (lp_turn s))))))")
  case (Answered r)
  with assms show ?thesis by (fastforce simp: ask_provider_def Let_def moved_on_def dest: answer_moves_on)
next
  case (Broken err content reasoning)
  with assms show ?thesis by (auto simp: ask_provider_def Let_def moved_on_def dest!: broken_continues)
qed

lemma turn_moves_on:
  assumes "loop_turn w c s = Continue t"
  shows "lp_turn t = Suc (lp_turn s) \<and> lp_iteration s < MAX_ITERATIONS \<and>
    (lw_steers_before w (lp_turn s) = [] \<longrightarrow> lw_steers_during w (lp_turn s) = [] \<longrightarrow>
       lp_iteration t = Suc (lp_iteration s) \<and> lp_queue t = lp_queue s \<or>
       lp_queue s \<noteq> [] \<and> lp_queue t = [] \<and> lp_iteration t = 0)"
proof -
  let ?n = "lp_turn s"
  let ?s = "(arrivals (lw_clock w ?n) (lc_session c) (lw_steers_before w ?n) s)\<lparr>lp_iteration := Suc (lp_iteration s)\<rparr>"
  from assms obtain u where
    u: "ask_provider w c (later (2 * length (lw_steers_before w ?n)) (lw_clock w ?n)) ?s = Continue u" "t = u\<lparr>lp_turn := Suc ?n\<rparr>"
    and it: "lp_iteration s < MAX_ITERATIONS"
    by (auto simp: loop_turn_def Let_def ends_def split: if_splits loop_step.splits)
  from ask_moves_on [OF u(1)] u(2) it show ?thesis by (auto simp: moved_on_def)
qed

text \<open>The most turns left when no message will arrive any more.\<close>

definition turns_left :: "loop_state \<Rightarrow> nat" where
  "turns_left s = (if lp_queue s = [] then 0 else MAX_ITERATIONS + 1) + (MAX_ITERATIONS + 1 - lp_iteration s)"

lemma quiet_loop_ends:
  "\<forall>n \<ge> lp_turn s. lw_steers_before w n = [] \<and> lw_steers_during w n = [] \<Longrightarrow> turns_left s \<le> fuel \<Longrightarrow> 0 < fuel \<Longrightarrow>
     run_loop w c fuel s \<noteq> None"
proof (induction fuel arbitrary: s)
  case (Suc fuel)
  show ?case
  proof (cases "loop_turn w c s")
    case (Continue t)
    from turn_moves_on [OF this] Suc.prems(1) have
      t: "lp_turn t = Suc (lp_turn s)" "lp_iteration s < MAX_ITERATIONS"
      "lp_iteration t = Suc (lp_iteration s) \<and> lp_queue t = lp_queue s \<or> lp_queue s \<noteq> [] \<and> lp_queue t = [] \<and> lp_iteration t = 0"
      by auto
    then have "turns_left t < turns_left s" "0 < turns_left t" by (auto simp: turns_left_def)
    with Suc.IH [of t] Suc.prems t(1) Continue show ?thesis by simp
  qed simp_all
qed simp

lemma run_loop_mono: "run_loop w c fuel s = Some r \<Longrightarrow> fuel \<le> fuel' \<Longrightarrow> run_loop w c fuel' s = Some r"
proof (induction fuel arbitrary: fuel' s)
  case (Suc fuel)
  then obtain k where "fuel' = Suc k" "fuel \<le> k" by (cases fuel') auto
  with Suc show ?case by (auto split: loop_step.splits)
qed simp

lemma noisy_loop_ends:
  assumes "\<forall>n \<ge> N. lw_steers_before w n = [] \<and> lw_steers_during w n = []"
  shows "run_loop w c ((N - lp_turn s) + 2 * (MAX_ITERATIONS + 1)) s \<noteq> None"
proof (induction "N - lp_turn s" arbitrary: s)
  case 0
  have "turns_left s \<le> 2 * (MAX_ITERATIONS + 1)" by (auto simp: turns_left_def)
  with 0 assms show ?case by (intro quiet_loop_ends) auto
next
  case (Suc k)
  show ?case
  proof (cases "loop_turn w c s")
    case (Continue t)
    from turn_moves_on [OF this] have "lp_turn t = Suc (lp_turn s)" by simp
    with Suc.hyps(2) have k: "k = N - lp_turn t" by simp
    from Suc.hyps(1) [OF k] Continue show ?thesis unfolding Suc.hyps(2) [symmetric] k [symmetric] by simp
  qed (simp_all flip: Suc.hyps(2))
qed

text \<open>
  C8: a turn of the agent ends: without steering messages after at most a hundred provider requests, and
  when the messages stop arriving after \<open>N\<close> turns, whatever the provider and the tools do, at most 202 turns
  later; more fuel does not change the result.
\<close>

theorem agent_loop_ends:
  assumes "\<forall>n \<ge> N. lw_steers_before w n = [] \<and> lw_steers_during w n = []"
  shows "\<exists>r. (\<forall>fuel \<ge> N + 202. run_loop w c fuel (initial_state msgs s) = Some r) \<and>
    (N = 0 \<longrightarrow> run_loop w c 101 (initial_state msgs s) = Some r)"
proof -
  have "run_loop w c (N + 202) (initial_state msgs s) \<noteq> None"
    using noisy_loop_ends [OF assms, of c "initial_state msgs s"] by (simp add: initial_state_def MAX_ITERATIONS_def)
  then obtain r where r: "run_loop w c (N + 202) (initial_state msgs s) = Some r" by auto
  have "run_loop w c 101 (initial_state msgs s) \<noteq> None" if "N = 0"
    using that assms by (intro quiet_loop_ends) (auto simp: initial_state_def turns_left_def MAX_ITERATIONS_def)
  with r run_loop_mono [of w c 101 _ _ "N + 202"] have "N = 0 \<longrightarrow> run_loop w c 101 (initial_state msgs s) = Some r" by fastforce
  with r run_loop_mono show ?thesis by blast
qed

subsection \<open>What a run leaves in the transcript\<close>

definition row_text :: "chat_message \<Rightarrow> string option \<times> string \<times> string option" where
  "row_text m = (Some (nm_id m), nm_content m, nm_reasoning m)"

definition segment_text :: "turn_segment \<Rightarrow> string option \<times> string \<times> string option" where
  "segment_text g = (tg_message_id g, tg_content g, tg_reasoning g)"

definition written :: "turn_segment list \<Rightarrow> turn_segment list" where
  "written gs = filter (\<lambda>g. tg_message_id g \<noteq> None) gs"

definition by_user :: "chat_message \<Rightarrow> bool" where
  "by_user m \<longleftrightarrow> nm_role m = ''user''"

lemma by_user_not_assistant: "by_user m \<Longrightarrow> \<not> by_assistant m"
  by (simp add: by_user_def by_assistant_def)

text \<open>The rows after the old ones are user rows and one assistant row for each written segment.\<close>

definition matching :: "chat_message list \<Rightarrow> turn_segment list \<Rightarrow> bool" where
  "matching new gs \<longleftrightarrow> (\<forall>m \<in> set new. by_assistant m \<or> by_user m) \<and>
     map row_text (filter by_assistant new) = map segment_text (written gs)"

definition grows :: "chat_store \<Rightarrow> turn_segment list \<Rightarrow> chat_store \<Rightarrow> bool" where
  "grows s0 gs s \<longleftrightarrow> (\<exists>new. st_messages s = st_messages s0 @ new \<and> matching new gs \<and>
     nm_id ` set new \<inter> nm_id ` set (st_messages s0) = {})"

text \<open>The same while the draft of a turn is open.\<close>

definition drafted :: "chat_store \<Rightarrow> turn_segment list \<Rightarrow> string option \<Rightarrow> chat_store \<Rightarrow> bool" where
  "drafted s0 gs draft s \<longleftrightarrow>
     (case draft of
        None \<Rightarrow> grows s0 gs s
      | Some mid \<Rightarrow> \<exists>new m us. st_messages s = st_messages s0 @ new @ m # us \<and> matching new gs \<and> nm_id m = mid \<and>
          by_assistant m \<and> list_all by_user us \<and> nm_id ` (set new \<union> set us) \<inter> nm_id ` set (st_messages s0) = {} \<and> mid \<notin> nm_id ` (set (st_messages s0) \<union> set new \<union> set us))"

lemma drafted_SomeE:
  assumes "drafted s0 gs draft s" and "draft = Some mid"
  obtains new m us where "st_messages s = st_messages s0 @ new @ m # us" "matching new gs" "nm_id m = mid" "by_assistant m"
    "list_all by_user us" "mid \<notin> nm_id ` (set (st_messages s0) \<union> set new \<union> set us)"
    "nm_id ` (set new \<union> set us) \<inter> nm_id ` set (st_messages s0) = {}"
  using assms by (auto simp: drafted_def)

lemma drafted_SomeI:
  assumes "st_messages s = st_messages s0 @ new @ m # us" "matching new gs" "by_assistant m" "list_all by_user us"
    "nm_id m \<notin> nm_id ` (set (st_messages s0) \<union> set new \<union> set us)"
    "nm_id ` (set new \<union> set us) \<inter> nm_id ` set (st_messages s0) = {}"
  shows "drafted s0 gs (Some (nm_id m)) s"
  unfolding drafted_def option.case using assms by (intro exI [of _ new] exI [of _ m] exI [of _ us] conjI) simp_all

lemma users_no_assistants: "list_all by_user us \<Longrightarrow> filter by_assistant us = []"
  by (induction us) (auto simp: by_user_not_assistant)

lemma matching_users: "matching new gs \<Longrightarrow> list_all by_user us \<Longrightarrow> matching (new @ us) gs"
  by (auto simp: matching_def users_no_assistants list_all_iff)

definition adds_users :: "chat_store \<Rightarrow> chat_store \<Rightarrow> bool" where
  "adds_users s t \<longleftrightarrow> (\<exists>us. st_messages t = st_messages s @ us \<and> list_all by_user us \<and> nm_id ` set us \<inter> nm_id ` set (st_messages s) = {})"

lemma adds_users_refl: "st_messages t = st_messages s \<Longrightarrow> adds_users s t"
  by (simp add: adds_users_def)

lemma adds_users_trans:
  assumes "adds_users s t" and "adds_users t u"
  shows "adds_users s u"
proof -
  from assms obtain us vs where us: "st_messages t = st_messages s @ us" "list_all by_user us" "nm_id ` set us \<inter> nm_id ` set (st_messages s) = {}"
    and vs: "st_messages u = st_messages t @ vs" "list_all by_user vs" "nm_id ` set vs \<inter> nm_id ` set (st_messages t) = {}"
    unfolding adds_users_def by blast
  from vs(3) us(1) have "nm_id ` set vs \<inter> nm_id ` set (st_messages s) = {}" by auto
  with us vs show ?thesis unfolding adds_users_def by (intro exI [of _ "us @ vs"]) (simp add: image_Un Int_Un_distrib2)
qed

lemma grows_users:
  assumes "grows s0 gs s" and "adds_users s t"
  shows "grows s0 gs t"
proof -
  from assms(1) obtain new where new: "st_messages s = st_messages s0 @ new" "matching new gs"
    "nm_id ` set new \<inter> nm_id ` set (st_messages s0) = {}" by (auto simp: grows_def)
  from assms(2) obtain us where us: "st_messages t = st_messages s @ us" "list_all by_user us"
    "nm_id ` set us \<inter> nm_id ` set (st_messages s) = {}" by (auto simp: adds_users_def)
  from us(3) new(1) have "nm_id ` set us \<inter> nm_id ` set (st_messages s0) = {}" by auto
  with new us matching_users [OF new(2) us(2)] show ?thesis
    unfolding grows_def by (intro exI [of _ "new @ us"]) (simp add: image_Un Int_Un_distrib2)
qed

lemma drafted_users:
  assumes "drafted s0 gs draft s" and "adds_users s t"
  shows "drafted s0 gs draft t"
proof (cases draft)
  case None
  with assms grows_users show ?thesis by (simp add: drafted_def)
next
  case (Some mid)
  from assms(2) obtain us where us: "st_messages t = st_messages s @ us" "list_all by_user us"
    "nm_id ` set us \<inter> nm_id ` set (st_messages s) = {}" by (auto simp: adds_users_def)
  from assms(1) Some obtain new m vs where m: "st_messages s = st_messages s0 @ new @ m # vs" "matching new gs" "nm_id m = mid"
    "by_assistant m" "list_all by_user vs" "mid \<notin> nm_id ` (set (st_messages s0) \<union> set new \<union> set vs)"
    "nm_id ` (set new \<union> set vs) \<inter> nm_id ` set (st_messages s0) = {}" by (rule drafted_SomeE)
  have "mid \<notin> nm_id ` set us" "nm_id ` set us \<inter> nm_id ` set (st_messages s0) = {}" using us(3) m(1,3) by auto
  moreover have "list_all by_user (vs @ us)" using m(5) us(2) by simp
  ultimately show ?thesis unfolding Some m(3) [symmetric]
    using m us(1) by (intro drafted_SomeI [of _ _ new m "vs @ us"]) (simp_all add: image_Un Int_Un_distrib2)
qed

lemma steer_adds_users: "adds_users s (snd (steer e True True sid c s))"
proof -
  have "adds_users s u" if "insert_message e sid inp s = (Inr m, u)" "mi_role inp = ''user''" for inp m u
    using insert_message_Ok [OF that(1)] that(2) by (auto simp: adds_users_def by_user_def)
  moreover have "st_messages (touch_session e' sid u) = st_messages u" for e' u
    by (simp add: touch_session_def upd_session_def)
  ultimately show ?thesis
    by (auto simp: steer_def Let_def adds_users_def dest!: insert_message_Err split: option.split sum.split prod.split)
qed

lemma arrivals_add_users: "adds_users (lp_store s) (lp_store (arrivals e sid cs s))"
proof (induction e sid cs s rule: arrivals.induct)
  case (2 e sid c cs s)
  from steer_adds_users [of "lp_store s" e sid c] have "adds_users (lp_store s) (snd (steer e True True sid c (lp_store s)))" .
  with 2 show ?case by (auto split: sum.split prod.split intro: adds_users_trans)
qed (simp add: adds_users_refl)

lemma upsert_keeps_messages: "st_messages (snd (upsert_tool_event e sid inp s)) = st_messages s"
  by (cases "upsert_tool_event e sid inp s") (auto elim: upsert_cases)

lemma checkpoint_keeps_messages: "st_messages (checkpoint_calls e sid mid cs s) = st_messages s"
  by (induction e sid mid cs s rule: checkpoint_calls.induct) (simp_all add: upsert_keeps_messages)

lemma results_keep_messages: "st_messages (record_results e f sid mid crs s) = st_messages s"
  by (induction e f sid mid crs s rule: record_results.induct) (simp_all add: upsert_keeps_messages)

lemma upd_where_one:
  "k m \<notin> k ` set xs \<Longrightarrow> k m \<notin> k ` set ys \<Longrightarrow> upd_where (\<lambda>r. k r = k m) f (xs @ m # ys) = xs @ f m # ys"
proof -
  have "map (\<lambda>r. if k r = k m then f r else r) zs = zs" if "k m \<notin> k ` set zs" for zs
    using that by (intro map_idI) (metis imageI)
  then show "k m \<notin> k ` set xs \<Longrightarrow> k m \<notin> k ` set ys \<Longrightarrow> upd_where (\<lambda>r. k r = k m) f (xs @ m # ys) = xs @ f m # ys"
    by (simp add: upd_where_def)
qed

lemma draft_progress:
  assumes "drafted s0 gs draft s"
  shows "drafted s0 gs draft (progress_draft draft content reasoning s) \<and>
    grows s0 (gs @ [segment_of n draft content reasoning]) (progress_draft draft content reasoning s)"
proof (cases draft)
  case None
  with assms show ?thesis by (simp add: drafted_def progress_draft_def grows_def matching_def written_def segment_of_def)
next
  case (Some mid)
  from assms Some obtain new m us where m: "st_messages s = st_messages s0 @ new @ m # us" "matching new gs" "nm_id m = mid"
    "by_assistant m" "list_all by_user us" "mid \<notin> nm_id ` (set (st_messages s0) \<union> set new \<union> set us)"
    "nm_id ` (set new \<union> set us) \<inter> nm_id ` set (st_messages s0) = {}" by (rule drafted_SomeE)
  let ?m = "m\<lparr>nm_content := content, nm_reasoning := reasoning\<rparr>"
  from m(3,6) have rows: "st_messages (progress_draft draft content reasoning s) = st_messages s0 @ new @ ?m # us"
    using upd_where_one [of nm_id m "st_messages s0 @ new" us "\<lambda>m. m\<lparr>nm_content := content, nm_reasoning := reasoning\<rparr>"]
    by (simp add: Some progress_draft_def update_progress_store m(1) image_Un)
  have "matching (new @ ?m # us) (gs @ [segment_of n draft content reasoning])"
    using m(2-5) users_no_assistants [OF m(5)] Some
    by (auto simp: matching_def written_def segment_of_def row_text_def segment_text_def by_assistant_def list_all_iff)
  then have "grows s0 (gs @ [segment_of n draft content reasoning]) (progress_draft draft content reasoning s)"
    unfolding grows_def rows using m(3,6,7) by (intro exI [of _ "new @ ?m # us"]) (simp add: image_Un Int_Un_distrib2)
  moreover have "nm_id ?m = mid" "by_assistant ?m" using m(3,4) by (simp_all add: by_assistant_def)
  with rows m(2,5-7) drafted_SomeI [of "progress_draft draft content reasoning s" s0 new ?m us gs]
  have "drafted s0 gs draft (progress_draft draft content reasoning s)" by (simp add: Some)
  ultimately show ?thesis by simp
qed

lemma draft_dropped:
  assumes "drafted s0 gs draft s"
  shows "grows s0 gs (drop_draft draft s)"
proof (cases draft)
  case None
  with assms show ?thesis by (simp add: drafted_def drop_draft_def)
next
  case (Some mid)
  from assms Some obtain new m us where m: "st_messages s = st_messages s0 @ new @ m # us" "matching new gs" "nm_id m = mid"
    "by_assistant m" "list_all by_user us" "mid \<notin> nm_id ` (set (st_messages s0) \<union> set new \<union> set us)"
    "nm_id ` (set new \<union> set us) \<inter> nm_id ` set (st_messages s0) = {}" by (rule drafted_SomeE)
  have "filter (\<lambda>r. nm_id r = mid \<longrightarrow> nm_role r \<noteq> ''assistant'') xs = xs"
    if "mid \<notin> nm_id ` set xs" for xs :: "chat_message list"
    using that by (intro filter_True) (metis imageI)
  then have "st_messages (drop_draft draft s) = st_messages s0 @ new @ us"
    using m(3,4,6) by (simp add: Some drop_draft_def delete_message_def delete_by_role_def m(1) by_assistant_def image_Un)
  with matching_users [OF m(2,5)] m(7) show ?thesis unfolding grows_def by (intro exI [of _ "new @ us"]) (simp add: image_Un)
qed

lemma draft_opened:
  assumes "grows s0 gs s"
  shows "drafted s0 gs (draft_of (fst (insert_message e sid (draft_input c) s))) (snd (insert_message e sid (draft_input c) s))"
proof (cases "insert_message e sid (draft_input c) s")
  case (Pair row t)
  show ?thesis
  proof (cases row)
    case (Inl err)
    with Pair assms insert_message_Err show ?thesis by (fastforce simp: draft_of_def drafted_def)
  next
    case (Inr m)
    with Pair have "insert_message e sid (draft_input c) s = (Inr m, t)" by simp
    note ok = insert_message_Ok [OF this]
    from ok have "st_messages t = st_messages s @ [m]" by simp
    moreover from ok have "nm_id m \<notin> nm_id ` set (st_messages s)" by blast
    moreover from ok have "by_assistant m" by (simp add: by_assistant_def draft_input_def)
    moreover from assms obtain new where new: "st_messages s = st_messages s0 @ new" "matching new gs"
      "nm_id ` set new \<inter> nm_id ` set (st_messages s0) = {}" by (auto simp: grows_def)
    ultimately have "drafted s0 gs (Some (nm_id m)) t" by (intro drafted_SomeI [of _ _ new m "[]"]) simp_all
    then show ?thesis using Pair Inr by (simp add: draft_of_def)
  qed
qed

text \<open>Every outcome of a turn.\<close>

definition leaves :: "chat_store \<Rightarrow> loop_step \<Rightarrow> bool" where
  "leaves s0 r \<longleftrightarrow> (case r of Continue t \<Rightarrow> grows s0 (lp_segments t) (lp_store t)
     | Finished res t \<Rightarrow> grows s0 (rr_segments res) t | Panicked \<Rightarrow> True)"

lemma leaves_simps [simp]:
  "leaves s0 (Continue t) = grows s0 (lp_segments t) (lp_store t)" "leaves s0 (Finished res u) = grows s0 (rr_segments res) u"
  "leaves s0 Panicked" "leaves s0 (ends content reasoning a b d t) = grows s0 (lp_segments t) (lp_store t)"
  by (simp_all add: leaves_def ends_def result_of_def)

lemma broken_leaves: "drafted s0 (lp_segments s) draft (lp_store s) \<Longrightarrow> leaves s0 (broken_turn err content reasoning draft s)"
  by (simp add: broken_turn_def Let_def draft_dropped draft_progress)

lemma calls_leave:
  assumes "grows s0 (lp_segments s) (lp_store s)"
  shows "leaves s0 (run_calls w c e plan_mode draft r s)"
proof -
  have "grows s0 (lp_segments s) (lp_store (arrivals e' sid cs (s\<lparr>lp_store := t, lp_rules := ru, lp_messages := ms, lp_events := vs\<rparr>)))"
    if "st_messages t = st_messages (lp_store s)" for e' sid cs t ru ms vs
    using grows_users [OF assms adds_users_trans [OF adds_users_refl [OF that] arrivals_add_users
      [of "s\<lparr>lp_store := t, lp_rules := ru, lp_messages := ms, lp_events := vs\<rparr>", simplified]]] .
  then show ?thesis
    by (simp add: run_calls_def Let_def results_keep_messages checkpoint_keeps_messages split: option.split prod.split)
qed

lemma answer_leaves:
  assumes "drafted s0 (lp_segments s) draft (lp_store s)"
  shows "leaves s0 (answered_turn w c e plan_mode q draft r s)"
proof -
  let ?seg = "segment_of (lp_iteration s) draft (rp_content r) (rp_reasoning r)"
  let ?t = "progress_draft draft (rp_content r) (rp_reasoning r) (lp_store s)"
  let ?s = "s\<lparr>lp_usage := record_usage q r (lp_usage s), lp_store := (if has_segment_text ?seg then ?t else drop_draft draft ?t),
    lp_segments := lp_segments s @ (if has_segment_text ?seg then [?seg] else []),
    lp_messages := lp_messages s @ [(text_msg ''assistant'' (rp_content r))\<lparr>cm_tool_calls := rp_calls r\<rparr>]\<rparr>"
  from draft_progress [OF assms] draft_dropped have now: "grows s0 (lp_segments ?s) (lp_store ?s)" by auto
  moreover have "grows s0 (lp_segments ?s) (lp_store (arrivals e sid cs ?s))" for e sid cs
    using grows_users [OF now arrivals_add_users] .
  ultimately show ?thesis unfolding answered_turn_def Let_def by (auto intro: calls_leave)
qed

lemma turn_leaves:
  assumes "grows s0 (lp_segments s) (lp_store s)"
  shows "leaves s0 (loop_turn w c s)"
proof -
  let ?s = "(arrivals (lw_clock w (lp_turn s)) (lc_session c) (lw_steers_before w (lp_turn s)) s)\<lparr>lp_iteration := Suc (lp_iteration s)\<rparr>"
  have s: "grows s0 (lp_segments ?s) (lp_store ?s)" using grows_users [OF assms arrivals_add_users] by simp
  have "leaves s0 (ask_provider w c e ?s)" for e
  proof -
    let ?ins = "insert_message e (lc_session c) (draft_input c) (lp_store ?s)"
    have "drafted s0 (lp_segments ?s) (draft_of (fst ?ins)) (snd ?ins)" using s by (rule draft_opened)
    then show ?thesis unfolding ask_provider_def Let_def
      by (auto split: provider_answer.split intro!: broken_leaves answer_leaves
        intro: drafted_users [OF _ arrivals_add_users [of "?s\<lparr>lp_messages := ms, lp_truncated := tr, lp_store := snd ?ins\<rparr>" for ms tr, simplified]])
  qed
  moreover have "leaves s0 (case r of Continue t \<Rightarrow> Continue (t\<lparr>lp_turn := k\<rparr>) | r' \<Rightarrow> r')" if "leaves s0 r" for r k
    using that by (cases r) simp_all
  ultimately have "leaves s0 (case ask_provider w c e ?s of Continue t \<Rightarrow> Continue (t\<lparr>lp_turn := k\<rparr>) | r' \<Rightarrow> r')"
    for e k by blast
  then show ?thesis unfolding loop_turn_def Let_def using s by simp
qed

lemma run_leaves: "grows s0 (lp_segments s) (lp_store s) \<Longrightarrow> run_loop w c fuel s = Some r \<Longrightarrow> leaves s0 r"
proof (induction fuel arbitrary: s)
  case (Suc fuel)
  from turn_leaves [OF Suc.prems(1), of w c] Suc show ?case by (cases "loop_turn w c s") auto
qed simp

text \<open>
  C9: a run that ends, however it ends, leaves every earlier message as it was and adds, besides the
  steering messages, exactly one assistant row for each segment it reports, in order and with its text: no
  draft without text stays behind and no text is lost.
\<close>

theorem rows_are_the_segments:
  assumes "run_loop w c fuel (initial_state msgs s) = Some (Finished r t)"
  shows "\<exists>new. st_messages t = st_messages s @ new \<and> (\<forall>m \<in> set new. by_assistant m \<or> by_user m) \<and>
    map row_text (filter by_assistant new) = map segment_text (filter (\<lambda>g. tg_message_id g \<noteq> None) (rr_segments r))"
proof -
  have "grows s (lp_segments (initial_state msgs s)) (lp_store (initial_state msgs s))"
    by (simp add: grows_def matching_def written_def initial_state_def)
  from run_leaves [OF this assms] show ?thesis by (auto simp: grows_def matching_def written_def)
qed

subsection \<open>The order of what a run reports\<close>

text \<open>A turn adds at most one segment and the events of its calls, all with its own count.\<close>

definition adds_at :: "nat \<Rightarrow> turn_segment list \<Rightarrow> tool_event_record list \<Rightarrow> turn_segment list \<Rightarrow> tool_event_record list \<Rightarrow> bool" where
  "adds_at k gs vs gs' vs' \<longleftrightarrow>
     (\<exists>g v. gs' = gs @ g \<and> vs' = vs @ v \<and> length g \<le> 1 \<and> (\<forall>x \<in> set g. tg_iteration x = k) \<and> (\<forall>x \<in> set v. er_iteration x = k))"

definition logs :: "nat \<Rightarrow> turn_segment list \<Rightarrow> tool_event_record list \<Rightarrow> loop_step \<Rightarrow> bool" where
  "logs k gs vs r \<longleftrightarrow> (case r of Continue t \<Rightarrow> adds_at k gs vs (lp_segments t) (lp_events t)
     | Finished res t \<Rightarrow> adds_at k gs vs (rr_segments res) (rr_events res) | Panicked \<Rightarrow> True)"

lemma logs_simps [simp]:
  "logs k gs vs (Continue t) = adds_at k gs vs (lp_segments t) (lp_events t)"
  "logs k gs vs (Finished res u) = adds_at k gs vs (rr_segments res) (rr_events res)" "logs k gs vs Panicked"
  "logs k gs vs (ends content reasoning a b d t) = adds_at k gs vs (lp_segments t) (lp_events t)"
  by (simp_all add: logs_def ends_def result_of_def)

lemma adds_at_refl [simp]: "adds_at k gs vs gs vs"
  by (simp add: adds_at_def)

lemma event_record_iteration [simp]: "er_iteration (event_record f k cr) = k"
  by (simp add: event_record_def split: prod.split)

lemma segment_of_iteration [simp]: "tg_iteration (segment_of k d c r) = k"
  by (simp add: segment_of_def)

lemma adds_segment [simp]: "adds_at k gs vs (gs @ [segment_of k d c r]) vs"
  by (simp add: adds_at_def)

lemma broken_logs: "logs (lp_iteration s) (lp_segments s) (lp_events s) (broken_turn err content reasoning draft s)"
  by (simp add: broken_turn_def Let_def)

lemma calls_log:
  "adds_at k gs vs (lp_segments s) (lp_events s) \<Longrightarrow> lp_iteration s = k \<Longrightarrow> logs k gs vs (run_calls w c e plan_mode draft r s)"
  by (auto simp: run_calls_def Let_def adds_at_def split: option.split)

lemma answer_logs: "logs (lp_iteration s) (lp_segments s) (lp_events s) (answered_turn w c e plan_mode q draft r s)"
  unfolding answered_turn_def Let_def by (auto intro!: calls_log)

lemma ask_logs: "logs (lp_iteration s) (lp_segments s) (lp_events s) (ask_provider w c e s)"
proof -
  have "logs (lp_iteration s) (lp_segments s) (lp_events s) (broken_turn err content reasoning draft (arrivals e' sid cs (s\<lparr>lp_messages := ms, lp_truncated := tr, lp_store := st\<rparr>)))"
    for err content reasoning draft e' sid cs ms tr st
    using broken_logs [of "arrivals e' sid cs (s\<lparr>lp_messages := ms, lp_truncated := tr, lp_store := st\<rparr>)"] by simp
  moreover have "logs (lp_iteration s) (lp_segments s) (lp_events s) (answered_turn w c e' p q draft r (s\<lparr>lp_messages := ms, lp_truncated := tr, lp_store := st\<rparr>))"
    for e' p q draft r ms tr st
    using answer_logs [of "s\<lparr>lp_messages := ms, lp_truncated := tr, lp_store := st\<rparr>"] by simp
  ultimately show ?thesis unfolding ask_provider_def Let_def by (simp split: provider_answer.split)
qed

lemma turn_logs: "logs (Suc (lp_iteration s)) (lp_segments s) (lp_events s) (loop_turn w c s)"
proof -
  let ?s = "(arrivals (lw_clock w (lp_turn s)) (lc_session c) (lw_steers_before w (lp_turn s)) s)\<lparr>lp_iteration := Suc (lp_iteration s)\<rparr>"
  have "logs (Suc (lp_iteration s)) (lp_segments s) (lp_events s) (ask_provider w c e ?s)" for e
    using ask_logs [where s = ?s] by simp
  moreover have "logs k gs vs (case r of Continue t \<Rightarrow> Continue (t\<lparr>lp_turn := n\<rparr>) | r' \<Rightarrow> r')" if "logs k gs vs r" for k gs vs r n
    using that by (cases r) simp_all
  ultimately show ?thesis unfolding loop_turn_def Let_def by simp
qed

definition in_order :: "nat \<Rightarrow> turn_segment list \<Rightarrow> tool_event_record list \<Rightarrow> bool" where
  "in_order k gs vs \<longleftrightarrow> sorted_wrt (<) (map tg_iteration gs) \<and> sorted (map er_iteration vs) \<and>
     (\<forall>g \<in> set gs. tg_iteration g \<le> k) \<and> (\<forall>v \<in> set vs. er_iteration v \<le> k)"

lemma in_order_adds:
  assumes "in_order k gs vs" and "adds_at (Suc k) gs vs gs' vs'"
  shows "in_order (Suc k) gs' vs'"
proof -
  from assms(2) obtain g v where g: "gs' = gs @ g" "vs' = vs @ v" "length g \<le> 1" "\<forall>x \<in> set g. tg_iteration x = Suc k"
    "\<forall>x \<in> set v. er_iteration x = Suc k" by (auto simp: adds_at_def)
  from g(5) have "map er_iteration v = replicate (length v) (Suc k)" by (simp add: map_replicate_const [symmetric] cong: map_cong)
  moreover from g(3) have "g = [] \<or> (\<exists>x. g = [x])" by (cases g) auto
  ultimately show ?thesis using assms(1) g by (fastforce simp: in_order_def sorted_wrt_append sorted_append)
qed

lemma quiet_run_in_order:
  "\<forall>n. lw_steers_before w n = [] \<and> lw_steers_during w n = [] \<Longrightarrow> lp_queue s = [] \<Longrightarrow>
     in_order (lp_iteration s) (lp_segments s) (lp_events s) \<Longrightarrow> run_loop w c fuel s = Some (Finished r t) \<Longrightarrow>
     \<exists>k. in_order k (rr_segments r) (rr_events r)"
proof (induction fuel arbitrary: s)
  case (Suc fuel)
  note logs = turn_logs [of s w c]
  show ?case
  proof (cases "loop_turn w c s")
    case (Continue u)
    with turn_moves_on [OF Continue] Suc.prems(1,2) have "lp_iteration u = Suc (lp_iteration s)" "lp_queue u = []" by auto
    with Suc.IH [of u] Suc.prems in_order_adds [OF Suc.prems(3)] logs Continue show ?thesis by simp
  next
    case (Finished r' t')
    with Suc.prems in_order_adds [OF Suc.prems(3)] logs show ?thesis by auto
  qed (use Suc.prems in simp)
qed simp

text \<open>
  C29: after a run without steering, what its caller then persists stores every tool event, in order, under
  the row of the last text the agent wrote before the call, and under the user's message when it wrote none.
\<close>

theorem quiet_run_is_stored_in_order:
  assumes "\<forall>n. lw_steers_before w n = [] \<and> lw_steers_during w n = []"
    and "run_loop w c fuel (initial_state msgs s) = Some (Finished r t)"
    and "\<forall>g \<in> set (rr_segments r). tg_message_id g \<noteq> None"
    and "persist_turn_segments e (lc_session c) user (rr_segments r) (rr_events r) ro t = (Inr (final, vs), u)"
  shows "map nt_message_id vs = map (\<lambda>v. Some (binding user (rr_segments r) (er_iteration v))) (rr_events r) \<and>
    map nt_id vs = map (\<lambda>v. event_key (lc_session c) (er_tool_call_id v)) (rr_events r)"
proof -
  obtain k where "in_order k (rr_segments r) (rr_events r)"
    using quiet_run_in_order [OF assms(1) _ _ assms(2)] by (auto simp: initial_state_def in_order_def)
  then have order: "sorted (map er_iteration (rr_events r))" "sorted_wrt (<) (map tg_iteration (rr_segments r))" by (simp_all add: in_order_def)
  have ids: "\<forall>g \<in> set (rr_segments r). has_segment_text g \<longrightarrow> tg_message_id g \<noteq> None" using assms(3) by blast
  note stored = assms(4) [unfolded persist_turn_segments_def]
  from persist_from_bound [OF stored ids order] persist_from_ids [OF stored ids] show ?thesis by blast
qed

subsection \<open>Calls without a result\<close>

definition status_of :: "string \<Rightarrow> string \<Rightarrow> chat_store \<Rightarrow> string option" where
  "status_of sid cid s = map_option nt_status (lookup_by nt_id (event_key sid cid) (st_events s))"

lemma event_key_eq [simp]: "event_key sid a = event_key sid b \<longleftrightarrow> a = b"
  by (simp add: event_key_def)

lemma upsert_status:
  assumes "message_exists (ei_message_id inp) s" and "chat_exists sid s"
  shows "status_of sid cid (snd (upsert_tool_event e sid inp s)) = (if cid = ei_id inp then Some (ei_status inp) else status_of sid cid s)"
  using assms
  by (cases "lookup_by nt_id (event_key sid (ei_id inp)) (st_events s)"; cases "lookup_by nt_id (event_key sid cid) (st_events s)")
    (auto simp: upsert_tool_event_def Let_def status_of_def lookup_by_append lookup_by_upd_where merge_event_def
      dest: lookup_by_SomeD split: option.split)

lemma upsert_keeps_rows:
  "chat_exists i (snd (upsert_tool_event e sid inp s)) = chat_exists i s"
  "message_exists mid (snd (upsert_tool_event e sid inp s)) = message_exists mid s"
proof -
  have "st_sessions (snd (upsert_tool_event e sid inp s)) = st_sessions s"
    by (auto simp: upsert_tool_event_def Let_def split: option.split)
  then show "chat_exists i (snd (upsert_tool_event e sid inp s)) = chat_exists i s"
    "message_exists mid (snd (upsert_tool_event e sid inp s)) = message_exists mid s"
    by (simp_all add: chat_exists_def message_exists_def upsert_keeps_messages split: option.split)
qed

lemma checkpoint_status:
  assumes "message_exists mid s" and "chat_exists sid s"
  shows "status_of sid cid (checkpoint_calls e sid mid cs s) = (if cid \<in> tc_id ` set cs then Some ''running'' else status_of sid cid s)"
  using assms
  by (induction e sid mid cs s rule: checkpoint_calls.induct) (auto simp: upsert_status upsert_keeps_rows)

lemma checkpoint_keeps_rows:
  "chat_exists i (checkpoint_calls e sid mid cs s) = chat_exists i s" "message_exists m (checkpoint_calls e sid mid cs s) = message_exists m s"
  by (induction e sid mid cs s rule: checkpoint_calls.induct) (simp_all add: upsert_keeps_rows)

lemma result_input_fields [simp]: "ei_id (result_input f mid cr) = tc_id (fst cr)" "ei_message_id (result_input f mid cr) = mid"
    "ei_status (result_input f mid cr) = tr_status (snd cr)"
  by (simp_all add: result_input_def event_record_def Let_def split: prod.split)

lemma find_in_append: "find P (xs @ ys) = (case find P xs of None \<Rightarrow> find P ys | Some x \<Rightarrow> Some x)"
  by (induction xs) auto

text \<open>The last of the recorded results of a call decides.\<close>

lemma results_status:
  assumes "message_exists mid s" and "chat_exists sid s"
  shows "status_of sid cid (record_results e f sid mid crs s) =
    (case find (\<lambda>cr. tc_id (fst cr) = cid) (rev crs) of None \<Rightarrow> status_of sid cid s | Some cr \<Rightarrow> Some (tr_status (snd cr)))"
  using assms
  by (induction e f sid mid crs s rule: record_results.induct)
    (auto simp: upsert_status upsert_keeps_rows find_in_append split: option.split)

lemma arrivals_keep_events: "st_events (lp_store (arrivals e sid cs s)) = st_events (lp_store s)"
proof (induction e sid cs s rule: arrivals.induct)
  case (2 e sid c cs s)
  have "st_events (snd (steer e True True sid c t)) = st_events t" for t
    by (auto simp: steer_def Let_def touch_session_def upd_session_def dest!: insert_message_Err insert_message_Ok
        split: option.split sum.split prod.split)
  with 2 show ?case by (auto split: sum.split prod.split) (metis snd_conv)+
qed simp

text \<open>
  C31: after the calls of an answer, a call that was carried out shows the status of its result, and every
  other one, of a tool that is not offered or after the run was cancelled, still shows that it runs.
\<close>

theorem calls_without_result_keep_running:
  assumes "run_calls w c e plan_mode draft r s = Continue t"
    and "message_exists draft (lp_store s)" and "chat_exists (lc_session c) (lp_store s)" and "call \<in> set (rp_calls r)"
  shows "\<exists>results rules.
    process_tool_calls (turn_batch w (lp_turn s) plan_mode) (lc_tools c) (lp_rules s) (rp_calls r) = Some (results, rules) \<and>
    status_of (lc_session c) (tc_id call) (lp_store t) =
      (case find (\<lambda>cr. tc_id (fst cr) = tc_id call)
          (rev (recorded (turn_batch w (lp_turn s) plan_mode) (lc_tools c) (rp_calls r) results)) of
         None \<Rightarrow> Some ''running'' | Some cr \<Rightarrow> Some (tr_status (snd cr)))"
proof -
  let ?b = "turn_batch w (lp_turn s) plan_mode"
  from assms(1) obtain results rules where p: "process_tool_calls ?b (lc_tools c) (lp_rules s) (rp_calls r) = Some (results, rules)"
    by (auto simp: run_calls_def Let_def split: option.splits)
  let ?rec = "recorded ?b (lc_tools c) (rp_calls r) results"
  let ?cp = "checkpoint_calls e (lc_session c) draft (rp_calls r) (lp_store s)"
  from assms(1) p have "st_events (lp_store t) =
      st_events (record_results (later (length (rp_calls r)) e) (lw_redact w) (lc_session c) draft ?rec ?cp)"
    by (auto simp: run_calls_def Let_def arrivals_keep_events)
  then have "status_of (lc_session c) (tc_id call) (lp_store t) =
      status_of (lc_session c) (tc_id call) (record_results (later (length (rp_calls r)) e) (lw_redact w) (lc_session c) draft ?rec ?cp)"
    by (simp add: status_of_def)
  also have "\<dots> = (case find (\<lambda>cr. tc_id (fst cr) = tc_id call) (rev ?rec) of
      None \<Rightarrow> Some ''running'' | Some cr \<Rightarrow> Some (tr_status (snd cr)))"
    using assms(2-4) by (subst results_status) (auto simp: checkpoint_keeps_rows checkpoint_status split: option.split)
  finally show ?thesis using p by blast
qed

subsection \<open>A sample run\<close>

text \<open>Large literals are compared as integers when the definitions are evaluated.\<close>

definition code_point_int :: "string \<Rightarrow> int" where
  "code_point_int ch =
     (case map of_char ch of
        [a] \<Rightarrow> a
      | [a, b] \<Rightarrow> (a mod 32) * 64 + b mod 64
      | [a, b, c] \<Rightarrow> (a mod 16) * 4096 + (b mod 64) * 64 + c mod 64
      | [a, b, c, d] \<Rightarrow> (a mod 8) * 262144 + (b mod 64) * 4096 + (c mod 64) * 64 + d mod 64
      | _ \<Rightarrow> 0)"

lemma int_code_point: "int (code_point ch) = code_point_int ch"
proof -
  have "int (of_char c) = of_char c" for c by (rule of_nat_of_char)
  then show ?thesis by (auto simp: code_point_def code_point_int_def zmod_int split: list.split)
qed

lemma is_ascii_code [code]: "is_ascii ch \<longleftrightarrow> code_point_int ch < 128"
  by (simp add: is_ascii_def flip: int_code_point)

lemma is_cjk_code [code]:
  "is_cjk ch \<longleftrightarrow> \<not> is_ascii ch \<and>
     (let n = code_point_int ch
      in 0x1100 \<le> n \<and> n \<le> 0x11FF \<or> 0x2E80 \<le> n \<and> n \<le> 0x2FFF \<or> 0x3000 \<le> n \<and> n \<le> 0x303F \<or> 0x3040 \<le> n \<and> n \<le> 0x30FF \<or>
         0x3130 \<le> n \<and> n \<le> 0x318F \<or> 0x3400 \<le> n \<and> n \<le> 0x4DBF \<or> 0x4E00 \<le> n \<and> n \<le> 0x9FFF \<or>
         0xAC00 \<le> n \<and> n \<le> 0xD7AF \<or> 0xF900 \<le> n \<and> n \<le> 0xFAFF \<or> 0xFF00 \<le> n \<and> n \<le> 0xFFEF \<or> 0x20000 \<le> n \<and> n \<le> 0x2FA1F)"
  by (auto simp: is_cjk_def in_range_def is_ascii_def Let_def simp flip: int_code_point)


definition sample_response :: "string \<Rightarrow> tool_call list \<Rightarrow> provider_response" where
  "sample_response text calls = \<lparr>rp_content = text, rp_reasoning = None, rp_calls = calls, rp_input = Some 1, rp_output = Some 1,
     rp_cache_read = None, rp_cache_write = None\<rparr>"

definition sample_gateway :: gateway_world where
  "sample_gateway = \<lparr>gw_settings = \<lparr>app_defaults = [], stored_rules = None, approval_rules = []\<rparr>, gw_project = ''/p'', gw_plan_mode = False, gw_command = (\<lambda>_. None),
     gw_external_provider = False, gw_approval = (\<lambda>_. \<lparr>aw_decision = Allow, aw_session_rule = None\<rparr>)\<rparr>"

definition sample_batch :: batch_world where
  "sample_batch = \<lparr>bw_gateway = sample_gateway, bw_intercept = (\<lambda>_. plain_result ''ok'' ''completed''), bw_cancelled = (\<lambda>_. False),
     bw_caught = (\<lambda>_. False)\<rparr>"

definition sample_call :: "string \<Rightarrow> string \<Rightarrow> tool_call" where
  "sample_call i name = \<lparr>tc_id = i, tc_name = name, tc_arguments = ''{}''\<rparr>"

text \<open>The first answer calls a tool, the second one ends the run; no message arrives.\<close>

definition sample_loop_world :: loop_world where
  "sample_loop_world = \<lparr>lw_clock = (\<lambda>n. sample_clock (int n + 1)), lw_cancelled = (\<lambda>_. False), lw_window = (\<lambda>_. None),
     lw_steers_before = (\<lambda>_. []), lw_steers_during = (\<lambda>_. []),
     lw_answer = (\<lambda>n _. Answered (if n = 0 then sample_response ''looking'' [sample_call ''t1'' ''todo_write'', sample_call ''t2'' ''nothing'']
       else sample_response ''done'' [])),
     lw_batch = (\<lambda>_. sample_batch), lw_redact = id\<rparr>"

definition sample_config :: loop_config where
  "sample_config = \<lparr>lc_session = ''s1'', lc_provider = ''acme'', lc_model = ''m'', lc_wire_model = ''m'', lc_effort = ''none'',
     lc_system = ''help'', lc_tools = [\<lparr>td_name = ''todo_write'', td_kind = ReadOnly, td_execute = (\<lambda>_. plain_result ''ok'' ''completed'')\<rparr>],
     lc_schema = (\<lambda>d. \<lparr>sc_name = td_name d, sc_description = [], sc_parameters = []\<rparr>)\<rparr>"

theorem agent_loop_ends_witness:
  "\<exists>r. run_loop sample_loop_world sample_config 101 (initial_state [] sample_chat) = Some r"
  using agent_loop_ends [of 0 sample_loop_world sample_config "[]" sample_chat] by (auto simp: sample_loop_world_def)


definition sample_end :: "run_result \<times> chat_store" where
  "sample_end = (case run_loop sample_loop_world sample_config 2 (initial_state [] sample_chat) of
     Some (Finished r t) \<Rightarrow> (r, t) | _ \<Rightarrow> (cancelled_run, sample_chat))"

lemma sample_run:
  "rr_completed (fst sample_end)" "run_loop sample_loop_world sample_config 2 (initial_state [] sample_chat) = Some (Finished (fst sample_end) (snd sample_end))"
proof -
  show c: "rr_completed (fst sample_end)" unfolding sample_end_def numeral_2_eq_2 by code_simp
  then show "run_loop sample_loop_world sample_config 2 (initial_state [] sample_chat) = Some (Finished (fst sample_end) (snd sample_end))"
    by (auto simp: sample_end_def cancelled_run_def split: option.splits loop_step.splits)
qed

theorem rows_are_the_segments_witness:
  "\<exists>new. st_messages (snd sample_end) = st_messages sample_chat @ new \<and> (\<forall>m \<in> set new. by_assistant m \<or> by_user m) \<and>
    map row_text (filter by_assistant new) = [(Some ''nmsg_1'', ''looking'', None), (Some ''nmsg_2'', ''done'', None)]"
proof -
  have "map segment_text (filter (\<lambda>g. tg_message_id g \<noteq> None) (rr_segments (fst sample_end))) =
      [(Some ''nmsg_1'', ''looking'', None), (Some ''nmsg_2'', ''done'', None)]"
    unfolding sample_end_def numeral_2_eq_2 by code_simp
  with rows_are_the_segments [OF sample_run(2)] show ?thesis by simp
qed

theorem quiet_run_is_stored_in_order_witness:
  "\<exists>final vs u. persist_turn_segments sample_later ''s1'' ''u3'' (rr_segments (fst sample_end)) (rr_events (fst sample_end))
      sample_route (snd sample_end) = (Inr (final, vs), u) \<and> map nt_message_id vs = [Some ''nmsg_1'']"
proof -
  let ?p = "persist_turn_segments sample_later (lc_session sample_config) ''u3'' (rr_segments (fst sample_end)) (rr_events (fst sample_end))
      sample_route (snd sample_end)"
  have "\<not> isl (fst ?p)" unfolding sample_end_def numeral_2_eq_2 by code_simp
  then obtain final vs u where p: "?p = (Inr (final, vs), u)" by (cases ?p; cases "fst ?p") auto
  have ids: "\<forall>g \<in> set (rr_segments (fst sample_end)). tg_message_id g \<noteq> None"
    and bound: "map (\<lambda>v. Some (binding ''u3'' (rr_segments (fst sample_end)) (er_iteration v))) (rr_events (fst sample_end)) = [Some ''nmsg_1'']"
    unfolding sample_end_def numeral_2_eq_2 by code_simp+
  have "\<forall>n. lw_steers_before sample_loop_world n = [] \<and> lw_steers_during sample_loop_world n = []" by (simp add: sample_loop_world_def)
  from quiet_run_is_stored_in_order [OF this sample_run(2) ids p] bound p show ?thesis by (simp add: sample_config_def)
qed

theorem calls_without_result_keep_running_witness:
  "case run_calls sample_loop_world sample_config sample_later False (Some ''a1'')
      (sample_response ''x'' [sample_call ''t1'' ''todo_write'', sample_call ''t2'' ''nothing'']) (initial_state [] sample_chat) of
     Continue t \<Rightarrow> status_of ''s1'' ''t2'' (lp_store t) = Some ''running'' | _ \<Rightarrow> False"
proof -
  let ?r = "sample_response ''x'' [sample_call ''t1'' ''todo_write'', sample_call ''t2'' ''nothing'']"
  let ?s = "initial_state [] sample_chat"
  let ?b = "turn_batch sample_loop_world (lp_turn ?s) False"
  let ?c = "run_calls sample_loop_world sample_config sample_later False (Some ''a1'') ?r ?s"
  have "case ?c of Continue t \<Rightarrow> True | _ \<Rightarrow> False" by code_simp
  then obtain t where t: "?c = Continue t" by (cases ?c) auto
  have "message_exists (Some ''a1'') (lp_store ?s)" "chat_exists (lc_session sample_config) (lp_store ?s)"
    "lc_session sample_config = ''s1''" "tc_id (sample_call ''t2'' ''nothing'') = ''t2''"
    "find (\<lambda>cr. tc_id (fst cr) = ''t2'') (rev (recorded ?b (lc_tools sample_config) (rp_calls ?r)
       (fst (the (process_tool_calls ?b (lc_tools sample_config) (lp_rules ?s) (rp_calls ?r)))))) = None" by code_simp+
  moreover have "sample_call ''t2'' ''nothing'' \<in> set (rp_calls ?r)" by (simp add: sample_response_def)
  ultimately show ?thesis using calls_without_result_keep_running [OF t, of "sample_call ''t2'' ''nothing''"] t by auto
qed

theorem trimmed_history_fits_witness:
  "\<exists>out shorter. trim_to_budget [text_msg ''user'' ''old'', text_msg ''user'' ''new''] ''help'' 2 = (out, shorter) \<and>
     subseq out [text_msg ''user'' ''old'', text_msg ''user'' ''new''] \<and> shorter"
proof -
  let ?t = "trim_to_budget [text_msg ''user'' ''old'', text_msg ''user'' ''new''] ''help'' 2"
  obtain out shorter where t: "?t = (out, shorter)" by fastforce
  have "snd ?t" by code_simp
  with t have shorter by simp
  with t trimmed_history_fits [OF t] show ?thesis by blast
qed

definition sample_caller :: chat_msg where
  "sample_caller = (text_msg ''assistant'' ''I will look at the files'')\<lparr>cm_tool_calls := [sample_call ''t1'' ''list_files'']\<rparr>"

theorem orphan_result_is_sent_witness:
  "trim_to_budget [text_msg ''user'' ''go'', sample_caller, text_msg ''tool'' ''a'', text_msg ''user'' ''and'' ] [] 3 =
     ([text_msg ''tool'' ''a'', text_msg ''user'' ''and''], True)"
proof -
  have "has_calls sample_caller" "is_tool (text_msg ''tool'' ''a'')" "\<forall>m \<in> set [text_msg ''user'' ''and'']. \<not> is_tool m"
    "estimate_tokens [] + messages_tokens [text_msg ''tool'' ''a'', text_msg ''user'' ''and''] \<le> available_tokens 3"
    "available_tokens 3 < estimate_tokens [] + messages_tokens [sample_caller, text_msg ''tool'' ''a'', text_msg ''user'' ''and'']"
    by code_simp+
  from orphan_result_is_sent [OF this, of "[text_msg ''user'' ''go'']"] show ?thesis by simp
qed

end
