(* ===== verification/ChatTurnProps.thy ===== *)
theory ChatTurnProps
  imports ChatTurn AgentLoopProps CompletionProps
begin

text \<open>
  Trying the accounts of a provider one after the other: what is left of the failed attempts in the
  transcript, which account answers, and what the attempts do to the plan run of the chat.
\<close>

subsection \<open>The transcript after several attempts\<close>

lemma turn_grows:
  assumes "run_agent_turn w k account scope c msgs d = Some (r, d')"
  shows "grows (dk_chat d) (rr_segments r) (dk_chat d')"
proof (cases "scope = Scope_subagent \<and> \<not> tw_admitted w")
  case True
  with assms show ?thesis by (auto simp: run_agent_turn_def cancelled_run_def grows_def matching_def written_def)
next
  case False
  with assms obtain t where run: "run_loop (tw_loop w k account) c (tw_fuel w) (initial_state msgs (dk_chat d)) = Some (Finished r t)"
    and d': "dk_chat d' = t"
    by (auto simp: run_agent_turn_def Let_def split: option.splits loop_step.splits)
  have "grows (dk_chat d) (lp_segments (initial_state msgs (dk_chat d))) (lp_store (initial_state msgs (dk_chat d)))"
    by (simp add: grows_def matching_def written_def initial_state_def)
  from run_leaves [OF this run] d' show ?thesis by simp
qed

lemma grows_trans:
  assumes "grows s0 [] s" and "grows s gs t"
  shows "grows s0 gs t"
proof -
  from assms(1) obtain new where new: "st_messages s = st_messages s0 @ new" "matching new []"
    "nm_id ` set new \<inter> nm_id ` set (st_messages s0) = {}" by (auto simp: grows_def)
  from assms(2) obtain us where us: "st_messages t = st_messages s @ us" "matching us gs"
    "nm_id ` set us \<inter> nm_id ` set (st_messages s) = {}" by (auto simp: grows_def)
  from us(3) new(1) have "nm_id ` set us \<inter> nm_id ` set (st_messages s0) = {}" by auto
  moreover have "matching (new @ us) gs" using new(2) us(2) by (auto simp: matching_def written_def)
  ultimately show ?thesis using new us unfolding grows_def
    by (intro exI [of _ "new @ us"]) (simp add: image_Un Int_Un_distrib2)
qed

lemma failed_rows_dropped:
  assumes "grows s0 [g] s"
  shows "grows s0 [] (drop_rows [g] s)"
proof (cases "tg_message_id g")
  case None
  with assms show ?thesis by (simp add: drop_rows_def drop_draft_def grows_def matching_def written_def)
next
  case (Some mid)
  from assms obtain new where new: "st_messages s = st_messages s0 @ new" "matching new [g]"
    "nm_id ` set new \<inter> nm_id ` set (st_messages s0) = {}" by (auto simp: grows_def)
  from new(2) Some have one: "map row_text (filter by_assistant new) = [segment_text g]" by (simp add: matching_def written_def)
  then obtain m where m: "filter by_assistant new = [m]" "nm_id m = mid"
    using Some by (auto simp: map_eq_Cons_conv row_text_def segment_text_def)
  have "set (filter by_assistant new) = {m}" using m(1) by simp
  then have only: "by_assistant x \<longleftrightarrow> x = m" if "x \<in> set new" for x using that by auto
  then have "m \<in> set new" "by_assistant m" using m(1) by (metis list.set_intros(1) filter_is_subset subsetD, metis filter_eq_ConsD)
  have old: "filter (\<lambda>x. nm_id x = mid \<longrightarrow> nm_role x \<noteq> ''assistant'') (st_messages s0) = st_messages s0"
    using new(3) \<open>m \<in> set new\<close> m(2) by (intro filter_True) force
  have "filter (\<lambda>x. nm_id x = mid \<longrightarrow> nm_role x \<noteq> ''assistant'') new = filter (\<lambda>x. \<not> by_assistant x) new"
    using only m(2) by (intro filter_cong) (auto simp: by_assistant_def)
  with old \<open>m \<in> set new\<close> \<open>by_assistant m\<close> m(2)
  have "st_messages (drop_rows [g] s) = st_messages s0 @ filter (\<lambda>x. \<not> by_assistant x) new"
    by (auto simp: drop_rows_def drop_draft_def Some delete_message_def delete_by_role_def new(1) by_assistant_def)
  moreover have "matching (filter (\<lambda>x. \<not> by_assistant x) new) []" using new(2) by (auto simp: matching_def written_def)
  moreover have "nm_id ` set (filter (\<lambda>x. \<not> by_assistant x) new) \<inter> nm_id ` set (st_messages s0) = {}" using new(3) by auto
  ultimately show ?thesis unfolding grows_def by blast
qed

lemma failure_has_one_segment: "pre_stream_failure r = Some err \<Longrightarrow> \<exists>g. rr_segments r = [g]"
  by (auto simp: pre_stream_failure_def split: if_splits list.splits)

lemma attempts_grow:
  "attempts w c msgs k as d = Some (r, account, d') \<Longrightarrow> grows (dk_chat d) (rr_segments r) (dk_chat d')"
proof (induction w c msgs k as d rule: attempts.induct)
  case (1 w c msgs k d)
  then show ?case by (auto intro: turn_grows)
next
  case (2 w c msgs k a as d)
  from 2(2) obtain r1 d1 where run: "run_agent_turn w k (Some a) Scope_chat c msgs d = Some (r1, d1)"
    by (auto split: option.splits)
  note g = turn_grows [OF run]
  show ?case
  proof (cases "pre_stream_failure r1")
    case None
    with 2(2) run g show ?thesis by (auto simp: note_outcome_def)
  next
    case (Some err)
    show ?thesis
    proof (cases "as = []")
      case True
      with 2(2) run g Some show ?thesis by (auto simp: note_outcome_def Let_def)
    next
      case False
      let ?d = "note_outcome w k a (classify_provider_error err) d1"
      let ?e = "?d\<lparr>dk_chat := drop_rows (rr_segments r1) (dk_chat ?d)\<rparr>"
      from failure_has_one_segment [OF Some] obtain s where s: "rr_segments r1 = [s]" by blast
      with failed_rows_dropped [of "dk_chat d" s "dk_chat d1"] g have "grows (dk_chat d) [] (dk_chat ?e)"
        by (simp add: note_outcome_def)
      moreover have "grows (dk_chat ?e) (rr_segments r) (dk_chat d')"
        using 2(2) run Some False by (intro 2(1) [OF run refl Some False]) (simp add: Let_def)
      ultimately show ?thesis by (rule grows_trans)
    qed
  qed
qed

text \<open>
  C27: however many accounts were tried, the transcript keeps its earlier messages and gets, besides
  steering messages, exactly the assistant rows of the attempt that is reported: the attempts that failed
  before any output leave none.
\<close>

theorem failed_attempts_leave_no_rows:
  assumes "attempts w c msgs k as d = Some (r, account, d')"
  shows "\<exists>new. st_messages (dk_chat d') = st_messages (dk_chat d) @ new \<and> (\<forall>m \<in> set new. by_assistant m \<or> by_user m) \<and>
    map row_text (filter by_assistant new) = map segment_text (filter (\<lambda>g. tg_message_id g \<noteq> None) (rr_segments r))"
  using attempts_grow [OF assms] by (auto simp: grows_def matching_def written_def)

subsection \<open>The account that answers\<close>

definition account_health :: "string \<Rightarrow> accounts \<Rightarrow> string option" where
  "account_health i s = map_option ac_health (lookup_by ac_id i (acct_rows s))"

lemma health_recorded:
  assumes "\<not> is_omp_account_id j"
  shows "account_health i (record_outcome e j out s) =
    (if i = j then map_option (\<lambda>_. fst (health_of_outcome (e_secs e 0) out)) (account_health i s) else account_health i s)"
  using assms
  by (cases "lookup_by ac_id i (acct_rows s)")
    (auto simp: record_outcome_def Let_def account_health_def release_rows lookup_by_upd_where dest: lookup_by_SomeD split: prod.split)

lemma error_is_not_healthy: "fst (health_of_outcome n (classify_provider_error m)) \<noteq> HEALTH_HEALTHY"
  by (simp add: classify_provider_error_def health_of_outcome_def HEALTH_HEALTHY_def HEALTH_RATE_LIMITED_def
      HEALTH_AUTH_EXPIRED_def HEALTH_ERROR_def)

lemma turn_keeps_accounts: "run_agent_turn w k account scope c msgs d = Some (r, d') \<Longrightarrow> dk_accounts d' = dk_accounts d"
  by (auto simp: run_agent_turn_def Let_def split: if_splits option.splits loop_step.splits)

definition stored_accounts :: "account_record list \<Rightarrow> accounts \<Rightarrow> bool" where
  "stored_accounts as s \<longleftrightarrow> distinct (map ac_id as) \<and>
     list_all (\<lambda>a. \<not> is_omp_account_id (ac_id a) \<and> account_health (ac_id a) s \<noteq> None) as"

text \<open>
  A run that failed before it put anything out: it was not cancelled and did not reach the cap, it called no
  tool, and all there is of it is an error in its first iteration, without reasoning.
\<close>

definition fails_unheard :: "run_result \<Rightarrow> string \<Rightarrow> bool" where
  "fails_unheard r err \<longleftrightarrow> \<not> rr_completed r \<and> \<not> rr_cancelled r \<and> \<not> rr_hit_cap r \<and> rr_events r = [] \<and>
     (\<exists>g. rr_segments r = [g] \<and> tg_iteration g = 1 \<and> tg_reasoning g = None \<and> tg_content g = ''Error: '' @ err)"

lemma pre_stream_failure_iff: "pre_stream_failure r = Some err \<longleftrightarrow> fails_unheard r err"
  by (auto simp: pre_stream_failure_def fails_unheard_def strip_prefix_Some split: list.splits)

text \<open>The runs \<open>rs\<close> are those of the first accounts, one each, in their order.\<close>

definition tried :: "turn_world \<Rightarrow> loop_config \<Rightarrow> chat_msg list \<Rightarrow> nat \<Rightarrow> account_record list \<Rightarrow> run_result list \<Rightarrow> bool" where
  "tried w c msgs k as rs \<longleftrightarrow> rs \<noteq> [] \<and> length rs \<le> length as \<and>
     (\<forall>l < length rs. \<exists>d d'. run_agent_turn w (k + l) (Some (as ! l)) Scope_chat c msgs d = Some (rs ! l, d'))"

text \<open>What a run says about the health of its account.\<close>

definition shows_health :: "run_result \<Rightarrow> string \<Rightarrow> bool" where
  "shows_health r h \<longleftrightarrow> (\<forall>err. fails_unheard r err \<longrightarrow> h = fst (health_of_outcome 0 (classify_provider_error err))) \<and>
     ((\<nexists>err. fails_unheard r err) \<longrightarrow> h = HEALTH_HEALTHY)"

lemma shows_health_cases:
  "fails_unheard r err \<Longrightarrow> shows_health r h \<longleftrightarrow> h = fst (health_of_outcome 0 (classify_provider_error err))"
  "pre_stream_failure r = None \<Longrightarrow> shows_health r h \<longleftrightarrow> h = HEALTH_HEALTHY"
proof -
  show "shows_health r h \<longleftrightarrow> h = fst (health_of_outcome 0 (classify_provider_error err))" if "fails_unheard r err"
  proof -
    have "err' = err" if "fails_unheard r err'" for err'
      using that \<open>fails_unheard r err\<close> unfolding pre_stream_failure_iff [symmetric] by simp
    with \<open>fails_unheard r err\<close> show ?thesis unfolding shows_health_def by blast
  qed
  show "shows_health r h \<longleftrightarrow> h = HEALTH_HEALTHY" if "pre_stream_failure r = None"
    using that unfolding shows_health_def pre_stream_failure_iff [symmetric] by simp
qed

lemma health_without_clock: "fst (health_of_outcome n out) = fst (health_of_outcome 0 out)"
  by (simp add: health_of_outcome_def split: account_outcome.split)

lemma tried_Cons:
  assumes "run_agent_turn w k (Some a) Scope_chat c msgs d = Some (r, d')" and "tried w c msgs (k + 1) as rs"
  shows "tried w c msgs k (a # as) (r # rs)"
  unfolding tried_def
proof (intro conjI allI impI)
  fix l assume "l < length (r # rs)"
  with assms show "\<exists>d d'. run_agent_turn w (k + l) (Some ((a # as) ! l)) Scope_chat c msgs d = Some ((r # rs) ! l, d')"
    by (cases l) (auto simp: tried_def)
qed (use assms(2) in \<open>auto simp: tried_def\<close>)

lemma attempts_health:
  "attempts w c msgs k as d = Some (r, account, d') \<Longrightarrow> stored_accounts as (dk_accounts d) \<Longrightarrow> as \<noteq> [] \<Longrightarrow>
     \<exists>rs. tried w c msgs k as rs \<and> last rs = r \<and> account = Some (ac_id (as ! (length rs - 1))) \<and>
       (\<forall>l < length rs - 1. \<exists>err. fails_unheard (rs ! l) err) \<and>
       ((\<exists>err. fails_unheard r err) \<longrightarrow> length rs = length as) \<and>
       (\<forall>l < length rs. \<exists>h. account_health (ac_id (as ! l)) (dk_accounts d') = Some h \<and> shows_health (rs ! l) h) \<and>
       (\<forall>i. account_health i (dk_accounts d') \<noteq> account_health i (dk_accounts d) \<longrightarrow> i \<in> ac_id ` set (take (length rs) as))"
proof (induction w c msgs k as d rule: attempts.induct)
  case (2 w c msgs k a as d)
  from 2(2) obtain r1 d1 where run: "run_agent_turn w k (Some a) Scope_chat c msgs d = Some (r1, d1)" by (auto split: option.splits)
  from turn_keeps_accounts [OF run] have acc: "dk_accounts d1 = dk_accounts d" .
  from 2(3) have a: "\<not> is_omp_account_id (ac_id a)" "account_health (ac_id a) (dk_accounts d) \<noteq> None"
    and as: "distinct (map ac_id as)" "ac_id a \<notin> ac_id ` set as" by (auto simp: stored_accounts_def)
  note rec = health_recorded [OF a(1)]
  have one: "tried w c msgs k (a # as) [r1]" using run by (auto simp: tried_def)
  show ?case
  proof (cases "pre_stream_failure r1")
    case None
    with 2(2) run have eq: "r = r1" "account = Some (ac_id a)" "d' = note_outcome w k a Success d1" by auto
    from None have "\<nexists>err. fails_unheard r1 err" using pre_stream_failure_iff [of r1] by auto
    with None one eq acc a(2) show ?thesis
      by (intro exI [of _ "[r1]"]) (auto simp: note_outcome_def rec health_of_outcome_def shows_health_cases(2))
  next
    case (Some err)
    then have f: "fails_unheard r1 err" by (simp add: pre_stream_failure_iff)
    let ?d = "note_outcome w k a (classify_provider_error err) d1"
    have bad: "\<exists>h. account_health (ac_id a) (dk_accounts ?d) = Some h \<and> shows_health r1 h"
      using a(2) health_without_clock [of "e_secs (tw_clock w (3 * k + 2)) 0" "classify_provider_error err"]
      by (auto simp: note_outcome_def rec acc shows_health_cases(1) [OF f])
    have only: "account_health i (dk_accounts ?d) = account_health i (dk_accounts d)" if "i \<noteq> ac_id a" for i
      using that by (simp add: note_outcome_def rec acc)
    show ?thesis
    proof (cases "as = []")
      case True
      with 2(2) run Some have "r = r1" "account = Some (ac_id a)" "d' = ?d" by (auto simp: Let_def)
      with one True bad only show ?thesis by (intro exI [of _ "[r1]"]) auto
    next
      case False
      let ?e = "?d\<lparr>dk_chat := drop_rows (rr_segments r1) (dk_chat ?d)\<rparr>"
      have "list_all (\<lambda>b. \<not> is_omp_account_id (ac_id b) \<and> account_health (ac_id b) (dk_accounts ?e) \<noteq> None) as"
      proof -
        have "ac_id b \<noteq> ac_id a" if "b \<in> set as" for b using as(2) that by (metis imageI)
        with only 2(3) show ?thesis by (simp add: stored_accounts_def list_all_iff)
      qed
      with as(1) have st: "stored_accounts as (dk_accounts ?e)" by (simp add: stored_accounts_def)
      have rest: "attempts w c msgs (k + 1) as ?e = Some (r, account, d')" using 2(2) run Some False by (simp add: Let_def)
      from 2(1) [OF run refl Some False rest st False] obtain rs where
        t: "tried w c msgs (k + 1) as rs" and
        j: "last rs = r" "account = Some (ac_id (as ! (length rs - 1)))" "\<forall>l < length rs - 1. \<exists>err. fails_unheard (rs ! l) err"
          "(\<exists>err. fails_unheard r err) \<longrightarrow> length rs = length as"
          "\<forall>l < length rs. \<exists>h. account_health (ac_id (as ! l)) (dk_accounts d') = Some h \<and> shows_health (rs ! l) h"
          "\<forall>i. account_health i (dk_accounts d') \<noteq> account_health i (dk_accounts ?e) \<longrightarrow> i \<in> ac_id ` set (take (length rs) as)"
        by blast
      from t have rs: "rs \<noteq> []" by (simp add: tried_def)
      have "ac_id a \<notin> ac_id ` set (take (length rs) as)" using as(2) by (auto dest: in_set_takeD)
      with j(6) have "account_health (ac_id a) (dk_accounts d') = account_health (ac_id a) (dk_accounts ?d)" by auto
      with bad j(5) have health: "\<exists>h. account_health (ac_id ((a # as) ! l)) (dk_accounts d') = Some h \<and> shows_health ((r1 # rs) ! l) h"
        if "l < length (r1 # rs)" for l
        using that by (cases l) auto
      have failed: "\<exists>err. fails_unheard ((r1 # rs) ! l) err" if "l < length rs" for l
        using that f j(3) by (cases l) auto
      have "i \<in> ac_id ` set (take (length (r1 # rs)) (a # as))"
        if "account_health i (dk_accounts d') \<noteq> account_health i (dk_accounts d)" for i
        using that j(6) only [of i] by (cases "i = ac_id a") auto
      moreover have "(a # as) ! (length (r1 # rs) - 1) = as ! (length rs - 1)" using rs by (simp add: nth_Cons')
      ultimately show ?thesis using tried_Cons [OF run t] rs j(1,2,4) health failed
        by (intro exI [of _ "r1 # rs"]) simp
    qed
  qed
qed simp

text \<open>
  C28: the accounts are tried in the order given, each with a run of its own, and every run but the last failed
  before it put anything out: without a tool call, without reasoning, with only an error in its first iteration.
  The turn is that of the last run and charged to its account; when that run failed in this way too, no account
  was left to try. Each account that was tried has the health its run shows: that of its error, or healthy when
  the run got as far as any output, was cancelled or reached the cap. No other account is touched.
\<close>

theorem accounts_are_tried_in_order:
  assumes "attempts w c msgs k as d = Some (r, account, d')" and "stored_accounts as (dk_accounts d)" and "as \<noteq> []"
  shows "\<exists>rs. tried w c msgs k as rs \<and> last rs = r \<and> account = Some (ac_id (as ! (length rs - 1))) \<and>
     (\<forall>l < length rs - 1. \<exists>err. fails_unheard (rs ! l) err) \<and>
     ((\<exists>err. fails_unheard r err) \<longrightarrow> length rs = length as) \<and>
     (\<forall>l < length rs. \<exists>h. account_health (ac_id (as ! l)) (dk_accounts d') = Some h \<and> shows_health (rs ! l) h) \<and>
     (\<forall>i. account_health i (dk_accounts d') \<noteq> account_health i (dk_accounts d) \<longrightarrow> i \<in> ac_id ` set (take (length rs) as))"
  using attempts_health [OF assms] .

subsection \<open>The plan run of the chat\<close>

definition same_runs :: "db \<Rightarrow> db \<Rightarrow> bool" where
  "same_runs d d' \<longleftrightarrow> runs d' = runs d \<and> plans d' = plans d \<and> sessions d' = sessions d"

lemma same_runs_refl [simp]: "same_runs d d"
  by (simp add: same_runs_def)

lemma same_runs_trans: "same_runs a b \<Longrightarrow> same_runs b c \<Longrightarrow> same_runs a c"
  by (simp add: same_runs_def)

lemma same_runs_record: "same_runs d d1 \<Longrightarrow> same_runs d (snd (commit_or_rollback d (record_event m k s d1)))"
  by (cases rule: record_event_cases [of m k s d1]) (auto simp: same_runs_def commit_or_rollback_def)

lemma same_runs_chats [simp]: "same_runs d (set_chats P f d)"
  by (simp add: same_runs_def)

lemma same_runs_active: "same_runs d d' \<Longrightarrow> active_run_of_chat chat d' = active_run_of_chat chat d"
  by (simp add: same_runs_def active_run_of_chat_def newest_run_def session_exists_def cong: option.case_cong)

lemma same_runs_context: "same_runs d d' \<Longrightarrow> run_context d' i = run_context d i"
  by (simp add: same_runs_def run_context_def cong: option.case_cong)

lemma chat_running_same: "same_runs d (snd (chat_running e chat d))"
  by (auto simp: chat_running_def set_chat_state_def Let_def intro!: same_runs_record split: option.split)

lemma no_active_run:
  assumes "\<And>q. q \<in> set (runs s) \<Longrightarrow> r_chat q = Some chat \<Longrightarrow> \<not> run_active (r_status q)"
  shows "active_run_of_chat chat s = None"
proof -
  have "sort_key f [] = []" for f :: "plan_run \<Rightarrow> int" by simp
  moreover have "filter (\<lambda>q. r_chat q = Some chat \<and> run_active (r_status q) \<and> P q) (runs s) = []" for P
    using assms by (auto simp: filter_empty_conv)
  ultimately show ?thesis by (simp add: active_run_of_chat_def newest_run_def order_desc_def)
qed

lemma idle_chat_end:
  "active_run_of_chat chat (store a) = None \<Longrightarrow> same_runs (store a) (store (snd (chat_terminal w e chat st a)))"
  by (simp add: chat_terminal_def Let_def emit_def)

lemma idle_turn:
  assumes "run_agent_turn w k account scope c msgs d = Some (r, d')"
    and "active_run_of_chat (lc_session c) (store (dk_app d)) = None"
  shows "same_runs (store (dk_app d)) (store (dk_app d'))"
proof -
  let ?d = "snd (chat_running (tw_clock w (3 * k)) (lc_session c) (store (dk_app d)))"
  have "active_run_of_chat (lc_session c) ?d = None" using same_runs_active [OF chat_running_same] assms(2) by simp
  with idle_chat_end [of "lc_session c" "(dk_app d)\<lparr>store := ?d\<rparr>"]
  have "same_runs (store (dk_app d)) (store (snd (chat_terminal p e (lc_session c) st ((dk_app d)\<lparr>store := ?d\<rparr>))))" for p e st
    using same_runs_trans [OF chat_running_same] by fastforce
  with assms(1) show ?thesis
    by (auto simp: run_agent_turn_def Let_def split: if_splits option.splits loop_step.splits)
qed

lemma idle_attempts:
  "attempts w c msgs k as d = Some (r, account, d') \<Longrightarrow> active_run_of_chat (lc_session c) (store (dk_app d)) = None \<Longrightarrow>
     same_runs (store (dk_app d)) (store (dk_app d'))"
proof (induction w c msgs k as d rule: attempts.induct)
  case (1 w c msgs k d)
  then show ?case by (auto dest: idle_turn)
next
  case (2 w c msgs k a as d)
  from 2(2) obtain r1 d1 where run: "run_agent_turn w k (Some a) Scope_chat c msgs d = Some (r1, d1)" by (auto split: option.splits)
  note same = idle_turn [OF run 2(3)]
  show ?case
  proof (cases "pre_stream_failure r1")
    case None
    with 2(2) run same show ?thesis by (auto simp: note_outcome_def)
  next
    case (Some err)
    show ?thesis
    proof (cases "as = []")
      case True
      with 2(2) run same Some show ?thesis by (auto simp: note_outcome_def Let_def)
    next
      case False
      let ?d = "note_outcome w k a (classify_provider_error err) d1"
      let ?e = "?d\<lparr>dk_chat := drop_rows (rr_segments r1) (dk_chat ?d)\<rparr>"
      have "store (dk_app ?e) = store (dk_app d1)" by (simp add: note_outcome_def)
      moreover have "attempts w c msgs (k + 1) as ?e = Some (r, account, d')" using 2(2) run Some False by (simp add: Let_def)
      ultimately have "same_runs (store (dk_app d1)) (store (dk_app d'))"
        using 2(1) [OF run refl Some False] same_runs_active [OF same] 2(3) by simp
      with same show ?thesis by (rule same_runs_trans)
    qed
  qed
qed

text \<open>
  C32: when the first account fails before any output, its attempt has already settled the plan run of the chat
  as failed; the run stays failed and its plan is handed back, even if another account then completes the
  very same turn.
\<close>

theorem failover_fails_the_plan_run:
  assumes "attempts w c msgs 0 (a # as) d = Some (r, account, d')" and "lifecycle_inv (store (dk_app d))"
    and "run_agent_turn w 0 (Some a) Scope_chat c msgs d = Some (r1, d1)" and "terminal_of r1 = TFailed"
    and "active_run_of_chat (lc_session c) (store (dk_app d)) = Some run"
    and "\<forall>q \<in> set (runs (store (dk_app d))). r_chat q = Some (lc_session c) \<and> run_active (r_status q) \<longrightarrow> r_id q = r_id run"
    and "run_context (store (dk_app d1)) (r_id run) \<noteq> run_context (store (dk_app d)) (r_id run)"
  shows "run_context (store (dk_app d')) (r_id run) = Some (r_plan_id run, ''failed'', ''ready'')"
proof -
  let ?chat = "lc_session c"
  let ?old = "store (dk_app d)"
  let ?live = "snd (chat_running (tw_clock w 0) ?chat ?old)"
  let ?ended = "set_chats (\<lambda>x. c_id x = ?chat) (\<lambda>x. x\<lparr>c_run_state := chat_state_name TFailed, c_updated_at := e_millis (tw_clock w 1) 0\<rparr>) ?live"
  have same: "same_runs ?old ?live" by (rule chat_running_same)
  have same1: "same_runs ?old ?ended" by (rule same_runs_trans [OF same same_runs_chats])
  from active_run_of_chatD [OF assms(5)] obtain p where run: "run \<in> set (runs ?old)"
    and p: "lookup_by pl_id (r_plan_id run) (plans ?old) = Some p" by blast
  have row: "lookup_by r_id (r_id run) (runs ?old) = Some run"
    using assms(2) run by (simp add: lifecycle_inv_def wf_db_def lookup_by_distinct)
  have act: "active_run_of_chat ?chat ?live = Some run" using same_runs_active [OF same] assms(5) by simp
  have p': "lookup_by pl_id (r_plan_id run) (plans ?live) = Some p" using same p by (simp add: same_runs_def)
  have d1: "store (dk_app d1) = snd (settle_chat_run (later 1 (tw_clock w 1)) ?chat TFailed run p ?ended)"
    using assms(3,4) act p'
    by (auto simp: run_agent_turn_def Let_def chat_terminal_def emit_def split: option.splits loop_step.splits)
  obtain res d2 where settle: "settle_chat_run (later 1 (tw_clock w 1)) ?chat TFailed run p ?ended = (res, d2)" by fastforce
  have "\<exists>u. res = Inr u"
  proof (cases res)
    case (Inl err)
    with settle have "same_runs ?ended d2"
      by (auto simp: settle_chat_run_def Let_def commit_or_rollback_def same_runs_def split: sum.splits prod.splits)
    with same_runs_context [OF same_runs_trans [OF same1 this]] d1 settle assms(7) show ?thesis by simp
  qed simp
  with settle obtain u where ok: "settle_chat_run (later 1 (tw_clock w 1)) ?chat TFailed run p ?ended = (Inr u, d2)" by auto
  have "lookup_by r_id (r_id run) (runs ?ended) = Some run" "lookup_by pl_id (r_plan_id run) (plans ?ended) = Some p"
    using same1 row p by (simp_all add: same_runs_def)
  from settle_chat_Ok [OF ok this] d1 settle have failed: "run_context (store (dk_app d1)) (r_id run) = Some (r_plan_id run, ''failed'', ''ready'')"
    by simp
  have rows: "runs d2 = upd_where (\<lambda>x. r_id x = r_id run) (\<lambda>x. x\<lparr>r_status := ''failed'',
      r_error := Some ''Linked chat failed to complete its turn'',
      r_finished_at := coalesce_opt (r_finished_at x) (Some (e_secs (later 1 (tw_clock w 1)) 0))\<rparr>) (runs ?old)"
    using commit_record_Ok [OF ok [unfolded settle_chat_run_def terminal_row.simps Let_def prod.case]] same1 by (simp add: same_runs_def)
  have "active_run_of_chat ?chat d2 = None"
    by (rule no_active_run) (use assms(6) in \<open>auto simp: rows set_upd_where run_active_def\<close>)
  then have idle: "active_run_of_chat ?chat (store (dk_app d1)) = None" using d1 settle by simp
  have "same_runs (store (dk_app d1)) (store (dk_app d'))"
  proof (cases "pre_stream_failure r1")
    case None
    with assms(1,3) show ?thesis by (auto simp: note_outcome_def)
  next
    case (Some err)
    let ?noted = "note_outcome w 0 a (classify_provider_error err) d1"
    let ?e = "?noted\<lparr>dk_chat := drop_rows (rr_segments r1) (dk_chat ?noted)\<rparr>"
    show ?thesis
    proof (cases "as = []")
      case True
      with assms(1,3) Some show ?thesis by (auto simp: note_outcome_def Let_def)
    next
      case False
      with assms(1,3) Some have "attempts w c msgs 1 as ?e = Some (r, account, d')" by (simp add: Let_def)
      from idle_attempts [OF this] idle show ?thesis by (simp add: note_outcome_def)
    qed
  qed
  from same_runs_context [OF this] failed show ?thesis by simp
qed

subsection \<open>Two accounts, the first of which is refused\<close>

text \<open>The chat runs the plan of the run r1; the first account is rate limited, the second one answers.\<close>

definition sample_desk :: desk where
  "sample_desk = \<lparr>dk_app = sample_app (sample_db [sample_plan_row ''p1'' ''running''] [sample_run_row ''r1'' ''p1'' (Some ''s1'') ''running'']),
     dk_chat = sample_chat, dk_accounts = sample_accounts RoundRobin\<rparr>"

definition sample_turns :: turn_world where
  "sample_turns = \<lparr>tw_clock = (\<lambda>k. sample_clock (int k + 10)), tw_project = RunnerProps.sample_world,
     tw_loop = (\<lambda>k _. if k = 0 then sample_loop_world\<lparr>lw_answer := (\<lambda>_ _. Broken ''Rate limited (429)'' [] [])\<rparr> else sample_loop_world),
     tw_admitted = True, tw_fuel = 2\<rparr>"

definition sample_choices :: "account_record list" where
  "sample_choices = map row_record [sample_row ''a'' ''k1'' 1, sample_row ''b'' ''k2'' 2]"

lemma attempts_code [code]:
  "attempts w c msgs k [] d = map_option (\<lambda>x. (fst x, None, snd x)) (run_agent_turn w k None Scope_chat c msgs d)"
  "attempts w c msgs k (a # as) d =
     (case run_agent_turn w k (Some a) Scope_chat c msgs d of
        None \<Rightarrow> None
      | Some x \<Rightarrow>
          (case pre_stream_failure (fst x) of
             None \<Rightarrow> Some (fst x, Some (ac_id a), note_outcome w k a Success (snd x))
           | Some err \<Rightarrow>
               (if as = [] then Some (fst x, Some (ac_id a), note_outcome w k a (classify_provider_error err) (snd x))
                else attempts w c msgs (k + 1) as
                  (discard (rr_segments (fst x)) (note_outcome w k a (classify_provider_error err) (snd x))))))"
  by (cases "run_agent_turn w k None Scope_chat c msgs d"; simp split: prod.split)
    (simp add: case_prod_beta split: option.split)

definition sample_tried :: "run_result \<times> string option \<times> desk" where
  "sample_tried = (case attempts sample_turns sample_config [] 0 sample_choices sample_desk of
     Some x \<Rightarrow> x | None \<Rightarrow> (cancelled_run, None, sample_desk))"

lemma sample_tried_run:
  "attempts sample_turns sample_config [] 0 sample_choices sample_desk = Some (fst sample_tried, fst (snd sample_tried), snd (snd sample_tried))"
proof -
  have "rr_completed (fst sample_tried)" unfolding sample_tried_def sample_turns_def numeral_2_eq_2 by code_simp
  then show ?thesis by (auto simp: sample_tried_def cancelled_run_def split: option.splits)
qed

theorem failed_attempts_leave_no_rows_witness:
  "\<exists>new. st_messages (dk_chat (snd (snd sample_tried))) = st_messages sample_chat @ new \<and>
    map (fst \<circ> snd \<circ> row_text) (filter by_assistant new) = [''looking'', ''done'']"
proof -
  have texts: "map (fst \<circ> snd \<circ> segment_text) (filter (\<lambda>g. tg_message_id g \<noteq> None) (rr_segments (fst sample_tried))) = [''looking'', ''done'']"
    unfolding sample_tried_def sample_turns_def numeral_2_eq_2 by code_simp
  from failed_attempts_leave_no_rows [OF sample_tried_run] obtain new where
    new: "st_messages (dk_chat (snd (snd sample_tried))) = st_messages (dk_chat sample_desk) @ new"
      "map row_text (filter by_assistant new) = map segment_text (filter (\<lambda>g. tg_message_id g \<noteq> None) (rr_segments (fst sample_tried)))"
    by blast
  have "dk_chat sample_desk = sample_chat" by (simp add: sample_desk_def)
  moreover have "map (fst \<circ> snd \<circ> row_text) (filter by_assistant new) = [''looking'', ''done'']"
    using arg_cong [OF new(2), of "map (fst \<circ> snd)"] texts by (simp add: comp_assoc)
  ultimately show ?thesis using new(1) by auto
qed

theorem accounts_are_tried_in_order_witness:
  "\<exists>rs. tried sample_turns sample_config [] 0 sample_choices rs \<and> last rs = fst sample_tried \<and>
     fst (snd sample_tried) = Some (ac_id (sample_choices ! (length rs - 1))) \<and>
     (\<forall>l < length rs - 1. \<exists>err. fails_unheard (rs ! l) err)"
proof -
  have "stored_accounts sample_choices (dk_accounts sample_desk)" by code_simp
  moreover have "sample_choices \<noteq> []" by (simp add: sample_choices_def)
  ultimately show ?thesis using accounts_are_tried_in_order [OF sample_tried_run] by metis
qed

theorem failover_fails_the_plan_run_witness:
  "rr_completed (fst sample_tried) \<and> run_context (store (dk_app (snd (snd sample_tried)))) ''r1'' = Some (''p1'', ''failed'', ''ready'')"
proof -
  let ?run = "sample_run_row ''r1'' ''p1'' (Some ''s1'') ''running''"
  let ?first = "run_agent_turn sample_turns 0 (Some (hd sample_choices)) Scope_chat sample_config [] sample_desk"
  have completed: "rr_completed (fst sample_tried)" unfolding sample_tried_def sample_turns_def numeral_2_eq_2 by code_simp
  have "?first \<noteq> None \<and> terminal_of (fst (the ?first)) = TFailed \<and>
    run_context (store (dk_app (snd (the ?first)))) ''r1'' \<noteq> run_context (store (dk_app sample_desk)) ''r1''"
    unfolding sample_turns_def numeral_2_eq_2 by code_simp
  then obtain r1 d1 where first: "?first = Some (r1, d1)" "terminal_of r1 = TFailed"
    "run_context (store (dk_app d1)) ''r1'' \<noteq> run_context (store (dk_app sample_desk)) ''r1''" by (cases ?first) auto
  have rows: "runs (store (dk_app sample_desk)) = [?run]" by (simp add: sample_desk_def sample_app_def sample_db_def)
  have ids: "r_id ?run = ''r1''" "r_plan_id ?run = ''p1''" by (simp_all add: sample_run_row_def new_run_row_def)
  have "active_run_of_chat (lc_session sample_config) (store (dk_app sample_desk)) = Some ?run" by code_simp
  moreover have "lifecycle_inv (store (dk_app sample_desk))"
    by (simp add: sample_desk_def sample_app_def lifecycle_inv_def wf_db_def sample_defs plan_exists_def session_exists_def
      run_ok_defs plan_ok_def)
  moreover have "sample_choices = hd sample_choices # tl sample_choices" by (simp add: sample_choices_def)
  ultimately show ?thesis
    using failover_fails_the_plan_run [of sample_turns sample_config "[]" "hd sample_choices" "tl sample_choices" sample_desk
        "fst sample_tried" "fst (snd sample_tried)" "snd (snd sample_tried)" r1 d1 ?run]
      sample_tried_run first rows ids completed by simp
qed

end
