(* ===== verification/RunRegistry.thy ===== *)
theory RunRegistry
  imports Approval
begin

text \<open>
  The runs that are live in the process: \<open>ACTIVE_RUNS\<close>, \<open>PENDING_STEERS\<close> and \<open>PENDING_APPROVALS\<close> of
  \<open>services/agent_loop_service.rs\<close> and \<open>CHILDREN\<close> of \<open>services/subagent_service.rs\<close>, shared by the threads
  of the turns, of the subagents, of the commands that stop a chat and of those that steer it. An \<open>action\<close> is
  what one thread does while it holds the locks it takes; \<open>act\<close> says when it can do so and what changes.
\<close>

section \<open>Threads\<close>

text \<open>
  A run is named by its handle, its cancellation token is its place in \<open>rg_cancelled\<close>. It loops, creates the
  children of a \<open>task\<close> call or waits for them; it leaves the loop with or without retiring the handle first,
  and is then unregistered. A run that panics takes no step any more. \<open>rt_cap\<close> is the cap of its gate, 0
  when it may not start subagents.
\<close>

datatype run_phase = Looping | Hiring | Joining | Leaving | Retired | Unregistered | Panicked

record run_thread =
  rt_session :: string
  rt_cap :: nat
  rt_phase :: run_phase

text \<open>
  A child waits for the gate of its parent turn, then for the permit of the provider; before each wait it looks
  at the parent's token. \<open>Cleared\<close> has both permits.
\<close>

datatype child_phase = Created | At_gate | In_gate | At_provider | Cleared | In_turn nat | Finished_child

record child_thread =
  ch_parent :: nat
  ch_phase :: child_phase

text \<open>
  What is left to do of a call of \<open>cancel_run\<close>. \<open>Wake\<close> remembers the handle whose token was set, which the
  code keeps as \<open>found\<close>.
\<close>

datatype micro = Mark string | Forget_steers string | Drop_approvals string | Cancel_children string |
  Wake string "nat option" | Clear_approvals

text \<open>
  \<open>rg_approvals\<close> is the table of the prompts, \<open>rg_asks\<close> the calls that wait for an answer, each with the
  run and the key it asked under: the read-only calls of a batch run in threads of their own, so that a run can
  have several. \<open>rg_woken\<close> holds the children with a stored notification. Of the two semaphores the gate is
  counted, the provider's is shared with the plan runner and may or may not have a permit. The last fields record
  what happened: the answers the calls got, the messages accepted for a run and those it took, the runs whose
  queue a stop emptied, the handles a whole call of \<open>cancel_run\<close> has been over, and the runs that were not
  alone, since another turn of their session was there at the same time.
\<close>

record live_registry =
  rg_active :: "string \<Rightarrow> nat option"
  rg_steers :: "string \<Rightarrow> string list option"
  rg_approvals :: "string \<Rightarrow> nat option"
  rg_asks :: "nat \<Rightarrow> (nat \<times> string) option"
  rg_children :: "string \<Rightarrow> string option"
  rg_woken :: "string set"
  rg_cancelled :: "nat set"
  rg_gate :: "nat \<Rightarrow> nat"
  rg_runs :: "nat \<Rightarrow> run_thread option"
  rg_kids :: "string \<Rightarrow> child_thread option"
  rg_cancels :: "micro list list"
  rg_verdict :: "nat \<Rightarrow> approval option"
  rg_accepted :: "nat \<Rightarrow> string list"
  rg_taken :: "nat \<Rightarrow> string list"
  rg_emptied :: "nat set"
  rg_swept :: "nat set"
  rg_disturbed :: "nat set"

definition phase_of :: "nat \<Rightarrow> live_registry \<Rightarrow> run_phase option" where
  "phase_of n g = map_option rt_phase (rg_runs g n)"

definition set_phase :: "nat \<Rightarrow> run_phase \<Rightarrow> live_registry \<Rightarrow> live_registry" where
  "set_phase n ph g = g\<lparr>rg_runs := (rg_runs g)(n := map_option (\<lambda>t. t\<lparr>rt_phase := ph\<rparr>) (rg_runs g n))\<rparr>"

definition session_of :: "nat \<Rightarrow> live_registry \<Rightarrow> string" where
  "session_of n g = (case rg_runs g n of Some t \<Rightarrow> rt_session t | None \<Rightarrow> [])"

definition kid_phase :: "string \<Rightarrow> live_registry \<Rightarrow> child_phase option" where
  "kid_phase k g = map_option ch_phase (rg_kids g k)"

definition kid_parent :: "string \<Rightarrow> live_registry \<Rightarrow> nat" where
  "kid_parent k g = (case rg_kids g k of Some c \<Rightarrow> ch_parent c | None \<Rightarrow> 0)"

definition set_kid :: "string \<Rightarrow> child_phase \<Rightarrow> live_registry \<Rightarrow> live_registry" where
  "set_kid k ph g = g\<lparr>rg_kids := (rg_kids g)(k := map_option (\<lambda>c. c\<lparr>ch_phase := ph\<rparr>) (rg_kids g k))\<rparr>"

section \<open>Steering\<close>

definition is_running :: "string \<Rightarrow> live_registry \<Rightarrow> bool" where
  "is_running s g \<longleftrightarrow> rg_active g s \<noteq> None"

definition pending_steers :: "string \<Rightarrow> live_registry \<Rightarrow> string list" where
  "pending_steers s g = (case rg_steers g s of None \<Rightarrow> [] | Some xs \<Rightarrow> xs)"

definition push_steer :: "string \<Rightarrow> string \<Rightarrow> live_registry \<Rightarrow> bool \<times> live_registry" where
  "push_steer s m g =
     (case rg_active g s of
        None \<Rightarrow> (False, g)
      | Some n \<Rightarrow> (True, g\<lparr>rg_steers := (rg_steers g)(s := Some (pending_steers s g @ [m])),
          rg_accepted := (rg_accepted g)(n := rg_accepted g n @ [m])\<rparr>))"

definition drain_steers :: "nat \<Rightarrow> string \<Rightarrow> live_registry \<Rightarrow> live_registry" where
  "drain_steers n s g = g\<lparr>rg_steers := (rg_steers g)(s := None),
     rg_taken := (rg_taken g)(n := rg_taken g n @ pending_steers s g)\<rparr>"

definition finish_or_steer :: "nat \<Rightarrow> string \<Rightarrow> live_registry \<Rightarrow> live_registry" where
  "finish_or_steer n s g =
     (let g' = drain_steers n s g
      in if pending_steers s g = [] then set_phase n Retired (g'\<lparr>rg_active := (rg_active g')(s := None)\<rparr>) else g')"

section \<open>Registration\<close>

text \<open>The run of a chat is registered whether or not another one is; the end removes whatever is there.\<close>

definition register_run :: "nat \<Rightarrow> string \<Rightarrow> nat \<Rightarrow> live_registry \<Rightarrow> live_registry" where
  "register_run n s cap g = g\<lparr>rg_active := (rg_active g)(s := Some n), rg_gate := (rg_gate g)(n := cap),
     rg_runs := (rg_runs g)(n := Some \<lparr>rt_session = s, rt_cap = cap, rt_phase = Looping\<rparr>)\<rparr>"

definition others_of :: "string \<Rightarrow> live_registry \<Rightarrow> nat set" where
  "others_of s g = {m \<in> dom (rg_runs g). session_of m g = s \<and> phase_of m g \<noteq> Some Unregistered}"

definition begin_turn :: "nat \<Rightarrow> string \<Rightarrow> nat \<Rightarrow> live_registry \<Rightarrow> live_registry" where
  "begin_turn n s cap g = (register_run n s cap g)\<lparr>rg_disturbed := rg_disturbed g \<union>
     (if others_of s g = {} then {} else insert n (others_of s g))\<rparr>"

definition unregister_run :: "nat \<Rightarrow> string \<Rightarrow> live_registry \<Rightarrow> live_registry" where
  "unregister_run n s g = set_phase n Unregistered (g\<lparr>rg_steers := (rg_steers g)(s := None), rg_active := (rg_active g)(s := None)\<rparr>)"

definition parent_of :: "string \<Rightarrow> live_registry \<Rightarrow> string option" where
  "parent_of k g = rg_children g k"

definition subagent_admitted :: "string \<Rightarrow> live_registry \<Rightarrow> bool" where
  "subagent_admitted k g =
     (case parent_of k g of
        None \<Rightarrow> False
      | Some p \<Rightarrow> (case rg_active g p of None \<Rightarrow> False | Some n \<Rightarrow> n \<notin> rg_cancelled g))"

definition is_subagent :: "string \<Rightarrow> live_registry \<Rightarrow> bool" where
  "is_subagent s g \<longleftrightarrow> rg_children g s \<noteq> None"

definition live_children :: "string \<Rightarrow> live_registry \<Rightarrow> string set" where
  "live_children s g = {k. rg_children g k = Some s}"

definition wake_children :: "string \<Rightarrow> live_registry \<Rightarrow> live_registry" where
  "wake_children s g = g\<lparr>rg_woken := rg_woken g \<union> live_children s g\<rparr>"

section \<open>Approvals\<close>

definition approval_key :: "string \<Rightarrow> string \<Rightarrow> live_registry \<Rightarrow> string" where
  "approval_key s call g = (if is_subagent s g then s @ ''#'' @ call else call)"

text \<open>Call \<open>i\<close> enters its prompt, over one that is there under the same key, and waits.\<close>

definition ask_approval :: "nat \<Rightarrow> string \<Rightarrow> nat \<Rightarrow> live_registry \<Rightarrow> live_registry" where
  "ask_approval n call i g =
     (let key = approval_key (session_of n g) call g
      in g\<lparr>rg_approvals := (rg_approvals g)(key := Some i), rg_asks := (rg_asks g)(i := Some (n, key))\<rparr>)"

definition answered :: "nat \<Rightarrow> approval \<Rightarrow> live_registry \<Rightarrow> live_registry" where
  "answered i a g = g\<lparr>rg_asks := (rg_asks g)(i := None), rg_verdict := (rg_verdict g)(i := Some a)\<rparr>"

definition resolve_approval :: "string \<Rightarrow> approval \<Rightarrow> live_registry \<Rightarrow> bool \<times> live_registry" where
  "resolve_approval key a g =
     (case rg_approvals g key of
        None \<Rightarrow> (False, g)
      | Some i \<Rightarrow> (True, answered i a (g\<lparr>rg_approvals := (rg_approvals g)(key := None)\<rparr>)))"

text \<open>The sender is gone, or the time is up; both remove what is under the key by then.\<close>

definition no_answer :: "nat \<Rightarrow> string \<Rightarrow> live_registry \<Rightarrow> live_registry" where
  "no_answer i key g = answered i \<lparr>aw_decision = Deny, aw_session_rule = None\<rparr>
     (g\<lparr>rg_approvals := (rg_approvals g)(key := None)\<rparr>)"

definition cancel_pending_approvals :: "live_registry \<Rightarrow> live_registry" where
  "cancel_pending_approvals g = g\<lparr>rg_approvals := Map.empty\<rparr>"

section \<open>Cancelling\<close>

definition cancel_rest :: "string \<Rightarrow> nat option \<Rightarrow> micro list" where
  "cancel_rest s found = [Forget_steers s, Drop_approvals s, Cancel_children s, Wake s found]"

definition cancel_agent_run :: "string \<Rightarrow> micro list" where
  "cancel_agent_run s = [Mark s]"

definition stop_chat :: "string \<Rightarrow> micro list" where
  "stop_chat s = cancel_agent_run s @ [Clear_approvals]"

text \<open>
  One step of a stop: what is left of it and the new registry. \<open>order\<close> is the order in which the live
  children are handed out.
\<close>

fun cancel_step :: "string list \<Rightarrow> micro list \<Rightarrow> live_registry \<Rightarrow> (micro list \<times> live_registry) option" where
  "cancel_step order [] g = None"
| "cancel_step order (Mark s # ms) g =
     (case rg_active g s of
        None \<Rightarrow> Some (cancel_rest s None @ ms, g)
      | Some n \<Rightarrow> Some (cancel_rest s (Some n) @ ms, g\<lparr>rg_cancelled := insert n (rg_cancelled g)\<rparr>))"
| "cancel_step order (Forget_steers s # ms) g =
     Some (ms, g\<lparr>rg_steers := (rg_steers g)(s := None),
       rg_emptied := rg_emptied g \<union> (case rg_active g s of None \<Rightarrow> {} | Some n \<Rightarrow> {n})\<rparr>)"
| "cancel_step order (Drop_approvals s # ms) g =
     Some (ms, g\<lparr>rg_approvals := (\<lambda>key. if prefix (s @ ''#'') key then None else rg_approvals g key)\<rparr>)"
| "cancel_step order (Cancel_children s # ms) g =
     (if set order = live_children s g then Some (concat (map cancel_agent_run order) @ ms, g) else None)"
| "cancel_step order (Wake s found # ms) g =
     Some (ms, (wake_children s g)\<lparr>rg_swept := rg_swept g \<union> (case found of None \<Rightarrow> {} | Some n \<Rightarrow> {n})\<rparr>)"
| "cancel_step order (Clear_approvals # ms) g = Some (ms, cancel_pending_approvals g)"

section \<open>Children\<close>

text \<open>
  A child is entered in the table with its session fresh; it leaves the table when it reaches a terminal state,
  and with it come back the permits it holds.
\<close>

definition create_child :: "nat \<Rightarrow> string \<Rightarrow> live_registry \<Rightarrow> live_registry" where
  "create_child n k g = set_phase n Hiring
     (g\<lparr>rg_children := (rg_children g)(k := Some (session_of n g)),
        rg_kids := (rg_kids g)(k := Some \<lparr>ch_parent = n, ch_phase = Created\<rparr>)\<rparr>)"

definition holds_gate :: "child_phase \<Rightarrow> bool" where
  "holds_gate ph \<longleftrightarrow> (case ph of In_gate \<Rightarrow> True | At_provider \<Rightarrow> True | Cleared \<Rightarrow> True | In_turn n \<Rightarrow> True | _ \<Rightarrow> False)"

definition finish_child :: "string \<Rightarrow> live_registry \<Rightarrow> live_registry" where
  "finish_child k g = set_kid k Finished_child
     (g\<lparr>rg_children := (rg_children g)(k := None),
        rg_gate := (case rg_kids g k of
            Some c \<Rightarrow> if holds_gate (ch_phase c) then (rg_gate g)(ch_parent c := rg_gate g (ch_parent c) + 1) else rg_gate g
          | None \<Rightarrow> rg_gate g)\<rparr>)"

definition finish_all :: "nat \<Rightarrow> live_registry \<Rightarrow> live_registry" where
  "finish_all n g = g\<lparr>rg_children := (\<lambda>k. case rg_kids g k of
         Some c \<Rightarrow> if ch_parent c = n then None else rg_children g k
       | None \<Rightarrow> rg_children g k),
     rg_kids := (\<lambda>k. map_option (\<lambda>c. if ch_parent c = n then c\<lparr>ch_phase := Finished_child\<rparr> else c) (rg_kids g k))\<rparr>"

definition parent_cancelled :: "string \<Rightarrow> live_registry \<Rightarrow> bool" where
  "parent_cancelled k g \<longleftrightarrow> kid_parent k g \<in> rg_cancelled g"

text \<open>The look at the parent's token that opens \<open>acquire_permit\<close>, for the gate and then for the provider.\<close>

definition check_parent :: "string \<Rightarrow> live_registry \<Rightarrow> live_registry option" where
  "check_parent k g =
     (case kid_phase k g of
        Some Created \<Rightarrow> Some (if parent_cancelled k g then finish_child k g else set_kid k At_gate g)
      | Some In_gate \<Rightarrow> Some (if parent_cancelled k g then finish_child k g else set_kid k At_provider g)
      | _ \<Rightarrow> None)"

text \<open>A permit that comes after the cancellation is given back at once.\<close>

definition take_permit :: "string \<Rightarrow> live_registry \<Rightarrow> live_registry option" where
  "take_permit k g =
     (case kid_phase k g of
        Some At_gate \<Rightarrow>
          (let n = kid_parent k g
           in if rg_gate g n = 0 then None
              else Some (if parent_cancelled k g then finish_child k g
                         else set_kid k In_gate (g\<lparr>rg_gate := (rg_gate g)(n := rg_gate g n - 1)\<rparr>)))
      | Some At_provider \<Rightarrow> Some (if parent_cancelled k g then finish_child k g else set_kid k Cleared g)
      | _ \<Rightarrow> None)"

definition notified :: "string \<Rightarrow> live_registry \<Rightarrow> live_registry option" where
  "notified k g =
     (if k \<in> rg_woken g \<and> kid_phase k g \<in> {Some At_gate, Some At_provider}
      then Some (let g' = g\<lparr>rg_woken := rg_woken g - {k}\<rparr>
                 in if parent_cancelled k g then finish_child k g' else g')
      else None)"

text \<open>
  \<open>run_agent_turn\<close> of a child: the look at the parent's run and the registration are one action. A run
  that is not admitted is reported as cancelled.
\<close>

definition admit_child :: "string \<Rightarrow> nat \<Rightarrow> live_registry \<Rightarrow> live_registry" where
  "admit_child k n g =
     (if subagent_admitted k g then set_kid k (In_turn n) (register_run n k 0 g) else finish_child k g)"

section \<open>What the threads do\<close>

datatype action =
    Turn_begins nat string nat | Steer_pushed string string | Steers_drained nat | Loop_finishes nat
  | Loop_breaks nat | Turn_ends nat | Turn_panics nat
  | Approval_asked nat string nat | Approval_given string approval | Approval_lost nat | Approval_expires nat
  | Child_created nat string | Children_fail nat | Children_start nat | Children_joined nat
  | Parent_checked string | Permit_taken string | Child_notified string | Child_admitted string nat | Child_done string
  | Child_fails string
  | Chat_stopped string | Stop_goes_on nat "string list"

definition parent_waits :: "string \<Rightarrow> live_registry \<Rightarrow> bool" where
  "parent_waits k g \<longleftrightarrow> phase_of (kid_parent k g) g = Some Joining"

text \<open>The loop goes on when no call of its batch waits for an answer.\<close>

definition at_loop :: "nat \<Rightarrow> live_registry \<Rightarrow> bool" where
  "at_loop n g \<longleftrightarrow> phase_of n g = Some Looping \<and> (\<forall>i \<in> dom (rg_asks g). map_option fst (rg_asks g i) \<noteq> Some n)"

text \<open>
  A turn begins whether or not another one of its session is live; the sessions of children take none, since the
  list of the chats does not show them. A panic unwinds the turn past the code that unregisters it, so that its
  entry in \<open>rg_active\<close> stays. A child whose thread panics is finished by the join of its parent.
\<close>

fun act :: "action \<Rightarrow> live_registry \<Rightarrow> live_registry option" where
  "act (Turn_begins n s cap) g = (if rg_runs g n = None \<and> rg_kids g s = None then Some (begin_turn n s cap g) else None)"
| "act (Steer_pushed s m) g = Some (snd (push_steer s m g))"
| "act (Steers_drained n) g = (if at_loop n g then Some (drain_steers n (session_of n g) g) else None)"
| "act (Loop_finishes n) g = (if at_loop n g then Some (finish_or_steer n (session_of n g) g) else None)"
| "act (Loop_breaks n) g = (if at_loop n g then Some (set_phase n Leaving g) else None)"
| "act (Turn_ends n) g =
     (if phase_of n g \<in> {Some Leaving, Some Retired} then Some (unregister_run n (session_of n g) g) else None)"
| "act (Turn_panics n) g =
     (if at_loop n g \<or> phase_of n g \<in> {Some Hiring, Some Leaving, Some Retired} then Some (set_phase n Panicked g) else None)"
| "act (Approval_asked n call i) g =
     (if phase_of n g = Some Looping \<and> rg_asks g i = None \<and> rg_verdict g i = None then Some (ask_approval n call i g) else None)"
| "act (Approval_given key a) g = Some (snd (resolve_approval key a g))"
| "act (Approval_lost i) g =
     (case rg_asks g i of
        Some (n, key) \<Rightarrow> if rg_approvals g key = Some i then None else Some (no_answer i key g)
      | None \<Rightarrow> None)"
| "act (Approval_expires i) g =
     (case rg_asks g i of Some (n, key) \<Rightarrow> Some (no_answer i key g) | None \<Rightarrow> None)"
| "act (Child_created n k) g =
     (case rg_runs g n of
        Some t \<Rightarrow>
          if (at_loop n g \<or> rt_phase t = Hiring) \<and> 0 < rt_cap t \<and> rg_kids g k = None \<and> rg_active g k = None \<and>
             (\<forall>m \<in> dom (rg_runs g). session_of m g \<noteq> k)
          then Some (create_child n k g) else None
      | None \<Rightarrow> None)"
| "act (Children_fail n) g = (if phase_of n g = Some Hiring then Some (set_phase n Looping (finish_all n g)) else None)"
| "act (Children_start n) g = (if phase_of n g = Some Hiring then Some (set_phase n Joining g) else None)"
| "act (Children_joined n) g =
     (if phase_of n g = Some Joining \<and>
         (\<forall>k \<in> dom (rg_kids g). kid_parent k g = n \<longrightarrow> kid_phase k g = Some Finished_child)
      then Some (set_phase n Looping g) else None)"
| "act (Parent_checked k) g = (if parent_waits k g then check_parent k g else None)"
| "act (Permit_taken k) g = (if parent_waits k g then take_permit k g else None)"
| "act (Child_notified k) g = (if parent_waits k g then notified k g else None)"
| "act (Child_admitted k n) g =
     (if parent_waits k g \<and> kid_phase k g = Some Cleared \<and> rg_runs g n = None then Some (admit_child k n g) else None)"
| "act (Child_done k) g =
     (case kid_phase k g of
        Some (In_turn n) \<Rightarrow> if phase_of n g \<in> {Some Unregistered, Some Panicked} then Some (finish_child k g) else None
      | _ \<Rightarrow> None)"
| "act (Child_fails k) g =
     (if parent_waits k g \<and> kid_phase k g \<in> {Some Created, Some At_gate, Some In_gate, Some At_provider, Some Cleared}
      then Some (finish_child k g) else None)"
| "act (Chat_stopped s) g = Some (g\<lparr>rg_cancels := rg_cancels g @ [stop_chat s]\<rparr>)"
| "act (Stop_goes_on i order) g =
     (if i < length (rg_cancels g)
      then (case cancel_step order (rg_cancels g ! i) g of
              None \<Rightarrow> None
            | Some (ms, g') \<Rightarrow> Some (g'\<lparr>rg_cancels := (rg_cancels g')[i := ms]\<rparr>))
      else None)"

definition idle_registry :: live_registry where
  "idle_registry = \<lparr>rg_active = Map.empty, rg_steers = Map.empty, rg_approvals = Map.empty, rg_asks = Map.empty,
     rg_children = Map.empty, rg_woken = {}, rg_cancelled = {}, rg_gate = (\<lambda>_. 0), rg_runs = Map.empty, rg_kids = Map.empty,
     rg_cancels = [], rg_verdict = Map.empty, rg_accepted = (\<lambda>_. []), rg_taken = (\<lambda>_. []), rg_emptied = {}, rg_swept = {},
     rg_disturbed = {}\<rparr>"

text \<open>Every interleaving of the threads.\<close>

inductive reachable :: "live_registry \<Rightarrow> bool" where
  at_rest: "reachable idle_registry"
| moves_on: "reachable g \<Longrightarrow> act x g = Some g' \<Longrightarrow> reachable g'"

end
