(* ===== verification/RegistryShape.thy ===== *)
theory RegistryShape
  imports RunRegistry
begin

text \<open>
  The shape every reachable registry has: a registered handle is that of a run of the session that has not ended,
  a run that no other turn of its session disturbed is registered exactly while it is live, a child is in the table
  exactly while it is not finished, and the run that started it waits for it.
\<close>

section \<open>Views\<close>

definition sess :: "live_registry \<Rightarrow> nat \<Rightarrow> string option" where
  "sess g n = map_option rt_session (rg_runs g n)"

definition cap_of :: "live_registry \<Rightarrow> nat \<Rightarrow> nat option" where
  "cap_of g n = map_option rt_cap (rg_runs g n)"

definition kid_of :: "live_registry \<Rightarrow> string \<Rightarrow> nat option" where
  "kid_of g k = map_option ch_parent (rg_kids g k)"

named_theorems views \<open>how the steps change what is seen of the live_registry\<close>

lemma field_views [views]:
  "sess (g\<lparr>rg_active := a\<rparr>) = sess g" "sess (g\<lparr>rg_steers := b\<rparr>) = sess g" "sess (g\<lparr>rg_approvals := c\<rparr>) = sess g"
  "sess (g\<lparr>rg_children := d\<rparr>) = sess g" "sess (g\<lparr>rg_woken := e\<rparr>) = sess g" "sess (g\<lparr>rg_cancelled := f\<rparr>) = sess g"
  "sess (g\<lparr>rg_gate := h\<rparr>) = sess g" "sess (g\<lparr>rg_kids := i\<rparr>) = sess g" "sess (g\<lparr>rg_cancels := j\<rparr>) = sess g"
  "sess (g\<lparr>rg_verdict := l\<rparr>) = sess g" "sess (g\<lparr>rg_accepted := o1\<rparr>) = sess g" "sess (g\<lparr>rg_taken := p\<rparr>) = sess g"
  "sess (g\<lparr>rg_emptied := q\<rparr>) = sess g" "sess (g\<lparr>rg_swept := r\<rparr>) = sess g"
  "sess (g\<lparr>rg_asks := u\<rparr>) = sess g" "sess (g\<lparr>rg_disturbed := v\<rparr>) = sess g"
  by (simp_all add: sess_def fun_eq_iff)

lemma phase_views [views]:
  "phase_of n (g\<lparr>rg_active := a\<rparr>) = phase_of n g" "phase_of n (g\<lparr>rg_steers := b\<rparr>) = phase_of n g"
  "phase_of n (g\<lparr>rg_approvals := c\<rparr>) = phase_of n g" "phase_of n (g\<lparr>rg_children := d\<rparr>) = phase_of n g"
  "phase_of n (g\<lparr>rg_woken := e\<rparr>) = phase_of n g" "phase_of n (g\<lparr>rg_cancelled := f\<rparr>) = phase_of n g"
  "phase_of n (g\<lparr>rg_gate := h\<rparr>) = phase_of n g" "phase_of n (g\<lparr>rg_kids := i\<rparr>) = phase_of n g"
  "phase_of n (g\<lparr>rg_cancels := j\<rparr>) = phase_of n g" "phase_of n (g\<lparr>rg_verdict := l\<rparr>) = phase_of n g"
  "phase_of n (g\<lparr>rg_accepted := o1\<rparr>) = phase_of n g" "phase_of n (g\<lparr>rg_taken := p\<rparr>) = phase_of n g"
  "phase_of n (g\<lparr>rg_emptied := q\<rparr>) = phase_of n g" "phase_of n (g\<lparr>rg_swept := r\<rparr>) = phase_of n g"
  "phase_of n (g\<lparr>rg_asks := u\<rparr>) = phase_of n g" "phase_of n (g\<lparr>rg_disturbed := v\<rparr>) = phase_of n g"
  by (simp_all add: phase_of_def)

lemma cap_views [views]:
  "cap_of (g\<lparr>rg_active := a\<rparr>) = cap_of g" "cap_of (g\<lparr>rg_steers := b\<rparr>) = cap_of g" "cap_of (g\<lparr>rg_approvals := c\<rparr>) = cap_of g"
  "cap_of (g\<lparr>rg_children := d\<rparr>) = cap_of g" "cap_of (g\<lparr>rg_woken := e\<rparr>) = cap_of g" "cap_of (g\<lparr>rg_cancelled := f\<rparr>) = cap_of g"
  "cap_of (g\<lparr>rg_gate := h\<rparr>) = cap_of g" "cap_of (g\<lparr>rg_kids := i\<rparr>) = cap_of g" "cap_of (g\<lparr>rg_cancels := j\<rparr>) = cap_of g"
  "cap_of (g\<lparr>rg_verdict := l\<rparr>) = cap_of g" "cap_of (g\<lparr>rg_accepted := o1\<rparr>) = cap_of g" "cap_of (g\<lparr>rg_taken := p\<rparr>) = cap_of g"
  "cap_of (g\<lparr>rg_emptied := q\<rparr>) = cap_of g" "cap_of (g\<lparr>rg_swept := r\<rparr>) = cap_of g"
  "cap_of (g\<lparr>rg_asks := u\<rparr>) = cap_of g" "cap_of (g\<lparr>rg_disturbed := v\<rparr>) = cap_of g"
  by (simp_all add: cap_of_def fun_eq_iff)

lemma kid_views [views]:
  "kid_phase k (g\<lparr>rg_active := a\<rparr>) = kid_phase k g" "kid_phase k (g\<lparr>rg_steers := b\<rparr>) = kid_phase k g"
  "kid_phase k (g\<lparr>rg_approvals := c\<rparr>) = kid_phase k g" "kid_phase k (g\<lparr>rg_children := d\<rparr>) = kid_phase k g"
  "kid_phase k (g\<lparr>rg_woken := e\<rparr>) = kid_phase k g" "kid_phase k (g\<lparr>rg_cancelled := f\<rparr>) = kid_phase k g"
  "kid_phase k (g\<lparr>rg_gate := h\<rparr>) = kid_phase k g" "kid_phase k (g\<lparr>rg_runs := i\<rparr>) = kid_phase k g"
  "kid_phase k (g\<lparr>rg_cancels := j\<rparr>) = kid_phase k g" "kid_phase k (g\<lparr>rg_verdict := l\<rparr>) = kid_phase k g"
  "kid_phase k (g\<lparr>rg_accepted := o1\<rparr>) = kid_phase k g" "kid_phase k (g\<lparr>rg_taken := p\<rparr>) = kid_phase k g"
  "kid_phase k (g\<lparr>rg_emptied := q\<rparr>) = kid_phase k g" "kid_phase k (g\<lparr>rg_swept := r\<rparr>) = kid_phase k g"
  "kid_phase k (g\<lparr>rg_asks := u\<rparr>) = kid_phase k g" "kid_phase k (g\<lparr>rg_disturbed := v\<rparr>) = kid_phase k g"
  by (simp_all add: kid_phase_def)

lemma parent_views [views]:
  "kid_of (g\<lparr>rg_active := a\<rparr>) = kid_of g" "kid_of (g\<lparr>rg_steers := b\<rparr>) = kid_of g" "kid_of (g\<lparr>rg_approvals := c\<rparr>) = kid_of g"
  "kid_of (g\<lparr>rg_children := d\<rparr>) = kid_of g" "kid_of (g\<lparr>rg_woken := e\<rparr>) = kid_of g" "kid_of (g\<lparr>rg_cancelled := f\<rparr>) = kid_of g"
  "kid_of (g\<lparr>rg_gate := h\<rparr>) = kid_of g" "kid_of (g\<lparr>rg_runs := i\<rparr>) = kid_of g" "kid_of (g\<lparr>rg_cancels := j\<rparr>) = kid_of g"
  "kid_of (g\<lparr>rg_verdict := l\<rparr>) = kid_of g" "kid_of (g\<lparr>rg_accepted := o1\<rparr>) = kid_of g" "kid_of (g\<lparr>rg_taken := p\<rparr>) = kid_of g"
  "kid_of (g\<lparr>rg_emptied := q\<rparr>) = kid_of g" "kid_of (g\<lparr>rg_swept := r\<rparr>) = kid_of g"
  "kid_of (g\<lparr>rg_asks := u\<rparr>) = kid_of g" "kid_of (g\<lparr>rg_disturbed := v\<rparr>) = kid_of g"
  by (simp_all add: kid_of_def fun_eq_iff)

lemma set_phase_views [views]:
  "sess (set_phase n ph g) = sess g" "cap_of (set_phase n ph g) = cap_of g"
  "kid_phase k (set_phase n ph g) = kid_phase k g" "kid_of (set_phase n ph g) = kid_of g"
  "phase_of m (set_phase n ph g) = (if m = n then map_option (\<lambda>_. ph) (phase_of n g) else phase_of m g)"
  "rg_active (set_phase n ph g) = rg_active g" "rg_steers (set_phase n ph g) = rg_steers g"
  "rg_approvals (set_phase n ph g) = rg_approvals g" "rg_children (set_phase n ph g) = rg_children g"
  "rg_woken (set_phase n ph g) = rg_woken g" "rg_cancelled (set_phase n ph g) = rg_cancelled g"
  "rg_gate (set_phase n ph g) = rg_gate g" "rg_cancels (set_phase n ph g) = rg_cancels g"
  "rg_accepted (set_phase n ph g) = rg_accepted g" "rg_taken (set_phase n ph g) = rg_taken g"
  "rg_emptied (set_phase n ph g) = rg_emptied g" "rg_swept (set_phase n ph g) = rg_swept g"
  "rg_asks (set_phase n ph g) = rg_asks g" "rg_disturbed (set_phase n ph g) = rg_disturbed g"
  by (auto simp: set_phase_def sess_def cap_of_def phase_of_def kid_phase_def kid_of_def fun_eq_iff option.map_comp comp_def)

lemma set_kid_views [views]:
  "sess (set_kid k ph g) = sess g" "cap_of (set_kid k ph g) = cap_of g" "phase_of n (set_kid k ph g) = phase_of n g"
  "kid_of (set_kid k ph g) = kid_of g"
  "kid_phase j (set_kid k ph g) = (if j = k then map_option (\<lambda>_. ph) (kid_phase k g) else kid_phase j g)"
  "rg_active (set_kid k ph g) = rg_active g" "rg_steers (set_kid k ph g) = rg_steers g"
  "rg_approvals (set_kid k ph g) = rg_approvals g" "rg_children (set_kid k ph g) = rg_children g"
  "rg_woken (set_kid k ph g) = rg_woken g" "rg_cancelled (set_kid k ph g) = rg_cancelled g"
  "rg_gate (set_kid k ph g) = rg_gate g" "rg_cancels (set_kid k ph g) = rg_cancels g"
  "rg_accepted (set_kid k ph g) = rg_accepted g" "rg_taken (set_kid k ph g) = rg_taken g"
  "rg_emptied (set_kid k ph g) = rg_emptied g" "rg_swept (set_kid k ph g) = rg_swept g"
  "rg_asks (set_kid k ph g) = rg_asks g" "rg_disturbed (set_kid k ph g) = rg_disturbed g"
  by (auto simp: set_kid_def sess_def cap_of_def phase_of_def kid_phase_def kid_of_def fun_eq_iff option.map_comp comp_def)

lemma register_views [views]:
  "sess (register_run n s cap g) = (sess g)(n := Some s)" "cap_of (register_run n s cap g) = (cap_of g)(n := Some cap)"
  "phase_of m (register_run n s cap g) = (if m = n then Some Looping else phase_of m g)"
  "kid_phase k (register_run n s cap g) = kid_phase k g" "kid_of (register_run n s cap g) = kid_of g"
  by (auto simp: register_run_def sess_def cap_of_def phase_of_def kid_phase_def kid_of_def fun_eq_iff)

lemma begin_views [views]:
  "sess (begin_turn n s cap g) = (sess g)(n := Some s)" "cap_of (begin_turn n s cap g) = (cap_of g)(n := Some cap)"
  "phase_of m (begin_turn n s cap g) = (if m = n then Some Looping else phase_of m g)"
  "kid_phase k (begin_turn n s cap g) = kid_phase k g" "kid_of (begin_turn n s cap g) = kid_of g"
  by (simp_all add: begin_turn_def views)

lemma create_views [views]:
  "sess (create_child n k g) = sess g" "cap_of (create_child n k g) = cap_of g"
  "phase_of m (create_child n k g) = (if m = n then map_option (\<lambda>_. Hiring) (phase_of n g) else phase_of m g)"
  "kid_phase j (create_child n k g) = (if j = k then Some Created else kid_phase j g)"
  "kid_of (create_child n k g) = (kid_of g)(k := Some n)"
  by (auto simp: create_child_def set_phase_def sess_def cap_of_def phase_of_def kid_phase_def kid_of_def fun_eq_iff option.map_comp comp_def)

lemma finish_all_views [views]:
  "sess (finish_all n g) = sess g" "cap_of (finish_all n g) = cap_of g" "phase_of m (finish_all n g) = phase_of m g"
  "kid_of (finish_all n g) = kid_of g"
  "kid_phase k (finish_all n g) = (if kid_of g k = Some n then Some Finished_child else kid_phase k g)"
  "rg_children (finish_all n g) k = (if kid_of g k = Some n then None else rg_children g k)"
  by (auto simp: finish_all_def sess_def cap_of_def phase_of_def kid_phase_def kid_of_def fun_eq_iff map_option_case
    split: option.split)

lemma kid_view: "kid_parent k g = (case kid_of g k of Some n \<Rightarrow> n | None \<Rightarrow> 0)" "kid_of g k = None \<longleftrightarrow> kid_phase k g = None"
  by (auto simp: kid_parent_def kid_of_def kid_phase_def split: option.split)

lemma run_view: "session_of n g = (case sess g n of Some s \<Rightarrow> s | None \<Rightarrow> [])" "sess g n = None \<longleftrightarrow> phase_of n g = None"
  "cap_of g n = None \<longleftrightarrow> phase_of n g = None" "rg_runs g n = None \<longleftrightarrow> phase_of n g = None" "rg_kids g k = None \<longleftrightarrow> kid_phase k g = None"
  by (auto simp: session_of_def sess_def phase_of_def cap_of_def kid_phase_def split: option.split)

section \<open>The invariant\<close>

definition ended :: "run_phase option \<Rightarrow> bool" where
  "ended ph \<longleftrightarrow> ph = None \<or> ph = Some Retired \<or> ph = Some Unregistered"

definition over :: "run_phase option \<Rightarrow> bool" where
  "over ph \<longleftrightarrow> ended ph \<or> ph = Some Panicked"

definition runs_ok :: "live_registry \<Rightarrow> bool" where
  "runs_ok g \<longleftrightarrow>
     (\<forall>s n. rg_active g s = Some n \<longrightarrow> sess g n = Some s \<and> \<not> ended (phase_of n g)) \<and>
     (\<forall>s n. sess g n = Some s \<and> \<not> over (phase_of n g) \<and> n \<notin> rg_disturbed g \<longrightarrow> rg_active g s = Some n) \<and>
     (\<forall>s. rg_steers g s \<noteq> None \<longrightarrow> rg_active g s \<noteq> None) \<and>
     (\<forall>s n. sess g n = Some s \<and> phase_of n g = Some Retired \<and> n \<notin> rg_disturbed g \<longrightarrow> rg_active g s = None) \<and>
     (\<forall>s n m. sess g n = Some s \<and> sess g m = Some s \<and> n \<noteq> m \<and> phase_of n g \<noteq> Some Unregistered \<and>
        phase_of m g \<noteq> Some Unregistered \<longrightarrow> n \<in> rg_disturbed g) \<and>
     (\<forall>n. n \<in> rg_disturbed g \<longrightarrow> sess g n \<noteq> None)"

definition alive :: "child_phase option \<Rightarrow> bool" where
  "alive ph \<longleftrightarrow> ph \<noteq> None \<and> ph \<noteq> Some Finished_child"

definition kids_ok :: "live_registry \<Rightarrow> bool" where
  "kids_ok g \<longleftrightarrow>
     (\<forall>k n. kid_of g k = Some n \<longrightarrow> (\<exists>s. sess g n = Some s \<and> kid_of g s = None)) \<and>
     (\<forall>k n. kid_of g k = Some n \<and> alive (kid_phase k g) \<longrightarrow> rg_children g k = sess g n \<and>
        (phase_of n g = Some Joining \<or> phase_of n g \<in> {Some Hiring, Some Panicked} \<and> kid_phase k g = Some Created)) \<and>
     (\<forall>k m. kid_phase k g = Some (In_turn m) \<longrightarrow> sess g m = Some k) \<and>
     (\<forall>k. alive (kid_phase k g) \<and> (\<forall>m. kid_phase k g \<noteq> Some (In_turn m)) \<longrightarrow> (\<forall>n. sess g n \<noteq> Some k)) \<and>
     (\<forall>k. rg_children g k \<noteq> None \<longrightarrow> alive (kid_phase k g)) \<and>
     (\<forall>n s. sess g n = Some s \<and> kid_of g s \<noteq> None \<longrightarrow> cap_of g n = Some 0 \<and> n \<notin> rg_disturbed g) \<and>
     finite {k. kid_of g k \<noteq> None}"

lemma sess_Some: "phase_of n g = Some ph \<Longrightarrow> \<exists>s. sess g n = Some s"
  by (cases "sess g n") (auto simp: run_view(2))

lemma session_of_sess: "sess g n = Some s \<Longrightarrow> session_of n g = s"
  by (simp add: run_view)

lemma at_loop_phase: "at_loop n g \<Longrightarrow> phase_of n g = Some Looping"
  by (simp add: at_loop_def)

lemma others_view: "m \<in> others_of s g \<longleftrightarrow> sess g m = Some s \<and> phase_of m g \<noteq> Some Unregistered"
  by (auto simp: others_of_def sess_def session_of_def)

lemma runs_okD:
  assumes "runs_ok g"
  shows "rg_active g s = Some n \<Longrightarrow> sess g n = Some s"
    and "rg_active g s = Some n \<Longrightarrow> \<not> ended (phase_of n g)"
    and "sess g n = Some s \<Longrightarrow> \<not> over (phase_of n g) \<Longrightarrow> n \<notin> rg_disturbed g \<Longrightarrow> rg_active g s = Some n"
    and "rg_steers g s = Some xs \<Longrightarrow> rg_active g s \<noteq> None"
    and "sess g n = Some s \<Longrightarrow> phase_of n g = Some Retired \<Longrightarrow> n \<notin> rg_disturbed g \<Longrightarrow> rg_active g s = None"
    and "sess g n = Some s \<Longrightarrow> sess g m = Some s \<Longrightarrow> n \<noteq> m \<Longrightarrow> phase_of n g \<noteq> Some Unregistered \<Longrightarrow>
      phase_of m g \<noteq> Some Unregistered \<Longrightarrow> n \<in> rg_disturbed g"
    and "n \<in> rg_disturbed g \<Longrightarrow> sess g n \<noteq> None"
proof -
  note c = assms [unfolded runs_ok_def]
  note c1 = conjunct1 [OF c] and c2 = conjunct2 [OF c]
  note d1 = conjunct1 [OF c2] and d2 = conjunct2 [OF c2]
  note e1 = conjunct1 [OF d2] and e2 = conjunct2 [OF d2]
  note f1 = conjunct1 [OF e2] and f2 = conjunct2 [OF e2]
  show "rg_active g s = Some n \<Longrightarrow> sess g n = Some s" "rg_active g s = Some n \<Longrightarrow> \<not> ended (phase_of n g)" using c1 by blast+
  show "sess g n = Some s \<Longrightarrow> \<not> over (phase_of n g) \<Longrightarrow> n \<notin> rg_disturbed g \<Longrightarrow> rg_active g s = Some n" using d1 by blast
  show "rg_steers g s = Some xs \<Longrightarrow> rg_active g s \<noteq> None" using e1 by blast
  show "sess g n = Some s \<Longrightarrow> phase_of n g = Some Retired \<Longrightarrow> n \<notin> rg_disturbed g \<Longrightarrow> rg_active g s = None" using f1 by blast
  show "sess g n = Some s \<Longrightarrow> sess g m = Some s \<Longrightarrow> n \<noteq> m \<Longrightarrow> phase_of n g \<noteq> Some Unregistered \<Longrightarrow>
      phase_of m g \<noteq> Some Unregistered \<Longrightarrow> n \<in> rg_disturbed g" using conjunct1 [OF f2] by blast
  show "n \<in> rg_disturbed g \<Longrightarrow> sess g n \<noteq> None" using conjunct2 [OF f2] by blast
qed

lemma runs_okI:
  assumes "\<And>s n. rg_active g s = Some n \<Longrightarrow> sess g n = Some s"
    and "\<And>s n. rg_active g s = Some n \<Longrightarrow> \<not> ended (phase_of n g)"
    and "\<And>s n. sess g n = Some s \<Longrightarrow> \<not> over (phase_of n g) \<Longrightarrow> n \<notin> rg_disturbed g \<Longrightarrow> rg_active g s = Some n"
    and "\<And>s xs. rg_steers g s = Some xs \<Longrightarrow> rg_active g s \<noteq> None"
    and "\<And>s n. sess g n = Some s \<Longrightarrow> phase_of n g = Some Retired \<Longrightarrow> n \<notin> rg_disturbed g \<Longrightarrow> rg_active g s = None"
    and "\<And>s n m. sess g n = Some s \<Longrightarrow> sess g m = Some s \<Longrightarrow> n \<noteq> m \<Longrightarrow> phase_of n g \<noteq> Some Unregistered \<Longrightarrow>
      phase_of m g \<noteq> Some Unregistered \<Longrightarrow> n \<in> rg_disturbed g"
    and "\<And>n. n \<in> rg_disturbed g \<Longrightarrow> sess g n \<noteq> None"
  shows "runs_ok g"
  unfolding runs_ok_def
  by (intro conjI; (use assms(1,2) in blast | use assms(3) in blast | use assms(4) in blast | use assms(5) in blast |
    use assms(6) in blast | use assms(7) in blast))

lemma active_alone:
  assumes "runs_ok g" and "sess g n = Some s" and "phase_of n g \<noteq> Some Unregistered" and "n \<notin> rg_disturbed g"
    and "rg_active g s = Some m"
  shows "m = n"
  using runs_okD(1,2) [OF assms(1,5)] runs_okD(6) [OF assms(1,2), of m] assms(3,4) by (auto simp: ended_def)

text \<open>Steps that leave the runs alone, and steps that move one run to another phase.\<close>

lemma runs_ok_same:
  assumes "runs_ok g" and "rg_active h = rg_active g" and "sess h = sess g" and "\<And>n. phase_of n h = phase_of n g"
    and "\<And>s. rg_steers h s \<noteq> None \<Longrightarrow> rg_steers g s \<noteq> None \<or> rg_active g s \<noteq> None"
    and "rg_disturbed h = rg_disturbed g"
  shows "runs_ok h"
proof (rule runs_okI, unfold assms(2-4,6))
  fix s xs assume "rg_steers h s = Some xs"
  then have "rg_steers g s \<noteq> None \<or> rg_active g s \<noteq> None" by (intro assms(5)) simp
  then show "rg_active g s \<noteq> None" using runs_okD(4) [OF assms(1)] by fastforce
qed (fact runs_okD [OF assms(1)])+

lemma runs_ok_move:
  assumes "runs_ok g" and "phase_of n g = Some ph0" and "ph0 \<noteq> Unregistered" and "ph \<noteq> Retired" and "ph \<noteq> Unregistered"
    and "over (Some ph) \<or> \<not> over (Some ph0)"
  shows "runs_ok (set_phase n ph g)"
proof -
  have p: "phase_of m (set_phase n ph g) = (if m = n then Some ph else phase_of m g)" for m using assms(2) by (simp add: views)
  have e: "\<not> ended (Some ph)" using assms(4,5) by (simp add: ended_def)
  have v: "rg_active (set_phase n ph g) = rg_active g" "rg_steers (set_phase n ph g) = rg_steers g" "sess (set_phase n ph g) = sess g"
    "rg_disturbed (set_phase n ph g) = rg_disturbed g" by (simp_all add: views)
  note r = runs_okD [OF assms(1)]
  show ?thesis
  proof (rule runs_okI, unfold p v)
    fix s m assume "rg_active g s = Some m"
    with r(2) e show "\<not> ended (if m = n then Some ph else phase_of m g)" by auto
  next
    fix s m assume m: "sess g m = Some s" "\<not> over (if m = n then Some ph else phase_of m g)" "m \<notin> rg_disturbed g"
    then have "\<not> over (phase_of m g)" using assms(2,6) by (auto split: if_splits)
    with m show "rg_active g s = Some m" by (intro r(3))
  next
    fix s m assume m: "sess g m = Some s" "(if m = n then Some ph else phase_of m g) = Some Retired" "m \<notin> rg_disturbed g"
    then have "phase_of m g = Some Retired" using assms(4) by (auto split: if_splits)
    with m show "rg_active g s = None" by (intro r(5))
  next
    fix s i j assume ij: "sess g i = Some s" "sess g j = Some s" "i \<noteq> j"
      "(if i = n then Some ph else phase_of i g) \<noteq> Some Unregistered" "(if j = n then Some ph else phase_of j g) \<noteq> Some Unregistered"
    then have "phase_of i g \<noteq> Some Unregistered" "phase_of j g \<noteq> Some Unregistered" using assms(2,3) by (auto split: if_splits)
    with r(6) [OF ij(1-3)] show "i \<in> rg_disturbed g" .
  qed (fact r(1) r(4) r(7))+
qed

lemma runs_ok_register:
  assumes r: "runs_ok g" and n: "phase_of n g = None"
    and d: "\<And>m. sess g m = Some s \<Longrightarrow> phase_of m g \<noteq> Some Unregistered \<Longrightarrow> m \<in> D \<and> n \<in> D"
    and D: "rg_disturbed g \<subseteq> D" "\<And>m. m \<in> D \<Longrightarrow> m = n \<or> sess g m \<noteq> None"
  shows "runs_ok ((register_run n s cap g)\<lparr>rg_disturbed := D\<rparr>)" (is "runs_ok ?h")
proof -
  have v: "sess ?h m = (if m = n then Some s else sess g m)" "phase_of m ?h = (if m = n then Some Looping else phase_of m g)"
    "rg_active ?h = (rg_active g)(s := Some n)" "rg_steers ?h = rg_steers g" "rg_disturbed ?h = D" for m
    by (simp_all add: views) (simp_all add: register_run_def)
  have new: "sess g n = None" using n by (simp add: run_view)
  then have new: "sess g n = None" "\<And>s'. rg_active g s' \<noteq> Some n" using runs_okD(1) [OF r, of _ n] by auto
  show ?thesis
  proof (rule runs_okI, unfold v)
    fix s' m assume a: "((rg_active g)(s := Some n)) s' = Some m"
    show "(if m = n then Some s else sess g m) = Some s'" using a new(2) runs_okD(1) [OF r, of s' m] by (auto split: if_splits)
    show "\<not> ended (if m = n then Some Looping else phase_of m g)"
      using a new(2) runs_okD(2) [OF r, of s' m] by (auto simp: ended_def split: if_splits)
  next
    fix s' m assume m: "(if m = n then Some s else sess g m) = Some s'" "\<not> over (if m = n then Some Looping else phase_of m g)" "m \<notin> D"
    show "((rg_active g)(s := Some n)) s' = Some m"
    proof (cases "m = n")
      case False
      with m d [of m] have "s' \<noteq> s" by (auto simp: over_def ended_def)
      with False m D(1) runs_okD(3) [OF r, of m s'] show ?thesis by auto
    qed (use m in simp)
  next
    fix s' xs assume "rg_steers g s' = Some xs"
    with runs_okD(4) [OF r] show "((rg_active g)(s := Some n)) s' \<noteq> None" by auto
  next
    fix s' m assume m: "(if m = n then Some s else sess g m) = Some s'" "(if m = n then Some Looping else phase_of m g) = Some Retired" "m \<notin> D"
    then have "m \<noteq> n" by auto
    with m d [of m] have "s' \<noteq> s" by auto
    with m \<open>m \<noteq> n\<close> D(1) runs_okD(5) [OF r, of m s'] show "((rg_active g)(s := Some n)) s' = None" by auto
  next
    fix s' i j assume "(if i = n then Some s else sess g i) = Some s'" "(if j = n then Some s else sess g j) = Some s'" "i \<noteq> j"
      "(if i = n then Some Looping else phase_of i g) \<noteq> Some Unregistered" "(if j = n then Some Looping else phase_of j g) \<noteq> Some Unregistered"
    then consider "i = n" "j \<noteq> n" "sess g j = Some s" "phase_of j g \<noteq> Some Unregistered"
      | "i \<noteq> n" "j = n" "sess g i = Some s" "phase_of i g \<noteq> Some Unregistered"
      | "sess g i = Some s'" "sess g j = Some s'" "i \<noteq> j" "phase_of i g \<noteq> Some Unregistered" "phase_of j g \<noteq> Some Unregistered"
      by (cases "i = n"; cases "j = n") simp_all
    then show "i \<in> D"
    proof cases
      case 3
      from runs_okD(6) [OF r this] D(1) show ?thesis by blast
    qed (use d in blast)+
  next
    fix m assume "m \<in> D"
    with D(2) show "(if m = n then Some s else sess g m) \<noteq> None" by auto
  qed
qed

lemma runs_ok_begin:
  assumes "runs_ok g" and "phase_of n g = None"
  shows "runs_ok (begin_turn n s cap g)"
  unfolding begin_turn_def
  by (rule runs_ok_register [OF assms]) (auto simp: others_view dest: runs_okD(7) [OF assms(1)] split: if_splits)

lemma runs_ok_admit:
  assumes "runs_ok g" and "phase_of n g = None" and "\<And>m. sess g m \<noteq> Some s"
  shows "runs_ok (register_run n s cap g)"
proof -
  have "(register_run n s cap g)\<lparr>rg_disturbed := rg_disturbed g\<rparr> = register_run n s cap g" by (simp add: register_run_def)
  with runs_ok_register [OF assms(1,2), of s "rg_disturbed g" cap] assms(3) runs_okD(7) [OF assms(1)] show ?thesis by auto
qed

lemma runs_ok_drain: "runs_ok g \<Longrightarrow> runs_ok (drain_steers n s g)"
  by (rule runs_ok_same [of g]) (auto simp: drain_steers_def views split: if_splits)

lemma runs_ok_over:
  assumes r: "runs_ok g" and s: "sess g n = Some s" and n: "phase_of n g = Some ph0" "ph0 \<noteq> Unregistered"
    and ph: "ph \<in> {Retired, Unregistered}" and st: "rg_steers g s = None"
  shows "runs_ok (set_phase n ph (g\<lparr>rg_active := (rg_active g)(s := None)\<rparr>))" (is "runs_ok ?h")
proof -
  have v: "sess ?h = sess g" "phase_of m ?h = (if m = n then Some ph else phase_of m g)"
    "rg_active ?h = (rg_active g)(s := None)" "rg_steers ?h = rg_steers g" "rg_disturbed ?h = rg_disturbed g" for m
    using n by (simp_all add: views)
  have same: "m \<in> rg_disturbed g" if "sess g m = Some s" "m \<noteq> n" "phase_of m g \<noteq> Some Unregistered" for m
    using runs_okD(6) [OF r that(1) s that(2,3)] n by simp
  show ?thesis
  proof (rule runs_okI, unfold v)
    fix s' m assume a: "((rg_active g)(s := None)) s' = Some m"
    then show "sess g m = Some s'" using runs_okD(1) [OF r, of s' m] by (auto split: if_splits)
    with a s show "\<not> ended (if m = n then Some ph else phase_of m g)" using runs_okD(2) [OF r, of s' m] by (auto split: if_splits)
  next
    fix s' m assume "sess g m = Some s'" "\<not> over (if m = n then Some ph else phase_of m g)" "m \<notin> rg_disturbed g"
    with ph same [of m] runs_okD(3) [OF r, of m s'] show "((rg_active g)(s := None)) s' = Some m"
      by (auto simp: over_def ended_def split: if_splits)
  next
    fix s' xs assume "rg_steers g s' = Some xs"
    with st runs_okD(4) [OF r, of s' xs] show "((rg_active g)(s := None)) s' \<noteq> None" by auto
  next
    fix s' m assume "sess g m = Some s'" "(if m = n then Some ph else phase_of m g) = Some Retired" "m \<notin> rg_disturbed g"
    with s runs_okD(5) [OF r, of m s'] show "((rg_active g)(s := None)) s' = None" by (auto split: if_splits)
  next
    fix s' i j assume ij: "sess g i = Some s'" "sess g j = Some s'" "i \<noteq> j"
      "(if i = n then Some ph else phase_of i g) \<noteq> Some Unregistered" "(if j = n then Some ph else phase_of j g) \<noteq> Some Unregistered"
    then have "phase_of i g \<noteq> Some Unregistered" "phase_of j g \<noteq> Some Unregistered" using n by (auto split: if_splits)
    with runs_okD(6) [OF r ij(1-3)] show "i \<in> rg_disturbed g" .
  qed (use runs_okD(7) [OF r] in blast)
qed

text \<open>Each action keeps the runs in shape.\<close>

lemma runs_ok_kid: "runs_ok g \<Longrightarrow> runs_ok (set_kid k ph g)"
  by (rule runs_ok_same [of g]) (simp_all add: views)

lemma runs_ok_finish_child: "runs_ok g \<Longrightarrow> runs_ok (finish_child k g)"
  unfolding finish_child_def by (rule runs_ok_kid, rule runs_ok_same [of g]) (simp_all add: views)

lemmas approval_steps = ask_approval_def answered_def no_answer_def resolve_approval_def Let_def

lemma runs_ok_act:
  assumes r: "runs_ok g" and k: "kids_ok g" and a: "act x g = Some g'"
  shows "runs_ok g'"
proof (cases x)
  case (Turn_begins n s cap)
  with a r show ?thesis by (auto simp: run_view split: if_splits intro: runs_ok_begin)
next
  case (Steer_pushed s m)
  with a r show ?thesis by (auto simp: push_steer_def views split: option.splits if_splits intro!: runs_ok_same [OF r])
next
  case (Steers_drained n)
  with a r show ?thesis by (auto intro: runs_ok_drain split: if_splits)
next
  case (Loop_finishes n)
  with a have ph: "phase_of n g = Some Looping" by (auto split: if_splits dest: at_loop_phase)
  then obtain s where s: "sess g n = Some s" using sess_Some by blast
  have "runs_ok (drain_steers n s g)" using r by (rule runs_ok_drain)
  moreover have "sess (drain_steers n s g) n = Some s" "phase_of n (drain_steers n s g) = Some Looping" "rg_steers (drain_steers n s g) s = None"
    using s ph by (simp_all add: drain_steers_def views)
  ultimately show ?thesis using a Loop_finishes runs_ok_over [of "drain_steers n s g" n s Looping Retired]
    by (auto simp: finish_or_steer_def Let_def session_of_sess [OF s] split: if_splits)
next
  case (Loop_breaks n)
  with a r show ?thesis by (auto split: if_splits simp: over_def ended_def dest: at_loop_phase intro!: runs_ok_move)
next
  case (Turn_ends n)
  with a obtain ph0 where ph: "phase_of n g = Some ph0" "ph0 = Leaving \<or> ph0 = Retired" by (auto split: if_splits)
  then obtain s where s: "sess g n = Some s" using sess_Some by blast
  let ?h = "g\<lparr>rg_steers := (rg_steers g)(s := None)\<rparr>"
  have "runs_ok ?h" by (rule runs_ok_same [OF r]) (auto simp: views split: if_splits)
  moreover have "sess ?h n = Some s" "phase_of n ?h = phase_of n g" "rg_steers ?h s = None" using s by (simp_all add: views)
  ultimately have "runs_ok (set_phase n Unregistered (?h\<lparr>rg_active := (rg_active ?h)(s := None)\<rparr>))"
    using ph by (intro runs_ok_over [of ?h n s ph0 Unregistered]) auto
  with a ph Turn_ends show ?thesis by (auto simp: unregister_run_def session_of_sess [OF s])
next
  case (Turn_panics n)
  with a r show ?thesis by (auto split: if_splits simp: over_def dest!: at_loop_phase intro!: runs_ok_move)
next
  case (Child_created n k')
  then obtain t where "rg_runs g n = Some t" "at_loop n g \<or> rt_phase t = Hiring" "g' = create_child n k' g"
    using a by (auto split: option.splits if_splits)
  then have ph: "phase_of n g = Some Looping \<or> phase_of n g = Some Hiring" and g': "g' = create_child n k' g"
    by (auto simp: at_loop_def phase_of_def)
  let ?h = "g\<lparr>rg_children := (rg_children g)(k' := Some (session_of n g)), rg_kids := (rg_kids g)(k' := Some \<lparr>ch_parent = n, ch_phase = Created\<rparr>)\<rparr>"
  have h: "runs_ok ?h" by (rule runs_ok_same [OF r]) (simp_all add: views)
  from ph show ?thesis unfolding g' create_child_def by (auto simp: views over_def ended_def intro!: runs_ok_move [OF h])
next
  case (Children_fail n)
  then have ph: "phase_of n g = Some Hiring" and g': "g' = set_phase n Looping (finish_all n g)" using a by (auto split: if_splits)
  have h: "runs_ok (finish_all n g)"
    by (rule runs_ok_same [OF r]) (simp_all add: views, simp_all add: finish_all_def)
  show ?thesis unfolding g' using ph by (auto simp: views over_def ended_def intro!: runs_ok_move [OF h])
next
  case (Children_start n)
  with a r show ?thesis by (auto split: if_splits simp: over_def ended_def intro!: runs_ok_move)
next
  case (Children_joined n)
  with a r show ?thesis by (auto split: if_splits simp: over_def ended_def intro!: runs_ok_move)
next
  case (Parent_checked k')
  with a r show ?thesis
    by (auto simp: check_parent_def split: if_splits option.splits child_phase.splits intro: runs_ok_kid runs_ok_finish_child)
next
  case (Permit_taken k')
  moreover have "runs_ok (g\<lparr>rg_gate := f\<rparr>)" for f by (rule runs_ok_same [OF r]) (simp_all add: views)
  ultimately show ?thesis using a r
    by (auto simp: take_permit_def Let_def split: if_splits option.splits child_phase.splits intro: runs_ok_kid runs_ok_finish_child)
next
  case (Child_notified k')
  moreover have "runs_ok (g\<lparr>rg_woken := f\<rparr>)" for f by (rule runs_ok_same [OF r]) (simp_all add: views)
  ultimately show ?thesis using a
    by (auto simp: notified_def Let_def split: if_splits intro: runs_ok_finish_child)
next
  case (Child_admitted k' n)
  then have c: "kid_phase k' g = Some Cleared" and n: "phase_of n g = None" and g': "g' = admit_child k' n g"
    using a by (auto simp: run_view split: if_splits)
  have "sess g m \<noteq> Some k'" for m using k c by (auto simp: kids_ok_def alive_def)
  then have "runs_ok (register_run n k' 0 g)" using n by (intro runs_ok_admit [OF r]) auto
  with r show ?thesis unfolding g' by (auto simp: admit_child_def intro: runs_ok_kid runs_ok_finish_child)
next
  case (Child_done k')
  with a r show ?thesis by (auto split: option.splits child_phase.splits if_splits intro: runs_ok_finish_child)
next
  case (Child_fails k')
  with a r show ?thesis by (auto split: if_splits intro: runs_ok_finish_child)
next
  case (Stop_goes_on i order)
  then obtain ms h where st: "cancel_step order (rg_cancels g ! i) g = Some (ms, h)" and g': "g' = h\<lparr>rg_cancels := (rg_cancels h)[i := ms]\<rparr>"
    using a by (auto split: if_splits option.splits)
  from st have "runs_ok h"
    by (cases "(order, rg_cancels g ! i, g)" rule: cancel_step.cases)
      (auto simp: views wake_children_def cancel_pending_approvals_def split: option.splits if_splits intro!: runs_ok_same [OF r])
  then show ?thesis unfolding g' by (rule runs_ok_same) (simp_all add: views)
qed (use a r in \<open>auto simp: approval_steps views split: option.splits if_splits intro!: runs_ok_same [OF r]\<close>)

text \<open>The same for the children.\<close>

lemma kids_okD:
  assumes "kids_ok g"
  shows "kid_of g k = Some n \<Longrightarrow> \<exists>s. sess g n = Some s \<and> kid_of g s = None"
    and "kid_of g k = Some n \<Longrightarrow> alive (kid_phase k g) \<Longrightarrow> rg_children g k = sess g n"
    and "kid_of g k = Some n \<Longrightarrow> alive (kid_phase k g) \<Longrightarrow>
      phase_of n g = Some Joining \<or> phase_of n g \<in> {Some Hiring, Some Panicked} \<and> kid_phase k g = Some Created"
    and "kid_phase k g = Some (In_turn m) \<Longrightarrow> sess g m = Some k"
    and "alive (kid_phase k g) \<Longrightarrow> (\<And>m. kid_phase k g \<noteq> Some (In_turn m)) \<Longrightarrow> sess g n \<noteq> Some k"
    and "rg_children g k = Some s \<Longrightarrow> alive (kid_phase k g)"
    and "sess g n = Some s \<Longrightarrow> kid_of g s = Some n' \<Longrightarrow> cap_of g n = Some 0 \<and> n \<notin> rg_disturbed g"
    and "finite {k. kid_of g k \<noteq> None}"
  using assms unfolding kids_ok_def by blast+

lemma kids_okI:
  assumes "\<And>k n. kid_of g k = Some n \<Longrightarrow> \<exists>s. sess g n = Some s \<and> kid_of g s = None"
    and "\<And>k n. kid_of g k = Some n \<Longrightarrow> alive (kid_phase k g) \<Longrightarrow> rg_children g k = sess g n"
    and "\<And>k n. kid_of g k = Some n \<Longrightarrow> alive (kid_phase k g) \<Longrightarrow>
      phase_of n g = Some Joining \<or> phase_of n g \<in> {Some Hiring, Some Panicked} \<and> kid_phase k g = Some Created"
    and "\<And>k m. kid_phase k g = Some (In_turn m) \<Longrightarrow> sess g m = Some k"
    and "\<And>k n. alive (kid_phase k g) \<Longrightarrow> (\<And>m. kid_phase k g \<noteq> Some (In_turn m)) \<Longrightarrow> sess g n \<noteq> Some k"
    and "\<And>k s. rg_children g k = Some s \<Longrightarrow> alive (kid_phase k g)"
    and "\<And>n s n'. sess g n = Some s \<Longrightarrow> kid_of g s = Some n' \<Longrightarrow> cap_of g n = Some 0 \<and> n \<notin> rg_disturbed g"
    and "finite {k. kid_of g k \<noteq> None}"
  shows "kids_ok g"
  using assms unfolding kids_ok_def by blast

lemma kids_ok_same:
  assumes "kids_ok g" and "kid_of h = kid_of g" and "\<And>k. kid_phase k h = kid_phase k g" and "rg_children h = rg_children g"
    and "sess h = sess g" and "cap_of h = cap_of g" and "rg_disturbed h = rg_disturbed g"
    and "\<And>n k. kid_of g k = Some n \<Longrightarrow> alive (kid_phase k g) \<Longrightarrow> phase_of n h = phase_of n g \<or> phase_of n h = Some Joining \<or>
      phase_of n g \<noteq> Some Joining \<and> phase_of n h = Some Panicked"
  shows "kids_ok h"
proof (rule kids_okI, unfold assms(2-7))
  show "phase_of n h = Some Joining \<or> phase_of n h \<in> {Some Hiring, Some Panicked} \<and> kid_phase k g = Some Created"
    if "kid_of g k = Some n" "alive (kid_phase k g)" for k n
    using assms(8) [OF that] kids_okD(3) [OF assms(1) that] by auto
qed (use assms(1) in \<open>blast dest: kids_okD\<close>)+

lemma kids_ok_phase:
  assumes "kids_ok g" and "phase_of n g = Some ph0" and "ph0 \<in> {Looping, Leaving, Retired} \<or> ph0 = Hiring \<and> ph = Panicked"
  shows "kids_ok (set_phase n ph g)"
  by (rule kids_ok_same [OF assms(1)]) (use assms in \<open>auto simp: views dest: kids_okD(3)\<close>)

lemma kids_ok_finish:
  assumes "kids_ok g"
  shows "kids_ok (finish_child k g)"
proof -
  have v: "kid_of (finish_child k g) = kid_of g" "sess (finish_child k g) = sess g" "cap_of (finish_child k g) = cap_of g"
    "phase_of n (finish_child k g) = phase_of n g" "rg_disturbed (finish_child k g) = rg_disturbed g" "rg_children (finish_child k g) = (rg_children g)(k := None)"
    "alive (kid_phase j (finish_child k g)) \<longleftrightarrow> j \<noteq> k \<and> alive (kid_phase j g)"
    "j \<noteq> k \<Longrightarrow> kid_phase j (finish_child k g) = kid_phase j g"
    "kid_phase j (finish_child k g) = Some (In_turn m) \<longleftrightarrow> j \<noteq> k \<and> kid_phase j g = Some (In_turn m)" for n j m
    by (auto simp: finish_child_def views alive_def)
  show ?thesis
    by (rule kids_okI) (use kids_okD [OF assms] in \<open>auto simp: v split: if_splits\<close>)
qed

lemma kids_ok_next:
  assumes "kids_ok g" and "kid_phase k g = Some ph0" and "alive (Some ph0)" and "\<And>m. ph0 \<noteq> In_turn m"
    and "phase_of (kid_parent k g) g = Some Joining" and "alive (Some ph)" and "\<And>m. ph \<noteq> In_turn m"
  shows "kids_ok (set_kid k ph g)"
proof -
  obtain n where n: "kid_of g k = Some n" using assms(2) by (cases "kid_of g k") (auto simp: kid_view)
  with assms(5) have j: "phase_of n g = Some Joining" by (simp add: kid_view)
  have v: "alive (kid_phase j (set_kid k ph g)) \<longleftrightarrow> alive (kid_phase j g)"
    "kid_phase j (set_kid k ph g) = Some (In_turn m) \<longleftrightarrow> kid_phase j g = Some (In_turn m)"
    "j \<noteq> k \<Longrightarrow> kid_phase j (set_kid k ph g) = kid_phase j g" for j m
    using assms(2,3,4,6,7) by (auto simp: views)
  have w: "kid_of (set_kid k ph g) = kid_of g" "sess (set_kid k ph g) = sess g" "cap_of (set_kid k ph g) = cap_of g"
    "phase_of n (set_kid k ph g) = phase_of n g" "rg_children (set_kid k ph g) = rg_children g"
    "rg_disturbed (set_kid k ph g) = rg_disturbed g" for n
    by (simp_all add: views)
  show ?thesis
  proof (rule kids_okI, unfold v(1,2) w)
    fix j n' assume "kid_of g j = Some n'" "alive (kid_phase j g)"
    then show "phase_of n' g = Some Joining \<or> phase_of n' g \<in> {Some Hiring, Some Panicked} \<and> kid_phase j (set_kid k ph g) = Some Created"
      using kids_okD(3) [OF assms(1)] n j v(3) by (cases "j = k") auto
  qed (use assms(1) in \<open>blast dest: kids_okD\<close>)+
qed

lemma kids_ok_begin:
  assumes "kids_ok g" and "phase_of n g = None" and "kid_of g s = None"
  shows "kids_ok (begin_turn n s cap g)"
proof -
  let ?h = "begin_turn n s cap g"
  have other: "sess g m = Some x \<Longrightarrow> m \<noteq> n" for m x using assms(2) by (auto simp: run_view(2) [symmetric])
  have v: "kid_of ?h = kid_of g" "kid_phase k ?h = kid_phase k g" "rg_children ?h = rg_children g"
    "sess ?h m = (if m = n then Some s else sess g m)" "cap_of ?h m = (if m = n then Some cap else cap_of g m)"
    "phase_of m ?h = (if m = n then Some Looping else phase_of m g)" for k m
    by (simp_all add: views) (simp add: begin_turn_def register_run_def)
  have d: "m \<in> rg_disturbed ?h \<Longrightarrow> m \<in> rg_disturbed g \<or> m = n \<or> sess g m = Some s" for m
    by (auto simp: begin_turn_def others_view split: if_splits)
  show ?thesis
  proof (rule kids_okI, unfold v)
    fix k m assume k: "kid_of g k = Some m"
    from kids_okD(1) [OF assms(1) k] obtain x where x: "sess g m = Some x" "kid_of g x = None" by blast
    with other show "\<exists>x. (if m = n then Some s else sess g m) = Some x \<and> kid_of g x = None" by auto
    assume "alive (kid_phase k g)"
    note live = kids_okD(2,3) [OF assms(1) k this]
    from other [OF x(1)] live show "rg_children g k = (if m = n then Some s else sess g m)"
      "(if m = n then Some Looping else phase_of m g) = Some Joining \<or>
       (if m = n then Some Looping else phase_of m g) \<in> {Some Hiring, Some Panicked} \<and> kid_phase k g = Some Created" by auto
  next
    fix k m assume "kid_phase k g = Some (In_turn m)"
    from kids_okD(4) [OF assms(1) this] other show "(if m = n then Some s else sess g m) = Some k" by auto
  next
    fix k m assume k: "alive (kid_phase k g)" "\<And>m. kid_phase k g \<noteq> Some (In_turn m)"
    have "k \<noteq> s" using k(1) assms(3) by (auto simp: alive_def kid_view)
    with kids_okD(5) [OF assms(1) k] show "(if m = n then Some s else sess g m) \<noteq> Some k" by auto
  next
    fix m x n' assume "(if m = n then Some s else sess g m) = Some x" "kid_of g x = Some n'"
    with assms(3) kids_okD(7) [OF assms(1)] d [of m]
    show "(if m = n then Some cap else cap_of g m) = Some 0 \<and> m \<notin> rg_disturbed ?h" by (auto split: if_splits)
  qed (use kids_okD(6,8) [OF assms(1)] in blast)+
qed

lemma kids_ok_admit:
  assumes "kids_ok g" and "kid_phase k g = Some Cleared" and "phase_of (kid_parent k g) g = Some Joining" and "phase_of n g = None"
    and "n \<notin> rg_disturbed g"
  shows "kids_ok (set_kid k (In_turn n) (register_run n k 0 g))"
proof -
  let ?h = "set_kid k (In_turn n) (register_run n k 0 g)"
  have other: "sess g m = Some x \<Longrightarrow> m \<noteq> n" for m x using assms(4) by (auto simp: run_view(2) [symmetric])
  have v: "kid_of ?h = kid_of g" "rg_children ?h = rg_children g"
    "kid_phase j ?h = (if j = k then Some (In_turn n) else kid_phase j g)" "alive (kid_phase j ?h) \<longleftrightarrow> alive (kid_phase j g)"
    "sess ?h m = (if m = n then Some k else sess g m)" "cap_of ?h m = (if m = n then Some 0 else cap_of g m)"
    "phase_of m ?h = (if m = n then Some Looping else phase_of m g)" "rg_disturbed ?h = rg_disturbed g" for j m
    using assms(2) by (simp_all add: views alive_def) (simp_all add: register_run_def)
  obtain p where p: "kid_of g k = Some p" using assms(2) by (cases "kid_of g k") (auto simp: kid_view)
  show ?thesis
  proof (rule kids_okI, unfold v(1,2,4-))
    fix j m assume j: "kid_of g j = Some m"
    from kids_okD(1) [OF assms(1) j] obtain x where x: "sess g m = Some x" "kid_of g x = None" by blast
    with other show "\<exists>x. (if m = n then Some k else sess g m) = Some x \<and> kid_of g x = None" by auto
    assume "alive (kid_phase j g)"
    note live = kids_okD(2,3) [OF assms(1) j this]
    from other [OF x(1)] live show "rg_children g j = (if m = n then Some k else sess g m)" by auto
    show "(if m = n then Some Looping else phase_of m g) = Some Joining \<or>
      (if m = n then Some Looping else phase_of m g) \<in> {Some Hiring, Some Panicked} \<and> kid_phase j ?h = Some Created"
      using other [OF x(1)] live(2) p j assms(2,3) by (cases "j = k") (auto simp: v(3) kid_view(1))
  next
    fix j m assume "kid_phase j ?h = Some (In_turn m)"
    with kids_okD(4) [OF assms(1), of j m] other show "(if m = n then Some k else sess g m) = Some j"
      by (auto simp: v(3) split: if_splits)
  next
    fix j m assume j: "alive (kid_phase j g)" "\<And>m. kid_phase j ?h \<noteq> Some (In_turn m)"
    from j(2) [of n] have "j \<noteq> k" by (auto simp: v(3))
    with j(2) have "\<And>m. kid_phase j g \<noteq> Some (In_turn m)" by (simp add: v(3))
    with \<open>j \<noteq> k\<close> kids_okD(5) [OF assms(1) j(1)] show "(if m = n then Some k else sess g m) \<noteq> Some j" by auto
  next
    fix m x n' assume "(if m = n then Some k else sess g m) = Some x" "kid_of g x = Some n'"
    with kids_okD(7) [OF assms(1)] assms(5)
    show "(if m = n then Some 0 else cap_of g m) = Some 0 \<and> m \<notin> rg_disturbed g" by (auto split: if_splits)
  qed (use kids_okD(6,8) [OF assms(1)] in blast)+
qed

lemma kids_ok_create:
  assumes "kids_ok g" and "phase_of n g = Some ph0" and "ph0 = Looping \<or> ph0 = Hiring" and "cap_of g n \<noteq> Some 0"
    and "kid_phase k g = None" and "\<And>m. sess g m \<noteq> Some k"
  shows "kids_ok (create_child n k g)"
proof -
  let ?h = "create_child n k g"
  obtain s where s: "sess g n = Some s" using sess_Some [OF assms(2)] by blast
  have top: "kid_of g s = None" using kids_okD(7) [OF assms(1) s] assms(4) by (cases "kid_of g s") auto
  have ks: "k \<noteq> s" using assms(6) s by blast
  have v: "kid_of ?h j = (if j = k then Some n else kid_of g j)" "rg_children ?h j = (if j = k then Some s else rg_children g j)"
    "kid_phase j ?h = (if j = k then Some Created else kid_phase j g)" "sess ?h = sess g" "cap_of ?h = cap_of g"
    "phase_of m ?h = (if m = n then Some Hiring else phase_of m g)" "rg_disturbed ?h = rg_disturbed g" for j m
    using assms(2) by (auto simp: views) (auto simp: create_child_def views session_of_sess [OF s])
  have old: "j \<noteq> k" if "kid_of g j = Some m" for j m using that assms(5) by (auto simp: kid_view(2) [symmetric])
  show ?thesis
  proof (rule kids_okI, unfold v)
    fix j m assume j: "(if j = k then Some n else kid_of g j) = Some m"
    show "\<exists>s. sess g m = Some s \<and> (if s = k then Some n else kid_of g s) = None"
    proof (cases "j = k")
      case True
      with j s top ks show ?thesis by auto
    next
      case False
      with j kids_okD(1) [OF assms(1), of j m] obtain x where "sess g m = Some x" "kid_of g x = None" by auto
      with assms(6) show ?thesis by (intro exI [of _ x]) auto
    qed
    assume a: "alive (if j = k then Some Created else kid_phase j g)"
    show "(if j = k then Some s else rg_children g j) = sess g m"
      using j a s kids_okD(2) [OF assms(1), of j m] by (auto split: if_splits)
    show "(if m = n then Some Hiring else phase_of m g) = Some Joining \<or>
      (if m = n then Some Hiring else phase_of m g) \<in> {Some Hiring, Some Panicked} \<and> (if j = k then Some Created else kid_phase j g) = Some Created"
      using j a assms(2,3) kids_okD(3) [OF assms(1), of j m] by (auto split: if_splits)
  next
    fix j m assume "(if j = k then Some Created else kid_phase j g) = Some (In_turn m)"
    with kids_okD(4) [OF assms(1)] show "sess g m = Some j" by (auto split: if_splits)
  next
    fix j m assume j: "alive (if j = k then Some Created else kid_phase j g)"
      "\<And>m. (if j = k then Some Created else kid_phase j g) \<noteq> Some (In_turn m)"
    show "sess g m \<noteq> Some j"
    proof (cases "j = k")
      case False
      with j have "alive (kid_phase j g)" "\<And>m. kid_phase j g \<noteq> Some (In_turn m)" by simp_all
      from kids_okD(5) [OF assms(1) this] show ?thesis .
    qed (use assms(6) in simp)
  next
    fix j x assume "(if j = k then Some s else rg_children g j) = Some x"
    with kids_okD(6) [OF assms(1)] show "alive (if j = k then Some Created else kid_phase j g)" by (auto simp: alive_def split: if_splits)
  next
    fix m x n' assume "sess g m = Some x" "(if x = k then Some n else kid_of g x) = Some n'"
    with assms(6) kids_okD(7) [OF assms(1)] show "cap_of g m = Some 0 \<and> m \<notin> rg_disturbed g" by (auto split: if_splits)
  next
    have "{j. (if j = k then Some n else kid_of g j) \<noteq> None} \<subseteq> insert k {j. kid_of g j \<noteq> None}" by auto
    with kids_okD(8) [OF assms(1)] show "finite {j. (if j = k then Some n else kid_of g j) \<noteq> None}"
      by (meson finite_insert finite_subset)
  qed
qed

lemma kids_ok_fail:
  assumes "kids_ok g" and "phase_of n g = Some Hiring"
  shows "kids_ok (set_phase n Looping (finish_all n g))"
proof -
  let ?h = "set_phase n Looping (finish_all n g)"
  have v: "kid_of ?h = kid_of g" "sess ?h = sess g" "cap_of ?h = cap_of g" "rg_disturbed ?h = rg_disturbed g"
    "rg_children ?h j = (if kid_of g j = Some n then None else rg_children g j)"
    "alive (kid_phase j ?h) \<longleftrightarrow> kid_of g j \<noteq> Some n \<and> alive (kid_phase j g)"
    "kid_phase j ?h = Some (In_turn m) \<longleftrightarrow> kid_of g j \<noteq> Some n \<and> kid_phase j g = Some (In_turn m)"
    "kid_phase j ?h = Some Created \<longleftrightarrow> kid_of g j \<noteq> Some n \<and> kid_phase j g = Some Created"
    "m \<noteq> n \<Longrightarrow> phase_of m ?h = phase_of m g" for j m
    by (simp_all add: views alive_def) (simp add: finish_all_def)
  show ?thesis
    by (rule kids_okI) (use kids_okD [OF assms(1)] in \<open>auto simp: v split: if_splits\<close>)
qed

lemma kids_ok_act:
  assumes r: "runs_ok g" and k: "kids_ok g" and a: "act x g = Some g'"
  shows "kids_ok g'"
proof (cases x)
  case (Turn_begins n s cap)
  with a k show ?thesis by (auto simp: run_view kid_view split: if_splits intro: kids_ok_begin)
next
  case (Steer_pushed s m)
  with a show ?thesis by (auto simp: push_steer_def views split: option.splits intro!: kids_ok_same [OF k])
next
  case (Steers_drained n)
  with a show ?thesis by (auto simp: drain_steers_def views split: if_splits intro!: kids_ok_same [OF k])
next
  case (Loop_finishes n)
  then have ph: "phase_of n g = Some Looping" and g': "g' = finish_or_steer n (session_of n g) g" using a by (auto split: if_splits dest: at_loop_phase)
  have "kids_ok (drain_steers n s g)" "kids_ok ((drain_steers n s g)\<lparr>rg_active := f\<rparr>)" for s f
    by (rule kids_ok_same [OF k]; simp add: drain_steers_def views)+
  moreover have "phase_of n (drain_steers n s g) = Some Looping" for s using ph by (simp add: drain_steers_def views)
  ultimately show ?thesis unfolding g' finish_or_steer_def Let_def by (auto intro!: kids_ok_phase simp: views)
next
  case (Loop_breaks n)
  with a k show ?thesis by (auto split: if_splits dest!: at_loop_phase intro: kids_ok_phase)
next
  case (Turn_ends n)
  have "kids_ok (g\<lparr>rg_steers := f, rg_active := h\<rparr>)" for f h by (rule kids_ok_same [OF k]) (simp_all add: views)
  with a Turn_ends show ?thesis by (auto simp: unregister_run_def views split: if_splits intro!: kids_ok_phase)
next
  case (Turn_panics n)
  with a k show ?thesis by (auto split: if_splits dest!: at_loop_phase intro: kids_ok_phase)
next
  case (Child_created n k')
  then obtain t where t: "rg_runs g n = Some t" "at_loop n g \<or> rt_phase t = Hiring" "0 < rt_cap t" "rg_kids g k' = None"
    "\<forall>m \<in> dom (rg_runs g). session_of m g \<noteq> k'" and g': "g' = create_child n k' g"
    using a by (auto split: option.splits if_splits)
  have "sess g m \<noteq> Some k'" for m using t(5) unfolding sess_def session_of_def by (force simp: dom_def)
  with t show ?thesis unfolding g' by (intro kids_ok_create [OF k]) (auto simp: at_loop_def phase_of_def cap_of_def kid_phase_def)
next
  case (Children_fail n)
  with a k show ?thesis by (auto split: if_splits intro: kids_ok_fail)
next
  case (Children_start n)
  with a show ?thesis by (auto split: if_splits simp: views intro!: kids_ok_same [OF k])
next
  case (Children_joined n)
  then have ph: "phase_of n g = Some Joining" and g': "g' = set_phase n Looping g"
    and all: "\<forall>k \<in> dom (rg_kids g). kid_parent k g = n \<longrightarrow> kid_phase k g = Some Finished_child"
    using a by (auto split: if_splits)
  have "\<not> alive (kid_phase k g)" if "kid_of g k = Some n" for k
    using all that by (fastforce simp: alive_def kid_parent_def kid_of_def dom_def split: option.splits)
  then show ?thesis unfolding g' by (intro kids_ok_same [OF k]) (auto simp: views)
next
  case (Parent_checked k')
  with a k show ?thesis
    by (auto simp: parent_waits_def check_parent_def alive_def split: if_splits option.splits child_phase.splits
      intro: kids_ok_next kids_ok_finish)
next
  case (Permit_taken k')
  have h: "kids_ok (g\<lparr>rg_gate := f\<rparr>)" for f by (rule kids_ok_same [OF k]) (simp_all add: views)
  have "kid_parent k' (g\<lparr>rg_gate := f\<rparr>) = kid_parent k' g" for f by (simp add: kid_view views)
  with h k a Permit_taken show ?thesis
    by (auto simp: parent_waits_def take_permit_def Let_def alive_def views split: if_splits option.splits child_phase.splits
      intro: kids_ok_finish intro!: kids_ok_next)
next
  case (Child_notified k')
  have "kids_ok (g\<lparr>rg_woken := f\<rparr>)" for f by (rule kids_ok_same [OF k]) (simp_all add: views)
  with a Child_notified show ?thesis by (auto simp: notified_def Let_def split: if_splits intro: kids_ok_finish)
next
  case (Child_admitted k' n)
  then have "n \<notin> rg_disturbed g" using a runs_okD(7) [OF r, of n] by (auto simp: run_view split: if_splits)
  with a k Child_admitted show ?thesis
    by (auto simp: admit_child_def parent_waits_def run_view split: if_splits intro: kids_ok_admit kids_ok_finish)
next
  case (Child_done k')
  with a k show ?thesis by (auto split: option.splits child_phase.splits if_splits intro: kids_ok_finish)
next
  case (Child_fails k')
  with a k show ?thesis by (auto split: option.splits child_phase.splits if_splits intro: kids_ok_finish)
next
  case (Stop_goes_on i order)
  then obtain ms h where st: "cancel_step order (rg_cancels g ! i) g = Some (ms, h)" and g': "g' = h\<lparr>rg_cancels := (rg_cancels h)[i := ms]\<rparr>"
    using a by (auto split: if_splits option.splits)
  from st have "kids_ok h"
    by (cases "(order, rg_cancels g ! i, g)" rule: cancel_step.cases)
      (auto simp: views wake_children_def cancel_pending_approvals_def split: option.splits if_splits intro!: kids_ok_same [OF k])
  then show ?thesis unfolding g' by (rule kids_ok_same) (simp_all add: views)
qed (use a in \<open>auto simp: approval_steps views split: option.splits if_splits intro!: kids_ok_same [OF k]\<close>)

theorem reachable_shape:
  assumes "reachable g"
  shows "runs_ok g \<and> kids_ok g"
  using assms
proof (induction rule: reachable.induct)
  case at_rest
  have "sess idle_registry n = None" "kid_of idle_registry k = None" "kid_phase k idle_registry = None" "phase_of n idle_registry = None" for n k
    by (simp_all add: idle_registry_def sess_def kid_of_def kid_phase_def phase_of_def)
  then show ?case by (simp add: runs_ok_def kids_ok_def alive_def) (simp add: idle_registry_def)
next
  case (moves_on g x g')
  then show ?case using runs_ok_act kids_ok_act by blast
qed

end
