(* ===== verification/RegistryProps.thy ===== *)
theory RegistryProps
  imports RegistryShape "HOL-Library.Sublist"
begin

text \<open>
  What holds of the live runs under every interleaving of the threads: the caps of the gates, the fate of the
  steering messages and the reach of a stop; and what goes wrong when two turns of a session overlap, when a turn
  panics or when two calls ask under the same id.
\<close>

section \<open>The gate\<close>

definition in_gate :: "child_phase option \<Rightarrow> bool" where
  "in_gate ph \<longleftrightarrow> (case ph of None \<Rightarrow> False | Some p \<Rightarrow> holds_gate p)"

definition holders :: "live_registry \<Rightarrow> nat \<Rightarrow> string set" where
  "holders g n = {k. kid_of g k = Some n \<and> in_gate (kid_phase k g)}"

definition gate_ok :: "live_registry \<Rightarrow> bool" where
  "gate_ok g \<longleftrightarrow> (\<forall>n c. cap_of g n = Some c \<longrightarrow> rg_gate g n + card (holders g n) = c)"

lemma finite_holders: "kids_ok g \<Longrightarrow> finite (holders g n)"
  using finite_subset [OF _ kids_okD(8), of "holders g n" g] by (auto simp: holders_def)

lemma gate_ok_same:
  assumes "gate_ok g" and "cap_of h = cap_of g" and "rg_gate h = rg_gate g" and "kid_of h = kid_of g"
    and "\<And>k. in_gate (kid_phase k h) = in_gate (kid_phase k g)"
  shows "gate_ok h"
  using assms by (simp add: gate_ok_def holders_def)

lemma gate_ok_phase [intro]: "gate_ok g \<Longrightarrow> gate_ok (set_phase n ph g)"
  by (rule gate_ok_same [of g]) (simp_all add: views)

lemma gate_ok_next:
  assumes "gate_ok g" and "in_gate (Some ph) = in_gate (kid_phase k g)"
  shows "gate_ok (set_kid k ph g)"
proof (rule gate_ok_same [OF assms(1)])
  show "in_gate (kid_phase j (set_kid k ph g)) = in_gate (kid_phase j g)" for j
    using assms(2) by (cases "kid_phase k g") (simp_all add: views in_gate_def)
qed (simp_all add: views)

lemma finish_child_gate: "rg_gate (finish_child k g) =
    (if in_gate (kid_phase k g) then (rg_gate g)(kid_parent k g := rg_gate g (kid_parent k g) + 1) else rg_gate g)"
  by (cases "rg_kids g k") (simp_all add: finish_child_def views in_gate_def kid_phase_def kid_parent_def)

lemma in_gate_parent: "in_gate (kid_phase k g) \<Longrightarrow> kid_of g k = Some (kid_parent k g)"
  by (cases "rg_kids g k") (simp_all add: in_gate_def kid_phase_def kid_parent_def kid_of_def)

lemma gate_ok_finish:
  assumes "gate_ok g" and "kids_ok g"
  shows "gate_ok (finish_child k g)"
proof -
  have v: "kid_of (finish_child k g) = kid_of g" "cap_of (finish_child k g) = cap_of g"
    "in_gate (kid_phase j (finish_child k g)) \<longleftrightarrow> j \<noteq> k \<and> in_gate (kid_phase j g)" for j
    by (auto simp: finish_child_def views in_gate_def holds_gate_def split: option.split)
  have h: "holders (finish_child k g) n = holders g n - {k}" for n by (auto simp: holders_def v)
  have "rg_gate (finish_child k g) n + card (holders g n - {k}) = rg_gate g n + card (holders g n)" for n
  proof (cases "k \<in> holders g n")
    case True
    then have "in_gate (kid_phase k g)" "kid_parent k g = n" by (simp_all add: holders_def kid_view(1))
    with card_Suc_Diff1 [OF finite_holders [OF assms(2)] True] show ?thesis by (simp add: finish_child_gate)
  next
    case False
    then have "\<not> in_gate (kid_phase k g) \<or> kid_parent k g \<noteq> n" using in_gate_parent by (auto simp: holders_def)
    with False show ?thesis by (auto simp: finish_child_gate)
  qed
  with assms(1) show ?thesis by (simp add: gate_ok_def v(2) h)
qed

lemma gate_ok_take:
  assumes "gate_ok g" and "kids_ok g" and "kid_phase k g = Some At_gate" and "rg_gate g (kid_parent k g) \<noteq> 0"
  shows "gate_ok (set_kid k In_gate (g\<lparr>rg_gate := (rg_gate g)(kid_parent k g := rg_gate g (kid_parent k g) - 1)\<rparr>))"
    (is "gate_ok ?h")
proof -
  obtain p where p: "kid_of g k = Some p" using assms(3) by (cases "kid_of g k") (auto simp: kid_view)
  have out: "k \<notin> holders g n" for n using assms(3) by (simp add: holders_def in_gate_def holds_gate_def)
  have "holders ?h n = (if n = p then insert k (holders g n) else holders g n)" for n
    using p assms(3) by (auto simp: holders_def views in_gate_def holds_gate_def)
  moreover have "rg_gate g n + card (holders g n) = c" if "cap_of ?h n = Some c" for n c
    using assms(1) that by (simp add: gate_ok_def views)
  moreover have "rg_gate ?h n = (if n = p then rg_gate g n - 1 else rg_gate g n)" "0 < rg_gate g p" for n
    using assms(4) p by (auto simp: views kid_view)
  ultimately show ?thesis unfolding gate_ok_def using out finite_holders [OF assms(2)] by fastforce
qed

lemma gate_ok_act:
  assumes g: "gate_ok g" and k: "kids_ok g" and a: "act x g = Some g'"
  shows "gate_ok g'"
proof (cases x)
  case (Turn_begins n s cap)
  then have n: "phase_of n g = None" and g': "g' = begin_turn n s cap g" using a by (auto simp: run_view split: if_splits)
  have "kid_of g j \<noteq> Some n" for j using kids_okD(1) [OF k, of j n] n by (auto simp: run_view(2) [symmetric])
  then have "holders g n = {}" by (auto simp: holders_def)
  moreover have "holders g' = holders g" by (simp add: g' holders_def fun_eq_iff views)
  ultimately show ?thesis using g by (auto simp: g' gate_ok_def views) (simp_all add: begin_turn_def register_run_def)
next
  case (Child_created n k')
  then have g': "g' = create_child n k' g" and new: "kid_phase k' g = None"
    using a by (auto simp: run_view split: option.splits if_splits)
  have "holders g' m = holders g m" for m
    using new by (auto simp: g' holders_def views in_gate_def holds_gate_def kid_view(2) [symmetric])
  then show ?thesis using g by (simp add: g' gate_ok_def views) (simp add: create_child_def views)
next
  case (Children_fail n)
  then have ph: "phase_of n g = Some Hiring" and g': "g' = set_phase n Looping (finish_all n g)" using a by (auto split: if_splits)
  have "\<not> in_gate (kid_phase j g)" if "kid_of g j = Some n" for j
    using kids_okD(3) [OF k that] ph by (cases "kid_phase j g") (auto simp: alive_def in_gate_def holds_gate_def split: child_phase.splits)
  then have "holders g' m = holders g m" for m by (auto simp: g' holders_def views in_gate_def holds_gate_def split: if_splits)
  then show ?thesis using g by (simp add: g' gate_ok_def views) (simp add: finish_all_def)
next
  case (Permit_taken k')
  then have t: "take_permit k' g = Some g'" using a by (auto split: if_splits)
  show ?thesis
  proof (cases "kid_phase k' g = Some At_gate \<and> \<not> parent_cancelled k' g")
    case True
    with t gate_ok_take [OF g k, of k'] show ?thesis by (auto simp: take_permit_def Let_def split: if_splits)
  next
    case False
    with t g k show ?thesis
      by (auto simp: take_permit_def Let_def in_gate_def holds_gate_def split: if_splits option.splits child_phase.splits
        intro: gate_ok_finish intro!: gate_ok_next)
  qed
next
  case (Parent_checked k')
  with a g k show ?thesis
    by (auto simp: check_parent_def in_gate_def holds_gate_def split: if_splits option.splits child_phase.splits
      intro: gate_ok_finish intro!: gate_ok_next)
next
  case (Child_notified k')
  have "gate_ok (g\<lparr>rg_woken := f\<rparr>)" "kids_ok (g\<lparr>rg_woken := f\<rparr>)" for f
    using g k by (auto intro: gate_ok_same kids_ok_same simp: views)
  with a Child_notified show ?thesis by (auto simp: notified_def Let_def split: if_splits intro: gate_ok_finish)
next
  case (Child_admitted k' n)
  then have c: "kid_phase k' g = Some Cleared" and n: "phase_of n g = None" and g': "g' = admit_child k' n g"
    using a by (auto simp: run_view split: if_splits)
  show ?thesis
  proof (cases "subagent_admitted k' g")
    case True
    have "kid_of g j \<noteq> Some n" for j using kids_okD(1) [OF k, of j n] n by (auto simp: run_view(2) [symmetric])
    then have "holders g n = {}" by (auto simp: holders_def)
    moreover have "holders g' = holders g"
      using c True by (auto simp: g' admit_child_def holders_def fun_eq_iff views in_gate_def holds_gate_def)
    ultimately show ?thesis using g True
      by (auto simp: g' gate_ok_def views admit_child_def) (simp_all add: register_run_def)
  qed (use g k g' in \<open>simp add: admit_child_def gate_ok_finish\<close>)
next
  case (Child_done k')
  with a g k show ?thesis by (auto split: option.splits child_phase.splits if_splits intro: gate_ok_finish)
next
  case (Child_fails k')
  with a g k show ?thesis by (auto split: if_splits intro: gate_ok_finish)
next
  case (Stop_goes_on i order)
  then obtain ms h where st: "cancel_step order (rg_cancels g ! i) g = Some (ms, h)" and g': "g' = h\<lparr>rg_cancels := (rg_cancels h)[i := ms]\<rparr>"
    using a by (auto split: if_splits option.splits)
  from st have "gate_ok h"
    by (cases "(order, rg_cancels g ! i, g)" rule: cancel_step.cases)
      (auto simp: views wake_children_def cancel_pending_approvals_def split: option.splits if_splits intro!: gate_ok_same [OF g])
  then show ?thesis unfolding g' by (rule gate_ok_same) (simp_all add: views)
qed (use a g in \<open>auto simp: push_steer_def drain_steers_def finish_or_steer_def unregister_run_def approval_steps
   views split: if_splits option.splits intro!: gate_ok_same [OF g]\<close>)

text \<open>
  C14: however the turns, the children, the stops and the panics interleave, the children of a run that are past
  its gate, waiting for the permit of the provider or in their turn, and the free permits of the gate together
  make the cap the project allows: there are never more of them than the cap, and no permit is lost.
\<close>

theorem subagents_within_cap:
  assumes "reachable g" and "rg_runs g n = Some t"
  shows "card {k. \<exists>c. rg_kids g k = Some c \<and> ch_parent c = n \<and> holds_gate (ch_phase c)} + rg_gate g n = rt_cap t"
proof -
  have "holders g n = {k. \<exists>c. rg_kids g k = Some c \<and> ch_parent c = n \<and> holds_gate (ch_phase c)}"
    by (auto simp: holders_def kid_of_def kid_phase_def in_gate_def)
  moreover
  have "gate_ok g" using assms(1)
  proof (induction rule: reachable.induct)
    case at_rest
    show ?case by (simp add: gate_ok_def cap_of_def idle_registry_def)
  next
    case (moves_on g x g')
    with reachable_shape show ?case by (blast intro: gate_ok_act)
  qed
  moreover have "cap_of g n = Some (rt_cap t)" using assms(2) by (simp add: cap_of_def)
  ultimately show ?thesis by (metis gate_ok_def add.commute)
qed

section \<open>Steering\<close>

definition steer_ok_at :: "live_registry \<Rightarrow> nat \<Rightarrow> bool" where
  "steer_ok_at g n \<longleftrightarrow> n \<notin> rg_disturbed g \<longrightarrow>
     (case sess g n of
        None \<Rightarrow> rg_accepted g n = [] \<and> rg_taken g n = []
      | Some s \<Rightarrow>
          (if over (phase_of n g)
           then subseq (rg_taken g n) (rg_accepted g n) \<and>
             (phase_of n g = Some Retired \<and> n \<notin> rg_emptied g \<longrightarrow> rg_taken g n = rg_accepted g n)
           else subseq (rg_taken g n @ pending_steers s g) (rg_accepted g n) \<and>
             (n \<notin> rg_emptied g \<longrightarrow> rg_taken g n @ pending_steers s g = rg_accepted g n)))"

lemma steer_ok_same:
  assumes "steer_ok_at g n" and "sess h n = sess g n" and "over (phase_of n h) = over (phase_of n g)"
    and "phase_of n h = Some Retired \<longleftrightarrow> phase_of n g = Some Retired" and "rg_accepted h n = rg_accepted g n"
    and "rg_taken h n = rg_taken g n" and "rg_emptied h = rg_emptied g" and "n \<notin> rg_disturbed h \<Longrightarrow> n \<notin> rg_disturbed g"
    and "\<And>s. sess g n = Some s \<Longrightarrow> \<not> over (phase_of n g) \<Longrightarrow> n \<notin> rg_disturbed g \<Longrightarrow> pending_steers s h = pending_steers s g"
  shows "steer_ok_at h n"
  using assms by (auto simp: steer_ok_at_def split: option.splits)

lemma pending_frame: "rg_steers h = rg_steers g \<Longrightarrow> pending_steers s h = pending_steers s g"
  by (simp add: pending_steers_def)

lemma no_pending: "runs_ok g \<Longrightarrow> rg_active g s = None \<Longrightarrow> pending_steers s g = []"
  by (cases "rg_steers g s") (auto simp: pending_steers_def dest: runs_okD(4))

lemma alone:
  assumes "runs_ok g" and "sess g n = Some s" and "phase_of n g \<noteq> Some Unregistered"
    and "sess g m = Some s" and "phase_of m g \<noteq> Some Unregistered" and "m \<notin> rg_disturbed g"
  shows "m = n"
  using runs_okD(6) [OF assms(1,4,2) _ assms(5,3)] assms(6) by blast

lemma subseq_shorter: "subseq (xs @ ys) zs \<Longrightarrow> subseq xs zs"
  by (rule subseq_order.trans [of _ "xs @ ys"]) (simp_all add: prefix_imp_subseq)

lemma steer_ok_leaves:
  assumes ok: "steer_ok_at g n" and s: "sess g n = Some s" and "phase_of n g = Some ph0" "ph0 \<noteq> Unregistered"
    and "over (Some ph)" and "ph \<noteq> Retired"
  shows "steer_ok_at (set_phase n ph g) n"
  using assms by (auto simp: steer_ok_at_def views split: if_splits dest: subseq_shorter)

lemma steer_ok_end:
  assumes r: "runs_ok g" and ok: "\<And>m. steer_ok_at g m" and s: "sess g n = Some s"
    and ph: "phase_of n g = Some Leaving \<or> phase_of n g = Some Retired"
  shows "steer_ok_at (unregister_run n s g) m"
proof (cases "m = n")
  case True
  have "subseq (rg_taken g n) (rg_accepted g n)" if "n \<notin> rg_disturbed g"
    using ok [of n] s ph that by (auto simp: steer_ok_at_def over_def ended_def split: if_splits dest: subseq_shorter)
  with True s ph show ?thesis by (auto simp: steer_ok_at_def unregister_run_def views over_def ended_def)
next
  case False
  have "s' \<noteq> s" if "sess g m = Some s'" "\<not> over (phase_of m g)" "m \<notin> rg_disturbed g" for s'
    using alone [OF r s, of m] that ph False by (auto simp: over_def ended_def)
  with False show ?thesis
    by (intro steer_ok_same [OF ok]) (auto simp: unregister_run_def views pending_steers_def)
qed

lemma steer_ok_drain:
  assumes r: "runs_ok g" and ok: "\<And>m. steer_ok_at g m" and s: "sess g n = Some s" and live: "\<not> over (phase_of n g)"
  shows "steer_ok_at (drain_steers n s g) m"
proof (cases "m = n")
  case True
  with ok [of n] s live show ?thesis
    by (simp add: steer_ok_at_def drain_steers_def views pending_steers_def)
next
  case False
  have "s' \<noteq> s" if "sess g m = Some s'" "\<not> over (phase_of m g)" "m \<notin> rg_disturbed g" for s'
    using alone [OF r s, of m] that live False by (auto simp: over_def ended_def)
  with False show ?thesis
    by (intro steer_ok_same [OF ok]) (auto simp: drain_steers_def views pending_steers_def)
qed

lemma steer_ok_register:
  assumes r: "runs_ok g" and ok: "\<And>m. steer_ok_at g m" and n: "phase_of n g = None"
    and d: "rg_disturbed g \<subseteq> D" and s: "n \<notin> D \<Longrightarrow> rg_active g s = None"
  shows "steer_ok_at ((register_run n s cap g)\<lparr>rg_disturbed := D\<rparr>) m" (is "steer_ok_at ?h m")
proof -
  have reg: "rg_accepted ?h = rg_accepted g" "rg_taken ?h = rg_taken g"
    "rg_emptied ?h = rg_emptied g" "pending_steers s' ?h = pending_steers s' g" "rg_disturbed ?h = D" for s'
    by (simp_all add: register_run_def pending_steers_def)
  show ?thesis
  proof (cases "m = n")
    case True
    from n have "sess g n = None" by (simp add: run_view)
    with True ok [of n] no_pending [OF r s] d show ?thesis by (auto simp: steer_ok_at_def views over_def ended_def reg)
  next
    case False
    with d show ?thesis by (intro steer_ok_same [OF ok]) (auto simp: views reg)
  qed
qed

lemma steer_ok_begin:
  assumes r: "runs_ok g" and ok: "\<And>m. steer_ok_at g m" and n: "phase_of n g = None"
  shows "steer_ok_at (begin_turn n s cap g) m"
  unfolding begin_turn_def
proof (rule steer_ok_register [OF r ok n])
  assume "n \<notin> rg_disturbed g \<union> (if others_of s g = {} then {} else insert n (others_of s g))"
  then have "m \<notin> others_of s g" for m by (auto split: if_splits)
  then show "rg_active g s = None"
    using runs_okD(1,2) [OF r, of s] by (cases "rg_active g s") (auto simp: others_view ended_def)
qed auto

lemma steer_ok_admit:
  assumes r: "runs_ok g" and ok: "\<And>m. steer_ok_at g m" and n: "phase_of n g = None" and s: "rg_active g s = None"
  shows "steer_ok_at (register_run n s cap g) m"
proof -
  have "(register_run n s cap g)\<lparr>rg_disturbed := rg_disturbed g\<rparr> = register_run n s cap g" by (simp add: register_run_def)
  with steer_ok_register [OF r ok n, of "rg_disturbed g" s cap m] s show ?thesis by simp
qed

lemma steer_ok_act:
  assumes ok: "\<And>n. steer_ok_at g n" and r: "runs_ok g" and k: "kids_ok g" and a: "act x g = Some g'"
  shows "steer_ok_at g' m"
proof -
  have kid: "steer_ok_at (finish_child k' g) m" "steer_ok_at (set_kid k' ph g) m" "steer_ok_at (set_kid k' ph (g\<lparr>rg_gate := f\<rparr>)) m"
    "steer_ok_at (g\<lparr>rg_woken := w\<rparr>) m" "steer_ok_at (finish_child k' (g\<lparr>rg_woken := w\<rparr>)) m" for k' ph f w
    by (rule steer_ok_same [OF ok]; simp add: finish_child_def views pending_steers_def)+
  show ?thesis
proof (cases x)
  case (Turn_begins n s cap)
  with a show ?thesis by (auto simp: run_view split: if_splits intro: steer_ok_begin [OF r ok])
next
  case (Steer_pushed s c)
  show ?thesis
  proof (cases "rg_active g s")
    case None
    with a Steer_pushed ok show ?thesis by (simp add: push_steer_def)
  next
    case (Some n)
    then have s: "sess g n = Some s" "\<not> ended (phase_of n g)" using runs_okD(1,2) [OF r] by auto
    have g': "g' = g\<lparr>rg_steers := (rg_steers g)(s := Some (pending_steers s g @ [c])), rg_accepted := (rg_accepted g)(n := rg_accepted g n @ [c])\<rparr>"
      using a Steer_pushed Some by (simp add: push_steer_def)
    show ?thesis
    proof (cases "m = n")
      case True
      have "subseq (rg_taken g n) (rg_accepted g n @ [c])" if "subseq (rg_taken g n) (rg_accepted g n)"
        by (rule subseq_order.trans [OF that]) (simp add: prefix_imp_subseq)
      with True ok [of n] s show ?thesis
        by (auto simp: g' steer_ok_at_def views pending_steers_def list_emb_append_mono over_def ended_def simp flip: append_assoc
          split: if_splits)
    next
      case False
      have "s' \<noteq> s" if "sess g m = Some s'" "\<not> over (phase_of m g)" "m \<notin> rg_disturbed g" for s'
        using alone [OF r s(1), of m] that s(2) False by (auto simp: over_def ended_def)
      with False show ?thesis
        by (intro steer_ok_same [OF ok]) (auto simp: g' views pending_steers_def)
    qed
  qed
next
  case (Steers_drained n)
  then have ph: "phase_of n g = Some Looping" and g': "g' = drain_steers n (session_of n g) g"
    using a by (auto split: if_splits dest: at_loop_phase)
  then obtain s where s: "sess g n = Some s" using sess_Some by blast
  show ?thesis unfolding g' session_of_sess [OF s]
    by (rule steer_ok_drain [OF r ok s]) (simp add: ph over_def ended_def)
next
  case (Loop_finishes n)
  then have ph: "phase_of n g = Some Looping" and g': "g' = finish_or_steer n (session_of n g) g"
    using a by (auto split: if_splits dest: at_loop_phase)
  then obtain s where s: "sess g n = Some s" using sess_Some by blast
  have d: "steer_ok_at (drain_steers n s g) m" for m
    by (rule steer_ok_drain [OF r ok s]) (simp add: ph over_def ended_def)
  show ?thesis
  proof (cases "pending_steers s g = [] \<and> m = n")
    case True
    with ok [of n] s ph show ?thesis
      by (simp add: g' session_of_sess [OF s] finish_or_steer_def Let_def steer_ok_at_def views drain_steers_def over_def ended_def)
  next
    case False
    show ?thesis unfolding g' session_of_sess [OF s] finish_or_steer_def Let_def
      using False by (auto simp: views pending_steers_def intro!: steer_ok_same [OF d] d)
  qed
next
  case (Turn_ends n)
  then have ph: "phase_of n g = Some Leaving \<or> phase_of n g = Some Retired" and g': "g' = unregister_run n (session_of n g) g"
    using a by (auto split: if_splits)
  then obtain s where s: "sess g n = Some s" using sess_Some by blast
  show ?thesis unfolding g' session_of_sess [OF s] by (rule steer_ok_end [OF r ok s ph])
next
  case (Turn_panics n)
  then obtain ph0 where ph: "phase_of n g = Some ph0" "ph0 \<noteq> Unregistered" and g': "g' = set_phase n Panicked g"
    using a by (auto split: if_splits dest: at_loop_phase)
  then obtain s where s: "sess g n = Some s" using sess_Some by blast
  show ?thesis
  proof (cases "m = n")
    case True
    with steer_ok_leaves [OF ok s ph] show ?thesis by (simp add: g' over_def)
  next
    case False
    then show ?thesis unfolding g' by (intro steer_ok_same [OF ok]) (auto simp: views intro: pending_frame)
  qed
next
  case (Child_admitted k' n)
  then have c: "kid_phase k' g = Some Cleared" and n: "phase_of n g = None" and g': "g' = admit_child k' n g"
    using a by (auto simp: run_view split: if_splits)
  have "sess g j \<noteq> Some k'" for j by (rule kids_okD(5) [OF k]) (simp_all add: c alive_def)
  then have "rg_active g k' = None" using runs_okD(1) [OF r] by (cases "rg_active g k'") auto
  with n have "steer_ok_at (register_run n k' 0 g) m" by (rule steer_ok_admit [OF r ok])
  then have "steer_ok_at (set_kid k' (In_turn n) (register_run n k' 0 g)) m"
    by (rule steer_ok_same) (simp_all add: views pending_steers_def)
  moreover have "steer_ok_at (finish_child k' g) m" by (rule steer_ok_same [OF ok]) (simp_all add: finish_child_def views pending_steers_def)
  ultimately show ?thesis unfolding g' admit_child_def by simp
next
  case (Stop_goes_on i order)
  then obtain ms h where st: "cancel_step order (rg_cancels g ! i) g = Some (ms, h)" and g': "g' = h\<lparr>rg_cancels := (rg_cancels h)[i := ms]\<rparr>"
    using a by (auto split: if_splits option.splits)
  have forget: "steer_ok_at (g\<lparr>rg_steers := (rg_steers g)(s := None),
      rg_emptied := rg_emptied g \<union> (case rg_active g s of None \<Rightarrow> {} | Some n \<Rightarrow> {n})\<rparr>) m" for s
  proof (cases "sess g m = Some s \<and> \<not> over (phase_of m g) \<and> m \<notin> rg_disturbed g")
    case True
    then have "rg_active g s = Some m" using runs_okD(3) [OF r] by simp
    with True ok [of m] show ?thesis by (auto simp: steer_ok_at_def views pending_steers_def dest: subseq_shorter)
  next
    case False
    with ok [of m] show ?thesis by (auto simp: steer_ok_at_def views pending_steers_def split: option.splits if_splits)
  qed
  have "steer_ok_at h m"
  proof (cases "\<exists>s ms'. rg_cancels g ! i = Forget_steers s # ms'")
    case True
    with st forget show ?thesis by auto
  next
    case False
    with st show ?thesis
      by (cases "(order, rg_cancels g ! i, g)" rule: cancel_step.cases)
        (auto simp: views wake_children_def cancel_pending_approvals_def pending_steers_def ok split: option.splits if_splits
          intro!: steer_ok_same [OF ok] pending_frame)
  qed
  then show ?thesis unfolding g' by (rule steer_ok_same) (simp_all add: views pending_steers_def)
next
  case (Loop_breaks n)
  with a show ?thesis
    by (auto simp: views over_def ended_def split: if_splits dest!: at_loop_phase intro!: steer_ok_same [OF ok] pending_frame)
next
  case (Child_created n k')
  then obtain t where "rg_runs g n = Some t" "at_loop n g \<or> rt_phase t = Hiring" "g' = create_child n k' g"
    using a by (auto split: option.splits if_splits)
  then have ph: "phase_of n g = Some Looping \<or> phase_of n g = Some Hiring" and g': "g' = create_child n k' g"
    by (auto simp: at_loop_def phase_of_def)
  have "rg_steers g' = rg_steers g" "rg_accepted g' = rg_accepted g" "rg_taken g' = rg_taken g" "rg_emptied g' = rg_emptied g"
    "rg_disturbed g' = rg_disturbed g" by (simp_all add: g' create_child_def views)
  with ph show ?thesis by (auto simp: g' views over_def ended_def split: if_splits intro!: steer_ok_same [OF ok] pending_frame)
next
  case (Children_fail n)
  then have ph: "phase_of n g = Some Hiring" and g': "g' = set_phase n Looping (finish_all n g)" using a by (auto split: if_splits)
  have f: "rg_steers (finish_all n g) = rg_steers g" "rg_accepted (finish_all n g) = rg_accepted g"
    "rg_taken (finish_all n g) = rg_taken g" "rg_emptied (finish_all n g) = rg_emptied g"
    "rg_disturbed (finish_all n g) = rg_disturbed g" by (simp_all add: finish_all_def)
  have "steer_ok_at (finish_all n g) m" by (rule steer_ok_same [OF ok]) (simp_all add: views f pending_frame [OF f(1)])
  then show ?thesis unfolding g'
    by (rule steer_ok_same) (use ph in \<open>auto simp: views over_def ended_def split: if_splits intro: pending_frame\<close>)
next
  case (Children_start n)
  with a show ?thesis by (auto simp: views over_def ended_def split: if_splits intro!: steer_ok_same [OF ok] pending_frame)
next
  case (Children_joined n)
  with a show ?thesis by (auto simp: views over_def ended_def split: if_splits intro!: steer_ok_same [OF ok] pending_frame)
next
  case (Parent_checked k')
  with a show ?thesis by (auto simp: check_parent_def kid split: if_splits option.splits child_phase.splits)
next
  case (Permit_taken k')
  with a show ?thesis
    by (auto simp: take_permit_def Let_def kid split: if_splits option.splits child_phase.splits)
next
  case (Child_notified k')
  with a show ?thesis by (auto simp: notified_def Let_def kid split: if_splits)
next
  case (Child_done k')
  with a show ?thesis by (auto simp: kid split: option.splits child_phase.splits if_splits)
next
  case (Child_fails k')
  with a show ?thesis by (auto simp: kid split: if_splits)
qed (use a ok in \<open>auto simp: approval_steps views split: option.splits if_splits intro!: steer_ok_same [OF ok] pending_frame\<close>)
qed

lemma reachable_steers: "reachable g \<Longrightarrow> steer_ok_at g n"
proof (induction arbitrary: n rule: reachable.induct)
  case at_rest
  show ?case by (simp add: steer_ok_at_def sess_def idle_registry_def)
next
  case (moves_on g x g')
  with reachable_shape show ?case by (blast intro: steer_ok_act)
qed

text \<open>
  C11: a run that shared its session with no other turn while it was there takes the messages it was sent in the order they were
  accepted, and when it ended by itself and no stop emptied its queue it has taken all of them. A session
  without a registered run, overlapped or not, has no message waiting, and one sent to it is refused and changes
  nothing.
\<close>

theorem accepted_steers_are_taken:
  assumes "reachable g"
  shows "(n \<notin> rg_disturbed g \<longrightarrow> subseq (rg_taken g n) (rg_accepted g n) \<and>
      (phase_of n g = Some Retired \<and> n \<notin> rg_emptied g \<longrightarrow> rg_taken g n = rg_accepted g n)) \<and>
    (is_running s g \<or> pending_steers s g = [] \<and> push_steer s m g = (False, g))"
proof -
  have "runs_ok g" using reachable_shape [OF assms] by simp
  then have "is_running s g \<or> pending_steers s g = [] \<and> push_steer s m g = (False, g)"
    using no_pending by (auto simp: is_running_def push_steer_def split: option.split)
  moreover have "sess g n \<noteq> None" if "phase_of n g = Some Retired" using that by (simp add: run_view)
  ultimately show ?thesis using reachable_steers [OF assms, of n]
    by (auto simp: steer_ok_at_def over_def ended_def split: option.splits if_splits dest: subseq_shorter)
qed

section \<open>The reach of a stop\<close>





definition before_wake :: "micro list \<Rightarrow> string \<Rightarrow> nat \<Rightarrow> micro set" where
  "before_wake ops s n = set (takeWhile (\<lambda>x. x \<noteq> Wake s (Some n)) ops)"




lemma before_wake_Nil [simp]: "before_wake [] s n = {}"
  by (simp add: before_wake_def)

lemma before_wake_Cons [simp]:
  "before_wake (y # ops) s n = (if y = Wake s (Some n) then {} else insert y (before_wake ops s n))"
  unfolding before_wake_def by (cases "y = Wake s (Some n)") simp_all









section \<open>Approvals\<close>

text \<open>
  C33: the prompts of two calls that ask under one key deny each other: calls of two chats whose models number
  their calls alike, or two calls of one batch with the same id. The first call is denied because its prompt was
  replaced, and by giving up it takes away the prompt of the second, though nobody answered either.
\<close>

theorem same_call_id_denies_both:
  assumes "rg_asks g i = Some (n, approval_key (session_of m g) call g)" and "phase_of m g = Some Looping"
    and "rg_asks g j = None" and "rg_verdict g j = None"
  shows "\<exists>g1 g2 g3. act (Approval_asked m call j) g = Some g1 \<and> act (Approval_lost i) g1 = Some g2 \<and> act (Approval_lost j) g2 = Some g3 \<and>
    map_option aw_decision (rg_verdict g3 i) = Some Deny \<and> map_option aw_decision (rg_verdict g3 j) = Some Deny"
proof -
  let ?key = "approval_key (session_of m g) call g"
  have ij: "i \<noteq> j" using assms by auto
  define g1 where "g1 = ask_approval m call j g"
  define g2 where "g2 = no_answer i ?key g1"
  define g3 where "g3 = no_answer j ?key g2"
  have 1: "rg_asks g1 i = Some (n, ?key)" "rg_asks g1 j = Some (m, ?key)" "rg_approvals g1 ?key = Some j"
    using assms ij by (simp_all add: g1_def ask_approval_def Let_def)
  have 2: "rg_asks g2 j = Some (m, ?key)" "rg_approvals g2 ?key = None"
    using 1 ij by (simp_all add: g2_def no_answer_def answered_def)
  have 3: "map_option aw_decision (rg_verdict g3 i) = Some Deny" "map_option aw_decision (rg_verdict g3 j) = Some Deny"
    using ij by (simp_all add: g3_def g2_def no_answer_def answered_def)
  have "act (Approval_asked m call j) g = Some g1" using assms(2-4) by (simp add: g1_def)
  moreover have "act (Approval_lost i) g1 = Some g2" using 1 ij by (simp add: g2_def)
  moreover have "act (Approval_lost j) g2 = Some g3" using 2 by (simp add: g3_def)
  ultimately show ?thesis using 3 by blast
qed

text \<open>The keys of children do not collide, since session ids have no number sign.\<close>

lemma child_keys_distinct:
  assumes "is_subagent s g" and "is_subagent t g" and "CHR 0x23 \<notin> set s" and "CHR 0x23 \<notin> set t"
    and "approval_key s c g = approval_key t d g"
  shows "s = t \<and> c = d"
proof -
  have "s @ CHR 0x23 # c = t @ CHR 0x23 # d" using assms(1,2,5) by (simp add: approval_key_def)
  moreover have "takeWhile (\<lambda>x. x \<noteq> CHR 0x23) (u @ CHR 0x23 # e) = u" if "CHR 0x23 \<notin> set u" for u e :: string
    using that by (subst takeWhile_append2) auto
  ultimately have "s = t" using assms(3,4) by metis
  with \<open>s @ CHR 0x23 # c = t @ CHR 0x23 # d\<close> show ?thesis by simp
qed

section \<open>Traces\<close>

fun trace :: "action list \<Rightarrow> live_registry \<Rightarrow> live_registry option" where
  "trace [] g = Some g"
| "trace (x # xs) g = (case act x g of None \<Rightarrow> None | Some h \<Rightarrow> trace xs h)"

lemma trace_reachable: "trace xs g = Some h \<Longrightarrow> reachable g \<Longrightarrow> reachable h"
  by (induction xs arbitrary: g) (auto split: option.splits intro: moves_on)

lemma trace_value: "trace xs g \<noteq> None \<Longrightarrow> trace xs g = Some (case trace xs g of Some h \<Rightarrow> h | None \<Rightarrow> d)"
  by (cases "trace xs g") auto

text \<open>A turn that may run one subagent at a time and has started two.\<close>

definition one_turn_on :: live_registry where
  "one_turn_on = begin_turn 0 ''s'' 1 idle_registry"

lemma one_turn_on_reachable: "reachable one_turn_on"
proof -
  have "act (Turn_begins 0 ''s'' 1) idle_registry = Some one_turn_on" by (simp add: one_turn_on_def idle_registry_def)
  with at_rest show ?thesis by (rule moves_on)
qed

definition start_two :: "action list" where
  "start_two = [Child_created 0 ''k'', Child_created 0 ''l'', Children_start 0, Parent_checked ''k'', Permit_taken ''k'',
     Parent_checked ''l'', Parent_checked ''k'', Permit_taken ''k'', Child_admitted ''k'' 1]"

definition two_kids :: live_registry where
  "two_kids = (case trace start_two one_turn_on of Some g \<Rightarrow> g | None \<Rightarrow> idle_registry)"

lemmas act_defs = register_run_def create_child_def set_phase_def set_kid_def phase_of_def kid_phase_def session_of_def
  kid_parent_def parent_waits_def parent_cancelled_def check_parent_def take_permit_def Let_def admit_child_def
  subagent_admitted_def parent_of_def begin_turn_def others_of_def at_loop_def

lemma two_kids_trace: "trace start_two one_turn_on = Some two_kids"
proof -
  have "trace start_two one_turn_on \<noteq> None"
    by (simp add: start_two_def one_turn_on_def idle_registry_def act_defs)
  then show ?thesis by (auto simp: two_kids_def)
qed

lemma two_kids_reachable: "reachable two_kids"
  by (rule trace_reachable [OF two_kids_trace one_turn_on_reachable])

theorem subagents_within_cap_witness:
  "card {k. \<exists>c. rg_kids two_kids k = Some c \<and> ch_parent c = 0 \<and> holds_gate (ch_phase c)} + rg_gate two_kids 0 = 1"
proof -
  have "rg_runs two_kids 0 = Some \<lparr>rt_session = ''s'', rt_cap = 1, rt_phase = Joining\<rparr>"
    by (simp add: two_kids_def start_two_def one_turn_on_def idle_registry_def act_defs)
  from subagents_within_cap [OF two_kids_reachable this] show ?thesis by simp
qed

definition told_run :: live_registry where
  "told_run = (case trace [Steer_pushed ''s'' ''go'', Loop_finishes 0, Loop_finishes 0] one_turn_on of Some g \<Rightarrow> g | None \<Rightarrow> idle_registry)"

theorem accepted_steers_are_taken_witness: "rg_taken told_run 0 = [''go'']"
proof -
  let ?xs = "[Steer_pushed ''s'' ''go'', Loop_finishes 0, Loop_finishes 0]"
  have e: "trace ?xs one_turn_on \<noteq> None" "phase_of 0 told_run = Some Retired" "0 \<notin> rg_emptied told_run" "0 \<notin> rg_disturbed told_run"
    "rg_accepted told_run 0 = [''go'']"
    by (simp_all add: told_run_def one_turn_on_def idle_registry_def act_defs push_steer_def pending_steers_def
        finish_or_steer_def drain_steers_def)
  have "trace ?xs one_turn_on = Some told_run" unfolding told_run_def by (rule trace_value [OF e(1)])
  then have "reachable told_run" by (rule trace_reachable [OF _ one_turn_on_reachable])
  from accepted_steers_are_taken [OF this, of 0] e show ?thesis by simp
qed



lemmas stop_defs = stop_chat_def cancel_agent_run_def cancel_rest_def live_children_def wake_children_def
  cancel_pending_approvals_def



text \<open>Two chats, one of which waits for the answer to the call it numbered ''1''.\<close>

definition two_chats :: live_registry where
  "two_chats = ask_approval 0 ''1'' 0 (register_run 1 ''t'' 0 (register_run 0 ''s'' 0 idle_registry))"

theorem same_call_id_denies_both_witness:
  "\<exists>g1 g2 g3. act (Approval_asked 1 ''1'' 1) two_chats = Some g1 \<and> act (Approval_lost 0) g1 = Some g2 \<and>
     act (Approval_lost 1) g2 = Some g3 \<and>
     map_option aw_decision (rg_verdict g3 0) = Some Deny \<and> map_option aw_decision (rg_verdict g3 1) = Some Deny"
  by (rule same_call_id_denies_both)
    (simp_all add: two_chats_def ask_approval_def approval_key_def is_subagent_def idle_registry_def act_defs)

section \<open>Turns that overlap\<close>

text \<open>
  Nothing in \<open>run_agent_turn\<close> keeps a second turn of a session from starting. The end of the first then
  removes the handle of the second and the steers it was sent: they were accepted, no stop emptied its queue, and
  the run that finishes has not taken them.
\<close>

definition overlap :: "action list" where
  "overlap = [Turn_begins 0 ''s'' 0, Loop_finishes 0, Turn_begins 1 ''s'' 0, Steer_pushed ''s'' ''go'', Turn_ends 0,
     Loop_finishes 1]"

definition overlapped :: live_registry where
  "overlapped = (case trace overlap idle_registry of Some g \<Rightarrow> g | None \<Rightarrow> idle_registry)"

lemma overlapping_turns_lose_steers:
  "reachable overlapped \<and> phase_of 1 overlapped = Some Retired \<and> 1 \<notin> rg_emptied overlapped \<and>
   rg_accepted overlapped 1 = [''go''] \<and> rg_taken overlapped 1 = []"
proof -
  have "trace overlap idle_registry \<noteq> None" and e: "phase_of 1 overlapped = Some Retired" "1 \<notin> rg_emptied overlapped"
    "rg_accepted overlapped 1 = [''go'']" "rg_taken overlapped 1 = []"
    unfolding overlapped_def overlap_def idle_registry_def
    by (simp_all add: act_defs push_steer_def pending_steers_def finish_or_steer_def drain_steers_def unregister_run_def)
  then have "trace overlap idle_registry = Some overlapped" unfolding overlapped_def by (simp add: trace_value)
  with at_rest e show ?thesis by (simp add: trace_reachable)
qed

text \<open>
  A child that has both permits when its chat is stopped looks at whatever run its chat has by then. A turn begun
  after the stop, which the composer allows at once, lets it in: the stop is over, the run that started the child
  is cancelled, and the child loops with a token that is not.
\<close>

definition revive :: "action list" where
  "revive = [Child_created 0 ''k'', Children_start 0, Parent_checked ''k'', Permit_taken ''k'', Parent_checked ''k'',
     Permit_taken ''k'', Chat_stopped ''s'', Stop_goes_on 0 [], Stop_goes_on 0 [], Stop_goes_on 0 [], Stop_goes_on 0 [''k''],
     Stop_goes_on 0 [], Stop_goes_on 0 [], Stop_goes_on 0 [], Stop_goes_on 0 [], Stop_goes_on 0 [], Stop_goes_on 0 [],
     Stop_goes_on 0 [], Turn_begins 1 ''s'' 0, Child_admitted ''k'' 2]"

definition revived :: live_registry where
  "revived = (case trace revive one_turn_on of Some g \<Rightarrow> g | None \<Rightarrow> idle_registry)"

lemma new_turn_revives_child:
  "reachable revived \<and> 0 \<in> rg_swept revived \<and> rg_cancels revived = [[]] \<and>
   rg_kids revived ''k'' = Some \<lparr>ch_parent = 0, ch_phase = In_turn 2\<rparr> \<and>
   phase_of 2 revived = Some Looping \<and> 2 \<notin> rg_cancelled revived"
proof -
  have "trace revive one_turn_on \<noteq> None" and e: "0 \<in> rg_swept revived" "rg_cancels revived = [[]]"
    "rg_kids revived ''k'' = Some \<lparr>ch_parent = 0, ch_phase = In_turn 2\<rparr>" "phase_of 2 revived = Some Looping" "2 \<notin> rg_cancelled revived"
    unfolding revived_def revive_def one_turn_on_def idle_registry_def
    by (simp_all add: act_defs stop_defs insert_commute set_eq_iff)
  then have "trace revive one_turn_on = Some revived" unfolding revived_def by (simp add: trace_value)
  with one_turn_on_reachable e show ?thesis by (simp add: trace_reachable)
qed

section \<open>Turns that panic\<close>

text \<open>
  The run of a turn that panicked stays registered: the chat is still running, and a message sent to it is accepted
  though no run will take it.
\<close>

lemma panicked_turn_stays:
  assumes "reachable g" and "at_loop n g" and "n \<notin> rg_disturbed g" and "act (Turn_panics n) g = Some h"
  shows "is_running (session_of n h) h \<and> fst (push_steer (session_of n h) m h)"
proof -
  have r: "runs_ok g" using reachable_shape [OF assms(1)] by simp
  have ph: "phase_of n g = Some Looping" using assms(2) by (rule at_loop_phase)
  then obtain s where s: "sess g n = Some s" using sess_Some by blast
  have "rg_active g s = Some n" by (rule runs_okD(3) [OF r s]) (simp_all add: ph assms(3) over_def ended_def)
  moreover have "h = set_phase n Panicked g" using assms(2,4) by simp
  ultimately show ?thesis using s by (simp add: is_running_def push_steer_def run_view views)
qed

end
