(* ===== verification/Spec2Isabelle.thy ===== *)
theory Spec2Isabelle
  imports QueueProps ChangeProps AskUser ApprovalProps Credentials ChatTurnProps RegistryProps
begin

text \<open>
  The planning core and the agent of basebuild (\<open>src/src-tauri/src\<close>): a desktop application keeps plans in
  SQLite, runs them one by one or from a queue in chats with an agent, and keeps their requirements and task
  lists in OpenSpec directories of the project.

  The parts and how they meet.
  A plan (\<open>plan_service.rs\<close>) belongs to a session. Starting it (\<open>plan_runner_service.rs\<close>) creates a run
  and a chat; every change of a run goes through \<open>plan_lifecycle_service.rs\<close>, which moves the run, its plan and
  one row of an event ledger in one transaction. A dispatcher thread per session takes the next plan from
  the queue that \<open>plan_dependency_service.rs\<close> calls dispatchable. When the agent's turn ends, the task list of
  the plan's OpenSpec change (\<open>openspec_service.rs\<close>) decides whether the run succeeded; a finish policy then
  commits, opens a pull request or asks for a merge review. A turn of a chat (\<open>native_chat_service.rs\<close>) tries the
  accounts of the provider (\<open>provider_account_service\<close>) one after the other; each attempt runs the loop of
  \<open>agent_loop_service.rs\<close>, which trims the history to the context budget, asks the provider, sends the calls of
  the answer through the approval gateway, takes up what the user types meanwhile and keeps the transcript up to
  date; how it ends is told to the plan lifecycle. Archiving the change merges its delta specs into the
  project's specs and hides the plan.

  Theories, in the order of the code they model.
  \<^item> \<open>Prelude\<close>, \<open>TextOps\<close>: results, clocks, tables as lists of rows, UTF-8 text as bytes, the interfaces
    (locales \<open>status_codec\<close>, \<open>machine\<close>, \<open>ledger_machine\<close>, \<open>settle_once\<close>).
  \<^item> \<open>Assessment\<close> (\<open>models/planning_assessment.rs\<close>), \<open>PlanData\<close> (\<open>models/plan.rs\<close>, \<open>plan_run.rs\<close>,
    \<open>plan_dependency.rs\<close>), \<open>RunConcurrency\<close> (\<open>models/run_concurrency.rs\<close>): the data, its validation and
    text forms, the fingerprint of artifacts.
  \<^item> \<open>PlanStore\<close>: the tables (\<open>storage_service.rs\<close>) as the record \<open>db\<close>, and the statements of
    \<open>plan_service.rs\<close>.
  \<^item> \<open>PlanLifecycle\<close>: the transactions, chat state and reconciliation; the restart migration
    (\<open>storage_service.rs\<close>) and the launch sweep (\<open>agent_loop_service.rs\<close>). \<open>LifecycleProps\<close>: they keep one
    invariant, only append to the ledger and refine an all-or-nothing move; reconciliation repairs.
  \<^item> \<open>PlanRuntime\<close>: the process state around the tables (record \<open>app\<close>: cancellation tokens, queue states,
    semaphores, messages to the windows) and the queue.
  \<^item> \<open>CycleSearch\<close>, \<open>PlanDependency\<close>: the dependency graph, readiness, claims, coordination events, launch
    profiles, merge reviews. \<open>DependencyProps\<close>, \<open>CoordinationProps\<close>: which plans are dispatchable, what the cycle
    report means, what validation and claims guarantee.
  \<^item> \<open>PlanRunner\<close>, \<open>PlanCompletion\<close>: capacity, dispatcher turns, starting, cancelling and completing runs, the
    finish policy, the end of a chat turn. \<open>RunnerProps\<close>, \<open>CompletionProps\<close>, \<open>QueueProps\<close>: the caps hold, success
    needs evidence, what a turn of the dispatcher may start, and where the parts do not fit together.
  \<^item> \<open>SpecText\<close>: change names, task lists and delta specs as text. \<open>SpecProps\<close>: toggling is undone by toggling
    up to the line ends, counts and views agree. \<open>NameProps\<close>: names are valid and the search for a free one ends. \<open>MergeProps\<close>: a merge
    refines updates of a finite map, and what it loses.
  \<^item> \<open>Interaction\<close> (\<open>models/interaction.rs\<close>, \<open>interaction_service.rs\<close>): the questions an agent asks, their
    checks and their table. \<open>InteractionProps\<close>: what is accepted, and that an interaction is settled once under any
    interleaving of requests. \<open>AskUser\<close>: the parked agent (\<open>agent_loop_service.rs\<close>) against the commands as a step
    relation; what it is told is what is stored, and one order of steps that loses the answer.
  \<^item> \<open>Approval\<close> (\<open>models/permission.rs\<close>, \<open>settings_service.rs\<close>, \<open>agent_loop_service.rs\<close>): the gateway in front of
    the agent's tools and the batch of calls of one turn. \<open>ApprovalProps\<close>: its verdict as a priority list, plan mode
    runs no mutating tool, which calls are answered, and that allowing a tool for the session does nothing.
  \<^item> \<open>Calendar\<close>, \<open>CalendarProps\<close>: the two date routines (\<open>openspec_service.rs\<close>, \<open>plan_import_service.rs\<close>) and
    their equality.
  \<^item> \<open>ChangeStore\<close>: change directories on an explicit file tree, links to plans, archiving and the catalog.
    \<open>ChangeProps\<close>: what archiving requires and hides, and what a failed archiving leaves behind.

  \<^item> \<open>Accounts\<close> (\<open>provider_account_service\<close>), \<open>Credentials\<close>: the accounts of the providers, their health and
    selection, the migration of the old table and the credential commands. \<open>AccountsProps\<close>: identities stay unique,
    a cooled-down account waits, a session keeps its account, rotation is fair.
  \<^item> \<open>Context\<close> (\<open>context_service.rs\<close>): token estimates, context files, compaction. \<open>ChatStore\<close>
    (\<open>native_chat_service.rs\<close>): the tables of the transcript, the sessions of subagents among them, and what the
    launch sweep does to them. \<open>ChatStoreProps\<close>: they stay well formed, what a
    compaction keeps, what a provider is sent, what becomes of a steering message.
  \<^item> \<open>AgentLoop\<close> (\<open>agent_loop_service.rs\<close>): \<open>run_loop_inner\<close> as a function of its state, one \<open>loop_turn\<close> per
    iteration. \<open>AgentLoopProps\<close>: it ends, the transcript has exactly the rows it reports, events are stored under
    their texts, the history fits the budget.
  \<^item> \<open>ChatTurn\<close>: \<open>run_agent_turn\<close> and the agent path of \<open>send_message\<close> over the tables of plans, transcript and
    accounts together, and the whole launch sweep (\<open>sweep_desk\<close>). \<open>ChatTurnProps\<close>: failed attempts leave no rows, which account is charged, and that a failed
    attempt already settles the plan run.
  \<^item> \<open>RunRegistry\<close>: the tables that live runs, stops, steering, approvals and subagents share
    (\<open>agent_loop_service.rs\<close>, \<open>subagent_service.rs\<close>), a step relation whose \<open>action\<close>s are what a thread does
    under its locks; turns of one session may overlap, calls of one batch wait for approval side by side, and a turn
    may panic. \<open>RegistryShape\<close>: the invariants of the tables; \<open>rg_disturbed\<close> records the runs that shared their
    session with another turn. \<open>RegistryProps\<close>: the gate counts its permits in every interleaving, a stop reaches
    every child and accepted steers are taken for runs that were alone, and what a shared call id, an overlapping turn
    or a panic breaks.

  Conventions.
  A function of the code that changes state is a function from the state to its result and the new state; an error
  is \<open>Err\<close> with the message. A transaction that fails gives the old tables back. Clock readings are the
  parameter \<open>env\<close>: the k-th reading a call takes is its k-th value, so nothing is assumed about time going forward.
  Each body is one step; threads interleave between calls, which the theorems about repeated calls use. Other
  parts and the outside world answer through parameters: \<open>world\<close> (final touches, git, pull requests, worktrees,
  model resolution), \<open>artifact_view\<close>, \<open>unicode\<close> (case tables and letter classes), \<open>os\<close> (which file operations
  fail), and \<open>ord\<close>, the order in which a hash set hands out its elements.

  Bounds and fuel.
  The cycle search runs with one unit of fuel more than the session has plans: each call enters a plan that is
  not entered yet (\<open>search_session\<close> proves that it always returns). The search for a free change name is a
  partial function that is proved to return. The agent loop takes fuel for its turns, and 101 suffice when nobody
  steers it, the cap of 100 and the turn that reports it; after the last steering message 202 more suffice
  (\<open>agent_loop_ends\<close>). Widths that matter are kept: priorities in 8 bits, concurrency limits
  in 32, the name suffix in 32, the fingerprint in 64. Counters of lines and tasks are naturals below the size of the
  file, identifiers and timestamps are unbounded integers.

  Not modelled.
  Streaming to model providers, what the tools do, what subagents are told and report, usage collection and upload,
  pipelines and ideas, git and worktree commands, the desktop shell and the frontend: they are I/O around
  the core, or are left to later work. Of the modelled services: batch promotion of ideas and the integrity report
  (\<open>plan_service.rs\<close>), the table statements of \<open>stop_chat\<close>, the wait for semaphore permits in the
  dispatcher, the schema set-up of \<open>storage_service.rs\<close>, and \<open>validate_artifacts\<close>, whose answers are a parameter.
  Of a chat turn the choice of provider and model and the plain streaming path are left out. JSON columns hold the
  values they encode.
\<close>

end
